(* ===== verification/Kernel_Prelude.thy ===== *)
theory Kernel_Prelude
  imports Main "HOL-Library.Word" "HOL-Library.Monad_Syntax"
begin

text \<open>
  Shared vocabulary of the development: the C integer types of \<^verbatim>\<open>src/inc/stdint.h\<close> as machine
  words, the kernel's \<^verbatim>\<open>ASSERT\<close> and \<^verbatim>\<open>DIV_ROUND_UP\<close>, and the generic facts on words,
  lists and options that the component theories use.

  A kernel function that may fail an \<^verbatim>\<open>ASSERT\<close>, call \<^verbatim>\<open>PANIC\<close> or loop for ever is a function into
  \<open>option\<close>. \<open>None\<close> means that the call never returns: \<^verbatim>\<open>panic_spin\<close> (\<^verbatim>\<open>src/kern/debug.c\<close>) ends in
  \<^verbatim>\<open>while(1)\<close>, so a failed assertion and an endless loop are the same outcome. \<open>Some\<close> carries
  the value the C function returns together with the state it leaves behind. Every C integer, signed
  or not, is a word; a signed value is read with \<open>sint\<close>, and C's \<open>-1\<close> is the word \<open>-1\<close>.
\<close>

unbundle bit_operations_syntax

section \<open>Integers and assertions\<close>

type_synonym u8 = "8 word"
type_synonym u16 = "16 word"
type_synonym u32 = "32 word"

definition ASSERT :: "bool \<Rightarrow> unit option" where
  "ASSERT c = (if c then Some () else None)"

definition DIV_ROUND_UP :: "u32 \<Rightarrow> u32 \<Rightarrow> u32" where
  "DIV_ROUND_UP x step = (x + step - 1) div step"

definition PG_SIZE :: u32 where
  "PG_SIZE = 4096"

text \<open>A C array of fixed length: an access outside it is \<open>None\<close>.\<close>

definition aget :: "'a list \<Rightarrow> u32 \<Rightarrow> 'a option" where
  "aget xs i = (if unat i < length xs then Some (xs ! unat i) else None)"

definition aset :: "'a list \<Rightarrow> u32 \<Rightarrow> 'a \<Rightarrow> 'a list option" where
  "aset xs i v = (if unat i < length xs then Some (xs[unat i := v]) else None)"

section \<open>Fact collections\<close>

named_theorems unat_simps \<open>rewriting word arithmetic to arithmetic on naturals\<close>
named_theorems kernel_unfold \<open>definitions of straight-line kernel code\<close>

declare ASSERT_def [kernel_unfold] aget_def [kernel_unfold] aset_def [kernel_unfold]

section \<open>Options\<close>

lemma ASSERT_simps [simp]: "ASSERT True = Some ()" "ASSERT False = None"
  by (simp_all add: ASSERT_def)

lemma ASSERT_eq_Some [simp]: "ASSERT c = Some u \<longleftrightarrow> c"
  by (simp add: ASSERT_def)

lemma ASSERT_eq_None [simp]: "ASSERT c = None \<longleftrightarrow> \<not> c"
  by (simp add: ASSERT_def)

lemma ASSERT_bind: "Option.bind (ASSERT c) f = (if c then f () else None)"
  by (simp add: ASSERT_def)

lemma aget_Some [simp]: "aget xs i = Some v \<longleftrightarrow> unat i < length xs \<and> v = xs ! unat i"
  by (auto simp: aget_def)

lemma aset_Some [simp]: "aset xs i v = Some ys \<longleftrightarrow> unat i < length xs \<and> ys = xs[unat i := v]"
  by (auto simp: aset_def)

section \<open>Words\<close>

lemma unat_plus_lt [unat_simps]:
  fixes a b :: "'a::len word"
  shows "unat a + unat b < 2 ^ LENGTH('a) \<Longrightarrow> unat (a + b) = unat a + unat b"
  by (simp add: unat_word_ariths)

lemma unat_Suc_lt [unat_simps]:
  fixes a :: "'a::len word"
  shows "Suc (unat a) < 2 ^ LENGTH('a) \<Longrightarrow> unat (a + 1) = Suc (unat a)"
  by (metis Suc_eq_plus1 unat_1 unat_plus_lt)

lemma unat_Suc_of_less [unat_simps]:
  fixes a n :: "'a::len word"
  assumes "a < n"
  shows "unat (a + 1) = Suc (unat a)"
proof (rule unat_Suc_lt)
  have "unat a < unat n" using assms by (simp add: word_less_nat_alt)
  also have "unat n < 2 ^ LENGTH('a)" by simp
  finally show "Suc (unat a) < 2 ^ LENGTH('a)"
    using \<open>unat a < unat n\<close> \<open>unat n < 2 ^ LENGTH('a)\<close> by linarith
qed

lemma exp_and_eq_0 [simp]:
  fixes w :: "'a::len word"
  shows "2 ^ k AND w = 0 \<longleftrightarrow> \<not> bit w k" and "w AND 2 ^ k = 0 \<longleftrightarrow> \<not> bit w k"
  by (simp_all add: and_exp_eq_0_iff_not_bit and.commute [of "2 ^ k"])

lemma and_push_bit_1:
  fixes w :: "'a::len word"
  shows "push_bit k 1 AND w \<noteq> 0 \<longleftrightarrow> bit w k" and "w AND push_bit k 1 \<noteq> 0 \<longleftrightarrow> bit w k"
  by simp_all

lemma unat_pred_less [simp]:
  fixes a :: "'a::len word"
  shows "0 < a \<Longrightarrow> unat (a - 1) < unat a"
  by (metis measure_unat word_neq_0_conv)

lemma less_pred_iff:
  fixes x n :: "'a::len word"
  shows "0 < n \<Longrightarrow> x \<noteq> 0 \<Longrightarrow> x - 1 < n - 1 \<longleftrightarrow> x < n"
  by unat_arith

lemma less_pred_Suc:
  fixes i n :: "'a::len word"
  assumes "0 < n" and "i < n - 1"
  shows "i + 1 < n"
proof -
  have "i + 1 \<noteq> 0" using assms(2) by (metis add_eq_0_iff2 less_le_not_le word_order.extremum)
  then show ?thesis using less_pred_iff [OF assms(1), of "i + 1"] assms(2) by simp
qed

lemma sint_eq_0_iff [simp]: "sint w = 0 \<longleftrightarrow> w = (0 :: 'a::len word)"
  by (rule signed_eq_0_iff)

lemma unat_uminus_of_nat:
  assumes "0 < k" "k < 2 ^ LENGTH('a)"
  shows "unat (- of_nat k :: 'a::len word) = 2 ^ LENGTH('a) - k"
proof -
  have "unat (of_nat k :: 'a word) = k"
    using assms(2) by (simp add: unat_of_nat take_bit_eq_mod)
  then show ?thesis using unat_sub_if' [of "0 :: 'a word" "of_nat k"] assms(1) by simp
qed

lemma unat_minus_1: "unat (-1 :: u32) = 4294967295"
  using unat_uminus_of_nat [of 1, where 'a = 32] by simp

lemma sint_small:
  fixes w :: "'a::len word"
  shows "uint w < 2 ^ (LENGTH('a) - 1) \<Longrightarrow> sint w = uint w"
  unfolding sint_uint
  by (rule signed_take_bit_int_eq_self)
    (use order_trans [of "- (2 ^ (LENGTH('a) - 1))" 0 "uint w"] in simp_all)

lemma sint_u32:
  fixes x :: u32
  shows "sint x = (if unat x < 2 ^ 31 then int (unat x) else int (unat x) - 2 ^ 32)"
proof -
  define k where "k = uint x"
  have lt: "k < 2 ^ 32" "0 \<le> k" using uint_lt2p [of x] by (simp_all add: k_def)
  have u: "int (unat x) = k" by (simp add: k_def)
  have c: "unat x < 2 ^ 31 \<longleftrightarrow> k < 2 ^ 31" using of_nat_less_iff [of "unat x" "2 ^ 31", where 'a = int] by (simp add: k_def)
  have e: "sint x = (k + 2 ^ 31) mod 2 ^ 32 - 2 ^ 31"
    by (simp add: k_def sint_uint signed_take_bit_eq_take_bit_shift take_bit_eq_mod)
  show ?thesis
  proof (cases "k < 2 ^ 31")
    case True
    then have "(k + 2 ^ 31) mod 2 ^ 32 = k + 2 ^ 31" using lt(2) by (intro mod_pos_pos_trivial) simp_all
    then show ?thesis using True by (simp only: e u c) simp
  next
    case False
    have "(k + 2 ^ 31) mod 2 ^ 32 = (k - 2 ^ 31 + 2 ^ 32) mod 2 ^ 32"
      by (rule arg_cong [of _ _ "\<lambda>i. i mod 2 ^ 32"]) simp
    also have "\<dots> = k - 2 ^ 31" unfolding mod_add_self2 using False lt(1) by (intro mod_pos_pos_trivial) simp_all
    finally show ?thesis using False by (simp only: e u c) simp
  qed
qed

lemma sint_eq_uint_iff:
  fixes b c :: u8
  assumes "c < 128"
  shows "sint b = uint c \<longleftrightarrow> b = c"
proof -
  have "uint c < 128" using assms by (simp add: word_less_def)
  then have "sint c = uint c" by (intro sint_small) simp
  then show ?thesis by (metis word_eq_iff_signed)
qed

lemma unat_minus_le [unat_simps]:
  fixes a b :: "'a::len word"
  shows "b \<le> a \<Longrightarrow> unat (a - b) = unat a - unat b"
  by (simp add: unat_sub_if' word_le_nat_alt)

lemma unat_of_nat_lt [unat_simps]:
  "n < 2 ^ LENGTH('a) \<Longrightarrow> unat (of_nat n :: 'a::len word) = n"
  by (simp add: unat_of_nat take_bit_eq_mod)

lemma of_nat_word_eq_iff:
  "a < 2 ^ LENGTH('a) \<Longrightarrow> b < 2 ^ LENGTH('a) \<Longrightarrow> (of_nat a :: 'a::len word) = of_nat b \<longleftrightarrow> a = b"
  by (metis unat_of_nat_lt)

lemma unat_ucast_up:
  fixes w :: "'a::len word"
  assumes "LENGTH('a) \<le> LENGTH('b::len)"
  shows "unat (ucast w :: 'b word) = unat w"
proof -
  have "unat w < 2 ^ LENGTH('b)"
    using unsigned_less [of w] power_increasing [OF assms, of "2 :: nat"] by (meson less_le_trans one_le_numeral)
  then show ?thesis by (simp add: unsigned_ucast_eq take_bit_nat_eq_self)
qed

lemma word_eq_1I:
  fixes n :: u32
  assumes "n \<noteq> 0" "\<not> 1 < n"
  shows "n = 1"
proof -
  have "unat n \<noteq> 0" "\<not> 1 < unat n" using assms by (simp_all add: word_less_nat_alt unat_eq_0)
  then have "unat n = unat (1 :: u32)" by simp
  then show ?thesis by (simp only: word_unat_eq_iff)
qed

lemma not_bit_unat_less:
  fixes w :: "'a::len word"
  assumes "unat w < 2 ^ k" "k \<le> n"
  shows "\<not> bit w n"
proof -
  have "bit w n \<longleftrightarrow> bit (unat w) n" by (simp add: bit_unsigned_iff)
  also have "unat w = take_bit k (unat w)" using assms(1) by (simp add: take_bit_nat_eq_self)
  also have "bit (take_bit k (unat w)) n \<longleftrightarrow> False" using assms(2) by (simp add: bit_take_bit_iff)
  finally show ?thesis by simp
qed

end
