(* ===== verification/Kstring.thy ===== *)
theory Kstring
  imports Kernel_Prelude
begin

text \<open>
  The memory and string routines of \<^verbatim>\<open>src/lib/string.c\<close> on a flat 32-bit address space: a memory
  is a function from addresses to bytes, a pointer is a 32-bit word and pointer arithmetic wraps.
  Each \<^verbatim>\<open>while\<close> loop is a function of its own; a loop that looks for a terminating NUL byte is a
  \<^theory_text>\<open>partial_function (option)\<close>, since it does not end when memory holds none.
  Plain \<^verbatim>\<open>char\<close> is signed on the compiler the kernel is built with, so comparisons of characters
  read bytes with \<open>sint\<close>.
\<close>

section \<open>The routines\<close>

type_synonym mem = "u32 \<Rightarrow> u8"

function memset_loop :: "mem \<Rightarrow> u32 \<Rightarrow> u8 \<Rightarrow> u32 \<Rightarrow> mem" where
  "memset_loop m dst v sz =
     (if sz > 0 then memset_loop (m(dst := v)) (dst + 1) v (sz - 1) else m)"
  by pat_completeness auto
termination
  by (relation "measure (\<lambda>(m, dst, v, sz). unat sz)") auto

definition memset :: "mem \<Rightarrow> u32 \<Rightarrow> u8 \<Rightarrow> u32 \<Rightarrow> mem option" where
  "memset m dst v sz = do { ASSERT (dst \<noteq> 0); Some (memset_loop m dst v sz) }"

function memcpy_loop :: "mem \<Rightarrow> u32 \<Rightarrow> u32 \<Rightarrow> u32 \<Rightarrow> mem" where
  "memcpy_loop m dst src sz =
     (if sz > 0 then memcpy_loop (m(dst := m src)) (dst + 1) (src + 1) (sz - 1) else m)"
  by pat_completeness auto
termination
  by (relation "measure (\<lambda>(m, dst, src, sz). unat sz)") auto

definition memcpy :: "mem \<Rightarrow> u32 \<Rightarrow> u32 \<Rightarrow> u32 \<Rightarrow> mem option" where
  "memcpy m dst src sz =
     do { ASSERT (dst \<noteq> 0 \<and> src \<noteq> 0); Some (memcpy_loop m dst src sz) }"

function memcmp_loop :: "mem \<Rightarrow> u32 \<Rightarrow> u32 \<Rightarrow> u32 \<Rightarrow> u32" where
  "memcmp_loop m a b sz =
     (if sz > 0
      then if m a \<noteq> m b then (if sint (m a) > sint (m b) then 1 else -1)
           else memcmp_loop m (a + 1) (b + 1) (sz - 1)
      else 0)"
  by pat_completeness auto
termination
  by (relation "measure (\<lambda>(m, a, b, sz). unat sz)") auto

definition memcmp :: "mem \<Rightarrow> u32 \<Rightarrow> u32 \<Rightarrow> u32 \<Rightarrow> u32 option" where
  "memcmp m a b sz = do { ASSERT (a \<noteq> 0 \<and> b \<noteq> 0); Some (memcmp_loop m a b sz) }"

partial_function (option) strcpy_loop :: "mem \<Rightarrow> u32 \<Rightarrow> u32 \<Rightarrow> mem option" where
  "strcpy_loop m dst src =
     (if m src \<noteq> 0 then strcpy_loop (m(dst := m src)) (dst + 1) (src + 1)
      else Some (m(dst := m src)))"

definition strcpy :: "mem \<Rightarrow> u32 \<Rightarrow> u32 \<Rightarrow> (u32 \<times> mem) option" where
  "strcpy m dst src =
     do { ASSERT (dst \<noteq> 0 \<and> src \<noteq> 0); m' \<leftarrow> strcpy_loop m dst src; Some (dst, m') }"

text \<open>The address after the NUL byte, where \<^verbatim>\<open>while (*p++);\<close> leaves \<^verbatim>\<open>p\<close>.\<close>

partial_function (option) strlen_loop :: "mem \<Rightarrow> u32 \<Rightarrow> u32 option" where
  "strlen_loop m p = (if m p \<noteq> 0 then strlen_loop m (p + 1) else Some (p + 1))"

definition strlen :: "mem \<Rightarrow> u32 \<Rightarrow> u32 option" where
  "strlen m str = do { ASSERT (str \<noteq> 0); p \<leftarrow> strlen_loop m str; Some (p - str - 1) }"

partial_function (option) strcmp_loop :: "mem \<Rightarrow> u32 \<Rightarrow> u32 \<Rightarrow> (u32 \<times> u32) option" where
  "strcmp_loop m a b =
     (if m a \<noteq> 0 \<and> m a = m b then strcmp_loop m (a + 1) (b + 1) else Some (a, b))"

definition strcmp :: "mem \<Rightarrow> u32 \<Rightarrow> u32 \<Rightarrow> u8 option" where
  "strcmp m a b =
     do { ASSERT (a \<noteq> 0 \<and> b \<noteq> 0);
          (p, q) \<leftarrow> strcmp_loop m a b;
          Some (if sint (m p) < sint (m q) then -1 else if sint (m p) > sint (m q) then 1 else 0) }"

partial_function (option) strchr_loop :: "mem \<Rightarrow> u32 \<Rightarrow> u8 \<Rightarrow> u32 option" where
  "strchr_loop m str ch =
     (if m str \<noteq> 0
      then if sint (m str) = uint ch then Some str else strchr_loop m (str + 1) ch
      else Some 0)"

definition strchr :: "mem \<Rightarrow> u32 \<Rightarrow> u8 \<Rightarrow> u32 option" where
  "strchr m str ch = do { ASSERT (str \<noteq> 0); strchr_loop m str ch }"

partial_function (option) strrchr_loop :: "mem \<Rightarrow> u32 \<Rightarrow> u8 \<Rightarrow> u32 \<Rightarrow> u32 option" where
  "strrchr_loop m str ch last_char =
     (if m str \<noteq> 0
      then strrchr_loop m (str + 1) ch (if sint (m str) = uint ch then str else last_char)
      else Some last_char)"

definition strrchr :: "mem \<Rightarrow> u32 \<Rightarrow> u8 \<Rightarrow> u32 option" where
  "strrchr m str ch = do { ASSERT (str \<noteq> 0); strrchr_loop m str ch 0 }"

definition strcat :: "mem \<Rightarrow> u32 \<Rightarrow> u32 \<Rightarrow> (u32 \<times> mem) option" where
  "strcat m dst src =
     do { ASSERT (dst \<noteq> 0 \<and> src \<noteq> 0);
          str \<leftarrow> strlen_loop m dst;
          m' \<leftarrow> strcpy_loop m (str - 1) src;
          Some (dst, m') }"

partial_function (option) strchrs_loop :: "mem \<Rightarrow> u32 \<Rightarrow> u8 \<Rightarrow> u32 \<Rightarrow> u32 option" where
  "strchrs_loop m p ch ch_cnt =
     (if m p \<noteq> 0
      then strchrs_loop m (p + 1) ch (if sint (m p) = uint ch then ch_cnt + 1 else ch_cnt)
      else Some ch_cnt)"

definition strchrs :: "mem \<Rightarrow> u32 \<Rightarrow> u8 \<Rightarrow> u32 option" where
  "strchrs m str ch = do { ASSERT (str \<noteq> 0); strchrs_loop m str ch 0 }"

text \<open>
  \<open>cstr m p s\<close>: memory \<open>m\<close> holds the NUL-terminated string \<open>s\<close> at address \<open>p\<close>. The predicate is
  the abstraction that relates the routines to functions on byte lists.
\<close>

fun cstr :: "mem \<Rightarrow> u32 \<Rightarrow> u8 list \<Rightarrow> bool" where
  "cstr m p [] \<longleftrightarrow> m p = 0"
| "cstr m p (x # xs) \<longleftrightarrow> m p = x \<and> x \<noteq> 0 \<and> cstr m (p + 1) xs"

text \<open>The comparison of \<^verbatim>\<open>strcmp\<close> on byte lists: the first difference decides, as signed bytes.\<close>

fun scmp :: "u8 list \<Rightarrow> u8 list \<Rightarrow> u8" where
  "scmp [] [] = 0"
| "scmp [] (y # ys) = (if 0 < sint y then -1 else 1)"
| "scmp (x # xs) [] = (if sint x < 0 then -1 else 1)"
| "scmp (x # xs) (y # ys) =
     (if x = y then scmp xs ys else if sint x < sint y then -1 else 1)"

declare memset_loop.simps [simp del] memcpy_loop.simps [simp del] memcmp_loop.simps [simp del]

section \<open>Copying and filling\<close>

text \<open>
  In modular arithmetic \<open>a - dst < sz\<close> says exactly that address \<open>a\<close> lies in the region of
  \<open>sz\<close> bytes at \<open>dst\<close>, also when the region wraps past the end of the address space.
\<close>

lemma region_step:
  fixes a d n :: u32
  assumes "0 < n"
  shows "a - d < n \<longleftrightarrow> a = d \<or> a - (d + 1) < n - 1"
proof -
  have eq: "a - (d + 1) = a - d - 1" by simp
  have "a - d < n \<longleftrightarrow> a - d = 0 \<or> a - d - 1 < n - 1"
    using less_pred_iff [OF assms, of "a - d"] assms by (cases "a - d = 0") auto
  then show ?thesis unfolding eq by simp
qed

lemma memset_loop_eq: "memset_loop m d v n = (\<lambda>a. if a - d < n then v else m a)"
proof (induction m d v n rule: memset_loop.induct)
  case (1 m d v n)
  show ?case
  proof (cases "0 < n")
    case True
    then have "memset_loop m d v n = memset_loop (m(d := v)) (d + 1) v (n - 1)"
      by (subst memset_loop.simps) simp
    also have "\<dots> = (\<lambda>a. if a - (d + 1) < n - 1 then v else (m(d := v)) a)"
      using "1.IH" [OF True] .
    also have "\<dots> = (\<lambda>a. if a - d < n then v else m a)"
      using region_step [OF True] by auto
    finally show ?thesis .
  next
    case False
    then have "n = 0" by (simp add: word_gt_0)
    then show ?thesis by (subst memset_loop.simps) simp
  qed
qed

text \<open>
  A forward byte copy is right when no source byte is overwritten before it is read: the
  destination must not start strictly inside the source region.
\<close>

definition copy_safe :: "u32 \<Rightarrow> u32 \<Rightarrow> u32 \<Rightarrow> bool" where
  "copy_safe dst src n \<longleftrightarrow> dst = src \<or> n \<le> dst - src"

lemma copy_safe_step:
  assumes "copy_safe d s n" and "0 < n"
  shows "copy_safe (d + 1) (s + 1) (n - 1)"
proof -
  have "n - 1 \<le> n" using assms(2) by unat_arith
  then show ?thesis using assms(1) by (auto simp: copy_safe_def)
qed

lemma memcpy_loop_eq:
  "copy_safe d s n \<Longrightarrow> memcpy_loop m d s n = (\<lambda>a. if a - d < n then m (s + (a - d)) else m a)"
proof (induction m d s n rule: memcpy_loop.induct)
  case (1 m d s n)
  show ?case
  proof (cases "0 < n")
    case True
    then have "memcpy_loop m d s n = memcpy_loop (m(d := m s)) (d + 1) (s + 1) (n - 1)"
      by (subst memcpy_loop.simps) simp
    also have "\<dots> = (\<lambda>a. if a - (d + 1) < n - 1 then (m(d := m s)) (s + 1 + (a - (d + 1)))
                        else (m(d := m s)) a)"
      by (rule "1.IH" [OF True copy_safe_step [OF "1.prems" True]])
    also have "\<dots> = (\<lambda>a. if a - d < n then m (s + (a - d)) else m a)"
    proof
      fix a
      have shift: "s + 1 + (a - (d + 1)) = s + (a - d)" by simp
      have hit: "m s = m (s + (a - d))" if "s + (a - d) = d" "a - d < n"
      proof -
        have "a - d = d - s" using that(1) by (metis add_diff_cancel_left')
        with "1.prems" that show ?thesis by (auto simp: copy_safe_def)
      qed
      show "(if a - (d + 1) < n - 1 then (m(d := m s)) (s + 1 + (a - (d + 1)))
                  else (m(d := m s)) a) = (if a - d < n then m (s + (a - d)) else m a)"
      proof (cases "a - (d + 1) < n - 1")
        case True
        then have "a - d < n" using region_step [OF \<open>0 < n\<close>] by blast
        then show ?thesis unfolding shift using True hit by simp
      next
        case False
        then show ?thesis using region_step [OF True, of a d] by simp
      qed
    qed
    finally show ?thesis .
  next
    case False
    then have "n = 0" by (simp add: word_gt_0)
    then show ?thesis by (subst memcpy_loop.simps) simp
  qed
qed


lemma memcmp_loop_eq_0:
  "memcmp_loop m a b n = 0 \<longleftrightarrow> (\<forall>i < n. m (a + i) = m (b + i))"
proof (induction m a b n rule: memcmp_loop.induct)
  case (1 m a b n)
  show ?case
  proof (cases "0 < n \<and> m a = m b")
    case True
    then have n: "0 < n" and eq: "m a = m b" by auto
    have "(\<forall>i < n. m (a + i) = m (b + i)) \<longleftrightarrow> (\<forall>i < n - 1. m (a + 1 + i) = m (b + 1 + i))"
    proof (intro iffI allI impI)
      fix i assume all: "\<forall>i < n. m (a + i) = m (b + i)" and "i < n - 1"
      then have "i + 1 < n" using n by (simp add: less_pred_Suc)
      with all have "m (a + (i + 1)) = m (b + (i + 1))" by blast
      then show "m (a + 1 + i) = m (b + 1 + i)" by (simp add: ac_simps)
    next
      fix i assume all: "\<forall>i < n - 1. m (a + 1 + i) = m (b + 1 + i)" and i: "i < n"
      show "m (a + i) = m (b + i)"
      proof (cases "i = 0")
        case False
        then have "i - 1 < n - 1" using less_pred_iff [OF n] i by simp
        with all have "m (a + 1 + (i - 1)) = m (b + 1 + (i - 1))" by blast
        then show ?thesis by simp
      qed (simp add: eq)
    qed
    moreover have "memcmp_loop m a b n = memcmp_loop m (a + 1) (b + 1) (n - 1)"
      using n eq by (subst memcmp_loop.simps) simp
    ultimately show ?thesis using "1.IH" n eq by simp
  next
    case False
    then consider "n = 0" | "0 < n" "m a \<noteq> m b" by (auto simp: word_gt_0)
    then show ?thesis
    proof cases
      case 1
      then show ?thesis by (subst memcmp_loop.simps) simp
    next
      case 2
      then have "memcmp_loop m a b n \<noteq> 0" by (subst memcmp_loop.simps) simp
      moreover have "\<exists>i < n. m (a + i) \<noteq> m (b + i)" using 2 by (intro exI [of _ 0]) simp
      ultimately show ?thesis by blast
    qed
  qed
qed

section \<open>Strings\<close>

lemma cstr_unique: "cstr m p s \<Longrightarrow> cstr m p t \<Longrightarrow> s = t"
proof (induction s arbitrary: p t)
  case Nil
  then show ?case by (cases t) auto
next
  case (Cons x s)
  then show ?case by (cases t) auto
qed

lemma cstr_nth: "cstr m p s \<Longrightarrow> i < length s \<Longrightarrow> m (p + of_nat i) = s ! i \<and> s ! i \<noteq> 0"
proof (induction s arbitrary: p i)
  case (Cons x s)
  then show ?case
    by (cases i) (force simp: add.assoc)+
qed simp

lemma cstr_end: "cstr m p s \<Longrightarrow> m (p + of_nat (length s)) = 0"
  by (induction s arbitrary: p) (auto simp flip: add.assoc)

text \<open>A string at an address is shorter than the address space, so its length fits in a word.\<close>

lemma cstr_length: "cstr m p s \<Longrightarrow> length s < 2 ^ 32"
proof (rule ccontr)
  assume s: "cstr m p s" and "\<not> length s < 2 ^ 32"
  then have "2 ^ 32 \<le> length s" by simp
  obtain k where k: "length s = 2 ^ 32 + k" using \<open>2 ^ 32 \<le> length s\<close> le_Suc_ex by blast
  have "of_nat (length s) = (of_nat k :: u32)" unfolding k by simp
  moreover have "k < length s" unfolding k by simp
  ultimately show False using cstr_nth [OF s, of k] cstr_end [OF s] by simp
qed

lemma cstr_frame:
  "(\<And>i. i \<le> length s \<Longrightarrow> m' (p + of_nat i) = m (p + of_nat i)) \<Longrightarrow> cstr m p s \<Longrightarrow> cstr m' p s"
proof (induction s arbitrary: p)
  case Nil
  from Nil(1) [of 0] Nil(2) show ?case by simp
next
  case (Cons x s)
  have "m' (p + 1 + of_nat i) = m (p + 1 + of_nat i)" if "i \<le> length s" for i
    using Cons.prems(1) [of "Suc i"] that by (simp add: algebra_simps)
  then have "cstr m' (p + 1) s" using Cons by simp
  with Cons.prems(1) [of 0] Cons.prems(2) show ?case by simp
qed

lemma strlen_loop_cstr: "cstr m p s \<Longrightarrow> strlen_loop m p = Some (p + of_nat (length s) + 1)"
proof (induction s arbitrary: p)
  case Nil
  then show ?case by (simp add: strlen_loop.simps)
next
  case (Cons x s)
  then show ?case by (subst strlen_loop.simps) (simp add: algebra_simps)
qed

lemma strlen_cstr: "cstr m p s \<Longrightarrow> p \<noteq> 0 \<Longrightarrow> strlen m p = Some (of_nat (length s))"
  by (simp add: strlen_def strlen_loop_cstr)

lemma strcmp_loop_cstr:
  "cstr m a s \<Longrightarrow> cstr m b t \<Longrightarrow>
     \<exists>p q. strcmp_loop m a b = Some (p, q) \<and>
       (if sint (m p) < sint (m q) then -1 else if sint (m p) > sint (m q) then 1 else 0) = scmp s t"
proof (induction s t arbitrary: a b rule: scmp.induct)
  case 1
  then show ?case by (subst strcmp_loop.simps) simp
next
  case (2 y ys)
  then show ?case by (subst strcmp_loop.simps) (auto simp: not_less)
next
  case (3 x xs)
  then show ?case by (subst strcmp_loop.simps) (auto simp: not_less)
next
  case (4 x xs y ys)
  show ?case
  proof (cases "x = y")
    case True
    with 4 show ?thesis by (subst strcmp_loop.simps) simp
  next
    case False
    then have "sint x \<noteq> sint y" by (simp flip: word_eq_iff_signed)
    with 4 False show ?thesis
      by (subst strcmp_loop.simps) auto
  qed
qed

lemma scmp_eq_0 [simp]: "0 \<notin> set s \<Longrightarrow> 0 \<notin> set t \<Longrightarrow> scmp s t = 0 \<longleftrightarrow> s = t"
  by (induction s t rule: scmp.induct) auto

lemma cstr_nonzero: "cstr m p s \<Longrightarrow> 0 \<notin> set s"
  by (induction s arbitrary: p) auto


lemma strcmp_cstr:
  assumes "cstr m a s" "cstr m b t" "a \<noteq> 0" "b \<noteq> 0"
  shows "strcmp m a b = Some (scmp s t)"
  using strcmp_loop_cstr [OF assms(1,2)] assms(3,4) by (auto simp: strcmp_def)

text \<open>The string copy is a memory copy of the string and its terminator.\<close>

lemma strcpy_loop_memcpy:
  assumes "cstr m src s" "Suc (length s) < 2 ^ 32" "copy_safe dst src (of_nat (length s) + 1)"
  shows "strcpy_loop m dst src = Some (memcpy_loop m dst src (of_nat (length s) + 1))"
  using assms
proof (induction s arbitrary: m dst src)
  case Nil
  then show ?case
    by (subst strcpy_loop.simps, subst memcpy_loop.simps, subst memcpy_loop.simps) simp
next
  case (Cons x s)
  let ?m = "m(dst := m src)" and ?n = "of_nat (length s) + 1 :: u32"
  have n: "of_nat (length (x # s)) + 1 = ?n + 1" by simp
  have pos: "0 < ?n + 1" and dec: "?n + 1 - 1 = ?n"
    using Cons.prems(2) by (simp_all add: word_less_nat_alt unat_simps)
  have safe: "copy_safe (dst + 1) (src + 1) ?n"
    using copy_safe_step [OF Cons.prems(3) [unfolded n] pos] unfolding dec .
  have "?m (src + 1 + of_nat i) = m (src + 1 + of_nat i)" if "i \<le> length s" for i
  proof -
    have "1 + of_nat i < ?n + 1" "1 + of_nat i \<noteq> (0 :: u32)"
      using that Cons.prems(2) by (simp_all add: word_less_nat_alt unat_simps word_unat_eq_iff)
    then have "dst \<noteq> src + (1 + of_nat i)"
      using Cons.prems(3) unfolding n copy_safe_def by auto
    then show ?thesis by (simp add: add.assoc)
  qed
  with Cons.prems(1) have "cstr ?m (src + 1) s"
    using cstr_frame [of s ?m "src + 1" m] by simp
  then have "strcpy_loop ?m (dst + 1) (src + 1) = Some (memcpy_loop ?m (dst + 1) (src + 1) ?n)"
    by (rule Cons.IH) (use Cons.prems(2) safe in simp_all)
  moreover have "strcpy_loop m dst src = strcpy_loop ?m (dst + 1) (src + 1)"
    using Cons.prems(1) by (subst strcpy_loop.simps) auto
  moreover have "memcpy_loop m dst src (?n + 1) = memcpy_loop ?m (dst + 1) (src + 1) ?n"
    by (subst memcpy_loop.simps) (simp only: pos dec if_True)
  ultimately show ?case unfolding n by simp
qed

lemma memcpy_cstr:
  assumes "cstr m src s" "Suc (length s) < 2 ^ 32" "copy_safe dst src (of_nat (length s) + 1)"
  shows "cstr (memcpy_loop m dst src (of_nat (length s) + 1)) dst s"
proof -
  let ?n = "of_nat (length s) + 1 :: u32"
  let ?m' = "memcpy_loop m dst src ?n"
  have at: "?m' (dst + of_nat i) = m (src + of_nat i)" if "i \<le> length s" for i
  proof -
    have "of_nat i < ?n" using that assms(2) by (simp add: word_less_nat_alt unat_simps)
    then show ?thesis by (simp add: memcpy_loop_eq [OF assms(3)])
  qed
  have "cstr (\<lambda>a. ?m' (dst + (a - src))) src s"
    using assms(1) by (rule cstr_frame [rotated]) (simp add: at)
  moreover have "cstr (\<lambda>a. f (d + (a - p))) p t \<Longrightarrow> cstr f d t" for f d p t
  proof (induction t arbitrary: d p)
    case (Cons x t)
    have "cstr (\<lambda>a. f (d + 1 + (a - (p + 1)))) (p + 1) t" using Cons.prems by (simp add: algebra_simps)
    then have "cstr f (d + 1) t" by (rule Cons.IH)
    with Cons.prems show ?case by simp
  qed simp
  ultimately show ?thesis by blast
qed

lemma strcpy_loop_cstr:
  assumes "cstr m src s" "Suc (length s) < 2 ^ 32" "copy_safe dst src (of_nat (length s) + 1)"
  obtains m' where "strcpy_loop m dst src = Some m'" "cstr m' dst s"
    "\<And>a. of_nat (length s) < a - dst \<Longrightarrow> m' a = m a"
proof -
  have "\<not> a - dst < of_nat (length s) + 1" if "of_nat (length s) < a - dst" for a
    using that assms(2) by (simp add: word_less_nat_alt unat_simps)
  then show thesis
    using that [of "memcpy_loop m dst src (of_nat (length s) + 1)"]
      memcpy_cstr [OF assms] strcpy_loop_memcpy [OF assms]
    by (simp add: memcpy_loop_eq [OF assms(3)])
qed

text \<open>Where the first and the last occurrence of a character are, on byte lists.\<close>

fun last_index :: "'a \<Rightarrow> 'a list \<Rightarrow> nat option" where
  "last_index c [] = None"
| "last_index c (x # xs) =
     (case last_index c xs of Some i \<Rightarrow> Some (Suc i) | None \<Rightarrow> if x = c then Some 0 else None)"

lemma last_index_None: "last_index c s = None \<longleftrightarrow> c \<notin> set s"
proof (induction s)
  case (Cons x s)
  then show ?case by (cases "last_index c s") auto
qed simp

lemma last_index_Some:
  "last_index c s = Some i \<Longrightarrow> i < length s \<and> s ! i = c \<and> c \<notin> set (drop (Suc i) s)"
  by (induction s arbitrary: i) (auto simp: last_index_None split: option.splits if_splits)

lemma strchr_loop_cstr:
  "cstr m p s \<Longrightarrow> ch < 128 \<Longrightarrow>
     strchr_loop m p ch =
       Some (if ch \<in> set s then p + of_nat (length (takeWhile (\<lambda>x. x \<noteq> ch) s)) else 0)"
proof (induction s arbitrary: p)
  case Nil
  then show ?case by (subst strchr_loop.simps) simp
next
  case (Cons x s)
  then show ?case
    by (subst strchr_loop.simps) (auto simp: sint_eq_uint_iff add.assoc)
qed

lemma strrchr_loop_cstr:
  "cstr m p s \<Longrightarrow> ch < 128 \<Longrightarrow>
     strrchr_loop m p ch l = Some (case last_index ch s of Some i \<Rightarrow> p + of_nat i | None \<Rightarrow> l)"
proof (induction s arbitrary: p l)
  case Nil
  then show ?case by (subst strrchr_loop.simps) simp
next
  case (Cons x s)
  then show ?case
    by (subst strrchr_loop.simps) (auto simp: sint_eq_uint_iff add.assoc split: option.splits)
qed

lemma strchrs_loop_cstr:
  "cstr m p s \<Longrightarrow> ch < 128 \<Longrightarrow>
     strchrs_loop m p ch k = Some (k + of_nat (count_list s ch))"
proof (induction s arbitrary: p k)
  case Nil
  then show ?case by (subst strchrs_loop.simps) simp
next
  case (Cons x s)
  then show ?case
    by (subst strchrs_loop.simps) (auto simp: sint_eq_uint_iff add.assoc)
qed

lemma cstr_append:
  "cstr m p (s @ t) \<longleftrightarrow>
     (\<forall>i < length s. m (p + of_nat i) = s ! i \<and> s ! i \<noteq> 0) \<and> cstr m (p + of_nat (length s)) t"
proof (induction s arbitrary: p)
  case (Cons x s)
  have "(\<forall>i < length (x # s). m (p + of_nat i) = (x # s) ! i \<and> (x # s) ! i \<noteq> 0) \<longleftrightarrow>
      m p = x \<and> x \<noteq> 0 \<and> (\<forall>i < length s. m (p + 1 + of_nat i) = s ! i \<and> s ! i \<noteq> 0)"
    by (simp only: length_Cons All_less_Suc2) (simp add: add.assoc)
  then show ?case by (simp add: Cons.IH add.assoc)
qed simp

section \<open>Properties\<close>

text \<open>Remark: \<^verbatim>\<open>strcpy\<close> returns, the destination then holds the source string, and no byte
  outside the string and its terminator changes, when the destination does not start inside the
  source.\<close>

theorem strcpy_correct:
  assumes "cstr m src s" "Suc (length s) < 2 ^ 32" "copy_safe dst src (of_nat (length s) + 1)"
    and "dst \<noteq> 0" "src \<noteq> 0"
  shows "\<exists>m'. strcpy m dst src = Some (dst, m') \<and> cstr m' dst s \<and>
              (\<forall>a. of_nat (length s) < a - dst \<longrightarrow> m' a = m a)"
proof -
  obtain m' where "strcpy_loop m dst src = Some m'" "cstr m' dst s"
    "\<And>a. of_nat (length s) < a - dst \<Longrightarrow> m' a = m a"
    using strcpy_loop_cstr [OF assms(1-3)] by blast
  then show ?thesis using assms(4,5) by (auto simp: strcpy_def)
qed

theorem strcpy_correct_witness:
  "\<exists>m'. strcpy ((\<lambda>_. 0)(100 := 65, 101 := 66)) 200 100 = Some (200, m') \<and>
     cstr m' 200 [65, 66] \<and>
     (\<forall>a. of_nat (length [65, 66 :: u8]) < a - 200 \<longrightarrow> m' a = ((\<lambda>_. 0)(100 := 65, 101 := 66)) a)"
  by (rule strcpy_correct) (simp_all add: copy_safe_def)

text \<open>Remark: \<^verbatim>\<open>strcat\<close> returns and the destination then holds the two strings one after the
  other; bytes before the destination string's end and after the new terminator are unchanged. The
  source must not overlap the bytes that are written, and the whole string must fit below the
  end of the address space.\<close>

theorem strcat_correct:
  assumes "cstr m dst s" "cstr m src t" "dst \<noteq> 0" "src \<noteq> 0"
    and "unat dst + length s + length t + 1 < 2 ^ 32"
    and "copy_safe (dst + of_nat (length s)) src (of_nat (length t) + 1)"
  shows "\<exists>m'. strcat m dst src = Some (dst, m') \<and> cstr m' dst (s @ t) \<and>
              (\<forall>a. of_nat (length t) < a - (dst + of_nat (length s)) \<longrightarrow> m' a = m a)"
proof -
  let ?e = "dst + of_nat (length s)"
  obtain m' where m': "strcpy_loop m ?e src = Some m'" "cstr m' ?e t"
    "\<And>a. of_nat (length t) < a - ?e \<Longrightarrow> m' a = m a"
    using strcpy_loop_cstr [OF assms(2) _ assms(6)] assms(5) by auto
  have "m' (dst + of_nat i) = s ! i \<and> s ! i \<noteq> 0" if i: "i < length s" for i
  proof -
    have lt: "length t < 2 ^ 32" "length s - i < 2 ^ 32" using assms(5) by linarith+
    have "dst + of_nat i - ?e = - of_nat (length s - i)" using i by (simp add: of_nat_diff)
    moreover have "of_nat (length t) < (- of_nat (length s - i) :: u32)"
      using assms(5) i lt
      by (simp add: word_less_nat_alt unat_uminus_of_nat unat_of_nat_lt del: of_nat_diff)
    ultimately have "m' (dst + of_nat i) = m (dst + of_nat i)" by (intro m'(3)) simp
    with cstr_nth [OF assms(1) i] show ?thesis by simp
  qed
  with m'(2) have "cstr m' dst (s @ t)" by (simp add: cstr_append)
  moreover have "strcat m dst src = Some (dst, m')"
    using strlen_loop_cstr [OF assms(1)] m'(1) assms(3,4) by (simp add: strcat_def)
  ultimately show ?thesis using m'(3) by blast
qed

theorem strcat_correct_witness:
  "\<exists>m'. strcat ((\<lambda>_. 0)(100 := 47, 200 := 65, 201 := 66)) 100 200 = Some (100, m') \<and>
     cstr m' 100 ([47] @ [65, 66]) \<and>
     (\<forall>a. of_nat (length [65, 66 :: u8]) < a - (100 + of_nat (length [47 :: u8])) \<longrightarrow>
          m' a = ((\<lambda>_. 0)(100 := 47, 200 := 65, 201 := 66)) a)"
  by (rule strcat_correct) (simp_all add: copy_safe_def)

text \<open>Remark: \<^verbatim>\<open>strcmp\<close> returns on NUL-terminated strings and its result is 0 exactly when
  the strings are equal.\<close>

theorem strcmp_zero_iff_equal:
  assumes "cstr m a s" "cstr m b t" "a \<noteq> 0" "b \<noteq> 0"
  shows "\<exists>r. strcmp m a b = Some r \<and> (r = 0 \<longleftrightarrow> s = t)"
  using strcmp_cstr [OF assms] cstr_nonzero [OF assms(1)] cstr_nonzero [OF assms(2)] by simp

theorem strcmp_zero_iff_equal_witness:
  "\<exists>r. strcmp ((\<lambda>_. 0)(100 := 65, 200 := 66)) 100 200 = Some r \<and> (r = 0 \<longleftrightarrow> [65 :: u8] = [66])"
  by (rule strcmp_zero_iff_equal) simp_all

end
