(* ===== verification/Kbitmap.thy ===== *)
theory Kbitmap
  imports Kstring
begin

text \<open>
  Bitmaps (\<^verbatim>\<open>src/lib/kern/bitmap.c\<close>, \<^verbatim>\<open>src/inc/bitmap.h\<close>). The field \<open>bits\<close> is the memory seen
  from the C pointer \<^verbatim>\<open>bits\<close>: \<open>bits b i\<close> is the byte \<^verbatim>\<open>bits[i]\<close>, also beyond
  \<^verbatim>\<open>btmp_bytes_len\<close>, since the code reads there. The theory shows what a scan finds, that
  setting a bit changes that bit only, and that scan followed by set is a resource pool; the locale
  \<open>bit_pool\<close> states that contract once for the pid pool, the page pools and the disk bitmaps.
\<close>

section \<open>Operations\<close>

record bitmap =
  btmp_bytes_len :: u32
  bits :: "u32 \<Rightarrow> u8"

definition bitmap_init :: "bitmap \<Rightarrow> bitmap" where
  "bitmap_init b = b\<lparr>bits := memset_loop (bits b) 0 0 (btmp_bytes_len b)\<rparr>"

definition bitmap_scan_test :: "bitmap \<Rightarrow> u32 \<Rightarrow> u32" where
  "bitmap_scan_test b bit_idx =
     (let byte_idx = drop_bit 3 bit_idx; bit_odd = bit_idx AND 7
      in ucast (bits b byte_idx) AND push_bit (unat bit_odd) 1)"

text \<open>The three loops of \<^verbatim>\<open>bitmap_scan\<close>: over full bytes, over the bits of a byte, and over
  the following bits.\<close>

function scan_bytes :: "bitmap \<Rightarrow> u32 \<Rightarrow> u32" where
  "scan_bytes b idx_byte =
     (if bits b idx_byte = 0xff \<and> idx_byte < btmp_bytes_len b then scan_bytes b (idx_byte + 1)
      else idx_byte)"
  by pat_completeness auto
termination
  by (relation "measure (\<lambda>(b, i). unat (btmp_bytes_len b) - unat i)")
    (auto simp: unat_Suc_of_less word_less_nat_alt)

function scan_bits :: "u8 \<Rightarrow> nat \<Rightarrow> nat" where
  "scan_bits byte idx_bit =
     (if push_bit idx_bit 1 AND byte \<noteq> 0 then scan_bits byte (Suc idx_bit) else idx_bit)"
  by pat_completeness auto
termination
  by (relation "measure (\<lambda>(byte, i). 8 - i)") (auto dest: bit_imp_le_length)

function scan_run :: "bitmap \<Rightarrow> u32 \<Rightarrow> u32 \<Rightarrow> u32 \<Rightarrow> u32 \<Rightarrow> u32" where
  "scan_run b cnt bit_left next_bit count =
     (if bit_left > 0
      then let count' = (if bitmap_scan_test b next_bit = 0 then count + 1 else 0)
           in if count' = cnt then next_bit - cnt + 1
              else scan_run b cnt (bit_left - 1) (next_bit + 1) count'
      else -1)"
  by pat_completeness auto
termination
  by (relation "measure (\<lambda>(b, cnt, l, n, c). unat l)") auto

definition bitmap_scan :: "bitmap \<Rightarrow> u32 \<Rightarrow> u32 option" where
  "bitmap_scan b cnt =
     do { let idx_byte = scan_bytes b 0;
          ASSERT (idx_byte < btmp_bytes_len b);
          if idx_byte = btmp_bytes_len b then Some (-1)
          else let idx_bit = scan_bits (bits b idx_byte) 0;
                   bit_idx_start = push_bit 3 idx_byte + of_nat idx_bit
               in if cnt = 1 then Some bit_idx_start
                  else Some (scan_run b cnt (push_bit 3 (btmp_bytes_len b) - bit_idx_start)
                               (bit_idx_start + 1) 1) }"

definition bitmap_set :: "bitmap \<Rightarrow> u32 \<Rightarrow> u8 \<Rightarrow> bitmap option" where
  "bitmap_set b bit_idx value =
     do { ASSERT (value = 0 \<or> value = 1);
          let byte_idx = drop_bit 3 bit_idx;
          let bit_odd = unat (bit_idx AND 7);
          let old = bits b byte_idx;
          let new = (if value \<noteq> 0 then old OR push_bit bit_odd 1
                     else old AND NOT (push_bit bit_odd 1));
          Some (b\<lparr>bits := (bits b)(byte_idx := new)\<rparr>) }"

declare scan_bytes.simps [simp del] scan_bits.simps [simp del] scan_run.simps [simp del]

section \<open>The bits of a bitmap\<close>

definition nbits :: "bitmap \<Rightarrow> nat" where
  "nbits b = 8 * unat (btmp_bytes_len b)"

definition bit_at :: "bitmap \<Rightarrow> nat \<Rightarrow> bool" where
  "bit_at b n = bit (bits b (of_nat (n div 8))) (n mod 8)"

text \<open>A bitmap the kernel can index: bit numbers fit a non-negative \<^verbatim>\<open>int\<close>.\<close>

definition bitmap_ok :: "bitmap \<Rightarrow> bool" where
  "bitmap_ok b \<longleftrightarrow> unat (btmp_bytes_len b) < 2 ^ 28"

lemma bitmap_ok_nbits: "bitmap_ok b \<Longrightarrow> nbits b < 2 ^ 31"
  by (simp add: bitmap_ok_def nbits_def)

lemma unat_drop_bit_3: "unat (drop_bit 3 (i :: u32)) = unat i div 8"
  by (simp add: drop_bit_eq_div unat_div)

lemma unat_and_7: "unat ((i :: u32) AND 7) = unat i mod 8"
proof -
  have "i AND 7 = take_bit 3 i" by (simp add: take_bit_eq_mask mask_eq_exp_minus_1)
  then show ?thesis by (simp add: take_bit_eq_mod unat_mod)
qed

lemma byte_of_bit: "(drop_bit 3 i :: u32) = of_nat (unat i div 8)"
  by (simp add: word_unat_eq_iff unat_drop_bit_3 unat_of_nat_lt less_mult_imp_div_less
      unsigned_less [of i, simplified] order_le_less_trans [OF div_le_dividend])

lemma scan_test_bit: "bitmap_scan_test b i = 0 \<longleftrightarrow> \<not> bit_at b (unat i)"
proof -
  have "bitmap_scan_test b i = 0 \<longleftrightarrow>
      \<not> bit (ucast (bits b (drop_bit 3 i)) :: u32) (unat (i AND 7))"
    unfolding bitmap_scan_test_def Let_def using and_push_bit_1(2) by blast
  moreover have "unat i mod 8 < 32" by (rule less_trans [of _ 8]) simp_all
  ultimately show ?thesis
    by (simp add: bit_at_def unat_and_7 byte_of_bit bit_unsigned_iff)
qed


lemma unat_lt_32 [simp]: "unat (i :: u32) < 4294967296"
  using unsigned_less [of i] by simp

lemma bit_at_set:
  assumes "bitmap_set b i v = Some b'" and "n < 2 ^ 32"
  shows "bit_at b' n = (if n = unat i then v = 1 else bit_at b n)"
proof -
  have same: "of_nat (n div 8) = (of_nat (unat i div 8) :: u32) \<longleftrightarrow> n div 8 = unat i div 8"
    using assms(2) by (intro of_nat_word_eq_iff) (auto intro: le_less_trans [OF div_le_dividend])
  have "n mod 8 < 8" by simp
  moreover have "n = unat i \<longleftrightarrow> n div 8 = unat i div 8 \<and> n mod 8 = unat i mod 8"
    by (metis mod_div_mult_eq)
  ultimately show ?thesis
    using assms(1)
    by (auto simp: bitmap_set_def bit_at_def unat_and_7 byte_of_bit same bit_or_iff bit_and_iff
        bit_not_iff bit_exp_iff bit_push_bit_iff Let_def ASSERT_bind split: if_splits)
qed

lemma bitmap_set_returns: "v = 0 \<or> v = 1 \<Longrightarrow> \<exists>b'. bitmap_set b i v = Some b'"
  by (simp add: bitmap_set_def Let_def)

lemma bitmap_set_len [simp]: "bitmap_set b i v = Some b' \<Longrightarrow> btmp_bytes_len b' = btmp_bytes_len b"
  by (auto simp: bitmap_set_def Let_def ASSERT_bind split: if_splits)

lemma bitmap_set_nbits: "bitmap_set b i v = Some b' \<Longrightarrow> nbits b' = nbits b"
  by (simp add: nbits_def)

lemma bitmap_set_ok: "bitmap_set b i v = Some b' \<Longrightarrow> bitmap_ok b \<Longrightarrow> bitmap_ok b'"
  by (simp add: bitmap_ok_def)

lemma bitmap_init_bit:
  assumes "n < nbits b" shows "\<not> bit_at (bitmap_init b) n"
proof -
  have "n div 8 < unat (btmp_bytes_len b)" using assms by (simp add: nbits_def)
  then have "(of_nat (n div 8) :: u32) < btmp_bytes_len b"
    by (simp add: word_less_nat_alt unat_of_nat_lt le_less_trans [OF div_le_dividend] less_trans
        [OF _ unat_lt_32])
  then show ?thesis by (simp add: bitmap_init_def bit_at_def memset_loop_eq)
qed

section \<open>Scanning\<close>

lemma byte_full: "bits b (of_nat k) = 0xff \<longleftrightarrow> (\<forall>j < 8. bit (bits b (of_nat k)) j)"
proof -
  have "(0xff :: u8) = mask 8" by (simp add: mask_eq_exp_minus_1)
  then show ?thesis by (auto simp: bit_eq_iff bit_mask_iff dest: bit_imp_le_length)
qed

lemma byte_full_bits:
  "bits b (of_nat k) = 0xff \<longleftrightarrow> (\<forall>n. n div 8 = k \<longrightarrow> bit_at b n)"
proof
  assume "bits b (of_nat k) = 0xff"
  then show "\<forall>n. n div 8 = k \<longrightarrow> bit_at b n" unfolding byte_full by (auto simp: bit_at_def)
next
  assume all: "\<forall>n. n div 8 = k \<longrightarrow> bit_at b n"
  have "bit (bits b (of_nat k)) j" if "j < 8" for j
    using all [rule_format, of "8 * k + j"] that by (simp add: bit_at_def)
  then show "bits b (of_nat k) = 0xff" unfolding byte_full by blast
qed

lemma scan_bytes_spec:
  assumes "\<forall>n. n div 8 < unat i \<longrightarrow> bit_at b n" and "i \<le> btmp_bytes_len b"
  defines "r \<equiv> scan_bytes b i"
  shows "r \<le> btmp_bytes_len b \<and> (\<forall>n. n div 8 < unat r \<longrightarrow> bit_at b n) \<and>
    (r < btmp_bytes_len b \<longrightarrow> bits b r \<noteq> 0xff)"
  using assms(1,2) unfolding r_def
proof (induction b i rule: scan_bytes.induct)
  case (1 b i)
  show ?case
  proof (cases "bits b i = 0xff \<and> i < btmp_bytes_len b")
    case True
    then have s: "unat (i + 1) = Suc (unat i)" using unat_Suc_of_less by blast
    have "\<forall>n. n div 8 = unat i \<longrightarrow> bit_at b n"
      using True byte_full_bits [of b "unat i"] by simp
    then have "\<forall>n. n div 8 < unat (i + 1) \<longrightarrow> bit_at b n"
      using "1.prems"(1) by (auto simp: s less_Suc_eq)
    moreover have "i + 1 \<le> btmp_bytes_len b" using True by (simp add: word_le_nat_alt s word_less_nat_alt)
    ultimately show ?thesis
      using "1.IH" [OF True] True by (subst (1 2 3 4) scan_bytes.simps) simp
  next
    case False
    then show ?thesis using "1.prems" by (subst (1 2 3 4) scan_bytes.simps) auto
  qed
qed

lemma scan_bits_spec:
  assumes "\<forall>j < i. bit byte j" "byte \<noteq> 0xff" "i \<le> 8"
  defines "r \<equiv> scan_bits byte i"
  shows "r < 8 \<and> \<not> bit byte r \<and> (\<forall>j < r. bit byte j)"
  using assms(1-3) unfolding r_def
proof (induction byte i rule: scan_bits.induct)
  case (1 byte i)
  show ?case
  proof (cases "bit byte i")
    case True
    then have "i < 8" using bit_imp_le_length by fastforce
    then show ?thesis
      using "1.IH" "1.prems" True by (subst (1 2 3) scan_bits.simps) (simp add: less_Suc_eq)
  next
    case False
    have "\<not> (\<forall>j < 8. bit byte j)"
    proof
      assume "\<forall>j < 8. bit byte j"
      then have "byte = mask 8" by (auto simp: bit_eq_iff bit_mask_iff dest: bit_imp_le_length)
      with "1.prems"(2) show False by (simp add: mask_eq_exp_minus_1)
    qed
    with "1.prems"(1,3) have "i < 8" by (metis le_neq_implies_less)
    then show ?thesis using False "1.prems" by (subst (1 2 3) scan_bits.simps) simp
  qed
qed

text \<open>The first free bit, where the scan starts.\<close>

lemma first_free:
  assumes "bitmap_ok b" and "scan_bytes b 0 < btmp_bytes_len b"
  defines "s \<equiv> push_bit 3 (scan_bytes b 0) + of_nat (scan_bits (bits b (scan_bytes b 0)) 0) :: u32"
  shows "unat s < nbits b \<and> \<not> bit_at b (unat s) \<and> (\<forall>n < unat s. bit_at b n)"
proof -
  let ?B = "scan_bytes b 0" let ?j = "scan_bits (bits b ?B) 0"
  have B: "\<forall>n. n div 8 < unat ?B \<longrightarrow> bit_at b n" "bits b ?B \<noteq> 0xff"
    using scan_bytes_spec [of 0 b] assms(2) by auto
  have j: "?j < 8" "\<not> bit (bits b ?B) ?j" "\<forall>i < ?j. bit (bits b ?B) i"
    using scan_bits_spec [of 0 "bits b ?B"] B(2) by auto
  have lt: "unat ?B < unat (btmp_bytes_len b)" using assms(2) by (simp add: word_less_nat_alt)
  have "unat (push_bit 3 ?B) = 8 * unat ?B"
    using lt assms(1) by (simp add: push_bit_eq_mult unat_word_ariths bitmap_ok_def)
  then have s: "unat s = 8 * unat ?B + ?j"
    using lt j(1) assms(1) unfolding s_def bitmap_ok_def
    by (subst unat_plus_lt) (simp_all add: unat_of_nat_lt)
  have "\<not> bit_at b (unat s)" using j by (simp add: s bit_at_def)
  moreover have "bit_at b n" if "n < unat s" for n
  proof (cases "n div 8 < unat ?B")
    case False
    with that s j(1) have *: "n div 8 = unat ?B" by auto
    moreover have "n = 8 * (n div 8) + n mod 8" by simp
    ultimately have "n mod 8 < ?j" using that s by linarith
    with * have "n div 8 = unat ?B" "n mod 8 < ?j" by auto
    with j(3) show ?thesis by (simp add: bit_at_def)
  qed (use B in blast)
  ultimately show ?thesis using lt j(1) s by (simp add: nbits_def)
qed

text \<open>
  \<open>free_run b c k\<close>: the \<open>c\<close> bits from \<open>k\<close> on are clear. \<open>first_run b c m\<close>: the first such \<open>k\<close> with
  the run inside the first \<open>m\<close> bits, as the word the C code returns (\<open>-1\<close> if there is none).
\<close>

definition free_run :: "bitmap \<Rightarrow> nat \<Rightarrow> nat \<Rightarrow> bool" where
  "free_run b c k \<longleftrightarrow> (\<forall>n. k \<le> n \<and> n < k + c \<longrightarrow> \<not> bit_at b n)"

definition first_run :: "bitmap \<Rightarrow> nat \<Rightarrow> nat \<Rightarrow> u32" where
  "first_run b c m =
     (if \<exists>k. free_run b c k \<and> k + c \<le> m
      then of_nat (LEAST k. free_run b c k \<and> k + c \<le> m) else -1)"

lemma free_run_1: "free_run b 1 k \<longleftrightarrow> \<not> bit_at b k"
proof -
  have "k \<le> n \<and> n < k + 1 \<longleftrightarrow> n = k" for n by arith
  then show ?thesis by (simp add: free_run_def)
qed

lemma first_run_eqI:
  assumes "free_run b c k" "k + c \<le> m" "\<And>j. free_run b c j \<Longrightarrow> j + c \<le> m \<Longrightarrow> k \<le> j"
  shows "first_run b c m = of_nat k"
proof -
  have "(LEAST j. free_run b c j \<and> j + c \<le> m) = k"
    by (rule Least_equality) (use assms in blast)+
  then show ?thesis using assms(1,2) by (auto simp: first_run_def)
qed

text \<open>The state of the run loop before a step: \<open>t\<close> is the next bit, \<open>c\<close> the length of the clear
  run that ends there.\<close>

definition run_state :: "bitmap \<Rightarrow> nat \<Rightarrow> nat \<Rightarrow> nat \<Rightarrow> bool" where
  "run_state b C t c \<longleftrightarrow>
     c \<le> t \<and> c < C \<and> free_run b c (t - c) \<and> (t = c \<or> bit_at b (t - c - 1)) \<and>
     (\<forall>k. free_run b C k \<longrightarrow> t < k + C)"

lemma run_state_hit:
  assumes "run_state b C t c" "\<not> bit_at b t" "Suc c = C" "Suc t \<le> m"
  shows "first_run b C m = of_nat (t - c)"
proof (rule first_run_eqI)
  show "free_run b C (t - c)"
    using assms by (auto simp: run_state_def free_run_def less_Suc_eq)
  show "t - c + C \<le> m" using assms by (auto simp: run_state_def)
  show "t - c \<le> j" if "free_run b C j" "j + C \<le> m" for j
    using assms(1,3) that by (force simp: run_state_def)
qed

lemma run_state_clear:
  assumes "run_state b C t c" "\<not> bit_at b t" "Suc c < C"
  shows "run_state b C (Suc t) (Suc c)"
proof -
  have "Suc t < k + C" if "free_run b C k" for k
  proof (rule ccontr)
    assume "\<not> Suc t < k + C"
    with assms(1) that have k: "k + C = Suc t" by (auto simp: run_state_def not_less le_less_Suc_eq)
    with assms(3) have "k \<le> t - c - 1" "t - c - 1 < k + C" "t \<noteq> c" by auto
    with assms(1) that show False by (auto simp: run_state_def free_run_def)
  qed
  with assms show ?thesis
    by (auto simp: run_state_def free_run_def less_Suc_eq)
qed

lemma run_state_set:
  assumes "run_state b C t c" "bit_at b t" "0 < C"
  shows "run_state b C (Suc t) 0"
proof -
  have "Suc t < k + C" if run: "free_run b C k" for k
  proof -
    have "t < k + C" using assms(1) run by (simp add: run_state_def)
    moreover have "Suc t \<noteq> k + C"
    proof
      assume "Suc t = k + C"
      then have "k \<le> t" using assms(3) by linarith
      with run \<open>t < k + C\<close> assms(2) show False by (simp add: free_run_def)
    qed
    ultimately show ?thesis by linarith
  qed
  with assms show ?thesis by (auto simp: run_state_def free_run_def)
qed

lemma scan_run_spec:
  assumes "run_state b (unat cnt) (unat t) (unat c)" "unat t + unat l = m" "m < 2 ^ 32" "1 < unat cnt"
  shows "scan_run b cnt l t c = first_run b (unat cnt) m"
  using assms(1,2,4)
proof (induction b cnt l t c rule: scan_run.induct)
  case (1 b cnt l t c)
  let ?C = "unat cnt" and ?t = "unat t" and ?c = "unat c"
  let ?c' = "if bitmap_scan_test b t = 0 then c + 1 else 0"
  show ?case
  proof (cases "0 < l")
    case False
    then have "l = 0" by (simp add: word_gt_0)
    moreover from this "1.prems" have "\<not> (\<exists>k. free_run b ?C k \<and> k + ?C \<le> m)"
      by (auto simp: run_state_def not_le)
    ultimately show ?thesis by (subst scan_run.simps) (auto simp: first_run_def)
  next
    case True
    then have l: "unat (l - 1) = unat l - 1" "0 < unat l"
      by (simp_all add: unat_minus_one word_gt_0 unat_gt_0)
    then have t: "unat (t + 1) = Suc ?t" "Suc ?t \<le> m"
      using "1.prems"(2) assms(3) by (simp_all add: unat_Suc_lt)
    have c: "unat (c + 1) = Suc ?c" "?c < ?C" "?c \<le> ?t"
      using "1.prems"(1) t(2) assms(3) by (auto simp: run_state_def intro!: unat_Suc_lt)
    show ?thesis
    proof (cases "?c' = cnt")
      case hit: True
      then have clear: "bitmap_scan_test b t = 0" "Suc ?c = ?C"
        using "1.prems"(3) c(1) by (auto split: if_splits)
      have "first_run b ?C m = of_nat (?t - ?c)"
        using "1.prems"(1) clear t(2) by (intro run_state_hit) (simp_all add: scan_test_bit)
      also have "of_nat (?t - ?c) = t - c" using c(3) by (simp add: of_nat_diff)
      also have "t - c = t - cnt + 1" using hit clear by (simp add: algebra_simps)
      finally show ?thesis using True hit by (subst scan_run.simps) simp
    next
      case miss: False
      have "run_state b ?C (unat (t + 1)) (unat ?c')"
      proof (cases "bitmap_scan_test b t = 0")
        case True
        with miss have "c + 1 \<noteq> cnt" by simp
        then have "Suc ?c < ?C" using c(1,2) by (metis Suc_lessI word_unat_eq_iff)
        with "1.prems"(1) True show ?thesis
          by (simp add: run_state_clear t c scan_test_bit)
      next
        case False
        with "1.prems"(1) show ?thesis
          using "1.prems"(3) by (simp add: run_state_set t scan_test_bit)
      qed
      moreover have "unat (t + 1) + unat (l - 1) = m" using l t(1) "1.prems"(2) by simp
      ultimately have "scan_run b cnt (l - 1) (t + 1) ?c' = first_run b ?C m"
        using "1.IH" [OF True refl miss] "1.prems"(3) by blast
      then show ?thesis using True miss by (subst scan_run.simps) (simp only: Let_def if_True if_False)
    qed
  qed
qed

section \<open>What a scan returns\<close>

lemma scan_bytes_full:
  assumes "bitmap_ok b"
  shows "scan_bytes b 0 < btmp_bytes_len b \<longleftrightarrow> (\<exists>n < nbits b. \<not> bit_at b n)"
proof
  assume "scan_bytes b 0 < btmp_bytes_len b"
  then show "\<exists>n < nbits b. \<not> bit_at b n" using first_free [OF assms] by blast
next
  assume "\<exists>n < nbits b. \<not> bit_at b n"
  then obtain n where n: "n div 8 < unat (btmp_bytes_len b)" "\<not> bit_at b n"
    by (metis nbits_def less_mult_imp_div_less mult.commute)
  then have "\<not> n div 8 < unat (scan_bytes b 0)" using scan_bytes_spec [of 0 b] by auto
  with n(1) show "scan_bytes b 0 < btmp_bytes_len b" by (simp add: word_less_nat_alt)
qed

lemma bitmap_scan_None:
  assumes "bitmap_ok b"
  shows "bitmap_scan b cnt = None \<longleftrightarrow> (\<forall>n < nbits b. bit_at b n)"
  using scan_bytes_full [OF assms] by (auto simp: bitmap_scan_def Let_def ASSERT_bind)

text \<open>A scan for one bit finds the first clear bit.\<close>

lemma bitmap_scan_one:
  assumes "bitmap_ok b" and "\<exists>n < nbits b. \<not> bit_at b n"
  shows "\<exists>i. bitmap_scan b 1 = Some i \<and> unat i < nbits b \<and> \<not> bit_at b (unat i) \<and>
             (\<forall>n < unat i. bit_at b n)"
proof -
  have lt: "scan_bytes b 0 < btmp_bytes_len b" using assms scan_bytes_full by blast
  define i where
    "i = (push_bit 3 (scan_bytes b 0) + of_nat (scan_bits (bits b (scan_bytes b 0)) 0) :: u32)"
  have "scan_bytes b 0 \<noteq> btmp_bytes_len b" using lt by (rule less_imp_neq)
  then have "bitmap_scan b 1 = Some i"
    unfolding bitmap_scan_def Let_def i_def [symmetric] by (simp only: lt) simp
  moreover have "unat i < nbits b" "\<not> bit_at b (unat i)" "\<forall>n < unat i. bit_at b n"
    using first_free [OF assms(1) lt] unfolding i_def by auto
  ultimately show ?thesis by simp
qed

lemma bitmap_scan_run:
  assumes "bitmap_ok b" "1 < unat cnt" and free: "\<exists>n < nbits b. \<not> bit_at b n"
  shows "bitmap_scan b cnt = Some (first_run b (unat cnt) (nbits b + 1))"
proof -
  have lt: "scan_bytes b 0 < btmp_bytes_len b" using assms scan_bytes_full by blast
  define s where
    "s = (push_bit 3 (scan_bytes b 0) + of_nat (scan_bits (bits b (scan_bytes b 0)) 0) :: u32)"
  let ?len = "push_bit 3 (btmp_bytes_len b)"
  have s: "unat s < nbits b" "\<not> bit_at b (unat s)" "\<forall>n < unat s. bit_at b n"
    using first_free [OF assms(1) lt] unfolding s_def by auto
  have n: "unat ?len = nbits b" "nbits b < 2 ^ 31"
    using assms(1) by (simp_all add: push_bit_eq_mult unat_word_ariths bitmap_ok_def nbits_def)
  then have t: "unat (s + 1) = Suc (unat s)" using s(1) by (simp add: unat_Suc_lt)
  have l: "unat (?len - s) = nbits b - unat s"
    using s(1) n(1) by (subst unat_minus_le) (simp_all add: word_le_nat_alt)
  have "unat s + 1 < k + unat cnt" if "free_run b (unat cnt) k" for k
  proof -
    have "\<not> bit_at b k" using that assms(2) by (simp add: free_run_def)
    then have "\<not> k < unat s" using s(3) by blast
    then show ?thesis using assms(2) by linarith
  qed
  moreover have "free_run b 1 (unat s)" using s(2) unfolding free_run_1 .
  moreover have "unat s = 0 \<or> bit_at b (unat s - 1)" using s(3) by (cases "unat s = 0") auto
  ultimately have "run_state b (unat cnt) (unat (s + 1)) (unat (1 :: u32))"
    using assms(2) by (simp add: run_state_def t)
  then have "scan_run b cnt (?len - s) (s + 1) 1 = first_run b (unat cnt) (nbits b + 1)"
    using s(1) n(2) assms(2) by (intro scan_run_spec) (simp_all add: t l)
  moreover have "scan_bytes b 0 \<noteq> btmp_bytes_len b" "cnt \<noteq> 1" using lt assms(2) by auto
  ultimately show ?thesis
    unfolding bitmap_scan_def Let_def s_def [symmetric] by (simp only: lt) simp
qed

section \<open>Resource pools\<close>

text \<open>
  The contract of a pool of numbered resources: an allocation returns a free number of the pool and
  marks it used, it returns whenever a number is free, and a release makes the number free again.
  The clients are the pid pool, the physical page pools and the inode and block bitmaps.
\<close>

locale bit_pool =
  fixes alloc :: "'s \<Rightarrow> ('i \<times> 's) option"
    and release :: "'i \<Rightarrow> 's \<Rightarrow> 's option"
    and used :: "'s \<Rightarrow> 'i set"
    and space :: "'s \<Rightarrow> 'i set"
    and invar :: "'s \<Rightarrow> bool"
  assumes alloc_fresh: "invar s \<Longrightarrow> alloc s = Some (i, s') \<Longrightarrow> i \<in> space s \<and> i \<notin> used s"
    and alloc_used: "invar s \<Longrightarrow> alloc s = Some (i, s') \<Longrightarrow> used s' = insert i (used s)"
    and alloc_space: "invar s \<Longrightarrow> alloc s = Some (i, s') \<Longrightarrow> space s' = space s"
    and alloc_invar: "invar s \<Longrightarrow> alloc s = Some (i, s') \<Longrightarrow> invar s'"
    and alloc_returns: "invar s \<Longrightarrow> (\<exists>i s'. alloc s = Some (i, s')) \<longleftrightarrow> \<not> space s \<subseteq> used s"
    and release_returns: "invar s \<Longrightarrow> i \<in> space s \<Longrightarrow> \<exists>s'. release i s = Some s'"
    and release_used: "invar s \<Longrightarrow> i \<in> space s \<Longrightarrow> release i s = Some s' \<Longrightarrow> used s' = used s - {i}"
    and release_space: "invar s \<Longrightarrow> i \<in> space s \<Longrightarrow> release i s = Some s' \<Longrightarrow> space s' = space s"
    and release_invar: "invar s \<Longrightarrow> i \<in> space s \<Longrightarrow> release i s = Some s' \<Longrightarrow> invar s'"
    and used_space: "invar s \<Longrightarrow> used s \<subseteq> space s"
    and finite_space: "invar s \<Longrightarrow> finite (space s)"
begin

fun alloc_many :: "nat \<Rightarrow> 's \<Rightarrow> ('i list \<times> 's) option" where
  "alloc_many 0 s = Some ([], s)"
| "alloc_many (Suc n) s =
     do { (i, s1) \<leftarrow> alloc s; (is, s2) \<leftarrow> alloc_many n s1; Some (i # is, s2) }"

lemma alloc_many_distinct:
  "invar s \<Longrightarrow> alloc_many n s = Some (is, s') \<Longrightarrow>
     distinct is \<and> set is \<subseteq> space s - used s \<and> used s' = used s \<union> set is \<and>
     space s' = space s \<and> invar s' \<and> length is = n"
proof (induction n arbitrary: s "is" s')
  case (Suc n)
  from Suc.prems(2) obtain i s1 js where step: "alloc s = Some (i, s1)"
    "alloc_many n s1 = Some (js, s')" "is = i # js"
    by (auto simp: bind_eq_Some_conv)
  note facts = alloc_fresh [OF Suc.prems(1) step(1)] alloc_used [OF Suc.prems(1) step(1)]
    alloc_space [OF Suc.prems(1) step(1)] alloc_invar [OF Suc.prems(1) step(1)]
  with Suc.IH [OF _ step(2)] step(3) show ?case by auto
qed simp

lemma alloc_many_returns:
  "invar s \<Longrightarrow> n \<le> card (space s - used s) \<Longrightarrow> \<exists>is s'. alloc_many n s = Some (is, s')"
proof (induction n arbitrary: s)
  case (Suc n)
  then have "space s - used s \<noteq> {}" by (metis card.empty not_less_eq_eq zero_le)
  then have "\<not> space s \<subseteq> used s" by blast
  then obtain i s1 where s1: "alloc s = Some (i, s1)" using alloc_returns Suc.prems(1) by blast
  note facts = alloc_fresh [OF Suc.prems(1) s1] alloc_used [OF Suc.prems(1) s1]
    alloc_space [OF Suc.prems(1) s1] alloc_invar [OF Suc.prems(1) s1]
  have "space s1 - used s1 = space s - used s - {i}" using facts by auto
  moreover have "i \<in> space s - used s" using facts by blast
  ultimately have "card (space s1 - used s1) = card (space s - used s) - 1"
    by (simp add: card_Diff_singleton)
  then have "n \<le> card (space s1 - used s1)" using Suc.prems(2) by linarith
  then obtain js s' where "alloc_many n s1 = Some (js, s')" using Suc.IH facts by blast
  with s1 show ?case by simp
qed simp

lemma release_alloc:
  assumes "invar s" "i \<in> space s" "release i s = Some s1"
  shows "\<exists>j s2. alloc s1 = Some (j, s2)"
  using alloc_returns [OF release_invar [OF assms]] release_used [OF assms] release_space [OF assms]
    assms(2) by blast

lemma alloc_release:
  assumes "invar s" "alloc s = Some (i, s1)" "release i s1 = Some s2"
  shows "used s2 = used s \<and> space s2 = space s \<and> invar s2"
  using alloc_fresh [OF assms(1,2)] alloc_used [OF assms(1,2)] alloc_space [OF assms(1,2)]
    alloc_invar [OF assms(1,2)] release_used [of s1 i s2] release_space [of s1 i s2]
    release_invar [of s1 i s2] assms(3) by auto

end

text \<open>The pattern of every client: scan for one clear bit and set it.\<close>

definition bitmap_alloc :: "bitmap \<Rightarrow> (u32 \<times> bitmap) option" where
  "bitmap_alloc b = do { i \<leftarrow> bitmap_scan b 1; b' \<leftarrow> bitmap_set b i 1; Some (i, b') }"

definition bitmap_used :: "bitmap \<Rightarrow> u32 set" where
  "bitmap_used b = {i. unat i < nbits b \<and> bit_at b (unat i)}"

definition bitmap_space :: "bitmap \<Rightarrow> u32 set" where
  "bitmap_space b = {i. unat i < nbits b}"

lemma bitmap_alloc_SomeD:
  assumes "bitmap_ok b" "bitmap_alloc b = Some (i, b')"
  shows "bitmap_set b i 1 = Some b' \<and> unat i < nbits b \<and> \<not> bit_at b (unat i) \<and>
         (\<forall>n < unat i. bit_at b n)"
proof -
  from assms(2) have scan: "bitmap_scan b 1 = Some i" and set: "bitmap_set b i 1 = Some b'"
    by (auto simp: bitmap_alloc_def bind_eq_Some_conv)
  from scan bitmap_scan_None [OF assms(1), of 1] have "\<exists>n < nbits b. \<not> bit_at b n" by auto
  from bitmap_scan_one [OF assms(1) this] scan set show ?thesis by auto
qed

lemma bitmap_alloc_returns:
  assumes "bitmap_ok b"
  shows "(\<exists>i b'. bitmap_alloc b = Some (i, b')) \<longleftrightarrow> (\<exists>n < nbits b. \<not> bit_at b n)"
  using bitmap_scan_None [OF assms, of 1] bitmap_set_returns [of 1 b]
  by (fastforce simp: bitmap_alloc_def bind_eq_Some_conv)

lemma bitmap_used_set:
  assumes "bitmap_ok b" "bitmap_set b i v = Some b'"
  shows "bitmap_used b' =
    (if v = 1 then (if unat i < nbits b then insert i (bitmap_used b) else bitmap_used b)
     else bitmap_used b - {i})"
  using bit_at_set [OF assms(2)] bitmap_set_nbits [OF assms(2)] bitmap_ok_nbits [OF assms(1)]
  by (auto simp: bitmap_used_def word_unat_eq_iff split: if_splits)

text \<open>Bit numbers as words and as naturals.\<close>

lemma ex_bit_word:
  assumes "bitmap_ok b"
  shows "(\<exists>n < nbits b. P n) \<longleftrightarrow> (\<exists>i :: u32. unat i < nbits b \<and> P (unat i))"
proof
  assume "\<exists>n < nbits b. P n"
  then obtain n where n: "n < nbits b" "P n" by blast
  then have "unat (of_nat n :: u32) = n"
    using bitmap_ok_nbits [OF assms] by (intro unat_of_nat_lt) simp
  with n show "\<exists>i :: u32. unat i < nbits b \<and> P (unat i)" by (intro exI [of _ "of_nat n"]) simp
qed blast

interpretation bm: bit_pool bitmap_alloc "\<lambda>i b. bitmap_set b i 0" bitmap_used bitmap_space bitmap_ok
proof unfold_locales
  fix s s' i
  assume ok: "bitmap_ok s"
  { assume a: "bitmap_alloc s = Some (i, s')"
    note d = bitmap_alloc_SomeD [OF ok a]
    from d show "i \<in> bitmap_space s \<and> i \<notin> bitmap_used s"
      by (simp add: bitmap_space_def bitmap_used_def)
    from d bitmap_used_set [OF ok, of i 1 s'] show "bitmap_used s' = insert i (bitmap_used s)" by simp
    from d bitmap_set_nbits [of s i 1 s'] show "bitmap_space s' = bitmap_space s"
      by (simp add: bitmap_space_def)
    from d bitmap_set_ok [OF _ ok] show "bitmap_ok s'" by blast }
  show "(\<exists>i s'. bitmap_alloc s = Some (i, s')) \<longleftrightarrow> \<not> bitmap_space s \<subseteq> bitmap_used s"
    unfolding bitmap_alloc_returns [OF ok] ex_bit_word [OF ok]
    by (auto simp: bitmap_space_def bitmap_used_def)
  { assume i: "i \<in> bitmap_space s"
    show "\<exists>s'. bitmap_set s i 0 = Some s'" by (rule bitmap_set_returns) simp
    assume r: "bitmap_set s i 0 = Some s'"
    from bitmap_used_set [OF ok r] show "bitmap_used s' = bitmap_used s - {i}" by simp
    from bitmap_set_nbits [OF r] show "bitmap_space s' = bitmap_space s" by (simp add: bitmap_space_def)
    from bitmap_set_ok [OF r ok] show "bitmap_ok s'" . }
  show "bitmap_used s \<subseteq> bitmap_space s" by (auto simp: bitmap_used_def bitmap_space_def)
  show "finite (bitmap_space s)" by simp
qed

section \<open>Properties\<close>

text \<open>Remark: a scan for one bit returns the least clear bit of the bitmap. When every bit is
  set the call does not return: the assertion \<^verbatim>\<open>idx_byte < btmp_bytes_len\<close> stops the kernel,
  so the \<^verbatim>\<open>return -1\<close> after it is never reached.\<close>

theorem bitmap_scan_least_free:
  assumes "bitmap_ok b"
  shows "bitmap_scan b 1 =
    (if \<exists>n < nbits b. \<not> bit_at b n then Some (of_nat (LEAST n. \<not> bit_at b n)) else None)"
proof (cases "\<exists>n < nbits b. \<not> bit_at b n")
  case True
  then obtain i where i: "bitmap_scan b 1 = Some i" "\<not> bit_at b (unat i)" "\<forall>n < unat i. bit_at b n"
    using bitmap_scan_one [OF assms] by blast
  have "(LEAST n. \<not> bit_at b n) = unat i" by (rule Least_equality) (use i in \<open>auto simp: not_less [symmetric]\<close>)
  with i(1) True show ?thesis by simp
next
  case False
  with bitmap_scan_None [OF assms] show ?thesis by auto
qed

theorem bitmap_scan_least_free_witness:
  "bitmap_scan \<lparr>btmp_bytes_len = 2, bits = (\<lambda>_. 0)(0 := 0xff, 1 := 1)\<rparr> 1 =
    (if \<exists>n < nbits \<lparr>btmp_bytes_len = 2, bits = (\<lambda>_. 0)(0 := 0xff, 1 := 1)\<rparr>.
          \<not> bit_at \<lparr>btmp_bytes_len = 2, bits = (\<lambda>_. 0)(0 := 0xff, 1 := 1)\<rparr> n
     then Some (of_nat (LEAST n. \<not> bit_at \<lparr>btmp_bytes_len = 2, bits = (\<lambda>_. 0)(0 := 0xff, 1 := 1)\<rparr> n))
     else None)"
  by (rule bitmap_scan_least_free) (simp add: bitmap_ok_def)

text \<open>Remark: a scan for \<open>cnt > 1\<close> bits returns the start of the first run of \<open>cnt\<close> clear bits
  among the first \<open>nbits b + 1\<close> bits, and \<open>-1\<close> when there is no such run: the search is
  complete, and it looks at one bit beyond the end of the bitmap.\<close>

theorem bitmap_scan_first_run:
  assumes "bitmap_ok b" "1 < unat cnt" "\<exists>n < nbits b. \<not> bit_at b n"
  shows "bitmap_scan b cnt = Some (first_run b (unat cnt) (nbits b + 1))"
  by (rule bitmap_scan_run [OF assms])

theorem bitmap_scan_first_run_witness:
  "bitmap_scan \<lparr>btmp_bytes_len = 1, bits = \<lambda>_. 0\<rparr> 3 =
     Some (first_run \<lparr>btmp_bytes_len = 1, bits = \<lambda>_. 0\<rparr> (unat (3 :: u32))
             (nbits \<lparr>btmp_bytes_len = 1, bits = \<lambda>_. 0\<rparr> + 1))"
  by (rule bitmap_scan_first_run)
    (auto simp: bitmap_ok_def nbits_def bit_at_def intro: exI [of _ 0])

text \<open>Remark: the extra bit matters. In a bitmap of one byte whose only free bit is the last
  one, a scan for two bits succeeds when the byte after the bitmap is even, and the run it returns
  ends outside the bitmap.\<close>

theorem bitmap_scan_past_end:
  "bitmap_scan \<lparr>btmp_bytes_len = 1, bits = (\<lambda>_. 0)(0 := 0x7f)\<rparr> 2 = Some 7 \<and>
   nbits \<lparr>btmp_bytes_len = 1, bits = (\<lambda>_. 0)(0 := 0x7f)\<rparr> < 7 + 2"
  by code_simp

text \<open>Remark: setting a bit is visible to \<^verbatim>\<open>bitmap_scan_test\<close> at that bit and at no other
  bit.\<close>

theorem bitmap_set_test:
  assumes "v = 0 \<or> v = 1"
  shows "\<exists>b'. bitmap_set b i v = Some b' \<and>
     (\<forall>j. bitmap_scan_test b' j \<noteq> 0 \<longleftrightarrow> (if j = i then v = 1 else bitmap_scan_test b j \<noteq> 0))"
proof -
  obtain b' where b': "bitmap_set b i v = Some b'" using bitmap_set_returns assms by blast
  have "bitmap_scan_test b' j \<noteq> 0 \<longleftrightarrow> (if j = i then v = 1 else bitmap_scan_test b j \<noteq> 0)" for j
    using bit_at_set [OF b', of "unat j"]
    by (cases "j = i") (simp_all add: scan_test_bit flip: word_unat_eq_iff)
  with b' show ?thesis by blast
qed

theorem bitmap_set_test_witness:
  "\<exists>b'. bitmap_set \<lparr>btmp_bytes_len = 1, bits = \<lambda>_. 0\<rparr> 5 1 = Some b' \<and>
     (\<forall>j. bitmap_scan_test b' j \<noteq> 0 \<longleftrightarrow>
          (if j = 5 then (1 :: u8) = 1
           else bitmap_scan_test \<lparr>btmp_bytes_len = 1, bits = \<lambda>_. 0\<rparr> j \<noteq> 0))"
  by (rule bitmap_set_test) simp

text \<open>Remark: as many scan-and-set allocations as there are clear bits succeed, and the numbers
  they return are distinct and were clear before.\<close>

theorem bitmap_alloc_distinct:
  assumes "bitmap_ok b" "n \<le> card (bitmap_space b - bitmap_used b)"
  shows "\<exists>is b'. bm.alloc_many n b = Some (is, b') \<and> length is = n \<and> distinct is \<and>
     set is \<subseteq> bitmap_space b - bitmap_used b \<and> bitmap_used b' = bitmap_used b \<union> set is"
proof -
  obtain js b' where "bm.alloc_many n b = Some (js, b')"
    using bm.alloc_many_returns [OF assms] by blast
  with bm.alloc_many_distinct [OF assms(1) this] show ?thesis by blast
qed

theorem bitmap_alloc_distinct_witness:
  "\<exists>is b'. bm.alloc_many 2 \<lparr>btmp_bytes_len = 1, bits = \<lambda>_. 0\<rparr> = Some (is, b') \<and> length is = 2 \<and>
     distinct is \<and>
     set is \<subseteq> bitmap_space \<lparr>btmp_bytes_len = 1, bits = \<lambda>_. 0\<rparr>
               - bitmap_used \<lparr>btmp_bytes_len = 1, bits = \<lambda>_. 0\<rparr> \<and>
     bitmap_used b' = bitmap_used \<lparr>btmp_bytes_len = 1, bits = \<lambda>_. 0\<rparr> \<union> set is"
proof (rule bitmap_alloc_distinct)
  let ?b = "\<lparr>btmp_bytes_len = 1, bits = \<lambda>_. 0\<rparr> :: bitmap"
  show "bitmap_ok ?b" by (simp add: bitmap_ok_def)
  have "{0, 1} \<subseteq> bitmap_space ?b - bitmap_used ?b"
    by (simp add: bitmap_space_def bitmap_used_def nbits_def bit_at_def)
  then show "2 \<le> card (bitmap_space ?b - bitmap_used ?b)" by (metis card_2_iff card_mono finite zero_neq_one)
qed

end
