(* ===== verification/Kinterrupt.thy ===== *)
theory Kinterrupt
  imports Kernel_Prelude
begin

text \<open>
  The interrupt flag and the segment and gate descriptors: \<^verbatim>\<open>intr_enable\<close>, \<^verbatim>\<open>intr_disable\<close>,
  \<^verbatim>\<open>intr_set_status\<close>, \<^verbatim>\<open>intr_get_status\<close> and \<^verbatim>\<open>make_idt_desc\<close> of \<^verbatim>\<open>src/kern/interrupt.c\<close>,
  \<^verbatim>\<open>make_gdt_desc\<close> and the TSS of \<^verbatim>\<open>src/userproc/tss.c\<close>, with the descriptor constants of
  \<^verbatim>\<open>src/inc/global.h\<close>. The CPU state is the EFLAGS register; \<^verbatim>\<open>sti\<close> and \<^verbatim>\<open>cli\<close> set and
  clear its bit 9. The theory shows that the pair disable / set-status restores the flag, and
  that the packed descriptors decode to the base, limit, offset and attributes they were built from.
\<close>

section \<open>The interrupt flag\<close>

datatype intr_status = INTR_OFF | INTR_ON

text \<open>The C enumeration orders \<^verbatim>\<open>INTR_OFF\<close> (0) below \<^verbatim>\<open>INTR_ON\<close> (1).\<close>

fun intr_nr :: "intr_status \<Rightarrow> u32" where
  "intr_nr INTR_OFF = 0"
| "intr_nr INTR_ON = 1"

instantiation intr_status :: linorder
begin

definition less_eq_intr_status :: "intr_status \<Rightarrow> intr_status \<Rightarrow> bool" where
  "less_eq_intr_status a b = (intr_nr a \<le> intr_nr b)"

definition less_intr_status :: "intr_status \<Rightarrow> intr_status \<Rightarrow> bool" where
  "less_intr_status a b = (intr_nr a < intr_nr b)"

instance
proof
  fix x y z :: intr_status
  show "x < y \<longleftrightarrow> x \<le> y \<and> \<not> y \<le> x"
    by (auto simp: less_eq_intr_status_def less_intr_status_def)
  show "x \<le> x" by (simp add: less_eq_intr_status_def)
  show "x \<le> y \<Longrightarrow> y \<le> z \<Longrightarrow> x \<le> z" by (auto simp: less_eq_intr_status_def)
  show "x \<le> y \<Longrightarrow> y \<le> x \<Longrightarrow> x = y"
    by (cases x; cases y) (auto simp: less_eq_intr_status_def)
  show "x \<le> y \<or> y \<le> x" by (auto simp: less_eq_intr_status_def)
qed

end

definition EFLAGS_IF :: u32 where
  "EFLAGS_IF = 0x200"

definition sti :: "u32 \<Rightarrow> u32" where
  "sti eflags = eflags OR EFLAGS_IF"

definition cli :: "u32 \<Rightarrow> u32" where
  "cli eflags = eflags AND NOT EFLAGS_IF"

definition intr_get_status :: "u32 \<Rightarrow> intr_status" where
  "intr_get_status eflags = (if EFLAGS_IF AND eflags \<noteq> 0 then INTR_ON else INTR_OFF)"

definition intr_enable :: "u32 \<Rightarrow> intr_status \<times> u32" where
  "intr_enable eflags =
     (if INTR_ON = intr_get_status eflags then (INTR_ON, eflags) else (INTR_OFF, sti eflags))"

definition intr_disable :: "u32 \<Rightarrow> intr_status \<times> u32" where
  "intr_disable eflags =
     (if INTR_ON = intr_get_status eflags then (INTR_ON, cli eflags) else (INTR_OFF, eflags))"

definition intr_set_status :: "intr_status \<Rightarrow> u32 \<Rightarrow> intr_status \<times> u32" where
  "intr_set_status status eflags =
     (if intr_nr status AND intr_nr INTR_ON \<noteq> 0 then intr_enable eflags else intr_disable eflags)"

section \<open>Descriptors\<close>

record gate_desc =
  func_offset_low_word :: u16
  selector :: u16
  dcount :: u8
  attribute :: u8
  func_offset_high_word :: u16

record gdt_desc =
  limit_low_word :: u16
  base_low_word :: u16
  base_mid_byte :: u8
  attr_low_byte :: u8
  limit_high_attr_high :: u8
  base_high_byte :: u8

definition SELECTOR_K_CODE :: u16 where
  "SELECTOR_K_CODE = push_bit 3 1 + push_bit 2 0 + 0"

definition SELECTOR_U_CODE :: u16 where
  "SELECTOR_U_CODE = push_bit 3 5 + push_bit 2 0 + 3"

definition SELECTOR_U_DATA :: u16 where
  "SELECTOR_U_DATA = push_bit 3 6 + push_bit 2 0 + 3"

definition SELECTOR_TSS :: u16 where
  "SELECTOR_TSS = push_bit 3 4 + push_bit 2 0 + 0"

definition GDT_ATTR_HIGH :: u8 where
  "GDT_ATTR_HIGH = push_bit 7 1 + push_bit 6 1 + push_bit 5 0 + push_bit 4 0"

definition GDT_CODE_ATTR_LOW_DPL3 :: u8 where
  "GDT_CODE_ATTR_LOW_DPL3 = push_bit 7 1 + push_bit 5 3 + push_bit 4 1 + 8"

definition GDT_DATA_ATTR_LOW_DPL3 :: u8 where
  "GDT_DATA_ATTR_LOW_DPL3 = push_bit 7 1 + push_bit 5 3 + push_bit 4 1 + 2"

definition TSS_ATTR_HIGH :: u8 where
  "TSS_ATTR_HIGH = push_bit 7 1 + push_bit 6 0 + push_bit 5 0 + push_bit 4 0 + 0"

definition TSS_ATTR_LOW :: u8 where
  "TSS_ATTR_LOW = push_bit 7 1 + push_bit 5 0 + push_bit 4 0 + 9"

definition IDT_DESC_ATTR_DPL0 :: u8 where
  "IDT_DESC_ATTR_DPL0 = push_bit 7 1 + push_bit 5 0 + 0x0E"

definition IDT_DESC_ATTR_DPL3 :: u8 where
  "IDT_DESC_ATTR_DPL3 = push_bit 7 1 + push_bit 5 3 + 0x0E"

definition make_idt_desc :: "u8 \<Rightarrow> u32 \<Rightarrow> gate_desc" where
  "make_idt_desc attr function =
     \<lparr>func_offset_low_word = ucast (function AND 0x0000ffff),
      selector = SELECTOR_K_CODE,
      dcount = 0,
      attribute = attr,
      func_offset_high_word = ucast (drop_bit 16 (function AND 0xffff0000))\<rparr>"

text \<open>\<^verbatim>\<open>idt_desc_init\<close>: every entry gets a DPL 0 gate, then the last one the system call gate.\<close>

definition IDT_DESC_CNT :: nat where
  "IDT_DESC_CNT = 0x81"

definition idt_desc_init :: "(nat \<Rightarrow> u32) \<Rightarrow> u32 \<Rightarrow> gate_desc list" where
  "idt_desc_init intr_entry_table syscall_handler =
     (map (\<lambda>i. make_idt_desc IDT_DESC_ATTR_DPL0 (intr_entry_table i)) [0..<IDT_DESC_CNT])
       [IDT_DESC_CNT - 1 := make_idt_desc IDT_DESC_ATTR_DPL3 syscall_handler]"

definition make_gdt_desc :: "u32 \<Rightarrow> u32 \<Rightarrow> u8 \<Rightarrow> u8 \<Rightarrow> gdt_desc" where
  "make_gdt_desc desc_base limit attr_low attr_high =
     \<lparr>limit_low_word = ucast (limit AND 0x0000ffff),
      base_low_word = ucast (desc_base AND 0x0000ffff),
      base_mid_byte = ucast (drop_bit 16 (desc_base AND 0x00ff0000)),
      attr_low_byte = attr_low,
      limit_high_attr_high = ucast (drop_bit 16 (limit AND 0x000f0000)) + attr_high,
      base_high_byte = ucast (drop_bit 24 desc_base)\<rparr>"

text \<open>What the CPU reads back from a descriptor.\<close>

definition gate_offset :: "gate_desc \<Rightarrow> u32" where
  "gate_offset g = ucast (func_offset_low_word g) OR push_bit 16 (ucast (func_offset_high_word g))"

definition gate_dpl :: "gate_desc \<Rightarrow> u8" where
  "gate_dpl g = drop_bit 5 (attribute g) AND 3"

definition desc_base :: "gdt_desc \<Rightarrow> u32" where
  "desc_base d = ucast (base_low_word d) OR push_bit 16 (ucast (base_mid_byte d))
     OR push_bit 24 (ucast (base_high_byte d))"

definition desc_limit :: "gdt_desc \<Rightarrow> u32" where
  "desc_limit d = ucast (limit_low_word d) OR push_bit 16 (ucast (limit_high_attr_high d AND 0x0f))"

definition desc_dpl :: "gdt_desc \<Rightarrow> u8" where
  "desc_dpl d = drop_bit 5 (attr_low_byte d) AND 3"

section \<open>Properties\<close>

lemma EFLAGS_IF_bit: "EFLAGS_IF = 2 ^ 9"
  by (simp add: EFLAGS_IF_def)

lemma bit_or_exp: "k < LENGTH('a) \<Longrightarrow> bit ((e :: 'a::len word) OR 2 ^ k) n \<longleftrightarrow> n = k \<or> bit e n"
  by (auto simp: bit_or_iff bit_exp_iff)

lemma bit_and_not_exp: "bit ((e :: 'a::len word) AND NOT (2 ^ k)) n \<longleftrightarrow> n \<noteq> k \<and> bit e n"
  by (auto simp: bit_and_iff bit_not_iff bit_exp_iff dest: bit_imp_le_length)

lemma intr_get_status_bit: "intr_get_status e = (if bit e 9 then INTR_ON else INTR_OFF)"
  unfolding intr_get_status_def EFLAGS_IF_bit exp_and_eq_0 by (rule if_cong) simp_all

lemma bit_sti: "bit (sti e) n \<longleftrightarrow> n = 9 \<or> bit e n"
  unfolding sti_def EFLAGS_IF_bit by (rule bit_or_exp) simp

lemma bit_cli: "bit (cli e) n \<longleftrightarrow> n \<noteq> 9 \<and> bit e n"
  unfolding cli_def EFLAGS_IF_bit by (rule bit_and_not_exp)

lemma intr_disable_off: "intr_get_status (snd (intr_disable e)) = INTR_OFF"
  by (simp add: intr_disable_def intr_get_status_bit bit_cli)

lemma intr_enable_on: "intr_get_status (snd (intr_enable e)) = INTR_ON"
  by (simp add: intr_enable_def intr_get_status_bit bit_sti)

lemma intr_disable_fst: "fst (intr_disable e) = intr_get_status e"
  by (cases "intr_get_status e") (simp_all add: intr_disable_def)

lemma intr_restore [simp]:
  "snd (intr_set_status (fst (intr_disable e)) (snd (intr_disable e))) = e"
proof -
  have "sti (cli e) = e" if "bit e 9"
    by (rule bit_word_eqI) (use that in \<open>auto simp: bit_sti bit_cli\<close>)
  then show ?thesis
    by (simp add: intr_set_status_def intr_disable_def intr_enable_def intr_get_status_bit bit_cli)
qed

text \<open>Remark: inside an \<^verbatim>\<open>intr_disable\<close> / \<^verbatim>\<open>intr_set_status\<close> pair interrupts are off, and after it
  EFLAGS is what it was before, whether interrupts were on or off: critical sections nest.\<close>

theorem intr_critical_section_restores:
  "intr_get_status (snd (intr_disable e)) = INTR_OFF \<and>
   snd (intr_set_status (fst (intr_disable e)) (snd (intr_disable e))) = e"
  by (simp add: intr_disable_off)

lemma word_bits_eqI:
  fixes a b :: u32
  shows "(\<And>n. n < 32 \<Longrightarrow> bit a n \<longleftrightarrow> bit b n) \<Longrightarrow> a = b"
  by (rule bit_word_eqI) simp

lemma mask_consts:
  "(0x0000ffff :: u32) = mask 16" "(0xffff0000 :: u32) = push_bit 16 (mask 16)"
  "(0x00ff0000 :: u32) = push_bit 16 (mask 8)" "(0x000f0000 :: u32) = push_bit 16 (mask 4)"
  "(0x0f :: u8) = mask 4"
  by (simp_all add: mask_eq_exp_minus_1 push_bit_eq_mult)

lemmas bit_pack = bit_or_iff bit_and_iff bit_push_bit_iff bit_drop_bit_eq bit_unsigned_iff bit_mask_iff

lemma gate_offset_make: "gate_offset (make_idt_desc attr f) = f"
  unfolding gate_offset_def make_idt_desc_def mask_consts
  by (rule word_bits_eqI) (auto simp: bit_pack)

lemma desc_base_make: "desc_base (make_gdt_desc b l al ah) = b"
proof (rule word_bits_eqI)
  fix n :: nat assume "n < 32"
  then consider "n < 16" | "16 \<le> n" "n < 24" "n - 16 < 8" | "24 \<le> n" "n < 32" "\<not> n - 16 < 8" by linarith
  then show "bit (desc_base (make_gdt_desc b l al ah)) n = bit b n"
    unfolding desc_base_def make_gdt_desc_def mask_consts by cases (auto simp: bit_pack)
qed

text \<open>The high nibble of the attributes never carries into the limit: both are added in one byte.\<close>

lemma nibbles_add:
  fixes a b :: u8
  assumes "a AND mask 4 = a" "b AND mask 4 = 0"
  shows "(a + b) AND mask 4 = a"
proof -
  have "a AND b = 0"
    using assms by (metis and.assoc and.commute bit.conj_zero_right)
  then have "a + b = a OR b" by (rule disjunctive_add_eq_or)
  then show ?thesis using assms by (simp add: bit.conj_disj_distrib2)
qed

lemma desc_limit_make:
  assumes "limit \<le> 0xfffff" "ah AND mask 4 = 0"
  shows "desc_limit (make_gdt_desc b limit al ah) = limit"
proof -
  let ?hi = "ucast (drop_bit 16 (limit AND push_bit 16 (mask 4))) :: u8"
  have "?hi AND mask 4 = ?hi" by (rule bit_word_eqI) (auto simp: bit_pack)
  with assms(2) have hi: "(?hi + ah) AND mask 4 = ?hi" by (rule nibbles_add [rotated])
  have "unat limit < 2 ^ 20" using assms(1) by (simp add: word_le_nat_alt)
  then have small: "\<not> bit limit n" if "20 \<le> n" for n
    using that by (rule not_bit_unat_less)
  have "bit (desc_limit (make_gdt_desc b limit al ah)) n = bit limit n" if "n < 32" for n
  proof -
    consider "n < 16" | "16 \<le> n" "n - 16 < 4" | "16 \<le> n" "\<not> n - 16 < 4" "20 \<le> n" by linarith
    then show ?thesis
      unfolding desc_limit_def make_gdt_desc_def mask_consts gdt_desc.simps hi
      by cases (use small that in \<open>auto simp: bit_pack\<close>)
  qed
  then show ?thesis by (rule word_bits_eqI)
qed

text \<open>Remark: a segment descriptor decodes to the base it was built from, to the limit when it
  fits in 20 bits, and to the low attribute byte; no attribute bit leaks into the limit field.\<close>

theorem make_gdt_desc_roundtrip:
  assumes "limit \<le> 0xfffff" "attr_high AND mask 4 = 0"
  shows "desc_base (make_gdt_desc base limit attr_low attr_high) = base \<and>
    desc_limit (make_gdt_desc base limit attr_low attr_high) = limit \<and>
    attr_low_byte (make_gdt_desc base limit attr_low attr_high) = attr_low"
  using desc_base_make desc_limit_make [OF assms] by (simp add: make_gdt_desc_def)

theorem make_gdt_desc_roundtrip_witness:
  "desc_base (make_gdt_desc 0xc0001234 0xfffff GDT_CODE_ATTR_LOW_DPL3 GDT_ATTR_HIGH) = 0xc0001234 \<and>
   desc_limit (make_gdt_desc 0xc0001234 0xfffff GDT_CODE_ATTR_LOW_DPL3 GDT_ATTR_HIGH) = 0xfffff \<and>
   attr_low_byte (make_gdt_desc 0xc0001234 0xfffff GDT_CODE_ATTR_LOW_DPL3 GDT_ATTR_HIGH)
     = GDT_CODE_ATTR_LOW_DPL3"
  by (rule make_gdt_desc_roundtrip) (simp_all add: GDT_ATTR_HIGH_def mask_eq_exp_minus_1)

lemma gates_of_init:
  assumes "i < IDT_DESC_CNT"
  shows "gate_offset (idt_desc_init entry sysc ! i) = (if i = 0x80 then sysc else entry i)"
    "gate_dpl (idt_desc_init entry sysc ! i) = (if i = 0x80 then 3 else 0)"
proof -
  have "gate_dpl (make_idt_desc IDT_DESC_ATTR_DPL0 f) = 0"
    "gate_dpl (make_idt_desc IDT_DESC_ATTR_DPL3 f) = 3" for f
    by (simp_all add: gate_dpl_def make_idt_desc_def IDT_DESC_ATTR_DPL0_def IDT_DESC_ATTR_DPL3_def)
  then show "gate_offset (idt_desc_init entry sysc ! i) = (if i = 0x80 then sysc else entry i)"
    "gate_dpl (idt_desc_init entry sysc ! i) = (if i = 0x80 then 3 else 0)"
    using assms by (auto simp: idt_desc_init_def IDT_DESC_CNT_def gate_offset_make nth_list_update
        simp del: upt_rec_numeral)
qed

text \<open>Remark: in the interrupt table every gate leads to the handler it was built for, and the
  system call gate (vector 0x80) is the only one user code may enter.\<close>

theorem idt_gates:
  assumes "i < IDT_DESC_CNT"
  shows "gate_offset (idt_desc_init entry sysc ! i) = (if i = 0x80 then sysc else entry i) \<and>
    gate_dpl (idt_desc_init entry sysc ! i) = (if i = 0x80 then 3 else 0)"
  using gates_of_init [OF assms] by simp

theorem idt_gates_witness:
  "gate_offset (idt_desc_init (\<lambda>i. of_nat i) 7 ! 0x80) = (if (0x80 :: nat) = 0x80 then 7 else of_nat 0x80) \<and>
   gate_dpl (idt_desc_init (\<lambda>i. of_nat i) 7 ! 0x80) = (if (0x80 :: nat) = 0x80 then 3 else 0)"
  by (rule idt_gates) (simp add: IDT_DESC_CNT_def)

end
