(* ===== verification/Klist.thy ===== *)
theory Klist
  imports Kinterrupt
begin

text \<open>
  The kernel's intrusive doubly linked lists (\<^verbatim>\<open>src/lib/kern/list.c\<close>, \<^verbatim>\<open>src/inc/list.h\<close>) on an
  explicit store of link fields: \<open>prev l a\<close> and \<open>next l a\<close> are the two words of the
  \<^verbatim>\<open>list_elem\<close> at address \<open>a\<close>, and a \<^verbatim>\<open>struct list\<close> at \<open>p\<close> has its head at \<open>p\<close> and its
  tail at \<open>p + 8\<close>. The predicate \<open>dll l p xs\<close> says that the list at \<open>p\<close> holds the elements
  \<open>xs\<close>. Every operation is shown to act on \<open>xs\<close> like the corresponding operation on HOL lists
  and to leave other lists alone; the locale \<open>kernel_list\<close> is that contract, on which the components
  with queues (thread queues, waiters, free blocks, open inodes) rest when they use HOL lists.
\<close>

section \<open>Operations\<close>

record links =
  prev :: "u32 \<Rightarrow> u32"
  "next" :: "u32 \<Rightarrow> u32"
  eflags :: u32

abbreviation (input) head :: "u32 \<Rightarrow> u32" where
  "head plist \<equiv> plist"

abbreviation (input) tail :: "u32 \<Rightarrow> u32" where
  "tail plist \<equiv> plist + 8"

definition list_init :: "links \<Rightarrow> u32 \<Rightarrow> links" where
  "list_init l p =
     l\<lparr>prev := (prev l)(head p := 0, tail p := head p),
       next := (next l)(head p := tail p, tail p := 0)\<rparr>"

definition list_insert_before :: "links \<Rightarrow> u32 \<Rightarrow> u32 \<Rightarrow> links" where
  "list_insert_before l before elem =
     (let (old_status, fl) = intr_disable (eflags l);
          l = l\<lparr>eflags := fl\<rparr>;
          l = l\<lparr>next := (next l)(prev l before := elem)\<rparr>;
          l = l\<lparr>prev := (prev l)(elem := prev l before)\<rparr>;
          l = l\<lparr>next := (next l)(elem := before)\<rparr>;
          l = l\<lparr>prev := (prev l)(before := elem)\<rparr>
      in l\<lparr>eflags := snd (intr_set_status old_status (eflags l))\<rparr>)"

definition list_push :: "links \<Rightarrow> u32 \<Rightarrow> u32 \<Rightarrow> links" where
  "list_push l p elem = list_insert_before l (next l (head p)) elem"

definition list_append :: "links \<Rightarrow> u32 \<Rightarrow> u32 \<Rightarrow> links" where
  "list_append l p elem = list_insert_before l (tail p) elem"

definition list_remove :: "links \<Rightarrow> u32 \<Rightarrow> links" where
  "list_remove l pelem =
     (let (old_status, fl) = intr_disable (eflags l);
          l = l\<lparr>eflags := fl\<rparr>;
          l = l\<lparr>next := (next l)(prev l pelem := next l pelem)\<rparr>;
          l = l\<lparr>prev := (prev l)(next l pelem := prev l pelem)\<rparr>
      in l\<lparr>eflags := snd (intr_set_status old_status (eflags l))\<rparr>)"

definition list_pop :: "links \<Rightarrow> u32 \<Rightarrow> u32 \<times> links" where
  "list_pop l p = (let elem = next l (head p) in (elem, list_remove l elem))"

definition list_empty :: "links \<Rightarrow> u32 \<Rightarrow> bool" where
  "list_empty l p = (next l (head p) = tail p)"

partial_function (option) list_len_loop :: "links \<Rightarrow> u32 \<Rightarrow> u32 \<Rightarrow> u32 \<Rightarrow> u32 option" where
  "list_len_loop l p elem len =
     (if elem \<noteq> tail p then list_len_loop l p (next l elem) (len + 1) else Some len)"

definition list_len :: "links \<Rightarrow> u32 \<Rightarrow> u32 option" where
  "list_len l p = list_len_loop l p (next l (head p)) 0"

partial_function (option) list_traversal_loop ::
  "links \<Rightarrow> u32 \<Rightarrow> (u32 \<Rightarrow> u32 \<Rightarrow> u32) \<Rightarrow> u32 \<Rightarrow> u32 \<Rightarrow> u32 option" where
  "list_traversal_loop l p func arg elem =
     (if elem \<noteq> tail p
      then if func elem arg \<noteq> 0 then Some elem else list_traversal_loop l p func arg (next l elem)
      else Some 0)"

definition list_traversal :: "links \<Rightarrow> u32 \<Rightarrow> (u32 \<Rightarrow> u32 \<Rightarrow> u32) \<Rightarrow> u32 \<Rightarrow> u32 option" where
  "list_traversal l p func arg =
     (if list_empty l p then Some 0 else list_traversal_loop l p func arg (next l (head p)))"

partial_function (option) elem_find_loop :: "links \<Rightarrow> u32 \<Rightarrow> u32 \<Rightarrow> u32 \<Rightarrow> bool option" where
  "elem_find_loop l p obj_elem elem =
     (if elem \<noteq> tail p
      then if elem = obj_elem then Some True else elem_find_loop l p obj_elem (next l elem)
      else Some False)"

definition elem_find :: "links \<Rightarrow> u32 \<Rightarrow> u32 \<Rightarrow> bool option" where
  "elem_find l p obj_elem = elem_find_loop l p obj_elem (next l (head p))"

section \<open>Lists in the store\<close>

fun linked :: "links \<Rightarrow> u32 list \<Rightarrow> bool" where
  "linked l (a # b # as) \<longleftrightarrow> next l a = b \<and> prev l b = a \<and> linked l (b # as)"
| "linked l _ \<longleftrightarrow> True"

definition cells :: "u32 \<Rightarrow> u32 list \<Rightarrow> u32 list" where
  "cells p xs = head p # xs @ [tail p]"

definition dll :: "links \<Rightarrow> u32 \<Rightarrow> u32 list \<Rightarrow> bool" where
  "dll l p xs \<longleftrightarrow> linked l (cells p xs) \<and> distinct (cells p xs)"

lemma linked_append:
  "linked l (as @ a # bs) \<longleftrightarrow> linked l (as @ [a]) \<and> linked l (a # bs)"
proof (induction as)
  case (Cons x as)
  then show ?case by (cases as) auto
qed simp

lemma linked_cong:
  "(\<And>x. x \<in> set (butlast as) \<Longrightarrow> next l' x = next l x) \<Longrightarrow>
   (\<And>x. x \<in> set (tl as) \<Longrightarrow> prev l' x = prev l x) \<Longrightarrow> linked l' as = linked l as"
proof (induction as)
  case (Cons x as)
  then show ?case by (cases as) auto
qed simp

lemma head_neq_tail [simp]: "p \<noteq> p + (8 :: u32)" "p + (8 :: u32) \<noteq> p"
  by (simp_all add: add_eq_0_iff2)

text \<open>The link fields after an insertion and after a removal; the interrupt flag is restored.\<close>

lemma insert_before_fields:
  "next (list_insert_before l b e) = (next l)(prev l b := e, e := b)"
  "prev (list_insert_before l b e) = (prev l)(e := prev l b, b := e)"
  "eflags (list_insert_before l b e) = eflags l"
  by (simp_all add: list_insert_before_def Let_def split_beta)

lemma remove_fields:
  "next (list_remove l e) = (next l)(prev l e := next l e)"
  "prev (list_remove l e) = (prev l)(((next l)(prev l e := next l e)) e := prev l e)"
  "eflags (list_remove l e) = eflags l"
  by (simp_all add: list_remove_def Let_def split_beta)

lemma linked_insert:
  assumes "linked l (as @ a # b # bs)" "distinct (as @ a # b # bs)" "e \<notin> set (as @ a # b # bs)"
  shows "linked (list_insert_before l b e) (as @ a # e # b # bs)"
proof -
  let ?l = "list_insert_before l b e"
  have ab: "prev l b = a" and parts: "linked l (as @ [a])" "linked l (b # bs)"
    using assms(1) linked_append [of l as a "b # bs"] by auto
  have "linked ?l (as @ [a]) = linked l (as @ [a])"
    using assms(2,3)
    by (intro linked_cong) (auto simp: insert_before_fields ab butlast_append tl_append split: list.splits)
  moreover have "linked ?l (b # bs) = linked l (b # bs)"
    using assms(2,3)
    by (intro linked_cong) (auto simp: insert_before_fields ab dest: in_set_butlastD split: if_splits)
  moreover have "next ?l a = e" "prev ?l e = a" "next ?l e = b" "prev ?l b = e"
    using assms(2,3) by (auto simp: insert_before_fields ab)
  ultimately show ?thesis using parts unfolding linked_append [of _ as a "e # b # bs"] by simp
qed

lemma linked_remove:
  assumes "linked l (as @ a # e # b # bs)" "distinct (as @ a # e # b # bs)"
  shows "linked (list_remove l e) (as @ a # b # bs)"
proof -
  let ?l = "list_remove l e"
  have e: "prev l e = a" "next l e = b" and parts: "linked l (as @ [a])" "linked l (b # bs)"
    using assms(1) linked_append [of l as a "e # b # bs"] by auto
  have ne: "e \<noteq> a" using assms(2) by auto
  have "linked ?l (as @ [a]) = linked l (as @ [a])"
    using assms(2) ne
    by (intro linked_cong) (auto simp: remove_fields e butlast_append tl_append split: list.splits)
  moreover have "linked ?l (b # bs) = linked l (b # bs)"
    using assms(2) ne
    by (intro linked_cong) (auto simp: remove_fields e dest: in_set_butlastD split: if_splits)
  moreover have "next ?l a = b" "prev ?l b = a" using ne by (simp_all add: remove_fields e)
  ultimately show ?thesis using parts unfolding linked_append [of _ as a "b # bs"] by simp
qed

text \<open>Any position of a list has a cell before it and a cell from it on.\<close>

lemma cells_split:
  obtains as a b bs where "cells p (xs @ ys) = as @ a # b # bs" "cells p xs = as @ a # [tail p]"
    "b = hd (ys @ [tail p])" "b # bs = ys @ [tail p]"
proof -
  have "head p # xs = butlast (head p # xs) @ [last (head p # xs)]" by simp
  then show thesis
    by (intro that [of "butlast (head p # xs)" "last (head p # xs)" "hd (ys @ [tail p])" "tl (ys @ [tail p])"])
      (simp_all add: cells_def flip: append_assoc)
qed

section \<open>Operations on lists in the store\<close>

lemma dll_init: "dll (list_init l p) p []"
  by (simp add: dll_def cells_def list_init_def)

lemma dll_insert_before:
  assumes "dll l p (xs @ ys)" "e \<notin> set (cells p (xs @ ys))" "b = hd (ys @ [tail p])"
  shows "dll (list_insert_before l b e) p (xs @ e # ys)"
proof -
  obtain as a bs where c: "cells p (xs @ ys) = as @ a # b # bs" "cells p xs = as @ a # [tail p]"
    "b # bs = ys @ [tail p]"
    using cells_split [of p xs ys] assms(3) by metis
  have "cells p (xs @ e # ys) = (head p # xs) @ e # b # bs" by (simp add: cells_def c(3))
  also have "head p # xs = as @ [a]" using c(2) by (simp add: cells_def flip: append_assoc)
  finally have new: "cells p (xs @ e # ys) = as @ a # e # b # bs" by simp
  have "linked (list_insert_before l b e) (as @ a # e # b # bs)"
    using assms(1,2) unfolding dll_def c(1) by (intro linked_insert) auto
  then show ?thesis using assms(1,2) unfolding dll_def new c(1) by auto
qed

lemma dll_first: "dll l p (x # xs) \<Longrightarrow> next l (head p) = x"
  by (simp add: dll_def cells_def)

lemma dll_next_head: "dll l p xs \<Longrightarrow> next l (head p) = hd (xs @ [tail p])"
  by (cases xs) (simp_all add: dll_def cells_def)

lemma dll_push: "dll l p xs \<Longrightarrow> e \<notin> set (cells p xs) \<Longrightarrow> dll (list_push l p e) p (e # xs)"
  using dll_insert_before [of l p "[]" xs e] by (simp add: list_push_def dll_next_head)

lemma dll_append: "dll l p xs \<Longrightarrow> e \<notin> set (cells p xs) \<Longrightarrow> dll (list_append l p e) p (xs @ [e])"
  using dll_insert_before [of l p xs "[]" e] by (simp add: list_append_def)

lemma dll_remove:
  assumes "dll l p (xs @ e # ys)" shows "dll (list_remove l e) p (xs @ ys)"
proof -
  obtain as a b bs where c: "cells p (xs @ ys) = as @ a # b # bs" "cells p xs = as @ a # [tail p]"
    "b # bs = ys @ [tail p]"
    by (metis cells_split)
  have "cells p (xs @ e # ys) = (head p # xs) @ e # b # bs" by (simp add: cells_def c(3))
  also have "head p # xs = as @ [a]" using c(2) by (simp add: cells_def flip: append_assoc)
  finally have old: "cells p (xs @ e # ys) = as @ a # e # b # bs" by simp
  have "linked (list_remove l e) (as @ a # b # bs)"
    using assms unfolding dll_def old by (intro linked_remove) auto
  then show ?thesis using assms unfolding dll_def old c(1) by auto
qed

lemma dll_pop: "dll l p (x # xs) \<Longrightarrow> fst (list_pop l p) = x \<and> dll (snd (list_pop l p)) p xs"
  using dll_remove [of l p "[]" x xs] by (simp add: list_pop_def dll_first)

lemma dll_empty: "dll l p xs \<Longrightarrow> list_empty l p \<longleftrightarrow> xs = []"
  by (cases xs) (auto simp: list_empty_def dll_def cells_def)

text \<open>The loops walk from any cell of the list to its tail.\<close>

lemma walk_step: "dll l p (as @ x # bs) \<Longrightarrow> next l x = hd (bs @ [tail p]) \<and> x \<noteq> tail p"
  using linked_append [of l "head p # as" x "bs @ [tail p]"]
  by (cases bs) (auto simp: dll_def cells_def)

lemma len_loop_dll:
  "dll l p (as @ bs) \<Longrightarrow>
     list_len_loop l p (hd (bs @ [tail p])) n = Some (n + of_nat (length bs))"
proof (induction bs arbitrary: as n)
  case Nil
  then show ?case by (subst list_len_loop.simps) simp
next
  case (Cons x bs)
  from Cons.IH [of "as @ [x]"] Cons.prems walk_step [OF Cons.prems] show ?case
    by (subst list_len_loop.simps) (simp add: algebra_simps)
qed

lemma list_len_dll: "dll l p xs \<Longrightarrow> list_len l p = Some (of_nat (length xs))"
  using len_loop_dll [of l p "[]" xs 0] by (simp add: list_len_def dll_next_head)

lemma find_loop_dll:
  "dll l p (as @ bs) \<Longrightarrow> elem_find_loop l p e (hd (bs @ [tail p])) = Some (e \<in> set bs)"
proof (induction bs arbitrary: as)
  case Nil
  then show ?case by (subst elem_find_loop.simps) simp
next
  case (Cons x bs)
  from Cons.IH [of "as @ [x]"] Cons.prems walk_step [OF Cons.prems] show ?case
    by (subst elem_find_loop.simps) auto
qed

lemma elem_find_dll: "dll l p xs \<Longrightarrow> elem_find l p e = Some (e \<in> set xs)"
  using find_loop_dll [of l p "[]" xs e] by (simp add: elem_find_def dll_next_head)

lemma traversal_loop_dll:
  "dll l p (as @ bs) \<Longrightarrow>
     list_traversal_loop l p f arg (hd (bs @ [tail p])) =
       Some (case find (\<lambda>x. f x arg \<noteq> 0) bs of Some x \<Rightarrow> x | None \<Rightarrow> 0)"
proof (induction bs arbitrary: as)
  case Nil
  then show ?case by (subst list_traversal_loop.simps) simp
next
  case (Cons x bs)
  from Cons.IH [of "as @ [x]"] Cons.prems walk_step [OF Cons.prems] show ?case
    by (subst list_traversal_loop.simps) auto
qed

lemma list_traversal_dll:
  "dll l p xs \<Longrightarrow>
     list_traversal l p f arg = Some (case find (\<lambda>x. f x arg \<noteq> 0) xs of Some x \<Rightarrow> x | None \<Rightarrow> 0)"
  using traversal_loop_dll [of l p "[]" xs f arg] dll_empty [of l p xs]
  by (auto simp: list_traversal_def dll_next_head)

text \<open>An operation on one list leaves a list with other cells unchanged.\<close>

lemma dll_frame:
  assumes "dll l q ys" "\<And>x. x \<in> set (cells q ys) \<Longrightarrow> next l' x = next l x \<and> prev l' x = prev l x"
  shows "dll l' q ys"
proof -
  have "set (tl (cells q ys)) \<subseteq> set (cells q ys)" by (auto simp: cells_def)
  then have "linked l' (cells q ys) = linked l (cells q ys)"
    using assms(2) by (intro linked_cong) (auto dest: in_set_butlastD)
  with assms(1) show ?thesis by (simp add: dll_def)
qed

text \<open>Inside a list, the cell before any cell but the head is a cell of the list; so is the cell after
  any cell but the tail.\<close>

lemma dll_prev_cell:
  assumes "dll l p xs" "b \<in> set (tl (cells p xs))"
  shows "prev l b \<in> set (cells p xs)"
proof -
  obtain as bs where s: "cells p xs = head p # as @ b # bs"
    using assms(2) by (auto simp: cells_def in_set_conv_decomp)
  show ?thesis
  proof (cases as rule: rev_cases)
    case Nil
    then show ?thesis using assms(1) unfolding dll_def s by simp
  next
    case (snoc cs c)
    then show ?thesis
      using assms(1) linked_append [of l "p # cs" c "b # bs"] unfolding dll_def s by simp
  qed
qed

lemma dll_next_cell:
  assumes "dll l p xs" "b \<in> set (butlast (cells p xs))"
  shows "next l b \<in> set (cells p xs)"
proof -
  have "b \<in> set (head p # xs)" using assms(2) by (simp add: cells_def butlast_append split: if_splits)
  then obtain as bs where "head p # xs = as @ b # bs" by (auto simp only: in_set_conv_decomp)
  then have s: "cells p xs = as @ b # bs @ [tail p]" by (simp add: cells_def flip: append_Cons)
  show ?thesis
    using assms(1) linked_append [of l as b "bs @ [tail p]"] unfolding dll_def s by (cases bs) simp_all
qed

lemma dll_insert_frame:
  assumes "dll l q ys" "dll l p xs" "set (cells p xs) \<inter> set (cells q ys) = {}"
    and "e \<notin> set (cells q ys)" "b \<in> set (tl (cells p xs))"
  shows "dll (list_insert_before l b e) q ys"
proof -
  have "b \<in> set (cells p xs)" using assms(5) by (auto simp: cells_def)
  with dll_prev_cell [OF assms(2,5)] show ?thesis
    using assms(3,4) by (intro dll_frame [OF assms(1)]) (auto simp: insert_before_fields)
qed

lemma dll_remove_frame:
  assumes "dll l q ys" "dll l p xs" "set (cells p xs) \<inter> set (cells q ys) = {}" "e \<in> set xs"
  shows "dll (list_remove l e) q ys"
proof -
  have "e \<in> set (tl (cells p xs))" "e \<in> set (butlast (cells p xs))"
    using assms(4) by (simp_all add: cells_def butlast_append)
  then have "prev l e \<in> set (cells p xs)" "next l e \<in> set (cells p xs)"
    using dll_prev_cell dll_next_cell assms(2) by auto
  with assms(3) show ?thesis
    by (intro dll_frame [OF assms(1)]) (auto simp: remove_fields)
qed

section \<open>The contract of kernel lists\<close>

text \<open>
  What the users of the lists rely on: a store \<open>s\<close> holds a list of elements at \<open>p\<close>; an element that is
  not a cell of the list can be appended; the first one can be popped; lists with no common cell do
  not disturb each other.
\<close>

locale kernel_list =
  fixes holds :: "'s \<Rightarrow> 'p \<Rightarrow> 'e list \<Rightarrow> bool"
    and fresh :: "'p \<Rightarrow> 'e list \<Rightarrow> 'e \<Rightarrow> bool"
    and put :: "'s \<Rightarrow> 'p \<Rightarrow> 'e \<Rightarrow> 's"
    and take :: "'s \<Rightarrow> 'p \<Rightarrow> 'e \<times> 's"
  assumes put_holds: "holds s p xs \<Longrightarrow> fresh p xs e \<Longrightarrow> holds (put s p e) p (xs @ [e])"
    and take_holds: "holds s p (x # xs) \<Longrightarrow> fst (take s p) = x \<and> holds (snd (take s p)) p xs"
    and fresh_put: "fresh p (xs @ [e]) d \<longleftrightarrow> fresh p xs d \<and> d \<noteq> e"
begin

fun take_all :: "nat \<Rightarrow> 's \<Rightarrow> 'p \<Rightarrow> 'e list" where
  "take_all 0 s p = []"
| "take_all (Suc n) s p = (case take s p of (e, s') \<Rightarrow> e # take_all n s' p)"

lemma put_all:
  "holds s p xs \<Longrightarrow> \<forall>e\<in>set es. fresh p xs e \<Longrightarrow> distinct es \<Longrightarrow>
     holds (fold (\<lambda>e s. put s p e) es s) p (xs @ es)"
proof (induction es arbitrary: s xs)
  case (Cons e es)
  then have "holds (put s p e) p (xs @ [e])" by (simp add: put_holds)
  moreover have "\<forall>d\<in>set es. fresh p (xs @ [e]) d" using Cons.prems(2,3) by (auto simp: fresh_put)
  ultimately show ?case using Cons.IH [of "put s p e" "xs @ [e]"] Cons.prems(3) by simp
qed simp

lemma take_all_holds: "holds s p xs \<Longrightarrow> take_all (length xs) s p = xs"
proof (induction xs arbitrary: s)
  case (Cons x xs)
  with take_holds [OF Cons.prems] show ?case by (simp add: split_beta)
qed simp

lemma fifo:
  "holds s p [] \<Longrightarrow> \<forall>e\<in>set es. fresh p [] e \<Longrightarrow> distinct es \<Longrightarrow>
     take_all (length es) (fold (\<lambda>e s. put s p e) es s) p = es"
  using put_all [of s p "[]" es] take_all_holds by simp

end

locale kernel_lists = kernel_list +
  fixes apart :: "'b \<Rightarrow> 'c list \<Rightarrow> 'b \<Rightarrow> 'c list \<Rightarrow> bool"
  assumes put_frame:
      "holds s p xs \<Longrightarrow> holds s q ys \<Longrightarrow> apart p xs q ys \<Longrightarrow> fresh q ys e \<Longrightarrow> holds (put s p e) q ys"
    and take_frame:
      "holds s p (x # xs) \<Longrightarrow> holds s q ys \<Longrightarrow> apart p (x # xs) q ys \<Longrightarrow> holds (snd (take s p)) q ys"
    and apart_take: "apart p (x # xs) q ys \<Longrightarrow> apart p xs q ys \<and> apart q ys p xs \<and> fresh q ys x"
    and holds_fresh: "holds s p (x # xs) \<Longrightarrow> fresh p xs x"
begin

text \<open>Moving the first element of one list to the end of another.\<close>

lemma transfer:
  assumes "holds s p (x # xs)" "holds s q ys" "apart p (x # xs) q ys" "take s p = (e, s')"
  shows "e = x \<and> holds (put s' q e) p xs \<and> holds (put s' q e) q (ys @ [x])"
proof -
  have 1: "e = x" "holds s' p xs" using take_holds [OF assms(1)] assms(4) by simp_all
  have 2: "holds s' q ys" using take_frame [OF assms(1-3)] assms(4) by simp
  have 3: "apart q ys p xs" "fresh q ys x" using apart_take [OF assms(3)] by simp_all
  show ?thesis
    using 1 put_holds [OF 2 3(2)] put_frame [OF 2 1(2) 3(1) holds_fresh [OF assms(1)]] by simp
qed

end

definition not_cell :: "u32 \<Rightarrow> u32 list \<Rightarrow> u32 \<Rightarrow> bool" where
  "not_cell p xs e \<longleftrightarrow> e \<notin> set (cells p xs)"

definition disjoint_lists :: "u32 \<Rightarrow> u32 list \<Rightarrow> u32 \<Rightarrow> u32 list \<Rightarrow> bool" where
  "disjoint_lists p xs q ys \<longleftrightarrow> set (cells p xs) \<inter> set (cells q ys) = {}"

lemma tail_in_tl_cells: "p + 8 \<in> set (tl (cells p xs))"
  by (simp add: cells_def)

interpretation kl: kernel_lists dll not_cell list_append list_pop disjoint_lists
proof unfold_locales
  fix s p xs q ys e
  assume "dll s p xs" "dll s q ys" "disjoint_lists p xs q ys" "not_cell q ys e"
  then show "dll (list_append s p e) q ys"
    unfolding list_append_def not_cell_def disjoint_lists_def
    using dll_insert_frame [OF _ _ _ _ tail_in_tl_cells] by blast
next
  fix s p x xs q ys
  assume a: "dll s p (x # xs)" "dll s q ys" "disjoint_lists p (x # xs) q ys"
  then show "dll (snd (list_pop s p)) q ys"
    using dll_remove_frame [OF a(2,1), of x] by (simp add: list_pop_def dll_first disjoint_lists_def)
qed (auto simp: not_cell_def disjoint_lists_def cells_def dll_pop dll_append, auto simp: dll_def cells_def)

section \<open>Properties\<close>

text \<open>Property C16: on a list holding \<open>xs\<close>, \<^verbatim>\<open>list_push\<close> adds an element in front, \<^verbatim>\<open>list_append\<close> at
  the end, \<^verbatim>\<open>list_pop\<close> takes the first element, \<^verbatim>\<open>list_remove\<close> deletes exactly the given
  element, wherever it is; the links stay a well-formed list each time.\<close>

theorem list_ops_refine:
  assumes "dll l p (xs @ x # ys)" "e \<notin> set (cells p (xs @ x # ys))"
  shows "dll (list_push l p e) p (e # xs @ x # ys) \<and>
         dll (list_append l p e) p (xs @ x # ys @ [e]) \<and>
         dll (list_remove l x) p (xs @ ys) \<and>
         fst (list_pop l p) = hd (xs @ [x]) \<and> dll (snd (list_pop l p)) p (tl (xs @ x # ys))"
  using dll_push [OF assms] dll_append [OF assms] dll_remove [OF assms(1)]
    dll_pop [of l p "hd (xs @ [x])" "tl (xs @ x # ys)"] assms(1)
  by (cases xs) simp_all

definition links0 :: links where
  "links0 = \<lparr>prev = (\<lambda>_. 0), next = (\<lambda>_. 0), eflags = 0\<rparr>"

lemma links0_two: "dll (list_append (list_append (list_init links0 100) 100 20) 100 30) 100 [20, 30]"
  using dll_append [OF dll_append [OF dll_init [of links0 100], of 20], of 30] by (simp add: cells_def)

theorem list_ops_refine_witness:
  "dll (list_remove (list_append (list_append (list_init links0 100) 100 20) 100 30) 30) 100 [20]"
  using list_ops_refine [of _ 100 "[20]" 30 "[]" 40] links0_two by (simp add: cells_def)

text \<open>Remark: the loops of \<^verbatim>\<open>list_len\<close>, \<^verbatim>\<open>elem_find\<close> and \<^verbatim>\<open>list_traversal\<close> end on every
  well-formed list; they return its length, whether the element is a member, and the first element
  for which the callback is true (\<^verbatim>\<open>NULL\<close> if there is none).\<close>

theorem list_queries_refine:
  assumes "dll l p xs"
  shows "list_len l p = Some (of_nat (length xs)) \<and>
         elem_find l p e = Some (e \<in> set xs) \<and>
         list_empty l p = (xs = []) \<and>
         list_traversal l p f arg = Some (case find (\<lambda>x. f x arg \<noteq> 0) xs of Some x \<Rightarrow> x | None \<Rightarrow> 0)"
  using list_len_dll [OF assms] elem_find_dll [OF assms] dll_empty [OF assms] list_traversal_dll [OF assms]
  by simp

theorem list_queries_refine_witness:
  "list_len (list_append (list_append (list_init links0 100) 100 20) 100 30) 100 = Some 2"
  using list_queries_refine [OF links0_two] by simp

text \<open>Remark: an initialised list is a FIFO queue: popping as many elements as were appended
  returns them in the order in which they were appended.\<close>

theorem list_fifo:
  assumes "\<forall>e\<in>set es. e \<notin> {p, p + 8}" "distinct es"
  shows "kl.take_all (length es) (fold (\<lambda>e l. list_append l p e) es (list_init l p)) p = es"
  using assms dll_init by (intro kl.fifo) (auto simp: not_cell_def cells_def)

theorem list_fifo_witness:
  "kl.take_all 3 (fold (\<lambda>e l. list_append l 100 e) [20, 40, 30] (list_init links0 100)) 100 = [20, 40, 30]"
  using list_fifo [of "[20, 40, 30]" 100 links0] by (simp add: numeral_3_eq_3)

text \<open>Remark: moving the first element of one list to the end of another (what the scheduler and
  the semaphores do with thread control blocks) takes it from the first, puts it last in the second, and
  changes nothing else of the two lists.\<close>

theorem list_transfer:
  assumes "dll l p (x # xs)" "dll l q ys" "set (cells p (x # xs)) \<inter> set (cells q ys) = {}"
    and "list_pop l p = (e, l')"
  shows "e = x \<and> dll (list_append l' q e) p xs \<and> dll (list_append l' q e) q (ys @ [x])"
  using assms by (intro kl.transfer) (simp_all add: disjoint_lists_def)

theorem list_transfer_witness:
  "\<exists>l e l'. list_pop l 100 = (e, l') \<and> dll (list_append l' 200 e) 200 [20]"
proof -
  let ?l = "list_append (list_append (list_init (list_init links0 200) 100) 100 20) 100 30"
  have i: "dll (list_init (list_init links0 200) 100) 200 []"
    by (simp add: dll_def cells_def list_init_def)
  have 1: "dll ?l 100 [20, 30]"
    using dll_append [OF dll_append [OF dll_init [of "list_init links0 200" 100], of 20], of 30]
    by (simp add: cells_def)
  have 2: "dll ?l 200 []"
    by (simp add: dll_def cells_def list_init_def list_append_def insert_before_fields)
  obtain e l' where 3: "list_pop ?l 100 = (e, l')" by fastforce
  have "dll (list_append l' 200 e) 200 [20]"
    using list_transfer [OF 1 2 _ 3] by (auto simp: cells_def)
  with 3 show ?thesis by blast
qed

end
