(* ===== verification/Kpaging.thy ===== *)
theory Kpaging
  imports Kernel_Prelude
begin

text \<open>
  Two-level paging as the kernel uses it (\<^verbatim>\<open>src/kern/memory.c\<close>: \<^verbatim>\<open>PDE_IDX\<close>, \<^verbatim>\<open>PTE_IDX\<close>,
  \<^verbatim>\<open>pte_ptr\<close>, \<^verbatim>\<open>pde_ptr\<close>, \<^verbatim>\<open>addr_v2p\<close>, \<^verbatim>\<open>page_table_pte_remove\<close>). The machine has the register
  CR3 and a physical memory of 32-bit words; \<open>translate\<close> is the page walk of the MMU, and a
  reference through a virtual address that is not mapped is a page fault, which the kernel's
  \<^verbatim>\<open>general_intr_handler\<close> never leaves (\<open>None\<close>). The kernel edits its page tables through the
  directory's last entry, which points to the directory itself; the theory shows that with this
  self-map the addresses computed by \<^verbatim>\<open>pde_ptr\<close> and \<^verbatim>\<open>pte_ptr\<close> are the entries the MMU uses.
  The TLB is not modelled.
\<close>

section \<open>The machine\<close>

record mmu =
  cr3 :: u32
  phys :: "u32 \<Rightarrow> u32"

definition PG_P_1 :: u32 where "PG_P_1 = 1"
definition PG_RW_W :: u32 where "PG_RW_W = 2"
definition PG_US_U :: u32 where "PG_US_U = 4"

definition PDE_IDX :: "u32 \<Rightarrow> u32" where
  "PDE_IDX addr = drop_bit 22 (addr AND 0xffc00000)"

definition PTE_IDX :: "u32 \<Rightarrow> u32" where
  "PTE_IDX addr = drop_bit 12 (addr AND 0x003ff000)"

definition pg_base :: "u32 \<Rightarrow> u32" where
  "pg_base e = e AND 0xfffff000"

definition walk_pde :: "'a mmu_scheme \<Rightarrow> u32 \<Rightarrow> u32" where
  "walk_pde m va = pg_base (cr3 m) + PDE_IDX va * 4"

definition walk_pte :: "'a mmu_scheme \<Rightarrow> u32 \<Rightarrow> u32" where
  "walk_pte m va = pg_base (phys m (walk_pde m va)) + PTE_IDX va * 4"

definition translate :: "'a mmu_scheme \<Rightarrow> u32 \<Rightarrow> u32 option" where
  "translate m va =
     (let pde = phys m (walk_pde m va); pte = phys m (walk_pte m va)
      in if pde AND PG_P_1 = 0 \<or> pte AND PG_P_1 = 0 then None
         else Some (pg_base pte + (va AND 0xfff)))"

definition vread :: "'a mmu_scheme \<Rightarrow> u32 \<Rightarrow> u32 option" where
  "vread m va = do { pa \<leftarrow> translate m va; Some (phys m pa) }"

definition vwrite :: "'a mmu_scheme \<Rightarrow> u32 \<Rightarrow> u32 \<Rightarrow> 'a mmu_scheme option" where
  "vwrite m va v = do { pa \<leftarrow> translate m va; Some (m\<lparr>phys := (phys m)(pa := v)\<rparr>) }"

section \<open>Addresses of the entries\<close>

definition pte_ptr :: "u32 \<Rightarrow> u32" where
  "pte_ptr vaddr = 0xffc00000 + drop_bit 10 (vaddr AND 0xffc00000) + PTE_IDX vaddr * 4"

definition pde_ptr :: "u32 \<Rightarrow> u32" where
  "pde_ptr vaddr = 0xfffff000 + PDE_IDX vaddr * 4"

definition addr_v2p :: "'a mmu_scheme \<Rightarrow> u32 \<Rightarrow> u32 option" where
  "addr_v2p m vaddr = do { pte \<leftarrow> vread m (pte_ptr vaddr); Some ((pte AND 0xfffff000) + (vaddr AND 0xfff)) }"

definition page_table_pte_remove :: "'a mmu_scheme \<Rightarrow> u32 \<Rightarrow> 'a mmu_scheme option" where
  "page_table_pte_remove m vaddr =
     do { pte \<leftarrow> vread m (pte_ptr vaddr); vwrite m (pte_ptr vaddr) (pte AND NOT PG_P_1) }"

section \<open>Index arithmetic\<close>

lemma unat_and_mask: "unat (a AND mask k :: u32) = unat a mod 2 ^ k"
  unfolding take_bit_eq_mask [symmetric] unsigned_take_bit_eq by (rule take_bit_eq_mod)

lemma unat_shift: "unat (drop_bit k (a :: u32)) = unat a div 2 ^ k"
  unfolding unat_drop_bit_eq by (rule drop_bit_eq_div)

lemma unat_and_not_mask: "unat (a AND NOT (mask k) :: u32) = unat a - unat a mod 2 ^ k"
proof -
  have "(a AND NOT (mask k)) + (a AND mask k) = (a AND NOT (mask k)) OR (a AND mask k)"
    by (rule disjunctive_add_eq_or) (rule bit_eqI, simp add: bit_simps)
  also have "\<dots> = a" by (rule bit_eqI) (auto simp: bit_simps)
  finally have "a AND NOT (mask k) = a - (a AND mask k)" by (simp add: eq_diff_eq)
  moreover have "a AND mask k \<le> a" by (simp add: word_le_nat_alt unat_and_mask)
  ultimately show ?thesis by (simp add: unat_minus_le unat_and_mask)
qed

lemma page_masks:
  "(0xfff :: u32) = mask 12" "(0xfffff000 :: u32) = NOT (mask 12)" "(0xffc00000 :: u32) = NOT (mask 22)"
  by (simp_all add: mask_eq_exp_minus_1)

lemma unat_page_offset: "unat (a AND 0xfff :: u32) = unat a mod 2 ^ 12"
  unfolding page_masks by (rule unat_and_mask)

lemma unat_pg_base: "unat (pg_base a) = unat a - unat a mod 2 ^ 12"
  unfolding pg_base_def page_masks by (rule unat_and_not_mask)

lemma unat_PDE_IDX: "unat (PDE_IDX a) = unat a div 2 ^ 22"
proof -
  have "unat (PDE_IDX a) = (unat a - unat a mod 2 ^ 22) div 2 ^ 22"
    unfolding PDE_IDX_def page_masks unat_shift unat_and_not_mask ..
  then show ?thesis by (simp add: minus_mod_eq_mult_div)
qed

lemma unat_PTE_IDX: "unat (PTE_IDX a) = unat a div 2 ^ 12 mod 2 ^ 10"
proof -
  have "PTE_IDX a = drop_bit 12 a AND mask 10"
    by (simp add: PTE_IDX_def mask_eq_exp_minus_1)
  then show ?thesis by (simp only: unat_and_mask unat_shift)
qed

lemma unat_less_4G: "unat (a :: u32) < 4294967296"
  using unsigned_less [of a] by simp

lemma unat_pde_ptr: "unat (pde_ptr a) = 0xfffff000 + unat a div 2 ^ 22 * 4"
proof -
  have "unat (PDE_IDX a) < 1024" using unat_less_4G [of a] by (simp add: unat_PDE_IDX less_mult_imp_div_less)
  then have "unat (PDE_IDX a * 4) = unat (PDE_IDX a) * 4" by (simp add: unat_word_ariths)
  then show ?thesis
    using \<open>unat (PDE_IDX a) < 1024\<close> unfolding pde_ptr_def
    by (subst unat_plus_lt) (simp_all add: unat_PDE_IDX)
qed

lemma unat_pte_ptr:
  "unat (pte_ptr a) = 0xffc00000 + unat a div 2 ^ 22 * 2 ^ 12 + (unat a div 2 ^ 12 mod 2 ^ 10) * 4"
proof -
  have m: "(unat a - unat a mod 4194304) div 1024 = unat a div 4194304 * 4096"
    by (simp add: minus_mod_eq_mult_div div_mult2_eq [symmetric])
  have 1: "unat (drop_bit 10 (a AND 0xffc00000)) = unat a div 2 ^ 22 * 2 ^ 12"
    unfolding page_masks unat_shift unat_and_not_mask using m by simp
  have 2: "unat (PTE_IDX a * 4) = (unat a div 2 ^ 12 mod 2 ^ 10) * 4"
    by (simp add: unat_word_ariths unat_PTE_IDX)
  have 3: "unat a div 4194304 < 1024" using unat_less_4G [of a] by (simp add: less_mult_imp_div_less)
  have 4: "unat (0xffc00000 + drop_bit 10 (a AND 0xffc00000)) = 0xffc00000 + unat a div 2 ^ 22 * 2 ^ 12"
    by (subst unat_plus_lt) (use 1 3 in simp_all)
  show ?thesis unfolding pte_ptr_def
    by (subst unat_plus_lt) (use 2 3 4 mod_less_divisor [of 1024 "unat a div 4096"] in \<open>simp_all\<close>)
qed

section \<open>The self-map\<close>

text \<open>The directory is page-aligned and its last entry maps the directory itself.\<close>

definition self_mapped :: "'a mmu_scheme \<Rightarrow> bool" where
  "self_mapped m \<longleftrightarrow> pg_base (cr3 m) = cr3 m \<and> phys m (cr3 m + 4092) AND PG_P_1 \<noteq> 0 \<and>
     pg_base (phys m (cr3 m + 4092)) = cr3 m"

lemma page_mod: "r < 4096 \<Longrightarrow> (q * 4096 + r) mod 4096 = (r :: nat)"
  by simp

lemma page_div: "r < 4096 \<Longrightarrow> (q * 4096 + r) div 4096 = (q :: nat)"
  by simp

lemma table_mod: "r < 1024 \<Longrightarrow> (q * 1024 + r) mod 1024 = (r :: nat)"
  by simp

lemma idx_pde_ptr: "PDE_IDX (pde_ptr a) = 1023" "PTE_IDX (pde_ptr a) = 1023"
  "pde_ptr a AND 0xfff = PDE_IDX a * 4"
proof -
  have d: "unat a div 4194304 < 1024" using unat_less_4G [of a] by (simp add: less_mult_imp_div_less)
  have "unat (PDE_IDX a * 4) = unat a div 4194304 * 4"
    using d by (simp add: unat_word_ariths unat_PDE_IDX)
  then show "pde_ptr a AND 0xfff = PDE_IDX a * 4"
    using d page_mod [of "unat a div 4194304 * 4" 1048575]
    by (simp add: word_unat_eq_iff unat_page_offset unat_pde_ptr)
  show "PDE_IDX (pde_ptr a) = 1023" "PTE_IDX (pde_ptr a) = 1023"
    using d page_div [of "unat a div 4194304 * 4" 1048575]
    by (simp_all add: word_unat_eq_iff unat_PDE_IDX unat_PTE_IDX unat_pde_ptr)
qed

lemma idx_pte_ptr: "PDE_IDX (pte_ptr a) = 1023" "PTE_IDX (pte_ptr a) = PDE_IDX a"
  "pte_ptr a AND 0xfff = PTE_IDX a * 4"
proof -
  define d where "d = unat a div 4194304"
  define t where "t = unat a div 4096 mod 1024"
  have d: "d < 1024" using unat_less_4G [of a] by (simp add: d_def less_mult_imp_div_less)
  have t: "t < 1024" by (simp add: t_def)
  have "unat (PTE_IDX a * 4) = t * 4"
    using t by (simp add: unat_word_ariths unat_PTE_IDX t_def)
  then show "pte_ptr a AND 0xfff = PTE_IDX a * 4"
    using t page_mod [of "t * 4" "1047552 + d"]
    by (simp add: word_unat_eq_iff unat_page_offset unat_pte_ptr algebra_simps flip: d_def t_def)
  show "PDE_IDX (pte_ptr a) = 1023"
    using d t by (simp add: word_unat_eq_iff unat_PDE_IDX unat_pte_ptr flip: d_def t_def)
  show "PTE_IDX (pte_ptr a) = PDE_IDX a"
    using d t page_div [of "t * 4" "1047552 + d"] table_mod [of d 1023]
    by (simp_all add: word_unat_eq_iff unat_PDE_IDX unat_PTE_IDX unat_pte_ptr algebra_simps flip: d_def t_def)
qed

lemma translate_pde_ptr: "self_mapped m \<Longrightarrow> translate m (pde_ptr a) = Some (walk_pde m a)"
  by (simp add: self_mapped_def translate_def walk_pde_def walk_pte_def idx_pde_ptr)

lemma translate_pte_ptr:
  "self_mapped m \<Longrightarrow>
     translate m (pte_ptr a) =
       (if phys m (walk_pde m a) AND PG_P_1 = 0 then None else Some (walk_pte m a))"
  by (simp add: self_mapped_def translate_def walk_pde_def walk_pte_def idx_pte_ptr)

section \<open>Editing one entry\<close>

text \<open>The present entries of the directory, the self-map apart, lead to tables that are not the directory. Two
  entries may lead to the same table, as the boot loader leaves them: the entries 0 and 768 of the kernel's
  directory share one.\<close>

definition pde_at :: "'a mmu_scheme \<Rightarrow> u32 \<Rightarrow> u32" where
  "pde_at m i = phys m (cr3 m + i * 4)"

definition page_tables_ok :: "'a mmu_scheme \<Rightarrow> bool" where
  "page_tables_ok m \<longleftrightarrow> self_mapped m \<and>
     (\<forall>i<1023. pde_at m i AND PG_P_1 \<noteq> 0 \<longrightarrow>
        pg_base (pde_at m i) \<noteq> cr3 m)"

text \<open>Two addresses whose pages are mapped by the same entry of the same table.\<close>

definition same_entry :: "'a mmu_scheme \<Rightarrow> u32 \<Rightarrow> u32 \<Rightarrow> bool" where
  "same_entry m a b \<longleftrightarrow> pg_base a = pg_base b \<or>
     pde_at m (PDE_IDX a) AND PG_P_1 \<noteq> 0 \<and> pde_at m (PDE_IDX b) AND PG_P_1 \<noteq> 0 \<and>
     pg_base (pde_at m (PDE_IDX a)) = pg_base (pde_at m (PDE_IDX b)) \<and> PTE_IDX a = PTE_IDX b"

lemma PDE_IDX_le: "PDE_IDX a < 1024"
  using unat_less_4G [of a] by (simp add: word_less_nat_alt unat_PDE_IDX less_mult_imp_div_less)

lemma PTE_IDX_le: "PTE_IDX a < 1024"
  by (simp add: word_less_nat_alt unat_PTE_IDX)

lemma unat_entry:
  assumes "i < 1024"
  shows "unat (pg_base x + i * 4) = unat (pg_base x) + unat i * 4" "4096 dvd unat (pg_base x)"
proof -
  have i: "unat i < 1024" using assms by (simp add: word_less_nat_alt)
  have b: "unat (pg_base x) = unat x div 4096 * 4096" by (simp add: unat_pg_base minus_mod_eq_div_mult)
  have "unat x div 4096 < 1048576" using unat_less_4G [of x] by (simp add: less_mult_imp_div_less)
  moreover have "unat (i * 4) = unat i * 4" using i by (simp add: unat_word_ariths)
  ultimately show "unat (pg_base x + i * 4) = unat (pg_base x) + unat i * 4"
    using i by (subst unat_plus_lt) (simp_all add: b)
  show "4096 dvd unat (pg_base x)" by (simp add: b)
qed

lemma entry_eq_iff:
  assumes "i < 1024" "j < 1024"
  shows "pg_base x + i * 4 = pg_base y + j * 4 \<longleftrightarrow> pg_base x = pg_base y \<and> i = j"
proof
  assume eq: "pg_base x + i * 4 = pg_base y + j * 4"
  obtain p q where b: "unat (pg_base x) = 4096 * p" "unat (pg_base y) = 4096 * q"
    using unat_entry(2) [OF assms(1)] unat_entry(2) [OF assms(2)] by (metis dvd_def)
  have i: "unat i < 1024" "unat j < 1024" using assms by (simp_all add: word_less_nat_alt)
  have "4096 * p + unat i * 4 = 4096 * q + unat j * 4"
    using eq unat_entry(1) [OF assms(1), of x] unat_entry(1) [OF assms(2), of y] b by simp
  moreover from this have "p = q"
    using page_div [of "unat i * 4" p] page_div [of "unat j * 4" q] i by (simp add: mult.commute)
  ultimately have "p = q" "unat i = unat j" by simp_all
  with b show "pg_base x = pg_base y \<and> i = j" by (simp add: word_unat_eq_iff)
qed simp

lemma page_tables_okD:
  assumes "page_tables_ok m"
  shows "self_mapped m" "pg_base (cr3 m) = cr3 m"
    "\<And>i. i < 1023 \<Longrightarrow> pde_at m i AND PG_P_1 \<noteq> 0 \<Longrightarrow> pg_base (pde_at m i) \<noteq> cr3 m"
  using assms unfolding page_tables_ok_def self_mapped_def by blast+

lemma walk_pde_at: "page_tables_ok m \<Longrightarrow> phys m (walk_pde m a) = pde_at m (PDE_IDX a)"
  by (simp add: walk_pde_def pde_at_def page_tables_okD)

lemma walk_pte_at: "page_tables_ok m \<Longrightarrow> walk_pte m a = pg_base (pde_at m (PDE_IDX a)) + PTE_IDX a * 4"
  by (simp add: walk_pte_def walk_pde_at)

lemma idx_eq_imp_page:
  assumes "PDE_IDX a = PDE_IDX b" "PTE_IDX a = PTE_IDX b"
  shows "pg_base a = pg_base b"
proof -
  have "unat x div 4096 = unat x div 4194304 * 1024 + unat x div 4096 mod 1024" for x :: u32
    using div_mult_mod_eq [of "unat x div 4096" 1024] by (simp add: div_mult2_eq [symmetric])
  then have "unat a div 4096 = unat b div 4096"
    using assms by (simp add: word_unat_eq_iff unat_PDE_IDX unat_PTE_IDX) metis
  then show ?thesis by (simp add: word_unat_eq_iff unat_pg_base minus_mod_eq_div_mult)
qed

definition put_pte :: "'a mmu_scheme \<Rightarrow> u32 \<Rightarrow> u32 \<Rightarrow> 'a mmu_scheme" where
  "put_pte m a v = m\<lparr>phys := (phys m)(walk_pte m a := v)\<rparr>"

lemma put_pte_pde_at:
  assumes "page_tables_ok m" "PDE_IDX a < 1023" "pde_at m (PDE_IDX a) AND PG_P_1 \<noteq> 0" "i < 1024"
  shows "pde_at (put_pte m a v) i = pde_at m i"
  using page_tables_okD(3) [OF assms(1-3)] entry_eq_iff [OF assms(4) PTE_IDX_le, of "cr3 m"]
    page_tables_okD(2) [OF assms(1)]
  by (auto simp: put_pte_def pde_at_def walk_pte_at [OF assms(1)])

lemma put_pte_ok:
  assumes "page_tables_ok m" "PDE_IDX a < 1023" "pde_at m (PDE_IDX a) AND PG_P_1 \<noteq> 0"
  shows "page_tables_ok (put_pte m a v)"
proof -
  have c: "cr3 (put_pte m a v) = cr3 m" by (simp add: put_pte_def)
  have lt: "i < 1024" if "i < 1023" for i :: u32 using that by (simp add: word_less_nat_alt)
  have p: "pde_at (put_pte m a v) i = pde_at m i" if "i < 1024" for i
    using put_pte_pde_at [OF assms that] .
  have "self_mapped (put_pte m a v)"
    using p [of 1023] page_tables_okD(1) [OF assms(1)] by (simp add: self_mapped_def pde_at_def c)
  with assms(1) show ?thesis by (auto simp: page_tables_ok_def p lt c)
qed

lemma put_pte_translate:
  assumes "page_tables_ok m" "PDE_IDX a < 1023" "pde_at m (PDE_IDX a) AND PG_P_1 \<noteq> 0"
  shows "translate (put_pte m a v) a = (if v AND PG_P_1 = 0 then None else Some (pg_base v + (a AND 0xfff)))"
  using assms put_pte_pde_at [OF assms PDE_IDX_le]
  by (simp add: translate_def walk_pde_at walk_pte_at put_pte_ok Let_def)
    (simp add: put_pte_def walk_pte_at)

lemma page_idx:
  assumes "pg_base a = pg_base b" shows "PDE_IDX a = PDE_IDX b" "PTE_IDX a = PTE_IDX b"
proof -
  have d: "unat a div 4096 = unat b div 4096"
    using assms by (simp add: word_unat_eq_iff unat_pg_base minus_mod_eq_div_mult)
  have "unat x div 4194304 = unat x div 4096 div 1024" for x :: u32 by (simp add: div_mult2_eq [symmetric])
  then show "PDE_IDX a = PDE_IDX b" using d by (simp add: word_unat_eq_iff unat_PDE_IDX)
  show "PTE_IDX a = PTE_IDX b" using d by (simp add: word_unat_eq_iff unat_PTE_IDX)
qed

lemma put_pte_other:
  assumes "page_tables_ok m" "PDE_IDX a < 1023" "pde_at m (PDE_IDX a) AND PG_P_1 \<noteq> 0" "PDE_IDX b < 1023"
  shows "translate (put_pte m a v) b =
    (if same_entry m a b then if v AND PG_P_1 = 0 then None else Some (pg_base v + (b AND 0xfff)) else translate m b)"
proof -
  have p: "pde_at (put_pte m a v) (PDE_IDX b) = pde_at m (PDE_IDX b)"
    using put_pte_pde_at [OF assms(1-3) PDE_IDX_le] .
  show ?thesis
  proof (cases "pde_at m (PDE_IDX b) AND PG_P_1 = 0")
    case True
    then have "\<not> same_entry m a b" using assms(3) page_idx(1) [of a b] unfolding same_entry_def by metis
    then show ?thesis using True assms p by (simp add: translate_def walk_pde_at put_pte_ok Let_def)
  next
    case False
    have "walk_pte m b = walk_pte m a \<longleftrightarrow>
        pg_base (pde_at m (PDE_IDX b)) = pg_base (pde_at m (PDE_IDX a)) \<and> PTE_IDX b = PTE_IDX a"
      unfolding walk_pte_at [OF assms(1)] by (rule entry_eq_iff [OF PTE_IDX_le PTE_IDX_le])
    then have e: "same_entry m a b \<longleftrightarrow> walk_pte m b = walk_pte m a"
      using False assms(3) page_idx [of a b] unfolding same_entry_def by metis
    show ?thesis
      unfolding e using False assms p by (simp add: translate_def walk_pde_at walk_pte_at put_pte_ok Let_def)
        (simp add: put_pte_def walk_pte_at)
  qed
qed

lemma read_pte:
  assumes "page_tables_ok m" "pde_at m (PDE_IDX a) AND PG_P_1 \<noteq> 0"
  shows "vread m (pte_ptr a) = Some (phys m (walk_pte m a))"
    "vwrite m (pte_ptr a) v = Some (put_pte m a v)"
  using assms by (simp_all add: vread_def vwrite_def translate_pte_ptr page_tables_okD walk_pde_at put_pte_def)

lemma translate_pde_present: "translate m a = Some pa \<Longrightarrow> phys m (walk_pde m a) AND PG_P_1 \<noteq> 0"
  by (simp add: translate_def Let_def split: if_splits)

lemma pte_remove_eq:
  assumes "page_tables_ok m" "pde_at m (PDE_IDX a) AND PG_P_1 \<noteq> 0"
  shows "page_table_pte_remove m a = Some (put_pte m a (phys m (walk_pte m a) AND NOT PG_P_1))"
  by (simp add: page_table_pte_remove_def read_pte [OF assms])

lemma not_P_and_P [simp]: "(x AND NOT PG_P_1) AND PG_P_1 = 0"
  by (simp add: and.assoc)

section \<open>Properties\<close>

text \<open>Property C12: with the directory mapped into its own last entry, the virtual addresses that
  \<^verbatim>\<open>pde_ptr\<close> and \<^verbatim>\<open>pte_ptr\<close> compute translate to the physical addresses of the directory entry and,
  when the page table is present, of the table entry that the MMU reads to translate \<open>a\<close>.\<close>

theorem self_map_addresses_entries:
  assumes "self_mapped m"
  shows "translate m (pde_ptr a) = Some (walk_pde m a) \<and>
         translate m (pte_ptr a) =
           (if phys m (walk_pde m a) AND PG_P_1 = 0 then None else Some (walk_pte m a))"
  using translate_pde_ptr [OF assms] translate_pte_ptr [OF assms] by simp

text \<open>A machine with the kernel's directory at 1 MB, one page table behind it, and one page.\<close>

definition mmu0 :: mmu where
  "mmu0 = \<lparr>cr3 = 0x100000,
     phys = (\<lambda>_. 0)(0x100ffc := 0x100007, 0x100000 := 0x101007, 0x101004 := 0x205007)\<rparr>"

lemma mmu0_fields [simp]:
  "cr3 mmu0 = 0x100000"
  "phys mmu0 = (\<lambda>_. 0)(0x100ffc := 0x100007, 0x100000 := 0x101007, 0x101004 := 0x205007)"
  by (simp_all add: mmu0_def)

lemma self_mapped_mmu0: "self_mapped mmu0"
  by (simp add: self_mapped_def pg_base_def PG_P_1_def)

theorem self_map_addresses_entries_witness:
  "translate mmu0 (pde_ptr 0x1234) = Some 0x100000 \<and> translate mmu0 (pte_ptr 0x1234) = Some 0x101004"
  using self_map_addresses_entries [OF self_mapped_mmu0, of "0x1234"]
  by (simp add: walk_pde_def walk_pte_def pg_base_def PDE_IDX_def PTE_IDX_def PG_P_1_def)

lemma pde_at_mmu0: "i < 1023 \<Longrightarrow> pde_at mmu0 i = (if i = 0 then 0x101007 else 0)"
proof -
  assume i: "i < 1023"
  then have "i < 1024" by (simp add: word_less_nat_alt)
  have *: "0x100000 + i * 4 = 0x100000 + j * 4 \<longleftrightarrow> i = j" if "j < 1024" for j
    using entry_eq_iff [OF \<open>i < 1024\<close> that, of "0x100000" "0x100000"] by (simp add: pg_base_def)
  have 1: "(0x100000 + i * 4 = 0x100ffc) = (i = 1023)" using * [of 1023] by simp
  have 2: "(0x100000 + i * 4 = 0x100000) = (i = 0)" using * [of 0] by simp
  have 3: "0x100000 + i * 4 \<noteq> 0x101004"
  proof
    assume eq: "0x100000 + i * 4 = 0x101004"
    have "unat (0x100000 + i * 4) = 0x100000 + unat i * 4"
      using unat_entry(1) [OF \<open>i < 1024\<close>, of "0x100000"] by (simp add: pg_base_def)
    with eq have "unat i = 1025" by simp
    with i show False by (simp add: word_less_nat_alt)
  qed
  show ?thesis unfolding pde_at_def mmu0_fields fun_upd_def 1 2 using 3 i by auto
qed

lemma page_tables_ok_mmu0: "page_tables_ok mmu0"
  unfolding page_tables_ok_def using self_mapped_mmu0
  by (auto simp: pde_at_mmu0 pg_base_def split: if_splits)

text \<open>Property C11: whenever the MMU translates an address, \<^verbatim>\<open>addr_v2p\<close> returns the same physical
  address.\<close>

theorem addr_v2p_translate:
  assumes "self_mapped m" "translate m a = Some pa"
  shows "addr_v2p m a = Some pa"
  using assms translate_pde_present [OF assms(2)]
  by (simp add: addr_v2p_def vread_def translate_pte_ptr)
    (simp add: translate_def Let_def pg_base_def split: if_splits)

theorem addr_v2p_translate_witness: "addr_v2p mmu0 0x1234 = Some 0x205234"
  by (rule addr_v2p_translate [OF self_mapped_mmu0])
    (simp add: translate_def walk_pde_def walk_pte_def pg_base_def PDE_IDX_def PTE_IDX_def PG_P_1_def)

text \<open>Property C13: in the page tables \<^verbatim>\<open>page_table_pte_remove\<close> on a mapped address clears the one entry that maps it:
  the page walk of the address fails afterwards, and so does that of an address that another entry of the directory
  leads to the same table entry; every other address is translated as before, and the tables stay well formed. (The
  TLB, of which the function flushes the entry of its own parameter's address instead of the page, is not modelled.)\<close>

theorem page_table_pte_remove_unmaps:
  assumes "page_tables_ok m" "PDE_IDX a < 1023" "translate m a = Some pa"
  shows "\<exists>m'. page_table_pte_remove m a = Some m' \<and> page_tables_ok m' \<and> translate m' a = None \<and>
           (\<forall>b. PDE_IDX b < 1023 \<longrightarrow> translate m' b = (if same_entry m a b then None else translate m b))"
proof -
  have p: "pde_at m (PDE_IDX a) AND PG_P_1 \<noteq> 0"
    using translate_pde_present [OF assms(3)] walk_pde_at [OF assms(1), of a] by simp
  show ?thesis
    using pte_remove_eq [OF assms(1) p] put_pte_ok [OF assms(1,2) p] put_pte_translate [OF assms(1,2) p]
      put_pte_other [OF assms(1,2) p] by simp
qed

theorem page_table_pte_remove_unmaps_witness:
  "\<exists>m'. page_table_pte_remove mmu0 0x1234 = Some m' \<and> page_tables_ok m' \<and> translate m' 0x1234 = None"
proof -
  have "translate mmu0 0x1234 = Some 0x205234" "PDE_IDX 0x1234 < 1023"
    by (simp_all add: translate_def walk_pde_def walk_pte_def pg_base_def PDE_IDX_def PTE_IDX_def PG_P_1_def)
  from page_table_pte_remove_unmaps [OF page_tables_ok_mmu0 this(2,1)] show ?thesis by blast
qed

end
