(* ===== verification/Kthread.thy ===== *)
theory Kthread
  imports Klist Kbitmap Kpaging
begin

text \<open>
  Threads and the scheduler: the data of \<^verbatim>\<open>src/inc/thread.h\<close> and \<^verbatim>\<open>src/inc/memory.h\<close>, and
  \<^verbatim>\<open>running_thread\<close>, \<^verbatim>\<open>schedule\<close>, \<^verbatim>\<open>thread_block\<close>, \<^verbatim>\<open>thread_unblock\<close>, \<^verbatim>\<open>thread_yield\<close>
  (\<^verbatim>\<open>src/thread/thread.c\<close>), \<^verbatim>\<open>process_activate\<close>, \<^verbatim>\<open>page_dir_activate\<close>
  (\<^verbatim>\<open>src/userproc/process.c\<close>), \<^verbatim>\<open>update_tss_esp\<close> (\<^verbatim>\<open>src/userproc/tss.c\<close>) and the timer
  (\<^verbatim>\<open>src/dev/timer.c\<close>). A thread is named by the address of its control block. The kernel lists
  are HOL lists of these addresses, which the theorems of \<open>Klist\<close> justify; kernel stacks are not
  modelled, so \<^verbatim>\<open>switch_to\<close> is the change of the running thread and \<open>schedule\<close> returns the state
  in which the next thread continues. A function that suspends its caller is given by its part up
  to the switch, with the interrupt status it will restore when it is resumed.

  The invariant \<open>sched_inv\<close> ties the status of every thread to the queue it is in. The theory shows
  that each operation keeps it and never fails an assertion, that \<open>schedule\<close> implements an abstract
  round-robin step, that no ready thread starves, and how long a time slice is.
\<close>

section \<open>Data\<close>

record virtual_addr =
  vaddr_bitmap :: bitmap
  vaddr_start :: u32

record mem_block_desc =
  block_size :: u32
  blocks_per_arena :: u32
  free_list :: "u32 list"

datatype task_status = TASK_RUNNING | TASK_READY | TASK_BLOCKED | TASK_WAITING | TASK_HANGING | TASK_DIED

record task_struct =
  self_kstack :: u32
  pid :: u16
  status :: task_status
  priority :: u8
  name :: "u8 list"
  ticks :: u8
  elapsed_ticks :: u32
  fd_table :: "u32 list"
  pgdir :: u32
  userproc_vaddr :: virtual_addr
  u_block_desc :: "mem_block_desc list"
  cwd_inode_nr :: u32
  parent_pid :: u16
  exit_status :: u8
  stack_magic :: u32

record sched = mmu +
  cpu_eflags :: u32
  esp0 :: u32
  current :: u32
  task :: "u32 \<Rightarrow> task_struct"
  thread_ready_list :: "u32 list"
  thread_all_list :: "u32 list"
  idle_thread :: u32
  main_thread :: u32
  timer_ticks :: u32

definition running_thread :: "'a sched_scheme \<Rightarrow> u32" where
  "running_thread s = current s"

definition set_task :: "u32 \<Rightarrow> (task_struct \<Rightarrow> task_struct) \<Rightarrow> 'a sched_scheme \<Rightarrow> 'a sched_scheme" where
  "set_task t f s = s\<lparr>task := (task s)(t := f (task s t))\<rparr>"

section \<open>Activating a thread\<close>

definition page_dir_activate :: "'a sched_scheme \<Rightarrow> u32 \<Rightarrow> 'a sched_scheme option" where
  "page_dir_activate s p_thread = do {
     pagedir_phy_addr \<leftarrow> (if pgdir (task s p_thread) \<noteq> 0 then addr_v2p s (pgdir (task s p_thread))
                          else Some 0x100000);
     Some (s\<lparr>cr3 := pagedir_phy_addr\<rparr>)
   }"

definition update_tss_esp :: "'a sched_scheme \<Rightarrow> u32 \<Rightarrow> 'a sched_scheme" where
  "update_tss_esp s pthread = s\<lparr>esp0 := pthread + PG_SIZE\<rparr>"

definition process_activate :: "'a sched_scheme \<Rightarrow> u32 \<Rightarrow> 'a sched_scheme option" where
  "process_activate s p_thread = do {
     ASSERT (p_thread \<noteq> 0);
     s \<leftarrow> page_dir_activate s p_thread;
     Some (if pgdir (task s p_thread) \<noteq> 0 then update_tss_esp s p_thread else s)
   }"

section \<open>The scheduler\<close>

definition blocking :: "task_status \<Rightarrow> bool" where
  "blocking st \<longleftrightarrow> st = TASK_BLOCKED \<or> st = TASK_WAITING \<or> st = TASK_HANGING"

definition thread_unblock :: "'a sched_scheme \<Rightarrow> u32 \<Rightarrow> 'a sched_scheme option" where
  "thread_unblock s pthread = do {
     let (old_status, fl) = intr_disable (cpu_eflags s);
     let s = s\<lparr>cpu_eflags := fl\<rparr>;
     ASSERT (blocking (status (task s pthread)));
     s \<leftarrow> (if status (task s pthread) \<noteq> TASK_READY
           then do {
             ASSERT (pthread \<notin> set (thread_ready_list s));
             let s = s\<lparr>thread_ready_list := pthread # thread_ready_list s\<rparr>;
             Some (set_task pthread (\<lambda>t. t\<lparr>status := TASK_READY\<rparr>) s)
           }
           else Some s);
     Some (s\<lparr>cpu_eflags := snd (intr_set_status old_status (cpu_eflags s))\<rparr>)
   }"

definition switch_to :: "'a sched_scheme \<Rightarrow> u32 \<Rightarrow> u32 \<Rightarrow> 'a sched_scheme" where
  "switch_to s cur nxt = s\<lparr>current := nxt\<rparr>"

definition schedule :: "'a sched_scheme \<Rightarrow> 'a sched_scheme option" where
  "schedule s = do {
     ASSERT (intr_get_status (cpu_eflags s) = INTR_OFF);
     let cur = running_thread s;
     s \<leftarrow> (if status (task s cur) = TASK_RUNNING
           then do {
             ASSERT (cur \<notin> set (thread_ready_list s));
             let s = s\<lparr>thread_ready_list := thread_ready_list s @ [cur]\<rparr>;
             Some (set_task cur (\<lambda>t. t\<lparr>ticks := priority t, status := TASK_READY\<rparr>) s)
           }
           else Some s);
     s \<leftarrow> (if thread_ready_list s = [] then thread_unblock s (idle_thread s) else Some s);
     ASSERT (thread_ready_list s \<noteq> []);
     let nxt = hd (thread_ready_list s);
     let s = s\<lparr>thread_ready_list := tl (thread_ready_list s)\<rparr>;
     let s = set_task nxt (\<lambda>t. t\<lparr>status := TASK_RUNNING\<rparr>) s;
     s \<leftarrow> process_activate s nxt;
     Some (switch_to s cur nxt)
   }"

text \<open>\<^verbatim>\<open>thread_block\<close> and \<^verbatim>\<open>thread_yield\<close> up to the switch: the interrupt status is the caller's, which
  it restores by \<open>thread_resume\<close> when it runs again.\<close>

definition thread_block :: "'a sched_scheme \<Rightarrow> task_status \<Rightarrow> (intr_status \<times> 'a sched_scheme) option" where
  "thread_block s stat = do {
     ASSERT (blocking stat);
     let (old_status, fl) = intr_disable (cpu_eflags s);
     let s = s\<lparr>cpu_eflags := fl\<rparr>;
     let s = set_task (running_thread s) (\<lambda>t. t\<lparr>status := stat\<rparr>) s;
     s \<leftarrow> schedule s;
     Some (old_status, s)
   }"

definition thread_yield :: "'a sched_scheme \<Rightarrow> (intr_status \<times> 'a sched_scheme) option" where
  "thread_yield s = do {
     let cur = running_thread s;
     let (old_status, fl) = intr_disable (cpu_eflags s);
     let s = s\<lparr>cpu_eflags := fl\<rparr>;
     ASSERT (cur \<notin> set (thread_ready_list s));
     let s = s\<lparr>thread_ready_list := thread_ready_list s @ [cur]\<rparr>;
     let s = set_task cur (\<lambda>t. t\<lparr>status := TASK_READY\<rparr>) s;
     s \<leftarrow> schedule s;
     Some (old_status, s)
   }"

definition thread_resume :: "intr_status \<Rightarrow> 'a sched_scheme \<Rightarrow> 'a sched_scheme" where
  "thread_resume old_status s = s\<lparr>cpu_eflags := snd (intr_set_status old_status (cpu_eflags s))\<rparr>"

section \<open>The timer\<close>

definition intr_timer_handler :: "'a sched_scheme \<Rightarrow> 'a sched_scheme option" where
  "intr_timer_handler s = do {
     let cur_thread = running_thread s;
     ASSERT (stack_magic (task s cur_thread) = 0x19870916);
     let s = set_task cur_thread (\<lambda>t. t\<lparr>elapsed_ticks := elapsed_ticks t + 1\<rparr>) s;
     let s = s\<lparr>timer_ticks := timer_ticks s + 1\<rparr>;
     if ticks (task s cur_thread) = 0 then schedule s
     else Some (set_task cur_thread (\<lambda>t. t\<lparr>ticks := ticks t - 1\<rparr>) s)
   }"

text \<open>The bytes \<^verbatim>\<open>frequency_set\<close> writes, as (port, byte) pairs in order.\<close>

definition frequency_set :: "u8 \<Rightarrow> u8 \<Rightarrow> u8 \<Rightarrow> u8 \<Rightarrow> u16 \<Rightarrow> (u16 \<times> u8) list" where
  "frequency_set counter_port counter_no rwl counter_mode counter_value =
     [(0x43, push_bit 6 counter_no OR push_bit 4 rwl OR push_bit 1 counter_mode),
      (ucast counter_port, ucast counter_value),
      (ucast counter_port, ucast (drop_bit 8 counter_value))]"

definition timer_init :: "(u16 \<times> u8) list" where
  "timer_init = frequency_set 0x40 0 3 2 (1193180 div 100)"

text \<open>The number of ticks \<^verbatim>\<open>mtime_sleep\<close> waits for, and the test of the loop of \<^verbatim>\<open>ticks_to_sleep\<close>,
  which yields as long as it holds.\<close>

definition mtime_sleep_ticks :: "u32 \<Rightarrow> u32 option" where
  "mtime_sleep_ticks m_seconds = do {
     let sleep_ticks = DIV_ROUND_UP m_seconds (1000 div 100);
     ASSERT (sleep_ticks > 0);
     Some sleep_ticks
   }"

definition ticks_to_sleep_test :: "u32 \<Rightarrow> u32 \<Rightarrow> 'a sched_scheme \<Rightarrow> bool" where
  "ticks_to_sleep_test start_tick sleep_ticks s \<longleftrightarrow> timer_ticks s - start_tick < sleep_ticks"

section \<open>The scheduler's invariant\<close>

definition sched_pre :: "'a sched_scheme \<Rightarrow> bool" where
  "sched_pre s \<longleftrightarrow>
     idle_thread s \<in> set (thread_all_list s) \<and> 0 \<notin> set (thread_all_list s) \<and>
     distinct (thread_ready_list s) \<and> set (thread_ready_list s) \<subseteq> set (thread_all_list s) \<and>
     status (task s (idle_thread s)) \<noteq> TASK_DIED \<and>
     (\<forall>t\<in>set (thread_all_list s).
        (t \<in> set (thread_ready_list s) \<longleftrightarrow> status (task s t) = TASK_READY) \<and>
        (t \<noteq> current s \<longrightarrow> status (task s t) \<noteq> TASK_RUNNING))"

definition sched_inv :: "'a sched_scheme \<Rightarrow> bool" where
  "sched_inv s \<longleftrightarrow> sched_pre s \<and> current s \<in> set (thread_all_list s) \<and>
     status (task s (current s)) = TASK_RUNNING"

text \<open>The page directories in use: in each of them the directory of every process is mapped.\<close>

definition spaces_ok :: "u32 set \<Rightarrow> 'a sched_scheme \<Rightarrow> bool" where
  "spaces_ok D s \<longleftrightarrow> cr3 s \<in> D \<and> 0x100000 \<in> D \<and>
     (\<forall>c\<in>D. \<forall>t\<in>set (thread_all_list s). pgdir (task s t) \<noteq> 0 \<longrightarrow>
        (\<exists>pa\<in>D. addr_v2p \<lparr>cr3 = c, phys = phys s\<rparr> (pgdir (task s t)) = Some pa))"

text \<open>The abstract round-robin step: the running thread goes to the end of the queue, the first
  thread of the queue runs, and the idle thread runs when the queue is empty.\<close>

definition sched_queue :: "'a sched_scheme \<Rightarrow> u32 list" where
  "sched_queue s =
     (let q = thread_ready_list s @ (if status (task s (current s)) = TASK_RUNNING then [current s] else [])
      in if q = [] then [idle_thread s] else q)"

definition sched_tasks :: "'a sched_scheme \<Rightarrow> u32 \<Rightarrow> task_struct" where
  "sched_tasks s t =
     (let p = task s t;
          p = (if t = current s \<and> status p = TASK_RUNNING
               then p\<lparr>ticks := priority p, status := TASK_READY\<rparr> else p)
      in if t = hd (sched_queue s) then p\<lparr>status := TASK_RUNNING\<rparr> else p)"

lemma set_task_fields [simp]:
  "task (set_task t f s) = (task s)(t := f (task s t))"
  "cpu_eflags (set_task t f s) = cpu_eflags s" "esp0 (set_task t f s) = esp0 s"
  "current (set_task t f s) = current s" "thread_ready_list (set_task t f s) = thread_ready_list s"
  "thread_all_list (set_task t f s) = thread_all_list s" "idle_thread (set_task t f s) = idle_thread s"
  "main_thread (set_task t f s) = main_thread s" "timer_ticks (set_task t f s) = timer_ticks s"
  "cr3 (set_task t f s) = cr3 s" "phys (set_task t f s) = phys s"
  "sched.more (set_task t f s) = sched.more s"
  by (simp_all add: set_task_def)

lemma sched_tasks_pgdir [simp]: "pgdir (sched_tasks s t) = pgdir (task s t)"
  by (simp add: sched_tasks_def Let_def)

lemma addr_v2p_plain: "addr_v2p s a = addr_v2p \<lparr>cr3 = cr3 s, phys = phys s\<rparr> a"
  by (simp add: addr_v2p_def vread_def translate_def walk_pte_def walk_pde_def)

lemma process_activate_ok:
  assumes "spaces_ok D s" "t \<in> set (thread_all_list s)" "t \<noteq> 0"
  obtains c e where "process_activate s t = Some (s\<lparr>cr3 := c, esp0 := e\<rparr>)" "c \<in> D"
proof (cases "pgdir (task s t) = 0")
  case True
  then show ?thesis
    using assms that [where c = "0x100000" and e = "esp0 s"]
    by (simp add: process_activate_def page_dir_activate_def ASSERT_bind spaces_ok_def)
next
  case False
  with assms(1,2) obtain pa where "pa \<in> D" "addr_v2p \<lparr>cr3 = cr3 s, phys = phys s\<rparr> (pgdir (task s t)) = Some pa"
    unfolding spaces_ok_def by blast
  then show ?thesis
    using False assms(3) that [where c = pa and e = "t + PG_SIZE"]
    by (simp add: process_activate_def page_dir_activate_def ASSERT_bind update_tss_esp_def addr_v2p_plain [of s])
qed

lemma unblock_eq:
  assumes "blocking (status (task s t))" "t \<notin> set (thread_ready_list s)"
  shows "thread_unblock s t =
     Some (s\<lparr>thread_ready_list := t # thread_ready_list s,
             task := (task s)(t := (task s t)\<lparr>status := TASK_READY\<rparr>)\<rparr>)"
  using assms intr_restore [of "cpu_eflags s"]
  by (auto simp: thread_unblock_def split_beta Let_def ASSERT_bind blocking_def set_task_def)

lemma sched_preD:
  assumes "sched_pre s"
  shows "idle_thread s \<in> set (thread_all_list s)" "0 \<notin> set (thread_all_list s)"
    "distinct (thread_ready_list s)" "set (thread_ready_list s) \<subseteq> set (thread_all_list s)"
    "\<And>t. t \<in> set (thread_all_list s) \<Longrightarrow>
       t \<in> set (thread_ready_list s) \<longleftrightarrow> status (task s t) = TASK_READY"
    "\<And>t. t \<in> set (thread_all_list s) \<Longrightarrow> t \<noteq> current s \<Longrightarrow> status (task s t) \<noteq> TASK_RUNNING"
    "status (task s (idle_thread s)) \<noteq> TASK_DIED"
  using assms unfolding sched_pre_def by blast+

text \<open>The two ways to a non-empty queue: a thread is ready, or the idle thread is unblocked.\<close>

lemma sched_queue_pre:
  assumes "sched_pre s"
  shows "sched_queue s \<noteq> []" "set (sched_queue s) \<subseteq> insert (current s) (set (thread_all_list s))"
    "hd (sched_queue s) \<in> set (sched_queue s)"
  using assms by (auto simp: sched_queue_def sched_pre_def Let_def)

lemma idle_blocked:
  assumes "sched_pre s" "thread_ready_list s = []" "status (task s (current s)) \<noteq> TASK_RUNNING"
  shows "blocking (status (task s (idle_thread s)))"
proof -
  let ?i = "status (task s (idle_thread s))"
  have "?i \<noteq> TASK_READY" "?i \<noteq> TASK_DIED" "?i = TASK_RUNNING \<longrightarrow> idle_thread s = current s"
    using assms(1,2) by (auto simp: sched_pre_def)
  with assms(3) show ?thesis by (cases ?i) (auto simp: blocking_def)
qed

lemma sched_tasks_upd:
  "sched_tasks s =
     (let tk = (if status (task s (current s)) = TASK_RUNNING
                then (task s)(current s := (task s (current s))
                       \<lparr>ticks := priority (task s (current s)), status := TASK_READY\<rparr>)
                else task s)
      in tk(hd (sched_queue s) := (tk (hd (sched_queue s)))\<lparr>status := TASK_RUNNING\<rparr>))"
  by (auto simp: fun_eq_iff sched_tasks_def Let_def)

lemma schedule_eq:
  assumes "sched_pre s" "spaces_ok D s" "intr_get_status (cpu_eflags s) = INTR_OFF"
    and "status (task s (current s)) = TASK_RUNNING \<longrightarrow> current s \<in> set (thread_all_list s)"
  obtains c e where "c \<in> D"
    "schedule s = Some (s\<lparr>thread_ready_list := tl (sched_queue s), task := sched_tasks s,
       cr3 := c, esp0 := e, current := hd (sched_queue s)\<rparr>)"
proof -
  let ?n = "hd (sched_queue s)"
  let ?s = "s\<lparr>thread_ready_list := tl (sched_queue s), task := sched_tasks s\<rparr>"
  have n: "?n \<in> set (thread_all_list s)" "?n \<noteq> 0"
    using assms(1,4) by (auto simp: sched_queue_def sched_pre_def Let_def hd_append split: if_splits)
      (metis hd_in_set subsetD)+
  have "spaces_ok D ?s" using assms(2) by (simp add: spaces_ok_def)
  then obtain c e where act: "process_activate ?s ?n = Some (?s\<lparr>cr3 := c, esp0 := e\<rparr>)" "c \<in> D"
    using n by (elim process_activate_ok [of D ?s ?n]) simp_all
  have "schedule s = do { s' \<leftarrow> process_activate ?s ?n; Some (switch_to s' (current s) ?n) }"
  proof (cases "status (task s (current s)) = TASK_RUNNING")
    case True
    have "current s \<notin> set (thread_ready_list s)"
      using sched_preD(5) [OF assms(1)] assms(4) True by simp
    moreover have "?n = hd (thread_ready_list s @ [current s])"
      "sched_queue s = thread_ready_list s @ [current s]" using True by (simp_all add: sched_queue_def)
    ultimately show ?thesis
      using True assms(3)
      by (simp add: schedule_def running_thread_def ASSERT_bind Let_def set_task_def sched_tasks_upd)
  next
    case False
    show ?thesis
    proof (cases "thread_ready_list s = []")
      case True
      have q: "sched_queue s = [idle_thread s]" using True False by (simp add: sched_queue_def)
      then show ?thesis
        using False True assms(3) unblock_eq [OF idle_blocked [OF assms(1) True False]]
        by (simp add: schedule_def running_thread_def ASSERT_bind Let_def set_task_def sched_tasks_upd)
    next
      case rf: False
      have q: "sched_queue s = thread_ready_list s" using rf False by (simp add: sched_queue_def)
      then show ?thesis
        using False rf assms(3)
        by (simp add: schedule_def running_thread_def ASSERT_bind Let_def set_task_def sched_tasks_upd)
    qed
  qed
  with act show thesis by (intro that [where c = c and e = e]) (simp_all add: switch_to_def)
qed

lemma sched_queue_distinct:
  assumes "sched_pre s" "status (task s (current s)) = TASK_RUNNING \<longrightarrow> current s \<in> set (thread_all_list s)"
  shows "distinct (sched_queue s)" "hd (sched_queue s) \<in> set (thread_all_list s)"
    "set (tl (sched_queue s)) =
       (set (thread_ready_list s) \<union> {t. t = current s \<and> status (task s t) = TASK_RUNNING}) - {hd (sched_queue s)}"
proof -
  have "current s \<notin> set (thread_ready_list s)" if "status (task s (current s)) = TASK_RUNNING"
    using sched_preD(5) [OF assms(1)] assms(2) that by simp
  then show d: "distinct (sched_queue s)"
    using sched_preD(3) [OF assms(1)] by (auto simp: sched_queue_def Let_def)
  have q: "sched_queue s = hd (sched_queue s) # tl (sched_queue s)"
    using sched_queue_pre(1) [OF assms(1)] by simp
  have "set (tl (sched_queue s)) = set (sched_queue s) - {hd (sched_queue s)}"
    using d by (subst (2) q, subst (asm) q) auto
  then show "set (tl (sched_queue s)) =
       (set (thread_ready_list s) \<union> {t. t = current s \<and> status (task s t) = TASK_RUNNING}) - {hd (sched_queue s)}"
    by (auto simp: sched_queue_def Let_def split: if_splits)
  show "hd (sched_queue s) \<in> set (thread_all_list s)"
  proof -
    have "set (sched_queue s) \<subseteq> set (thread_all_list s)"
      using assms(2) sched_preD(1,4) [OF assms(1)] by (auto simp: sched_queue_def Let_def)
    then show ?thesis using sched_queue_pre(3) [OF assms(1)] by blast
  qed
qed

lemma sched_tasks_status:
  "status (sched_tasks s t) =
     (if t = hd (sched_queue s) then TASK_RUNNING
      else if t = current s \<and> status (task s t) = TASK_RUNNING then TASK_READY else status (task s t))"
  by (auto simp: sched_tasks_def Let_def)

lemma schedule_sched_inv:
  fixes c e :: u32
  assumes "sched_pre s"
    and "status (task s (current s)) = TASK_RUNNING \<longrightarrow> current s \<in> set (thread_all_list s)"
  defines "s' \<equiv> s\<lparr>thread_ready_list := tl (sched_queue s), task := sched_tasks s,
       cr3 := c, esp0 := e, current := hd (sched_queue s)\<rparr>"
  shows "sched_inv s'"
proof -
  note q = sched_queue_distinct [OF assms(1,2)] and p = sched_preD [OF assms(1)]
  have all: "(t \<in> set (tl (sched_queue s)) \<longleftrightarrow> status (sched_tasks s t) = TASK_READY) \<and>
             (t \<noteq> hd (sched_queue s) \<longrightarrow> status (sched_tasks s t) \<noteq> TASK_RUNNING)"
    if "t \<in> set (thread_all_list s)" for t
    using p(5,6) [OF that] by (simp add: q(3) sched_tasks_status) blast
  have "set (tl (sched_queue s)) \<subseteq> set (thread_all_list s)"
    using p(4) assms(2) unfolding q(3) by auto
  moreover have "distinct (tl (sched_queue s))" using q(1) by (rule distinct_tl)
  moreover have "status (sched_tasks s (idle_thread s)) \<noteq> TASK_DIED"
    using p(7) by (simp add: sched_tasks_status)
  moreover have f: "thread_ready_list s' = tl (sched_queue s)" "task s' = sched_tasks s"
    "current s' = hd (sched_queue s)" "thread_all_list s' = thread_all_list s" "idle_thread s' = idle_thread s"
    by (simp_all add: s'_def)
  moreover have "status (sched_tasks s (hd (sched_queue s))) = TASK_RUNNING"
    by (simp add: sched_tasks_status)
  ultimately show "sched_inv s'"
    unfolding sched_inv_def sched_pre_def f using p(1,2) all q(2) by blast
qed

lemma schedule_inv:
  fixes c e :: u32
  assumes "sched_pre s" "spaces_ok D s"
    and "status (task s (current s)) = TASK_RUNNING \<longrightarrow> current s \<in> set (thread_all_list s)" "c \<in> D"
  defines "s' \<equiv> s\<lparr>thread_ready_list := tl (sched_queue s), task := sched_tasks s,
       cr3 := c, esp0 := e, current := hd (sched_queue s)\<rparr>"
  shows "sched_inv s'" "spaces_ok D s'"
  using schedule_sched_inv [OF assms(1,3)] assms(2,4) by (simp_all add: s'_def spaces_ok_def)

text \<open>A call of \<open>schedule\<close> that returns has made the abstract step, whatever the page tables are.\<close>

lemma schedule_SomeD:
  assumes "sched_pre s" "status (task s (current s)) = TASK_RUNNING \<longrightarrow> current s \<in> set (thread_all_list s)" "schedule s = Some s'"
  obtains c e where "s' = s\<lparr>thread_ready_list := tl (sched_queue s), task := sched_tasks s,
       cr3 := c, esp0 := e, current := hd (sched_queue s)\<rparr>"
proof -
  have act: "\<exists>c e. s2 = s1\<lparr>cr3 := c, esp0 := e\<rparr>" if "process_activate s1 t = Some s2" for s1 s2 :: "'a sched_scheme" and t
  proof -
    note d = that [unfolded process_activate_def page_dir_activate_def update_tss_esp_def]
    show ?thesis
    proof (cases "pgdir (task s1 t) = 0")
      case True
      then have "s2 = s1\<lparr>cr3 := 0x100000\<rparr>" using d by (simp add: Option.bind_eq_Some_conv)
      then have "s2 = s1\<lparr>cr3 := 0x100000, esp0 := esp0 s1\<rparr>" by simp
      then show ?thesis by blast
    next
      case False
      then obtain c where "s2 = s1\<lparr>cr3 := c, esp0 := t + PG_SIZE\<rparr>" using d by (auto simp: Option.bind_eq_Some_conv)
      then show ?thesis by blast
    qed
  qed
  let ?s = "s\<lparr>thread_ready_list := tl (sched_queue s), task := sched_tasks s\<rparr>"
  have "process_activate ?s (hd (sched_queue s)) \<bind> (\<lambda>s2. Some (switch_to s2 (current s) (hd (sched_queue s)))) = Some s'"
  proof (cases "status (task s (current s)) = TASK_RUNNING")
    case True
    then have "sched_queue s = thread_ready_list s @ [current s]" by (simp add: sched_queue_def)
    then show ?thesis using assms(3) True
      by (auto simp: schedule_def running_thread_def sched_tasks_upd Let_def ASSERT_def set_task_def Option.bind_eq_Some_conv split: if_splits)
  next
    case False
    show ?thesis
    proof (cases "thread_ready_list s = []")
      case True
      then have q: "sched_queue s = [idle_thread s]" using False by (simp add: sched_queue_def)
      have "thread_unblock s (idle_thread s) = Some (s\<lparr>thread_ready_list := [idle_thread s],
             task := (task s)(idle_thread s := (task s (idle_thread s))\<lparr>status := TASK_READY\<rparr>)\<rparr>)"
        using unblock_eq [OF idle_blocked [OF assms(1) True False]] True by simp
      then show ?thesis using assms(3) False True q
        by (auto simp: schedule_def running_thread_def sched_tasks_upd Let_def ASSERT_def set_task_def Option.bind_eq_Some_conv split: if_splits)
    next
      case ne: False
      then have "sched_queue s = thread_ready_list s" using False by (simp add: sched_queue_def Let_def)
      then show ?thesis using assms(3) False ne
        by (auto simp: schedule_def running_thread_def sched_tasks_upd Let_def ASSERT_def set_task_def Option.bind_eq_Some_conv split: if_splits)
    qed
  qed
  then show thesis using that act by (fastforce simp: switch_to_def Option.bind_eq_Some_conv)
qed

section \<open>The operations keep the invariant\<close>

lemma sched_invD:
  assumes "sched_inv s"
  shows "sched_pre s" "current s \<in> set (thread_all_list s)" "status (task s (current s)) = TASK_RUNNING"
    "current s \<notin> set (thread_ready_list s)"
  using assms sched_preD(5) [of s "current s"] by (auto simp: sched_inv_def)

lemma sched_queue_inv:
  "sched_inv s \<Longrightarrow> sched_queue s = thread_ready_list s @ [current s]"
  by (simp add: sched_queue_def sched_invD)

lemma schedule_running:
  assumes "sched_inv s" "spaces_ok D s" "intr_get_status (cpu_eflags s) = INTR_OFF"
  obtains s' where "schedule s = Some s'" "sched_inv s'" "spaces_ok D s'" "cpu_eflags s' = cpu_eflags s"
    "current s' # thread_ready_list s' = rotate1 (current s # thread_ready_list s)"
    "task s' = sched_tasks s" "thread_all_list s' = thread_all_list s"
    "idle_thread s' = idle_thread s" "sched.more s' = sched.more s"
proof -
  note inv = sched_invD [OF assms(1)]
  obtain c e where c: "c \<in> D" "schedule s = Some (s\<lparr>thread_ready_list := tl (sched_queue s),
      task := sched_tasks s, cr3 := c, esp0 := e, current := hd (sched_queue s)\<rparr>)"
    using schedule_eq [OF inv(1) assms(2,3)] inv(2) by metis
  show thesis
    using schedule_inv [OF inv(1) assms(2) _ c(1)] inv(2) sched_queue_inv [OF assms(1)]
    by (intro that [OF c(2)]) (auto simp: rotate1_hd_tl)
qed

text \<open>Marking the running thread blocked, or ready and last in the queue, is a state from which
  \<open>schedule\<close> runs.\<close>

lemma leave_cpu_pre:
  assumes "sched_inv s" "blocking st"
  shows "sched_pre (set_task (current s) (\<lambda>t. t\<lparr>status := st\<rparr>) (s\<lparr>cpu_eflags := fl\<rparr>))"
proof -
  note p = sched_preD [OF sched_invD(1) [OF assms(1)]]
  have "st \<noteq> TASK_READY" "st \<noteq> TASK_RUNNING" "st \<noteq> TASK_DIED" using assms(2) by (auto simp: blocking_def)
  then show ?thesis
    using p(1-4,7) p(5,6) sched_invD(4) [OF assms(1)] by (auto simp: sched_pre_def)
qed

lemma yield_pre:
  assumes "sched_inv s"
  shows "sched_pre (set_task (current s) (\<lambda>t. t\<lparr>status := TASK_READY\<rparr>)
           (s\<lparr>cpu_eflags := fl, thread_ready_list := thread_ready_list s @ [current s]\<rparr>))"
  using sched_preD [OF sched_invD(1) [OF assms]] sched_invD [OF assms] by (auto simp: sched_pre_def)

lemma unblock_inv:
  assumes "sched_inv s" "t \<in> set (thread_all_list s)" "blocking (status (task s t))"
  shows "t \<notin> set (thread_ready_list s)"
    "sched_inv (s\<lparr>thread_ready_list := t # thread_ready_list s,
       task := (task s)(t := (task s t)\<lparr>status := TASK_READY\<rparr>)\<rparr>)"
proof -
  note p = sched_preD [OF sched_invD(1) [OF assms(1)]] and i = sched_invD [OF assms(1)]
  have st: "status (task s t) \<noteq> TASK_READY" "status (task s t) \<noteq> TASK_RUNNING" "t \<noteq> current s"
    using assms(3) i(3) by (auto simp: blocking_def)
  then show r: "t \<notin> set (thread_ready_list s)" using p(5) [OF assms(2)] by simp
  show "sched_inv (s\<lparr>thread_ready_list := t # thread_ready_list s,
       task := (task s)(t := (task s t)\<lparr>status := TASK_READY\<rparr>)\<rparr>)"
    using p(1-4,7) p(5,6) i st r assms(2) by (auto simp: sched_inv_def sched_pre_def)
qed

lemma spaces_ok_cong:
  "spaces_ok D s \<Longrightarrow> cr3 s' = cr3 s \<Longrightarrow> phys s' = phys s \<Longrightarrow> thread_all_list s' = thread_all_list s \<Longrightarrow>
     (\<And>t. pgdir (task s' t) = pgdir (task s t)) \<Longrightarrow> spaces_ok D s'"
  by (simp add: spaces_ok_def)

lemma unblock_running:
  assumes "sched_inv s" "t \<in> set (thread_all_list s)" "blocking (status (task s t))"
  obtains s' where "thread_unblock s t = Some s'" "sched_inv s'"
    "thread_ready_list s' = t # thread_ready_list s" "current s' = current s"
    "task s' = (task s)(t := (task s t)\<lparr>status := TASK_READY\<rparr>)" "cpu_eflags s' = cpu_eflags s"
    "thread_all_list s' = thread_all_list s" "cr3 s' = cr3 s" "phys s' = phys s"
    "idle_thread s' = idle_thread s" "sched.more s' = sched.more s"
  using that [OF unblock_eq [OF assms(3)]] unblock_inv [OF assms] by simp

lemma block_running:
  assumes "sched_inv s" "spaces_ok D s" "blocking st"
  obtains s' where "thread_block s st = Some (intr_get_status (cpu_eflags s), s')" "sched_inv s'" "spaces_ok D s'"
    "current s' # thread_ready_list s' = (if thread_ready_list s = [] then [idle_thread s] else thread_ready_list s)"
    "current s' \<noteq> current s \<longrightarrow> status (task s' (current s)) = st"
    "intr_get_status (cpu_eflags s') = INTR_OFF" "thread_all_list s' = thread_all_list s"
    "\<And>t. t \<noteq> current s \<Longrightarrow> t \<noteq> current s' \<Longrightarrow> task s' t = task s t"
    "idle_thread s' = idle_thread s" "sched.more s' = sched.more s"
proof -
  let ?s = "set_task (current s) (\<lambda>t. t\<lparr>status := st\<rparr>) (s\<lparr>cpu_eflags := snd (intr_disable (cpu_eflags s))\<rparr>)"
  have st: "st \<noteq> TASK_RUNNING" using assms(3) by (auto simp: blocking_def)
  have pre: "sched_pre ?s" "spaces_ok D ?s" "intr_get_status (cpu_eflags ?s) = INTR_OFF"
    "status (task ?s (current ?s)) = TASK_RUNNING \<longrightarrow> current ?s \<in> set (thread_all_list ?s)"
    using leave_cpu_pre [OF assms(1,3)] spaces_ok_cong [OF assms(2), of ?s] intr_disable_off st by simp_all
  obtain c e where c: "c \<in> D" "schedule ?s = Some (?s\<lparr>thread_ready_list := tl (sched_queue ?s),
      task := sched_tasks ?s, cr3 := c, esp0 := e, current := hd (sched_queue ?s)\<rparr>)"
    by (rule schedule_eq [OF pre])
  have q: "sched_queue ?s = (if thread_ready_list s = [] then [idle_thread s] else thread_ready_list s)"
    using st by (simp add: sched_queue_def Let_def)
  have b: "thread_block s st = Some (intr_get_status (cpu_eflags s), ?s\<lparr>thread_ready_list := tl (sched_queue ?s),
      task := sched_tasks ?s, cr3 := c, esp0 := e, current := hd (sched_queue ?s)\<rparr>)"
    using assms(3) c(2)
    by (simp add: thread_block_def running_thread_def split_beta ASSERT_bind Let_def intr_disable_fst)
  show thesis
    by (rule that [OF b schedule_inv [OF pre(1,2,4) c(1), of e]])
      (use q pre(3) st in \<open>auto simp: sched_tasks_def Let_def\<close>)
qed

lemma yield_running:
  assumes "sched_inv s" "spaces_ok D s"
  obtains s' where "thread_yield s = Some (intr_get_status (cpu_eflags s), s')" "sched_inv s'" "spaces_ok D s'"
    "current s' # thread_ready_list s' = rotate1 (current s # thread_ready_list s)"
proof -
  let ?s = "set_task (current s) (\<lambda>t. t\<lparr>status := TASK_READY\<rparr>)
    (s\<lparr>cpu_eflags := snd (intr_disable (cpu_eflags s)), thread_ready_list := thread_ready_list s @ [current s]\<rparr>)"
  have pre: "sched_pre ?s" "spaces_ok D ?s" "intr_get_status (cpu_eflags ?s) = INTR_OFF"
    "status (task ?s (current ?s)) = TASK_RUNNING \<longrightarrow> current ?s \<in> set (thread_all_list ?s)"
    using yield_pre [OF assms(1)] spaces_ok_cong [OF assms(2), of ?s] intr_disable_off by simp_all
  obtain c e where c: "c \<in> D" "schedule ?s = Some (?s\<lparr>thread_ready_list := tl (sched_queue ?s),
      task := sched_tasks ?s, cr3 := c, esp0 := e, current := hd (sched_queue ?s)\<rparr>)"
    by (rule schedule_eq [OF pre])
  have q: "sched_queue ?s = thread_ready_list s @ [current s]" by (simp add: sched_queue_def)
  have y: "thread_yield s = Some (intr_get_status (cpu_eflags s), ?s\<lparr>thread_ready_list := tl (sched_queue ?s),
      task := sched_tasks ?s, cr3 := c, esp0 := e, current := hd (sched_queue ?s)\<rparr>)"
    using sched_invD(4) [OF assms(1)] c(2)
    by (simp add: thread_yield_def running_thread_def split_beta ASSERT_bind Let_def intr_disable_fst)
  show thesis
    by (rule that [OF y schedule_inv [OF pre(1,2,4) c(1), of e]]) (simp add: q)
qed

section \<open>Properties\<close>

text \<open>A state with three kernel threads, one running and two ready, for the witnesses.\<close>

definition task0 :: task_struct where
  "task0 = \<lparr>self_kstack = 0, pid = 0, status = TASK_READY, priority = 31, name = [], ticks = 2,
     elapsed_ticks = 0, fd_table = [], pgdir = 0,
     userproc_vaddr = \<lparr>vaddr_bitmap = \<lparr>btmp_bytes_len = 0, bits = (\<lambda>_. 0)\<rparr>, vaddr_start = 0\<rparr>,
     u_block_desc = [], cwd_inode_nr = 0, parent_pid = -1, exit_status = 0, stack_magic = 0x19870916\<rparr>"

definition sched0 :: sched where
  "sched0 = \<lparr>cr3 = 0x100000, phys = (\<lambda>_. 0), cpu_eflags = 0, esp0 = 0, current = 0x2000,
     task = (\<lambda>_. task0)(0x2000 := task0\<lparr>status := TASK_RUNNING\<rparr>),
     thread_ready_list = [0x3000, 0x1000], thread_all_list = [0x1000, 0x2000, 0x3000],
     idle_thread = 0x1000, main_thread = 0x2000, timer_ticks = 0\<rparr>"

lemma sched0_ok: "sched_inv sched0" "spaces_ok {0x100000} sched0" "intr_get_status (cpu_eflags sched0) = INTR_OFF"
  by (simp_all add: sched_inv_def sched_pre_def spaces_ok_def sched0_def task0_def intr_get_status_def)

fun schedules :: "nat \<Rightarrow> 'a sched_scheme \<Rightarrow> 'a sched_scheme option" where
  "schedules 0 s = Some s"
| "schedules (Suc n) s = do { s \<leftarrow> schedule s; schedules n s }"

text \<open>Property C17: from a well-formed state with interrupts off, any number of calls of \<^verbatim>\<open>schedule\<close>
  return (no assertion fails), keep the invariant, and rotate the queue of the running thread and the
  ready threads: the thread at position \<open>k\<close> of the ready list runs after \<open>k + 1\<close> calls.\<close>

theorem schedule_round_robin:
  assumes "sched_inv s" "spaces_ok D s" "intr_get_status (cpu_eflags s) = INTR_OFF"
  shows "\<exists>s'. schedules n s = Some s' \<and> sched_inv s' \<and>
           current s' # thread_ready_list s' = rotate n (current s # thread_ready_list s)"
  using assms
proof (induction n arbitrary: s)
  case (Suc n)
  obtain s1 where s1: "schedule s = Some s1" "sched_inv s1" "spaces_ok D s1" "cpu_eflags s1 = cpu_eflags s"
    "current s1 # thread_ready_list s1 = rotate1 (current s # thread_ready_list s)"
    by (rule schedule_running [OF Suc.prems])
  then show ?case using Suc.IH [OF s1(2,3)] Suc.prems(3) by (simp add: rotate1_rotate_swap)
qed simp

theorem schedule_round_robin_witness: "\<exists>s'. schedules 2 sched0 = Some s' \<and> current s' = 0x1000"
  using schedule_round_robin [OF sched0_ok, of 2] by (auto simp: sched0_def numeral_2_eq_2)

text \<open>Remark: a thread that blocks leaves the CPU to the first ready thread, or to the idle
  thread when none is ready; it is in no queue and keeps the status it blocked with until it is
  unblocked; interrupts are off at the switch, and no assertion fails.\<close>

theorem thread_block_leaves_cpu:
  assumes "sched_inv s" "spaces_ok D s" "blocking st" "current s \<noteq> idle_thread s"
  shows "\<exists>s'. thread_block s st = Some (intr_get_status (cpu_eflags s), s') \<and> sched_inv s' \<and>
           current s' = hd (thread_ready_list s @ [idle_thread s]) \<and>
           current s \<notin> set (current s' # thread_ready_list s') \<and> status (task s' (current s)) = st \<and>
           intr_get_status (cpu_eflags s') = INTR_OFF"
proof -
  obtain s' where s': "thread_block s st = Some (intr_get_status (cpu_eflags s), s')" "sched_inv s'"
    "current s' # thread_ready_list s' = (if thread_ready_list s = [] then [idle_thread s] else thread_ready_list s)"
    "current s' \<noteq> current s \<longrightarrow> status (task s' (current s)) = st"
    "intr_get_status (cpu_eflags s') = INTR_OFF"
    by (rule block_running [OF assms(1-3)])
  have "current s \<notin> set (current s' # thread_ready_list s')"
    using sched_invD(4) [OF assms(1)] assms(4) unfolding s'(3) by auto
  moreover have "current s' = hd (thread_ready_list s @ [idle_thread s])"
    using s'(3) by (cases "thread_ready_list s") auto
  ultimately show ?thesis using s' by auto
qed

theorem thread_block_leaves_cpu_witness:
  "\<exists>old s'. thread_block sched0 TASK_BLOCKED = Some (old, s') \<and> current s' = 0x3000"
  using thread_block_leaves_cpu [OF sched0_ok(1,2), of TASK_BLOCKED]
  by (force simp: blocking_def sched0_def)

text \<open>Remark: unblocking a thread that is blocked, waiting or hanging puts it first in the ready
  list, so that it is the next to run, and leaves the running thread and the interrupt flag alone.\<close>

theorem thread_unblock_runs_next:
  assumes "sched_inv s" "t \<in> set (thread_all_list s)" "blocking (status (task s t))"
  shows "\<exists>s'. thread_unblock s t = Some s' \<and> sched_inv s' \<and> thread_ready_list s' = t # thread_ready_list s \<and>
           current s' = current s \<and> status (task s' t) = TASK_READY \<and> cpu_eflags s' = cpu_eflags s \<and>
           (\<forall>u. u \<noteq> t \<longrightarrow> task s' u = task s u)"
proof -
  obtain s' where "thread_unblock s t = Some s'" "sched_inv s'"
    "thread_ready_list s' = t # thread_ready_list s" "current s' = current s"
    "task s' = (task s)(t := (task s t)\<lparr>status := TASK_READY\<rparr>)" "cpu_eflags s' = cpu_eflags s"
    by (rule unblock_running [OF assms])
  then show ?thesis by auto
qed

definition sched1 :: sched where
  "sched1 = sched0\<lparr>task := (task sched0)(0x3000 := task0\<lparr>status := TASK_WAITING\<rparr>), thread_ready_list := [0x1000]\<rparr>"

theorem thread_unblock_runs_next_witness:
  "\<exists>s'. thread_unblock sched1 0x3000 = Some s' \<and> thread_ready_list s' = [0x3000, 0x1000]"
  using thread_unblock_runs_next [of sched1 "0x3000"]
  by (force simp: sched1_def sched0_def sched_inv_def sched_pre_def task0_def blocking_def)

text \<open>Remark: \<^verbatim>\<open>thread_yield\<close> behaves like the end of a time slice: the caller goes to the end of
  the ready list and the first ready thread runs.\<close>

theorem thread_yield_rotates:
  assumes "sched_inv s" "spaces_ok D s"
  shows "\<exists>s'. thread_yield s = Some (intr_get_status (cpu_eflags s), s') \<and> sched_inv s' \<and>
           current s' # thread_ready_list s' = rotate1 (current s # thread_ready_list s)"
  using yield_running [OF assms] by metis

theorem thread_yield_rotates_witness: "\<exists>old s'. thread_yield sched0 = Some (old, s') \<and> current s' = 0x3000"
  using thread_yield_rotates [OF sched0_ok(1,2)] by (auto simp: sched0_def)

fun timer_irqs :: "nat \<Rightarrow> 'a sched_scheme \<Rightarrow> 'a sched_scheme option" where
  "timer_irqs 0 s = Some s"
| "timer_irqs (Suc n) s = do { s \<leftarrow> intr_timer_handler s; timer_irqs n s }"

text \<open>A tick within the time slice, as an update of the state; the queues do not change.\<close>

definition tick :: "'a sched_scheme \<Rightarrow> 'a sched_scheme" where
  "tick s = (set_task (current s) (\<lambda>t. t\<lparr>elapsed_ticks := elapsed_ticks t + 1, ticks := ticks t - 1\<rparr>) s)
     \<lparr>timer_ticks := timer_ticks s + 1\<rparr>"

lemma handler_in_slice:
  "stack_magic (task s (current s)) = 0x19870916 \<Longrightarrow> ticks (task s (current s)) \<noteq> 0 \<Longrightarrow>
     intr_timer_handler s = Some (tick s)"
  by (simp add: intr_timer_handler_def running_thread_def Let_def tick_def set_task_def)

lemma sched_inv_cong:
  "sched_inv s \<Longrightarrow> current s' = current s \<Longrightarrow> thread_ready_list s' = thread_ready_list s \<Longrightarrow>
   thread_all_list s' = thread_all_list s \<Longrightarrow> idle_thread s' = idle_thread s \<Longrightarrow>
   (\<And>t. status (task s' t) = status (task s t)) \<Longrightarrow> sched_inv s'"
  by (simp add: sched_inv_def sched_pre_def)

lemma tick_inv: "sched_inv s \<Longrightarrow> sched_inv (tick s)" "spaces_ok D s \<Longrightarrow> spaces_ok D (tick s)"
  by (erule sched_inv_cong, simp_all add: tick_def) (erule spaces_ok_cong, simp_all)

lemma slice_ticks:
  assumes "sched_inv s" "spaces_ok D s" "stack_magic (task s (current s)) = 0x19870916"
    and "n \<le> unat (ticks (task s (current s)))"
  shows "\<exists>s'. timer_irqs n s = Some s' \<and> sched_inv s' \<and> spaces_ok D s' \<and> current s' = current s \<and>
     thread_ready_list s' = thread_ready_list s \<and> cpu_eflags s' = cpu_eflags s \<and>
     task s' (current s) = (task s (current s))
       \<lparr>elapsed_ticks := elapsed_ticks (task s (current s)) + of_nat n,
        ticks := ticks (task s (current s)) - of_nat n\<rparr>"
  using assms
proof (induction n arbitrary: s)
  case (Suc n)
  let ?t = "ticks (task s (current s))"
  have t: "?t \<noteq> 0" using Suc.prems(4) by auto
  then have "unat (?t - 1) = unat ?t - 1" by (simp add: unat_minus_one)
  then have "n \<le> unat (ticks (task (tick s) (current (tick s))))"
    using Suc.prems(4) by (simp add: tick_def)
  then show ?case
    using Suc.IH [OF tick_inv(1) [OF Suc.prems(1)] tick_inv(2) [OF Suc.prems(2)]] Suc.prems(3) t
      handler_in_slice [of s]
    by (simp add: tick_def algebra_simps)
qed simp

text \<open>Remark: a time slice lasts exactly as many timer interrupts as the thread has ticks left:
  during them the thread keeps the CPU and its \<^verbatim>\<open>elapsed_ticks\<close> counts them; the next interrupt gives
  the CPU to the next thread of the queue and refills the slice from the priority.\<close>

theorem timer_slice:
  assumes "sched_inv s" "spaces_ok D s" "intr_get_status (cpu_eflags s) = INTR_OFF"
    and "stack_magic (task s (current s)) = 0x19870916"
  shows "\<exists>s' s''. timer_irqs (unat (ticks (task s (current s)))) s = Some s' \<and> current s' = current s \<and>
     intr_timer_handler s' = Some s'' \<and> sched_inv s'' \<and>
     current s'' = hd (thread_ready_list s @ [current s]) \<and>
     elapsed_ticks (task s'' (current s)) =
       elapsed_ticks (task s (current s)) + of_nat (unat (ticks (task s (current s)))) + 1 \<and>
     ticks (task s'' (current s)) = priority (task s (current s))"
proof -
  obtain s' where s': "timer_irqs (unat (ticks (task s (current s)))) s = Some s'" "sched_inv s'"
    "spaces_ok D s'" "current s' = current s" "thread_ready_list s' = thread_ready_list s"
    "cpu_eflags s' = cpu_eflags s"
    "task s' (current s) = (task s (current s))
       \<lparr>elapsed_ticks := elapsed_ticks (task s (current s)) + of_nat (unat (ticks (task s (current s)))),
        ticks := 0\<rparr>"
    using slice_ticks [OF assms(1,2,4) order_refl] by auto
  let ?s = "(set_task (current s') (\<lambda>t. t\<lparr>elapsed_ticks := elapsed_ticks t + 1\<rparr>) s')
     \<lparr>timer_ticks := timer_ticks s' + 1\<rparr>"
  have inv: "sched_inv ?s" "spaces_ok D ?s" "intr_get_status (cpu_eflags ?s) = INTR_OFF"
    using sched_inv_cong [OF s'(2), of ?s] spaces_ok_cong [OF s'(3), of ?s] s'(6) assms(3) by simp_all
  obtain s'' where s'': "schedule ?s = Some s''" "sched_inv s''"
    "current s'' # thread_ready_list s'' = rotate1 (current ?s # thread_ready_list ?s)" "task s'' = sched_tasks ?s"
    by (rule schedule_running [OF inv])
  have "current s'' = hd (thread_ready_list s @ [current s])"
    using s''(3) s'(4,5) by (cases "thread_ready_list s") auto
  moreover have "intr_timer_handler s' = Some s''"
    using s''(1) s'(4,7) assms(4) by (simp add: intr_timer_handler_def running_thread_def Let_def)
  moreover have "status (task s' (current s')) = TASK_RUNNING" using sched_invD(3) [OF s'(2)] .
  ultimately show ?thesis
    using s'(1,4,7) s''(2,4) by (auto simp: sched_tasks_def Let_def)
qed

theorem timer_slice_witness:
  "\<exists>s' s''. timer_irqs 2 sched0 = Some s' \<and> intr_timer_handler s' = Some s'' \<and> current s'' = 0x3000"
  using timer_slice [OF sched0_ok] by (auto simp: sched0_def task0_def)

text \<open>Remark: the loop test of \<^verbatim>\<open>ticks_to_sleep\<close> counts elapsed ticks correctly even when the
  32-bit tick counter wraps around: \<open>d\<close> ticks after the start it is true iff \<open>d\<close> is less than the
  ticks to wait, and the wait covers the requested milliseconds.\<close>

theorem sleep_waits_long_enough:
  assumes "timer_ticks s = start + of_nat d" "d < 2 ^ 32" "0 < ms" "unat ms + 9 < 2 ^ 32"
  shows "\<exists>n. mtime_sleep_ticks ms = Some n \<and> (ticks_to_sleep_test start n s \<longleftrightarrow> d < unat n) \<and>
           unat ms \<le> 10 * unat n \<and> 10 * unat n < unat ms + 10"
proof -
  have n: "unat (DIV_ROUND_UP ms 10) = (unat ms + 9) div 10"
  proof -
    have "ms + 10 - 1 = ms + 9" by (simp flip: add_diff_eq)
    moreover have "unat (ms + 9) = unat ms + 9" using assms(4) unat_plus_lt [of ms 9] by simp
    ultimately have "unat (ms + 10 - 1) = unat ms + 9" by (simp only:)
    then show ?thesis by (simp add: DIV_ROUND_UP_def unat_div_distrib)
  qed
  have pos: "0 < unat ms" using assms(3) by (simp add: word_less_nat_alt)
  then have "0 < (unat ms + 9) div 10" by (simp add: div_greater_zero_iff)
  then have "0 < DIV_ROUND_UP ms 10" by (simp add: word_less_nat_alt n)
  moreover have "ticks_to_sleep_test start (DIV_ROUND_UP ms 10) s \<longleftrightarrow> d < unat (DIV_ROUND_UP ms 10)"
    using assms(1,2) by (simp add: ticks_to_sleep_test_def word_less_nat_alt unat_of_nat_lt)
  ultimately show ?thesis
    by (simp add: mtime_sleep_ticks_def ASSERT_bind n) linarith
qed

theorem sleep_waits_long_enough_witness:
  "\<exists>n. mtime_sleep_ticks 25 = Some n \<and> \<not> ticks_to_sleep_test (-1) n (sched0\<lparr>timer_ticks := 2\<rparr>)"
  using sleep_waits_long_enough [of "sched0\<lparr>timer_ticks := 2\<rparr>" "-1" 3 25]
  by (auto simp: word_less_nat_alt)

end
