(* ===== verification/Ksync.thy ===== *)
theory Ksync
  imports Kthread
begin

text \<open>
  Semaphores and locks (\<^verbatim>\<open>src/thread/sync.c\<close>, \<^verbatim>\<open>src/inc/sync.h\<close>). \<^verbatim>\<open>sema_down\<close> either returns
  or suspends its caller inside \<^verbatim>\<open>thread_block\<close>; a caller that runs again continues at the head of
  the loop of \<^verbatim>\<open>sema_down\<close>. The theory puts the operations into a system of threads that share one
  lock: a step relation in which the running thread takes the next piece of \<^verbatim>\<open>lock_acquire\<close> or
  \<^verbatim>\<open>lock_release\<close> (the pieces are the parts that run with interrupts off, and what is between
  them), is preempted, yields, blocks or wakes threads for other reasons. By rule induction over its
  steps: no assertion ever fails, at most one thread is between acquire and release, nested
  acquires are counted, and no wake-up is lost.
\<close>

section \<open>Operations\<close>

record semaphore =
  "value" :: u8
  waiters :: "u32 list"

record lock =
  holder :: u32
  lock_sema :: semaphore
  holder_repeat_nr :: u32

datatype outcome = Returned | Suspended

definition sema_init :: "u8 \<Rightarrow> semaphore" where
  "sema_init v = \<lparr>value = v, waiters = []\<rparr>"

text \<open>The loop of \<^verbatim>\<open>sema_down\<close> from its test on, in the caller that entered with interrupt status
  \<open>old_status\<close>.\<close>

definition sema_down_loop ::
  "intr_status \<Rightarrow> semaphore \<Rightarrow> 'a sched_scheme \<Rightarrow> (outcome \<times> semaphore \<times> 'a sched_scheme) option" where
  "sema_down_loop old_status psema s =
     (if value psema = 0 then do {
        ASSERT (running_thread s \<notin> set (waiters psema));
        let psema = psema\<lparr>waiters := waiters psema @ [running_thread s]\<rparr>;
        (_, s) \<leftarrow> thread_block s TASK_BLOCKED;
        Some (Suspended, psema, s)
      } else do {
        let psema = psema\<lparr>value := value psema - 1\<rparr>;
        ASSERT (value psema = 0);
        Some (Returned, psema, thread_resume old_status s)
      })"

definition sema_down ::
  "semaphore \<Rightarrow> 'a sched_scheme \<Rightarrow> (outcome \<times> semaphore \<times> 'a sched_scheme) option" where
  "sema_down psema s =
     (let (old_status, fl) = intr_disable (cpu_eflags s)
      in sema_down_loop old_status psema (s\<lparr>cpu_eflags := fl\<rparr>))"

text \<open>A suspended caller that runs again: \<^verbatim>\<open>thread_block\<close> was entered with interrupts off and leaves
  them off.\<close>

definition sema_down_again ::
  "intr_status \<Rightarrow> semaphore \<Rightarrow> 'a sched_scheme \<Rightarrow> (outcome \<times> semaphore \<times> 'a sched_scheme) option" where
  "sema_down_again old_status psema s = sema_down_loop old_status psema (thread_resume INTR_OFF s)"

definition sema_up :: "semaphore \<Rightarrow> 'a sched_scheme \<Rightarrow> (semaphore \<times> 'a sched_scheme) option" where
  "sema_up psema s = do {
     let (old_status, fl) = intr_disable (cpu_eflags s);
     let s = s\<lparr>cpu_eflags := fl\<rparr>;
     ASSERT (value psema = 0);
     (psema, s) \<leftarrow> (if waiters psema \<noteq> []
        then do {
          let thread_blocked = hd (waiters psema);
          let psema = psema\<lparr>waiters := tl (waiters psema)\<rparr>;
          s \<leftarrow> thread_unblock s thread_blocked;
          Some (psema, s)
        }
        else Some (psema, s));
     let psema = psema\<lparr>value := value psema + 1\<rparr>;
     ASSERT (value psema = 1);
     Some (psema, thread_resume old_status s)
   }"

definition lock_init :: lock where
  "lock_init = \<lparr>holder = 0, lock_sema = sema_init 1, holder_repeat_nr = 0\<rparr>"

text \<open>The part of \<^verbatim>\<open>lock_acquire\<close> after \<^verbatim>\<open>sema_down\<close>, and the part of \<^verbatim>\<open>lock_release\<close> before
  \<^verbatim>\<open>sema_up\<close>; the latter says whether \<^verbatim>\<open>sema_up\<close> is still to be called.\<close>

definition lock_acquired :: "lock \<Rightarrow> 'a sched_scheme \<Rightarrow> lock option" where
  "lock_acquired plock s = do {
     let plock = plock\<lparr>holder := running_thread s\<rparr>;
     ASSERT (holder_repeat_nr plock = 0);
     Some (plock\<lparr>holder_repeat_nr := 1\<rparr>)
   }"

definition lock_acquire :: "lock \<Rightarrow> 'a sched_scheme \<Rightarrow> (outcome \<times> lock \<times> 'a sched_scheme) option" where
  "lock_acquire plock s =
     (if holder plock \<noteq> running_thread s then do {
        (r, sm, s) \<leftarrow> sema_down (lock_sema plock) s;
        let plock = plock\<lparr>lock_sema := sm\<rparr>;
        case r of
          Returned \<Rightarrow> do { plock \<leftarrow> lock_acquired plock s; Some (Returned, plock, s) }
        | Suspended \<Rightarrow> Some (Suspended, plock, s)
      }
      else Some (Returned, plock\<lparr>holder_repeat_nr := holder_repeat_nr plock + 1\<rparr>, s))"

definition lock_releasing :: "lock \<Rightarrow> 'a sched_scheme \<Rightarrow> (bool \<times> lock) option" where
  "lock_releasing plock s = do {
     ASSERT (holder plock = running_thread s);
     if holder_repeat_nr plock > 1
     then Some (False, plock\<lparr>holder_repeat_nr := holder_repeat_nr plock - 1\<rparr>)
     else do {
       ASSERT (holder_repeat_nr plock = 1);
       Some (True, plock\<lparr>holder := 0, holder_repeat_nr := 0\<rparr>)
     }
   }"

definition lock_release :: "lock \<Rightarrow> 'a sched_scheme \<Rightarrow> (lock \<times> 'a sched_scheme) option" where
  "lock_release plock s = do {
     (up, plock) \<leftarrow> lock_releasing plock s;
     if up then do { (sm, s) \<leftarrow> sema_up (lock_sema plock) s; Some (plock\<lparr>lock_sema := sm\<rparr>, s) }
     else Some (plock, s)
   }"

section \<open>Threads sharing a lock\<close>

text \<open>Where a thread is with respect to the lock: outside; suspended in \<^verbatim>\<open>sema_down\<close> or woken there;
  back from \<^verbatim>\<open>sema_down\<close>; holding the lock; about to call \<^verbatim>\<open>sema_up\<close>.\<close>

datatype lock_pc = Outside | Down intr_status | Got | Holding | Releasing

record lsys = sched +
  the_lock :: lock
  pc :: "u32 \<Rightarrow> lock_pc"

definition goto :: "lsys \<Rightarrow> u32 \<Rightarrow> lock_pc \<Rightarrow> lock \<Rightarrow> lsys" where
  "goto s t p plock = s\<lparr>the_lock := plock, pc := (pc s)(t := p)\<rparr>"

definition do_down :: "lsys \<Rightarrow> intr_status \<Rightarrow> (outcome \<times> semaphore \<times> lsys) option \<Rightarrow> lsys option" where
  "do_down s old res = do {
     (r, sm, s') \<leftarrow> res;
     Some (goto s' (current s) (case r of Returned \<Rightarrow> Got | Suspended \<Rightarrow> Down old) ((the_lock s)\<lparr>lock_sema := sm\<rparr>))
   }"

definition do_acquire :: "lsys \<Rightarrow> lsys option" where
  "do_acquire s =
     (if holder (the_lock s) \<noteq> running_thread s
      then do_down s (intr_get_status (cpu_eflags s)) (sema_down (lock_sema (the_lock s)) s)
      else Some (s\<lparr>the_lock := (the_lock s)\<lparr>holder_repeat_nr := holder_repeat_nr (the_lock s) + 1\<rparr>\<rparr>))"

definition do_again :: "intr_status \<Rightarrow> lsys \<Rightarrow> lsys option" where
  "do_again old s = do_down s old (sema_down_again old (lock_sema (the_lock s)) s)"

definition do_acquired :: "lsys \<Rightarrow> lsys option" where
  "do_acquired s = do { l \<leftarrow> lock_acquired (the_lock s) s; Some (goto s (current s) Holding l) }"

definition do_releasing :: "lsys \<Rightarrow> lsys option" where
  "do_releasing s = do {
     (up, l) \<leftarrow> lock_releasing (the_lock s) s;
     Some (goto s (current s) (if up then Releasing else Holding) l)
   }"

definition do_up :: "lsys \<Rightarrow> lsys option" where
  "do_up s = do {
     (sm, s') \<leftarrow> sema_up (lock_sema (the_lock s)) s;
     Some (goto s' (current s) Outside ((the_lock s)\<lparr>lock_sema := sm\<rparr>))
   }"

text \<open>One step of the running thread; \<open>None\<close> is a failed assertion. After a switch the next thread
  continues with any interrupt flag (\<open>fl\<close>), and a preemption may hit at any point between the
  pieces. The idle thread (\<^verbatim>\<open>idle\<close> in \<^verbatim>\<open>thread.c\<close>) takes no locks, and no thread nests
  \<open>2 ^ 32\<close> acquires.\<close>

inductive lock_step :: "lsys \<Rightarrow> lsys option \<Rightarrow> bool" where
  acquire: "pc s (current s) \<in> {Outside, Holding} \<Longrightarrow> current s \<noteq> idle_thread s \<Longrightarrow>
     holder_repeat_nr (the_lock s) + 1 \<noteq> 0 \<Longrightarrow> lock_step s (do_acquire s)"
| again: "pc s (current s) = Down old \<Longrightarrow> lock_step s (do_again old s)"
| acquired: "pc s (current s) = Got \<Longrightarrow> lock_step s (do_acquired s)"
| releasing: "pc s (current s) = Holding \<Longrightarrow> lock_step s (do_releasing s)"
| up: "pc s (current s) = Releasing \<Longrightarrow> lock_step s (do_up s)"
| preempt: "lock_step s (schedule (s\<lparr>cpu_eflags := cli (cpu_eflags s)\<rparr>))"
| block_elsewhere: "pc s (current s) \<in> {Outside, Holding} \<Longrightarrow> blocking st \<Longrightarrow>
     lock_step s (map_option snd (thread_block s st))"
| wake_elsewhere: "t \<in> set (thread_all_list s) \<Longrightarrow> blocking (status (task s t)) \<Longrightarrow>
     pc s t \<in> {Outside, Holding} \<Longrightarrow> lock_step s (thread_unblock s t)"
| flags: "lock_step s (Some (s\<lparr>cpu_eflags := fl\<rparr>))"

inductive lock_reach :: "lsys \<Rightarrow> lsys \<Rightarrow> bool" for s0 where
  start: "lock_reach s0 s0"
| step: "lock_reach s0 s \<Longrightarrow> lock_step s (Some s') \<Longrightarrow> lock_reach s0 s'"

section \<open>The invariant\<close>

definition runnable :: "task_status \<Rightarrow> bool" where
  "runnable st \<longleftrightarrow> st = TASK_READY \<or> st = TASK_RUNNING"

fun in_down :: "lock_pc \<Rightarrow> bool" where
  "in_down (Down _) = True"
| "in_down _ = False"

definition crit :: "lock_pc \<Rightarrow> bool" where
  "crit p \<longleftrightarrow> p = Got \<or> p = Holding \<or> p = Releasing"

text \<open>The protocol part: the waiters are threads blocked in \<^verbatim>\<open>sema_down\<close>; a thread in \<^verbatim>\<open>sema_down\<close>
  that is not waiting can run; the semaphore is 0 iff exactly one thread (\<open>own\<close>) is in its
  critical section; when the lock is free and threads wait, one of them has been woken.\<close>

definition owned :: "u32 option \<Rightarrow> lock \<Rightarrow> (u32 \<Rightarrow> lock_pc) \<Rightarrow> bool" where
  "owned own l p \<longleftrightarrow>
     (case own of
        None \<Rightarrow> value (lock_sema l) = 1 \<and> holder l = 0 \<and> holder_repeat_nr l = 0 \<and> (\<forall>t. \<not> crit (p t))
      | Some u \<Rightarrow> value (lock_sema l) = 0 \<and> (\<forall>t. crit (p t) \<longleftrightarrow> t = u) \<and>
          (if p u = Holding then holder l = u \<and> holder_repeat_nr l \<noteq> 0
           else holder l = 0 \<and> holder_repeat_nr l = 0))"

definition waiting :: "u32 list \<Rightarrow> (u32 \<Rightarrow> lock_pc) \<Rightarrow> (u32 \<Rightarrow> task_status) \<Rightarrow> u32 set \<Rightarrow> bool" where
  "waiting W p st A \<longleftrightarrow> distinct W \<and> (\<forall>t\<in>set W. st t = TASK_BLOCKED \<and> in_down (p t)) \<and>
     (\<forall>t. in_down (p t) \<and> t \<notin> set W \<longrightarrow> runnable (st t)) \<and> (\<forall>t. p t \<noteq> Outside \<longrightarrow> t \<in> A)"

definition no_lost_wakeup :: "u8 \<Rightarrow> u32 list \<Rightarrow> (u32 \<Rightarrow> lock_pc) \<Rightarrow> bool" where
  "no_lost_wakeup v W p \<longleftrightarrow> (v \<noteq> 0 \<and> W \<noteq> [] \<longrightarrow> (\<exists>t. t \<notin> set W \<and> in_down (p t)))"

definition lock_inv :: "u32 set \<Rightarrow> u32 option \<Rightarrow> lsys \<Rightarrow> bool" where
  "lock_inv D own s \<longleftrightarrow> sched_inv s \<and> spaces_ok D s \<and> pc s (idle_thread s) = Outside \<and>
     owned own (the_lock s) (pc s) \<and>
     waiting (waiters (lock_sema (the_lock s))) (pc s) (\<lambda>t. status (task s t)) (set (thread_all_list s)) \<and>
     no_lost_wakeup (value (lock_sema (the_lock s))) (waiters (lock_sema (the_lock s))) (pc s)"

lemma waiting_status:
  "waiting W p st A \<Longrightarrow>
   (\<And>t. in_down (p t) \<Longrightarrow> (st' t = TASK_BLOCKED \<longleftrightarrow> st t = TASK_BLOCKED) \<and> (runnable (st' t) \<longleftrightarrow> runnable (st t))) \<Longrightarrow>
   waiting W p st' A"
  by (auto simp: waiting_def)

lemma waiting_enqueue:
  assumes "waiting W p st A" "c \<notin> set W" "c \<in> A" "st' c = TASK_BLOCKED"
    and "\<And>t. t \<noteq> c \<Longrightarrow> in_down (p t) \<Longrightarrow>
           (st' t = TASK_BLOCKED \<longleftrightarrow> st t = TASK_BLOCKED) \<and> (runnable (st' t) \<longleftrightarrow> runnable (st t))"
  shows "waiting (W @ [c]) (p(c := Down old)) st' A"
  using assms by (auto simp: waiting_def)

lemma waiting_wake:
  assumes "waiting (w # W) p st A" "runnable (st' w)" "\<And>t. t \<noteq> w \<Longrightarrow> st' t = st t" "c \<notin> set (w # W)"
  shows "waiting W (p(c := Outside)) st' A"
  using assms by (simp add: waiting_def) metis

lemma waiting_pc:
  assumes "waiting W p st A" "c \<notin> set W" "c \<in> A" "\<not> in_down q"
  shows "waiting W (p(c := q)) st A"
  using assms by (auto simp: waiting_def)

lemma owned_pc:
  "owned own l p \<Longrightarrow> own \<noteq> Some c \<Longrightarrow> \<not> crit q \<Longrightarrow> owned own l (p(c := q))"
  by (auto simp: owned_def split: option.splits)

lemma owned_sema:
  "owned own l p \<Longrightarrow> value sm = value (lock_sema l) \<Longrightarrow> owned own (l\<lparr>lock_sema := sm\<rparr>) p"
  by (auto simp: owned_def split: option.splits)

lemma owned_other:
  assumes "owned own l p" "p c = Outside \<or> in_down (p c)"
  shows "own \<noteq> Some c"
proof
  assume "own = Some c"
  then have "crit (p c)" using assms(1) by (simp add: owned_def)
  then show False using assms(2) by (cases "p c") (simp_all add: crit_def)
qed

lemma owned_cases:
  assumes "owned own l p"
  obtains "own = None" "value (lock_sema l) = 1" "holder l = 0" "holder_repeat_nr l = 0" "\<forall>t. \<not> crit (p t)"
    | u where "own = Some u" "value (lock_sema l) = 0" "\<forall>t. crit (p t) \<longleftrightarrow> t = u"
        "p u = Holding \<Longrightarrow> holder l = u \<and> holder_repeat_nr l \<noteq> 0"
        "p u \<noteq> Holding \<Longrightarrow> holder l = 0 \<and> holder_repeat_nr l = 0"
  using assms by (auto simp: owned_def split: option.splits if_splits)

lemma lock_invD:
  assumes "lock_inv D own s"
  shows "sched_inv s" "spaces_ok D s" "pc s (idle_thread s) = Outside" "owned own (the_lock s) (pc s)"
    "waiting (waiters (lock_sema (the_lock s))) (pc s) (\<lambda>t. status (task s t)) (set (thread_all_list s))"
    "no_lost_wakeup (value (lock_sema (the_lock s))) (waiters (lock_sema (the_lock s))) (pc s)"
    "current s \<noteq> 0" "current s \<notin> set (waiters (lock_sema (the_lock s)))"
proof -
  show i: "sched_inv s" "spaces_ok D s" "pc s (idle_thread s) = Outside" "owned own (the_lock s) (pc s)"
    and w: "waiting (waiters (lock_sema (the_lock s))) (pc s) (\<lambda>t. status (task s t)) (set (thread_all_list s))"
    and "no_lost_wakeup (value (lock_sema (the_lock s))) (waiters (lock_sema (the_lock s))) (pc s)"
    using assms by (auto simp: lock_inv_def)
  show "current s \<noteq> 0" using sched_invD(2) [OF i(1)] sched_preD(2) [OF sched_invD(1) [OF i(1)]] by metis
  show "current s \<notin> set (waiters (lock_sema (the_lock s)))"
    using w sched_invD(3) [OF i(1)] by (auto simp: waiting_def)
qed

lemma lsys_fields:
  "sched.more s' = sched.more (s :: lsys) \<Longrightarrow> the_lock s' = the_lock s \<and> pc s' = pc s"
  by (cases s; cases s') (auto simp: sched.defs)

section \<open>Every step keeps the invariant\<close>

lemma lock_inv_flags: "lock_inv D own s \<Longrightarrow> lock_inv D own (s\<lparr>cpu_eflags := fl\<rparr>)"
  using sched_inv_cong [of s "s\<lparr>cpu_eflags := fl\<rparr>"] spaces_ok_cong [of D s "s\<lparr>cpu_eflags := fl\<rparr>"]
  by (simp add: lock_inv_def)

lemma goto_sched:
  "sched_inv (goto s t q l) \<longleftrightarrow> sched_inv s" "spaces_ok D (goto s t q l) \<longleftrightarrow> spaces_ok D s"
  by (simp_all add: goto_def sched_inv_def sched_pre_def spaces_ok_def)

lemma goto_fields [simp]:
  "the_lock (goto s t q l) = l" "pc (goto s t q l) = (pc s)(t := q)" "task (goto s t q l) = task s"
  "current (goto s t q l) = current s" "idle_thread (goto s t q l) = idle_thread s"
  "thread_all_list (goto s t q l) = thread_all_list s"
  by (simp_all add: goto_def)

lemma lock_inv_goto:
  assumes "lock_inv D own s" "current s \<noteq> idle_thread s \<or> q = Outside" "\<not> in_down q"
    and "owned own' l ((pc s)(current s := q))" "waiters (lock_sema l) = waiters (lock_sema (the_lock s))"
    and "value (lock_sema l) = 0 \<or> (value (lock_sema l) = value (lock_sema (the_lock s)) \<and> \<not> in_down (pc s (current s)))"
  shows "lock_inv D own' (goto s (current s) q l)"
proof -
  note i = lock_invD [OF assms(1)]
  have "waiting (waiters (lock_sema l)) ((pc s)(current s := q)) (\<lambda>t. status (task s t)) (set (thread_all_list s))"
    using waiting_pc [OF i(5) i(8) sched_invD(2) [OF i(1)] assms(3)] assms(5) by simp
  moreover have "no_lost_wakeup (value (lock_sema l)) (waiters (lock_sema l)) ((pc s)(current s := q))"
    using i(6) assms(5,6) by (simp add: no_lost_wakeup_def) metis
  ultimately show ?thesis
    using i(1-3) assms(2,4) by (auto simp: lock_inv_def goto_sched)
qed

text \<open>Waiting in \<^verbatim>\<open>sema_down\<close>: the running thread joins the waiters and another thread runs.\<close>

lemma down_wait:
  assumes "lock_inv D own s" "pc s (current s) = Outside \<or> in_down (pc s (current s))"
    and "current s \<noteq> idle_thread s" "value (lock_sema (the_lock s)) = 0"
  obtains sm s' where "sema_down_loop old (lock_sema (the_lock s)) s = Some (Suspended, sm, s')"
    "lock_inv D own (goto s' (current s) (Down old) ((the_lock s)\<lparr>lock_sema := sm\<rparr>))"
proof -
  note i = lock_invD [OF assms(1)]
  let ?W = "waiters (lock_sema (the_lock s))" and ?c = "current s"
  let ?sm = "(lock_sema (the_lock s))\<lparr>waiters := ?W @ [?c]\<rparr>"
  obtain s' where s': "thread_block s TASK_BLOCKED = Some (intr_get_status (cpu_eflags s), s')"
    "sched_inv s'" "spaces_ok D s'"
    "current s' # thread_ready_list s' = (if thread_ready_list s = [] then [idle_thread s] else thread_ready_list s)"
    "current s' \<noteq> ?c \<longrightarrow> status (task s' ?c) = TASK_BLOCKED" "thread_all_list s' = thread_all_list s"
    "\<And>t. t \<noteq> ?c \<Longrightarrow> t \<noteq> current s' \<Longrightarrow> task s' t = task s t" "idle_thread s' = idle_thread s"
    "sched.more s' = sched.more s"
    by (rule block_running [OF i(1,2), of TASK_BLOCKED]) (simp add: blocking_def, rule that)
  have nxt: "current s' \<in> insert (idle_thread s) (set (thread_ready_list s))"
    using s'(4) by (cases "thread_ready_list s") auto
  then have neq: "current s' \<noteq> ?c" using sched_invD(4) [OF i(1)] assms(3) by auto
  have st: "(status (task s' t) = TASK_BLOCKED \<longleftrightarrow> status (task s t) = TASK_BLOCKED) \<and>
      (runnable (status (task s' t)) \<longleftrightarrow> runnable (status (task s t)))"
    if "t \<noteq> ?c" "in_down (pc s t)" for t
  proof (cases "t = current s'")
    case True
    then have "t \<in> set (thread_ready_list s)" using nxt that i(3) by auto
    then have "status (task s t) = TASK_READY"
      using sched_preD(4,5) [OF sched_invD(1) [OF i(1)]] by blast
    then show ?thesis using True sched_invD(3) [OF s'(2)] by (simp add: runnable_def)
  qed (use s'(7) that in simp)
  have more: "the_lock s' = the_lock s" "pc s' = pc s" using lsys_fields [OF s'(9)] by simp_all
  have "waiting (?W @ [?c]) ((pc s)(?c := Down old)) (\<lambda>t. status (task s' t)) (set (thread_all_list s))"
    using i(8) sched_invD(2) [OF i(1)] s'(5) neq st by (intro waiting_enqueue [OF i(5)]) auto
  moreover have "owned own ((the_lock s)\<lparr>lock_sema := ?sm\<rparr>) ((pc s)(?c := Down old))"
    using i(4) owned_other [OF i(4) assms(2)] by (intro owned_pc owned_sema) (auto simp: crit_def)
  ultimately have "lock_inv D own (goto s' ?c (Down old) ((the_lock s)\<lparr>lock_sema := ?sm\<rparr>))"
    using s'(2,3,6,8) more assms(3,4) i(3) by (simp add: lock_inv_def goto_sched no_lost_wakeup_def)
  moreover have "sema_down_loop old (lock_sema (the_lock s)) s = Some (Suspended, ?sm, s')"
    using assms(4) i(8) s'(1) by (simp add: sema_down_loop_def running_thread_def ASSERT_bind)
  ultimately show thesis using that by blast
qed

lemma down_get:
  assumes "lock_inv D own s" "pc s (current s) = Outside \<or> in_down (pc s (current s))"
    and "current s \<noteq> idle_thread s" "value (lock_sema (the_lock s)) \<noteq> 0"
  obtains sm where "sema_down_loop old (lock_sema (the_lock s)) s = Some (Returned, sm, thread_resume old s)"
    "lock_inv D (Some (current s)) (goto (thread_resume old s) (current s) Got ((the_lock s)\<lparr>lock_sema := sm\<rparr>))"
proof -
  note i = lock_invD [OF assms(1)]
  let ?sm = "(lock_sema (the_lock s))\<lparr>value := 0\<rparr>"
  let ?s = "thread_resume old s"
  have own: "own = None" "value (lock_sema (the_lock s)) = 1" "holder (the_lock s) = 0"
    "holder_repeat_nr (the_lock s) = 0" "\<forall>t. \<not> crit (pc s t)"
    using i(4) assms(4) by (auto simp: owned_def split: option.splits)
  have "owned (Some (current s)) ((the_lock s)\<lparr>lock_sema := ?sm\<rparr>) ((pc s)(current s := Got))"
    using own by (simp add: owned_def) (simp add: crit_def)
  then have "lock_inv D (Some (current s)) (goto ?s (current ?s) Got ((the_lock s)\<lparr>lock_sema := ?sm\<rparr>))"
    using assms(3)
    by (intro lock_inv_goto [of D own]) (simp_all add: thread_resume_def lock_inv_flags assms(1))
  then show thesis
    using own(2) by (intro that) (simp_all add: sema_down_loop_def ASSERT_bind thread_resume_def)
qed

lemma in_crit:
  assumes "lock_inv D own s" "crit (pc s (current s))"
  shows "own = Some (current s)" "value (lock_sema (the_lock s)) = 0" "current s \<noteq> idle_thread s"
    "pc s (current s) = Holding \<Longrightarrow> holder (the_lock s) = current s \<and> holder_repeat_nr (the_lock s) \<noteq> 0"
    "pc s (current s) \<noteq> Holding \<Longrightarrow> holder (the_lock s) = 0 \<and> holder_repeat_nr (the_lock s) = 0"
    "\<And>t. crit (pc s t) \<longleftrightarrow> t = current s"
proof -
  obtain u where u: "own = Some u" "value (lock_sema (the_lock s)) = 0" "\<forall>t. crit (pc s t) \<longleftrightarrow> t = u"
        "pc s u = Holding \<Longrightarrow> holder (the_lock s) = u \<and> holder_repeat_nr (the_lock s) \<noteq> 0"
        "pc s u \<noteq> Holding \<Longrightarrow> holder (the_lock s) = 0 \<and> holder_repeat_nr (the_lock s) = 0"
    using lock_invD(4) [OF assms(1)] assms(2) by (cases rule: owned_cases) auto
  then have c: "u = current s" using assms(2) by simp
  show "current s \<noteq> idle_thread s" using lock_invD(3) [OF assms(1)] assms(2) by (auto simp: crit_def)
  show "own = Some (current s)" "value (lock_sema (the_lock s)) = 0"
    "pc s (current s) = Holding \<Longrightarrow> holder (the_lock s) = current s \<and> holder_repeat_nr (the_lock s) \<noteq> 0"
    "pc s (current s) \<noteq> Holding \<Longrightarrow> holder (the_lock s) = 0 \<and> holder_repeat_nr (the_lock s) = 0"
    "\<And>t. crit (pc s t) \<longleftrightarrow> t = current s"
    using u c by simp_all
qed

lemma down_ok:
  assumes "lock_inv D own s" "pc s (current s) = Outside \<or> in_down (pc s (current s))"
    and "current s \<noteq> idle_thread s"
  shows "\<exists>s' own'. do_down s old (sema_down_loop old (lock_sema (the_lock s)) (s\<lparr>cpu_eflags := fl\<rparr>)) = Some s' \<and>
           lock_inv D own' s'"
proof (cases "value (lock_sema (the_lock s)) = 0")
  case True
  obtain sm s' where "sema_down_loop old (lock_sema (the_lock s)) (s\<lparr>cpu_eflags := fl\<rparr>) = Some (Suspended, sm, s')"
    "lock_inv D own (goto s' (current s) (Down old) ((the_lock s)\<lparr>lock_sema := sm\<rparr>))"
    using down_wait [OF lock_inv_flags [OF assms(1)], of fl] assms(2,3) True by (simp, metis)
  then show ?thesis by (auto simp: do_down_def)
next
  case False
  obtain sm s' where "sema_down_loop old (lock_sema (the_lock s)) (s\<lparr>cpu_eflags := fl\<rparr>) = Some (Returned, sm, s')"
    "lock_inv D (Some (current s)) (goto s' (current s) Got ((the_lock s)\<lparr>lock_sema := sm\<rparr>))"
    using down_get [OF lock_inv_flags [OF assms(1)], of fl] assms(2,3) False by (simp, metis)
  then show ?thesis by (auto simp: do_down_def)
qed

lemma acquire_ok:
  assumes "lock_inv D own s" "pc s (current s) \<in> {Outside, Holding}" "current s \<noteq> idle_thread s"
    and "holder_repeat_nr (the_lock s) + 1 \<noteq> 0"
  shows "\<exists>s' own'. do_acquire s = Some s' \<and> lock_inv D own' s'"
proof (cases "holder (the_lock s) = current s")
  case True
  note i = lock_invD [OF assms(1)]
  have own: "own = Some (current s)" "pc s (current s) = Holding"
    using i(4,7) True by (auto simp: owned_def split: option.splits if_splits)
  have "owned own ((the_lock s)\<lparr>holder_repeat_nr := holder_repeat_nr (the_lock s) + 1\<rparr>) (pc s)"
    using i(4) own assms(4) by (simp add: owned_def)
  then have "lock_inv D own (s\<lparr>the_lock := (the_lock s)\<lparr>holder_repeat_nr := holder_repeat_nr (the_lock s) + 1\<rparr>\<rparr>)"
    using assms(1) by (simp add: lock_inv_def sched_inv_def sched_pre_def spaces_ok_def)
  then show ?thesis using True by (auto simp: do_acquire_def running_thread_def)
next
  case False
  have "pc s (current s) = Outside"
    using assms(2) in_crit(4) [OF assms(1)] False by (auto simp: crit_def)
  then show ?thesis
    using down_ok [OF assms(1) _ assms(3), of "intr_get_status (cpu_eflags s)"] False
    by (simp add: do_acquire_def running_thread_def sema_down_def split_beta intr_disable_fst)
qed

lemma again_ok:
  assumes "lock_inv D own s" "pc s (current s) = Down old"
  shows "\<exists>s' own'. do_again old s = Some s' \<and> lock_inv D own' s'"
proof -
  have "current s \<noteq> idle_thread s" using assms(2) lock_invD(3) [OF assms(1)] by auto
  then show ?thesis
    using down_ok [OF assms(1)] assms(2) by (simp add: do_again_def sema_down_again_def thread_resume_def)
qed

lemma acquired_ok:
  assumes "lock_inv D own s" "pc s (current s) = Got"
  shows "\<exists>s' own'. do_acquired s = Some s' \<and> lock_inv D own' s'"
proof -
  note c = in_crit [OF assms(1)]
  let ?l = "(the_lock s)\<lparr>holder := current s, holder_repeat_nr := 1\<rparr>"
  have "owned (Some (current s)) ?l ((pc s)(current s := Holding))"
    using c assms(2) by (simp add: owned_def crit_def)
  then have "lock_inv D (Some (current s)) (goto s (current s) Holding ?l)"
    using c(2,3) assms by (intro lock_inv_goto) (simp_all add: crit_def)
  moreover have "lock_acquired (the_lock s) s = Some ?l"
    using c(5) assms(2) by (simp add: lock_acquired_def crit_def running_thread_def)
  ultimately show ?thesis by (auto simp: do_acquired_def)
qed

lemma releasing_ok:
  assumes "lock_inv D own s" "pc s (current s) = Holding"
  shows "\<exists>s' own'. do_releasing s = Some s' \<and> lock_inv D own' s'"
proof -
  have cr: "crit (pc s (current s))" using assms(2) by (simp add: crit_def)
  note c = in_crit [OF assms(1) cr]
  let ?n = "holder_repeat_nr (the_lock s)" and ?up = "\<not> holder_repeat_nr (the_lock s) > 1"
  let ?l = "if ?up then (the_lock s)\<lparr>holder := 0, holder_repeat_nr := 0\<rparr>
            else (the_lock s)\<lparr>holder_repeat_nr := ?n - 1\<rparr>"
  have n: "?n = 1" if ?up using that c(4) assms(2) by (intro word_eq_1I) auto
  have m: "?n - 1 \<noteq> 0" if "\<not> ?up" using that by auto
  have "owned (Some (current s)) ?l ((pc s)(current s := if ?up then Releasing else Holding))"
    using c(2,4,6) assms(2) m by (auto simp: owned_def) (simp_all add: crit_def)
  then have "lock_inv D (Some (current s)) (goto s (current s) (if ?up then Releasing else Holding) ?l)"
    using c(2,3) assms by (intro lock_inv_goto) simp_all
  moreover have "lock_releasing (the_lock s) s = Some (?up, ?l)"
    using c(4) assms(2) n by (auto simp: lock_releasing_def running_thread_def ASSERT_bind)
  ultimately show ?thesis by (auto simp: do_releasing_def)
qed

lemma up_ok:
  assumes "lock_inv D own s" "pc s (current s) = Releasing"
  shows "\<exists>s' own'. do_up s = Some s' \<and> lock_inv D own' s'"
proof -
  have cr: "crit (pc s (current s))" using assms(2) by (simp add: crit_def)
  note c = in_crit [OF assms(1) cr]
  let ?sm = "lock_sema (the_lock s)" and ?c = "current s"
  let ?s = "s\<lparr>cpu_eflags := snd (intr_disable (cpu_eflags s))\<rparr>"
  let ?sm' = "\<lparr>value = 1, waiters = tl (waiters ?sm)\<rparr>"
  have inv: "lock_inv D own ?s" by (rule lock_inv_flags) (rule assms(1))
  note i = lock_invD [OF inv]
  have own: "owned None ((the_lock s)\<lparr>lock_sema := ?sm'\<rparr>) ((pc s)(?c := Outside))"
    using c(5,6) assms(2) by (simp add: owned_def) (simp add: crit_def)
  show ?thesis
  proof (cases "waiters ?sm")
    case Nil
    have "waiting [] ((pc s)(?c := Outside)) (\<lambda>t. status (task s t)) (set (thread_all_list s))"
      using waiting_pc [OF i(5) i(8) sched_invD(2) [OF i(1)], of Outside] Nil by simp
    then have "lock_inv D None (goto (thread_resume (fst (intr_disable (cpu_eflags s))) ?s) ?c Outside
        ((the_lock s)\<lparr>lock_sema := ?sm'\<rparr>))"
      using lock_invD(1-3) [OF assms(1)] own Nil c(3)
      by (simp add: lock_inv_def goto_sched thread_resume_def no_lost_wakeup_def)
    moreover have "?sm' = ?sm\<lparr>value := 1\<rparr>" using Nil by simp
    moreover have "do_up s = Some (goto (thread_resume (fst (intr_disable (cpu_eflags s))) ?s) ?c Outside
        ((the_lock s)\<lparr>lock_sema := ?sm\<lparr>value := 1\<rparr>\<rparr>))"
      using Nil c(2) by (simp add: do_up_def sema_up_def split_beta Let_def ASSERT_bind)
    ultimately show ?thesis by metis
  next
    case (Cons w W)
    have w: "w \<in> set (thread_all_list ?s)" "blocking (status (task ?s w))" "in_down (pc s w)" "w \<notin> set W"
      using i(5) Cons by (auto simp: waiting_def blocking_def) (metis in_down.simps(2))
    obtain s' where s': "thread_unblock ?s w = Some s'" "sched_inv s'" "current s' = current ?s"
      "task s' = (task ?s)(w := (task ?s w)\<lparr>status := TASK_READY\<rparr>)" "thread_all_list s' = thread_all_list ?s"
      "cr3 s' = cr3 ?s" "phys s' = phys ?s" "idle_thread s' = idle_thread ?s" "sched.more s' = sched.more ?s"
      by (rule unblock_running [OF i(1) w(1,2)]) (rule that)
    have more: "the_lock s' = the_lock s" "pc s' = pc s" using lsys_fields [OF s'(9)] by simp_all
    let ?s' = "thread_resume (fst (intr_disable (cpu_eflags s))) s'"
    have "waiting W ((pc s)(?c := Outside)) (\<lambda>t. status (task s' t)) (set (thread_all_list s))"
      using i(5,8) Cons s'(4) by (intro waiting_wake [of w W "pc s" "\<lambda>t. status (task s t)"]) (auto simp: runnable_def)
    moreover have "sched_inv ?s'" "spaces_ok D ?s'"
      using s' sched_inv_cong [OF s'(2), of ?s'] spaces_ok_cong [OF i(2), of ?s']
      by (simp_all add: thread_resume_def)
    moreover have "no_lost_wakeup 1 W ((pc s)(?c := Outside))"
    proof -
      have "w \<noteq> ?c" using w(3) assms(2) by auto
      then show ?thesis using w(3,4) by (auto simp: no_lost_wakeup_def intro!: exI [of _ w])
    qed
    ultimately have "lock_inv D None (goto ?s' ?c Outside ((the_lock s)\<lparr>lock_sema := ?sm'\<rparr>))"
      using own Cons more s'(5,8) lock_invD(3) [OF assms(1)] c(3)
      by (simp add: lock_inv_def goto_sched) (simp add: thread_resume_def)
    moreover have "?sm' = ?sm\<lparr>waiters := W, value := 1\<rparr>" using Cons by simp
    moreover have "do_up s = Some (goto ?s' ?c Outside
        ((the_lock s)\<lparr>lock_sema := ?sm\<lparr>waiters := W, value := 1\<rparr>\<rparr>))"
      using Cons c(2) s'(1) by (simp add: do_up_def sema_up_def split_beta Let_def ASSERT_bind)
    ultimately show ?thesis by metis
  qed
qed

lemma preempt_ok:
  assumes "lock_inv D own s"
  shows "\<exists>s'. schedule (s\<lparr>cpu_eflags := cli (cpu_eflags s)\<rparr>) = Some s' \<and> lock_inv D own s'"
proof -
  let ?s = "s\<lparr>cpu_eflags := cli (cpu_eflags s)\<rparr>"
  note i = lock_invD [OF lock_inv_flags [OF assms]]
  have off: "intr_get_status (cpu_eflags ?s) = INTR_OFF" by (simp add: intr_get_status_bit bit_cli)
  obtain s' where s': "schedule ?s = Some s'" "sched_inv s'" "spaces_ok D s'"
    "current s' # thread_ready_list s' = rotate1 (current ?s # thread_ready_list ?s)"
    "task s' = sched_tasks ?s" "thread_all_list s' = thread_all_list ?s" "idle_thread s' = idle_thread ?s"
    "sched.more s' = sched.more ?s"
    by (rule schedule_running [OF i(1,2) off]) (rule that)
  have more: "the_lock s' = the_lock s" "pc s' = pc s" using lsys_fields [OF s'(8)] by simp_all
  have h: "hd (thread_ready_list s @ [current s]) \<in> set (thread_ready_list s @ [current s])"
    by (rule hd_in_set) simp
  have run: "status (task s t) = TASK_READY \<or> status (task s t) = TASK_RUNNING"
    if "t \<in> set (thread_ready_list s @ [current s])" for t
    using that sched_preD(4,5) [OF sched_invD(1) [OF i(1)]] sched_invD(3) [OF i(1)] by auto
  have "(status (task s' t) = TASK_BLOCKED \<longleftrightarrow> status (task s t) = TASK_BLOCKED) \<and>
      (runnable (status (task s' t)) \<longleftrightarrow> runnable (status (task s t)))" for t
    using run [OF h] unfolding s'(5) sched_tasks_status sched_queue_inv [OF i(1)] by (auto simp: runnable_def)
  then have "waiting (waiters (lock_sema (the_lock s))) (pc s) (\<lambda>t. status (task s' t)) (set (thread_all_list s))"
    by (intro waiting_status [OF lock_invD(5) [OF assms]])
  then show ?thesis
    using s' more lock_invD(3,4,6) [OF assms] by (simp add: lock_inv_def)
qed

lemma block_elsewhere_ok:
  assumes "lock_inv D own s" "pc s (current s) \<in> {Outside, Holding}" "blocking st"
  shows "\<exists>s'. map_option snd (thread_block s st) = Some s' \<and> lock_inv D own s'"
proof -
  note i = lock_invD [OF assms(1)]
  obtain s' where s': "thread_block s st = Some (intr_get_status (cpu_eflags s), s')" "sched_inv s'" "spaces_ok D s'"
    "current s' # thread_ready_list s' = (if thread_ready_list s = [] then [idle_thread s] else thread_ready_list s)"
    "thread_all_list s' = thread_all_list s"
    "\<And>t. t \<noteq> current s \<Longrightarrow> t \<noteq> current s' \<Longrightarrow> task s' t = task s t"
    "idle_thread s' = idle_thread s" "sched.more s' = sched.more s"
    by (rule block_running [OF i(1,2) assms(3)]) (rule that)
  have more: "the_lock s' = the_lock s" "pc s' = pc s" using lsys_fields [OF s'(8)] by simp_all
  have st: "(status (task s' t) = TASK_BLOCKED \<longleftrightarrow> status (task s t) = TASK_BLOCKED) \<and>
      (runnable (status (task s' t)) \<longleftrightarrow> runnable (status (task s t)))" if "in_down (pc s t)" for t
  proof (cases "t = current s'")
    case True
    then have "t \<in> set (thread_ready_list s)" using s'(4) that i(3) by (cases "thread_ready_list s") auto
    then have "status (task s t) = TASK_READY"
      using sched_preD(4,5) [OF sched_invD(1) [OF i(1)]] by blast
    then show ?thesis using True sched_invD(3) [OF s'(2)] by (simp add: runnable_def)
  next
    case False
    then show ?thesis using s'(6) [of t] that assms(2) by (cases "t = current s") auto
  qed
  have "waiting (waiters (lock_sema (the_lock s))) (pc s) (\<lambda>t. status (task s' t)) (set (thread_all_list s))"
    using st by (intro waiting_status [OF i(5)])
  then show ?thesis using s' more i by (simp add: lock_inv_def)
qed

lemma wake_elsewhere_ok:
  assumes "lock_inv D own s" "t \<in> set (thread_all_list s)" "blocking (status (task s t))" "pc s t \<in> {Outside, Holding}"
  shows "\<exists>s'. thread_unblock s t = Some s' \<and> lock_inv D own s'"
proof -
  note i = lock_invD [OF assms(1)]
  obtain s' where s': "thread_unblock s t = Some s'" "sched_inv s'"
    "task s' = (task s)(t := (task s t)\<lparr>status := TASK_READY\<rparr>)"
    "thread_all_list s' = thread_all_list s" "cr3 s' = cr3 s" "phys s' = phys s"
    "idle_thread s' = idle_thread s" "sched.more s' = sched.more s"
    by (rule unblock_running [OF i(1) assms(2,3)]) (rule that)
  have more: "the_lock s' = the_lock s" "pc s' = pc s" using lsys_fields [OF s'(8)] by simp_all
  have "waiting (waiters (lock_sema (the_lock s))) (pc s) (\<lambda>t. status (task s' t)) (set (thread_all_list s))"
    using assms(4) s'(3) by (intro waiting_status [OF i(5)]) auto
  moreover have "spaces_ok D s'" using s' by (intro spaces_ok_cong [OF i(2)]) auto
  ultimately show ?thesis using s' more i by (simp add: lock_inv_def)
qed

lemma lock_step_inv:
  assumes "lock_step s r" "lock_inv D own s"
  shows "\<exists>s' own'. r = Some s' \<and> lock_inv D own' s'"
  using assms(1)
proof (cases rule: lock_step.cases)
  case acquire
  then show ?thesis using acquire_ok [OF assms(2)] by metis
next
  case (again old)
  then show ?thesis using again_ok [OF assms(2)] by metis
next
  case acquired
  then show ?thesis using acquired_ok [OF assms(2)] by metis
next
  case releasing
  then show ?thesis using releasing_ok [OF assms(2)] by metis
next
  case up
  then show ?thesis using up_ok [OF assms(2)] by metis
next
  case preempt
  then show ?thesis using preempt_ok [OF assms(2)] by metis
next
  case (block_elsewhere st)
  then show ?thesis using block_elsewhere_ok [OF assms(2)] by metis
next
  case (wake_elsewhere t)
  then show ?thesis using wake_elsewhere_ok [OF assms(2)] by metis
next
  case (flags fl)
  then show ?thesis using lock_inv_flags [OF assms(2)] by metis
qed

lemma lock_reach_inv:
  assumes "lock_reach s0 s" "lock_inv D own s0"
  shows "\<exists>own'. lock_inv D own' s"
  using assms by (induction rule: lock_reach.induct) (auto dest: lock_step_inv)

section \<open>Properties\<close>

text \<open>The initial situation: a free lock as \<^verbatim>\<open>lock_init\<close> leaves it, and no thread using it.\<close>

definition lock_start :: "u32 set \<Rightarrow> lsys \<Rightarrow> bool" where
  "lock_start D s \<longleftrightarrow> sched_inv s \<and> spaces_ok D s \<and> the_lock s = lock_init \<and> pc s = (\<lambda>_. Outside)"

lemma lock_start_inv: "lock_start D s \<Longrightarrow> lock_inv D None s"
  by (simp add: lock_start_def lock_inv_def lock_init_def sema_init_def owned_def waiting_def
      no_lost_wakeup_def crit_def)

definition lsys0 :: lsys where
  "lsys0 = \<lparr>cr3 = 0x100000, phys = (\<lambda>_. 0), cpu_eflags = 0x200, esp0 = 0, current = 0x2000,
     task = (\<lambda>_. task0)(0x2000 := task0\<lparr>status := TASK_RUNNING\<rparr>),
     thread_ready_list = [0x3000, 0x1000], thread_all_list = [0x1000, 0x2000, 0x3000],
     idle_thread = 0x1000, main_thread = 0x2000, timer_ticks = 0, the_lock = lock_init, pc = (\<lambda>_. Outside)\<rparr>"

lemma lock_start_lsys0: "lock_start {0x100000} lsys0"
  by (simp add: lock_start_def lsys0_def sched_inv_def sched_pre_def spaces_ok_def task0_def)

lemma acquire_lsys0: "lock_step lsys0 (do_acquire lsys0)"
  by (rule lock_step.acquire) (simp_all add: lsys0_def lock_init_def)

text \<open>Property C3: mutual exclusion. In every state reachable from a free lock, under any
  interleaving of the pieces of \<^verbatim>\<open>lock_acquire\<close> and \<^verbatim>\<open>lock_release\<close>, preemptions, and other
  blocking and waking, at most one thread is between the end of \<^verbatim>\<open>sema_down\<close> and \<^verbatim>\<open>sema_up\<close>; the
  recorded holder is the thread that holds the lock, with a positive nesting count.\<close>

theorem lock_mutual_exclusion:
  assumes "lock_start D s0" "lock_reach s0 s" "crit (pc s t)" "crit (pc s u)"
  shows "t = u \<and> value (lock_sema (the_lock s)) = 0 \<and>
         (pc s t = Holding \<longrightarrow> holder (the_lock s) = t \<and> holder_repeat_nr (the_lock s) \<noteq> 0)"
proof -
  obtain own where "lock_inv D own s" using lock_reach_inv [OF assms(2) lock_start_inv [OF assms(1)]] by blast
  then have "owned own (the_lock s) (pc s)" by (rule lock_invD)
  then show ?thesis using assms(3,4) by (cases rule: owned_cases) auto
qed

text \<open>Property C5: no assertion of \<^verbatim>\<open>sema_down\<close>, \<^verbatim>\<open>sema_up\<close>, \<^verbatim>\<open>lock_acquire\<close>, \<^verbatim>\<open>lock_release\<close>,
  \<^verbatim>\<open>thread_block\<close>, \<^verbatim>\<open>thread_unblock\<close> or \<^verbatim>\<open>schedule\<close> fails in any such run: every step of a reachable
  state returns.\<close>

theorem lock_never_asserts:
  assumes "lock_start D s0" "lock_reach s0 s" "lock_step s r"
  shows "r \<noteq> None"
proof -
  obtain own where "lock_inv D own s" using lock_reach_inv [OF assms(2) lock_start_inv [OF assms(1)]] by blast
  with lock_step_inv [OF assms(3)] show ?thesis by blast
qed

theorem lock_never_asserts_witness: "do_acquire lsys0 \<noteq> None"
  by (rule lock_never_asserts [OF lock_start_lsys0 lock_reach.start acquire_lsys0])

text \<open>Property C4: no wake-up is lost. Whenever the lock is free while threads wait for it, one of the
  threads inside \<^verbatim>\<open>sema_down\<close> has been taken off the wait list and is ready or running, so it will
  retry.\<close>

theorem lock_no_lost_wakeup:
  assumes "lock_start D s0" "lock_reach s0 s" "value (lock_sema (the_lock s)) \<noteq> 0"
    and "waiters (lock_sema (the_lock s)) \<noteq> []"
  shows "\<exists>t. in_down (pc s t) \<and> t \<notin> set (waiters (lock_sema (the_lock s))) \<and>
           (t = current s \<or> t \<in> set (thread_ready_list s))"
proof -
  obtain own where inv: "lock_inv D own s"
    using lock_reach_inv [OF assms(2) lock_start_inv [OF assms(1)]] by blast
  note i = lock_invD [OF inv]
  obtain t where t: "t \<notin> set (waiters (lock_sema (the_lock s)))" "in_down (pc s t)"
    using i(6) assms(3,4) by (auto simp: no_lost_wakeup_def)
  then have "runnable (status (task s t))" "t \<in> set (thread_all_list s)"
    using i(5) by (auto simp: waiting_def) (metis in_down.simps(2))
  then have "t = current s \<or> t \<in> set (thread_ready_list s)"
    using sched_preD(5,6) [OF sched_invD(1) [OF i(1)]] by (auto simp: runnable_def)
  with t show ?thesis by blast
qed

section \<open>Executing the step relation\<close>

datatype act = Acquire | Again | Acquired | Release | Up | Preempt

definition guarded :: "bool \<Rightarrow> lsys option \<Rightarrow> lsys option" where
  "guarded g r = (if g then r else None)"

fun lock_do :: "act \<Rightarrow> lsys \<Rightarrow> lsys option" where
  "lock_do Acquire s = guarded (pc s (current s) \<in> {Outside, Holding} \<and> current s \<noteq> idle_thread s \<and>
     holder_repeat_nr (the_lock s) + 1 \<noteq> 0) (do_acquire s)"
| "lock_do Again s = (case pc s (current s) of Down old \<Rightarrow> do_again old s | _ \<Rightarrow> None)"
| "lock_do Acquired s = guarded (pc s (current s) = Got) (do_acquired s)"
| "lock_do Release s = guarded (pc s (current s) = Holding) (do_releasing s)"
| "lock_do Up s = guarded (pc s (current s) = Releasing) (do_up s)"
| "lock_do Preempt s = schedule (s\<lparr>cpu_eflags := cli (cpu_eflags s)\<rparr>)"

fun lock_run :: "act list \<Rightarrow> lsys \<Rightarrow> lsys option" where
  "lock_run [] s = Some s"
| "lock_run (a # as) s = do { s \<leftarrow> lock_do a s; lock_run as s }"

lemma lock_do_step: "lock_do a s = Some s' \<Longrightarrow> lock_step s (Some s')"
proof (induction a s rule: lock_do.induct)
  case (1 s) then show ?case using lock_step.acquire [of s] by (simp add: guarded_def split: if_splits)
next
  case (2 s) then show ?case using lock_step.again [of s] by (simp split: lock_pc.splits)
next
  case (3 s) then show ?case using lock_step.acquired [of s] by (simp add: guarded_def split: if_splits)
next
  case (4 s) then show ?case using lock_step.releasing [of s] by (simp add: guarded_def split: if_splits)
next
  case (5 s) then show ?case using lock_step.up [of s] by (simp add: guarded_def split: if_splits)
next
  case (6 s) then show ?case using lock_step.preempt [of s] by simp
qed

lemma lock_run_reach: "lock_reach s0 s \<Longrightarrow> lock_run as s = Some s' \<Longrightarrow> lock_reach s0 s'"
proof (induction as arbitrary: s)
  case (Cons a as)
  then obtain s1 where "lock_do a s = Some s1" "lock_run as s1 = Some s'" by (auto simp: Option.bind_eq_Some_conv)
  then show ?case using Cons.IH lock_reach.step [OF Cons.prems(1) lock_do_step] by blast
qed simp

definition lsys4 :: lsys where
  "lsys4 = lsys0\<lparr>thread_ready_list := [0x3000, 0x4000, 0x1000],
     thread_all_list := [0x1000, 0x2000, 0x3000, 0x4000]\<rparr>"

lemma lock_start_lsys4: "lock_start {0x100000} lsys4"
  by (simp add: lsys4_def lock_start_def lsys0_def sched_inv_def sched_pre_def spaces_ok_def task0_def)

definition wake_run :: "act list" where
  "wake_run = [Acquire, Acquired, Preempt, Acquire, Acquire, Preempt, Release, Up]"

definition lock_view :: "lsys \<Rightarrow> u8 \<times> u32 list \<times> u32 \<times> u32 list \<times> lock_pc" where
  "lock_view s = (value (lock_sema (the_lock s)), waiters (lock_sema (the_lock s)), current s,
     thread_ready_list s, pc s 0x2000)"

lemma wake_run_view: "map_option lock_view (lock_run wake_run lsys4) = Some (1, [0x4000], 0x2000, [0x3000, 0x1000], Outside)"
  by code_simp

lemma hold_run_view:
  "map_option lock_view (lock_run [Acquire, Acquired] lsys4) = Some (0, [], 0x2000, [0x3000, 0x4000, 0x1000], Holding)"
  by code_simp

theorem lock_no_lost_wakeup_witness:
  "\<exists>s t. lock_reach lsys4 s \<and> waiters (lock_sema (the_lock s)) = [0x4000] \<and> in_down (pc s t) \<and> t \<noteq> 0x4000"
proof -
  obtain s where s: "lock_run wake_run lsys4 = Some s" "lock_view s = (1, [0x4000], 0x2000, [0x3000, 0x1000], Outside)"
    using wake_run_view by auto
  have "lock_reach lsys4 s" by (rule lock_run_reach [OF lock_reach.start s(1)])
  with lock_no_lost_wakeup [OF lock_start_lsys4 this] s(2) show ?thesis by (auto simp: lock_view_def)
qed

theorem lock_mutual_exclusion_witness:
  "\<exists>s. lock_reach lsys4 s \<and> pc s 0x2000 = Holding \<and> holder (the_lock s) = 0x2000"
proof -
  obtain s where s: "lock_run [Acquire, Acquired] lsys4 = Some s" "pc s 0x2000 = Holding"
    using hold_run_view by (auto simp: lock_view_def)
  have "lock_reach lsys4 s" by (rule lock_run_reach [OF lock_reach.start s(1)])
  with lock_mutual_exclusion [OF lock_start_lsys4 this, of "0x2000" "0x2000"] s(2) show ?thesis
    by (auto simp: crit_def)
qed

section \<open>A lock nobody else wants\<close>

text \<open>The sequential components enter and leave their critical sections by \<open>lock_enter\<close> and
  \<^verbatim>\<open>lock_release\<close>: a call that finds the lock taken is suspended in \<^verbatim>\<open>lock_acquire\<close>, as described
  above, and is outside the sequential runs these components describe.\<close>

definition lock_enter :: "lock \<Rightarrow> 'a sched_scheme \<Rightarrow> (lock \<times> 'a sched_scheme) option" where
  "lock_enter plock s = do {
     (r, plock, s) \<leftarrow> lock_acquire plock s;
     case r of Returned \<Rightarrow> Some (plock, s) | Suspended \<Rightarrow> None
   }"

definition lock_held :: "u32 \<Rightarrow> lock" where
  "lock_held t = \<lparr>holder = t, lock_sema = \<lparr>value = 0, waiters = []\<rparr>, holder_repeat_nr = 1\<rparr>"

lemma resume_disable [simp]:
  "thread_resume (fst (intr_disable (cpu_eflags s))) (s\<lparr>cpu_eflags := snd (intr_disable (cpu_eflags s))\<rparr>) = s"
  by (simp add: thread_resume_def)

lemma lock_enter_free [simp]: "current s \<noteq> 0 \<Longrightarrow> lock_enter lock_init s = Some (lock_held (current s), s)"
  by (simp add: lock_enter_def lock_acquire_def lock_init_def sema_init_def sema_down_def sema_down_loop_def
      split_beta Let_def ASSERT_bind running_thread_def lock_acquired_def lock_held_def)

lemma lock_release_held [simp]: "lock_release (lock_held (current s)) s = Some (lock_init, s)"
  by (simp add: lock_release_def lock_releasing_def lock_held_def running_thread_def sema_up_def
      split_beta Let_def ASSERT_bind lock_init_def sema_init_def)

end
