(* ===== verification/Kioqueue.thy ===== *)
theory Kioqueue
  imports Ksync
begin

text \<open>
  The ring buffer between an interrupt handler or a pipe writer and a reader
  (\<^verbatim>\<open>src/dev/ioqueue.c\<close>, \<^verbatim>\<open>src/inc/ioqueue.h\<close>). A call that has to wait suspends its caller,
  either in \<^verbatim>\<open>lock_acquire\<close> or in \<^verbatim>\<open>ioq_wait\<close>; \<open>ioq_getchar_again\<close> and \<open>ioq_putchar_again\<close> are
  what a caller suspended in \<^verbatim>\<open>ioq_wait\<close> does when it runs again. The buffer refines a queue of at
  most 63 bytes: the locale \<open>bounded_queue\<close> is the contract of such a queue, and its interpretation
  on the ring buffer gives the FIFO law.
\<close>

section \<open>Operations\<close>

definition bufsize :: u32 where
  "bufsize = 64"

record ioqueue =
  ioq_lock :: lock
  producer :: u32
  consumer :: u32
  ioq_buf :: "u8 list"
  ioq_head :: u32
  ioq_tail :: u32

text \<open>\<^verbatim>\<open>ioqueue_init\<close> leaves the bytes of the buffer as they are.\<close>

definition ioqueue_init :: "ioqueue \<Rightarrow> ioqueue" where
  "ioqueue_init ioq =
     ioq\<lparr>ioq_lock := lock_init, producer := 0, consumer := 0, ioq_head := 0, ioq_tail := 0\<rparr>"

definition next_pos :: "u32 \<Rightarrow> u32" where
  "next_pos pos = (pos + 1) mod bufsize"

definition ioq_full :: "ioqueue \<Rightarrow> 'a sched_scheme \<Rightarrow> bool option" where
  "ioq_full ioq s = do {
     ASSERT (intr_get_status (cpu_eflags s) = INTR_OFF);
     Some (next_pos (ioq_head ioq) = ioq_tail ioq)
   }"

definition ioq_empty :: "ioqueue \<Rightarrow> 'a sched_scheme \<Rightarrow> bool option" where
  "ioq_empty ioq s = do {
     ASSERT (intr_get_status (cpu_eflags s) = INTR_OFF);
     Some (ioq_head ioq = ioq_tail ioq)
   }"

text \<open>How a call ends for now: it returns, or its caller is suspended on the queue's lock or in
  \<^verbatim>\<open>ioq_wait\<close>.\<close>

datatype 'r ioq_call = Done 'r | On_lock | On_wait

text \<open>\<^verbatim>\<open>ioq_wait\<close> on a waiter field: the caller is recorded there and blocks.\<close>

definition ioq_wait :: "u32 \<Rightarrow> 'a sched_scheme \<Rightarrow> (u32 \<times> 'a sched_scheme) option" where
  "ioq_wait waiter s = do {
     ASSERT (waiter = 0);
     let waiter = running_thread s;
     (_, s) \<leftarrow> thread_block s TASK_BLOCKED;
     Some (waiter, s)
   }"

definition wakeup :: "u32 \<Rightarrow> 'a sched_scheme \<Rightarrow> (u32 \<times> 'a sched_scheme) option" where
  "wakeup waiter s = do {
     ASSERT (waiter \<noteq> 0);
     s \<leftarrow> thread_unblock s waiter;
     Some (0, s)
   }"

text \<open>One byte out of the buffer and one into it.\<close>

definition ioq_fetch :: "ioqueue \<Rightarrow> (u8 \<times> ioqueue) option" where
  "ioq_fetch ioq = do {
     byte \<leftarrow> aget (ioq_buf ioq) (ioq_tail ioq);
     Some (byte, ioq\<lparr>ioq_tail := next_pos (ioq_tail ioq)\<rparr>)
   }"

definition ioq_store :: "ioqueue \<Rightarrow> u8 \<Rightarrow> ioqueue option" where
  "ioq_store ioq byte = do {
     b \<leftarrow> aset (ioq_buf ioq) (ioq_head ioq) byte;
     Some (ioq\<lparr>ioq_buf := b, ioq_head := next_pos (ioq_head ioq)\<rparr>)
   }"

definition ioq_getchar ::
  "ioqueue \<Rightarrow> 'a sched_scheme \<Rightarrow> (u8 ioq_call \<times> ioqueue \<times> 'a sched_scheme) option" where
  "ioq_getchar ioq s = do {
     ASSERT (intr_get_status (cpu_eflags s) = INTR_OFF);
     e \<leftarrow> ioq_empty ioq s;
     if e then do {
       (r, lk, s) \<leftarrow> lock_acquire (ioq_lock ioq) s;
       let ioq = ioq\<lparr>ioq_lock := lk\<rparr>;
       case r of
         Suspended \<Rightarrow> Some (On_lock, ioq, s)
       | Returned \<Rightarrow> do {
           (w, s) \<leftarrow> ioq_wait (consumer ioq) s;
           Some (On_wait, ioq\<lparr>consumer := w\<rparr>, s)
         }
     }
     else do {
       (byte, ioq) \<leftarrow> ioq_fetch ioq;
       if producer ioq \<noteq> 0
       then do { (w, s) \<leftarrow> wakeup (producer ioq) s; Some (Done byte, ioq\<lparr>producer := w\<rparr>, s) }
       else Some (Done byte, ioq, s)
     }
   }"

definition ioq_putchar ::
  "ioqueue \<Rightarrow> u8 \<Rightarrow> 'a sched_scheme \<Rightarrow> (unit ioq_call \<times> ioqueue \<times> 'a sched_scheme) option" where
  "ioq_putchar ioq byte s = do {
     ASSERT (intr_get_status (cpu_eflags s) = INTR_OFF);
     f \<leftarrow> ioq_full ioq s;
     if f then do {
       (r, lk, s) \<leftarrow> lock_acquire (ioq_lock ioq) s;
       let ioq = ioq\<lparr>ioq_lock := lk\<rparr>;
       case r of
         Suspended \<Rightarrow> Some (On_lock, ioq, s)
       | Returned \<Rightarrow> do {
           (w, s) \<leftarrow> ioq_wait (producer ioq) s;
           Some (On_wait, ioq\<lparr>producer := w\<rparr>, s)
         }
     }
     else do {
       ioq \<leftarrow> ioq_store ioq byte;
       if consumer ioq \<noteq> 0
       then do { (w, s) \<leftarrow> wakeup (consumer ioq) s; Some (Done (), ioq\<lparr>consumer := w\<rparr>, s) }
       else Some (Done (), ioq, s)
     }
   }"

text \<open>A caller that was suspended in \<^verbatim>\<open>ioq_wait\<close> releases the lock and tests the buffer again; its
  \<^verbatim>\<open>thread_block\<close> was entered with interrupts off.\<close>

definition ioq_getchar_again ::
  "ioqueue \<Rightarrow> 'a sched_scheme \<Rightarrow> (u8 ioq_call \<times> ioqueue \<times> 'a sched_scheme) option" where
  "ioq_getchar_again ioq s = do {
     (lk, s) \<leftarrow> lock_release (ioq_lock ioq) (thread_resume INTR_OFF s);
     ioq_getchar (ioq\<lparr>ioq_lock := lk\<rparr>) s
   }"

definition ioq_putchar_again ::
  "ioqueue \<Rightarrow> u8 \<Rightarrow> 'a sched_scheme \<Rightarrow> (unit ioq_call \<times> ioqueue \<times> 'a sched_scheme) option" where
  "ioq_putchar_again ioq byte s = do {
     (lk, s) \<leftarrow> lock_release (ioq_lock ioq) (thread_resume INTR_OFF s);
     ioq_putchar (ioq\<lparr>ioq_lock := lk\<rparr>) byte s
   }"

text \<open>\<^verbatim>\<open>head\<close> and \<^verbatim>\<open>tail\<close> are signed in the C structure.\<close>

definition ioq_length :: "ioqueue \<Rightarrow> u32" where
  "ioq_length ioq =
     (if sint (ioq_head ioq) \<ge> sint (ioq_tail ioq) then ioq_head ioq - ioq_tail ioq
      else bufsize - (ioq_tail ioq - ioq_head ioq))"

section \<open>The ring buffer as a queue\<close>

definition ioq_ok :: "ioqueue \<Rightarrow> bool" where
  "ioq_ok ioq \<longleftrightarrow> length (ioq_buf ioq) = 64 \<and> unat (ioq_head ioq) < 64 \<and> unat (ioq_tail ioq) < 64"

definition ring_len :: "ioqueue \<Rightarrow> nat" where
  "ring_len ioq = (unat (ioq_head ioq) + 64 - unat (ioq_tail ioq)) mod 64"

definition ioq_contents :: "ioqueue \<Rightarrow> u8 list" where
  "ioq_contents ioq = map (\<lambda>i. ioq_buf ioq ! ((unat (ioq_tail ioq) + i) mod 64)) [0..<ring_len ioq]"

locale bounded_queue =
  fixes invar :: "'q \<Rightarrow> bool"
    and content :: "'q \<Rightarrow> 'b list"
    and cap :: nat
    and put :: "'q \<Rightarrow> 'b \<Rightarrow> 'q option"
    and get :: "'q \<Rightarrow> ('b \<times> 'q) option"
  assumes put_law: "invar q \<Longrightarrow> length (content q) < cap \<Longrightarrow>
      \<exists>q'. put q b = Some q' \<and> invar q' \<and> content q' = content q @ [b]"
    and get_law: "invar q \<Longrightarrow> content q = b # bs \<Longrightarrow>
      \<exists>q'. get q = Some (b, q') \<and> invar q' \<and> content q' = bs"
begin

fun put_all :: "'b list \<Rightarrow> 'q \<Rightarrow> 'q option" where
  "put_all [] q = Some q"
| "put_all (b # bs) q = Option.bind (put q b) (put_all bs)"

fun get_all :: "nat \<Rightarrow> 'q \<Rightarrow> ('b list \<times> 'q) option" where
  "get_all 0 q = Some ([], q)"
| "get_all (Suc n) q =
     Option.bind (get q) (\<lambda>(b, q). Option.bind (get_all n q) (\<lambda>(bs, q). Some (b # bs, q)))"

lemma put_all_law:
  "invar q \<Longrightarrow> length (content q) + length bs \<le> cap \<Longrightarrow>
     \<exists>q'. put_all bs q = Some q' \<and> invar q' \<and> content q' = content q @ bs"
proof (induction bs arbitrary: q)
  case (Cons b bs)
  obtain q1 where "put q b = Some q1" "invar q1" "content q1 = content q @ [b]"
    using put_law [OF Cons.prems(1), of b] Cons.prems(2) by auto
  then show ?case using Cons.IH [of q1] Cons.prems(2) by simp
qed simp

lemma get_all_law:
  "invar q \<Longrightarrow> content q = as @ bs \<Longrightarrow>
     \<exists>q'. get_all (length as) q = Some (as, q') \<and> invar q' \<and> content q' = bs"
proof (induction as arbitrary: q)
  case (Cons a as)
  obtain q1 where "get q = Some (a, q1)" "invar q1" "content q1 = as @ bs"
    using get_law [OF Cons.prems(1), of a "as @ bs"] Cons.prems(2) by auto
  then show ?case using Cons.IH [of q1] by auto
qed simp

lemma put_get:
  assumes "invar q" "content q = []" "length bs \<le> cap"
  shows "\<exists>q1 q2. put_all bs q = Some q1 \<and> get_all (length bs) q1 = Some (bs, q2) \<and> invar q2 \<and> content q2 = []"
proof -
  obtain q1 where "put_all bs q = Some q1" "invar q1" "content q1 = bs"
    using put_all_law [OF assms(1), of bs] assms(2,3) by auto
  then show ?thesis using get_all_law [of q1 bs "[]"] by auto
qed

end

lemma unat_next_pos: "unat p < 64 \<Longrightarrow> unat (next_pos p) = (unat p + 1) mod 64"
  by (simp add: next_pos_def bufsize_def unat_mod_distrib unat_Suc_lt)

lemma mod64_if: "i < 128 \<Longrightarrow> i mod 64 = (if i < 64 then i else i - 64 :: nat)"
  by (simp add: mod_if)

lemma ring_len_if:
  "ioq_ok q \<Longrightarrow> ring_len q =
     (if unat (ioq_tail q) \<le> unat (ioq_head q) then unat (ioq_head q) - unat (ioq_tail q)
      else unat (ioq_head q) + 64 - unat (ioq_tail q))"
  unfolding ioq_ok_def ring_len_def by (subst mod64_if) auto

lemma length_contents [simp]: "length (ioq_contents q) = ring_len q"
  by (simp add: ioq_contents_def)

lemma ioq_full_iff: "ioq_ok q \<Longrightarrow> next_pos (ioq_head q) = ioq_tail q \<longleftrightarrow> ring_len q = 63"
  by (auto simp: word_unat_eq_iff unat_next_pos ioq_ok_def ring_len_if mod64_if split: if_splits)

lemma ioq_empty_iff: "ioq_ok q \<Longrightarrow> ioq_head q = ioq_tail q \<longleftrightarrow> ring_len q = 0"
  by (auto simp: word_unat_eq_iff ioq_ok_def ring_len_if split: if_splits)

lemma ioq_store_law:
  assumes "ioq_ok q" "length (ioq_contents q) < 63"
  shows "\<exists>q'. ioq_store q b = Some q' \<and> ioq_ok q' \<and> ioq_contents q' = ioq_contents q @ [b]"
proof -
  let ?h = "unat (ioq_head q)" and ?t = "unat (ioq_tail q)"
  let ?q = "q\<lparr>ioq_buf := (ioq_buf q)[?h := b], ioq_head := next_pos (ioq_head q)\<rparr>"
  have ok: "?h < 64" "?t < 64" "length (ioq_buf q) = 64" using assms(1) by (simp_all add: ioq_ok_def)
  have len: "ring_len q < 63" using assms(2) by simp
  have ok': "ioq_ok ?q" using ok by (simp add: ioq_ok_def unat_next_pos)
  have len': "ring_len ?q = Suc (ring_len q)"
    using len ok by (auto simp: ring_len_if [OF assms(1)] ring_len_if [OF ok'] unat_next_pos mod64_if split: if_splits)
  have last: "(?t + ring_len q) mod 64 = ?h" using ok by (auto simp: ring_len_if [OF assms(1)] mod64_if)
  have other: "(?t + i) mod 64 \<noteq> ?h" if "i < ring_len q" for i
    using that ok len by (auto simp: ring_len_if [OF assms(1)] mod64_if split: if_splits)
  have "ioq_contents ?q = ioq_contents q @ [b]"
    using ok last by (simp add: ioq_contents_def len') (metis atLeastLessThan_iff nth_list_update_neq other)
  moreover have "ioq_store q b = Some ?q" using ok by (simp add: ioq_store_def aset_def)
  ultimately show ?thesis using ok' by blast
qed

lemma ioq_fetch_law:
  assumes "ioq_ok q" "ioq_contents q = b # bs"
  shows "\<exists>q'. ioq_fetch q = Some (b, q') \<and> ioq_ok q' \<and> ioq_contents q' = bs"
proof -
  let ?h = "unat (ioq_head q)" and ?t = "unat (ioq_tail q)"
  let ?q = "q\<lparr>ioq_tail := next_pos (ioq_tail q)\<rparr>"
  have ok: "?h < 64" "?t < 64" "length (ioq_buf q) = 64" using assms(1) by (simp_all add: ioq_ok_def)
  have pos: "0 < ring_len q" using assms(2) length_contents [of q] by simp
  have ok': "ioq_ok ?q" using ok by (simp add: ioq_ok_def unat_next_pos)
  have len': "ring_len q = Suc (ring_len ?q)"
    using pos ok by (auto simp: ring_len_if [OF assms(1)] ring_len_if [OF ok'] unat_next_pos mod64_if split: if_splits)
  have "(((?t + 1) mod 64) + i) mod 64 = (?t + Suc i) mod 64" for i by (simp add: mod_add_left_eq)
  then have "ioq_contents q = ioq_buf q ! ?t # ioq_contents ?q"
    using ok by (simp add: ioq_contents_def len' upt_conv_Cons map_Suc_upt [symmetric] unat_next_pos o_def del: upt_Suc)
  then have "ioq_buf q ! ?t = b" "ioq_contents ?q = bs" using assms(2) by simp_all
  moreover have "ioq_fetch q = Some (ioq_buf q ! ?t, ?q)" using ok by (simp add: ioq_fetch_def aget_def)
  ultimately show ?thesis using ok' by simp
qed

interpretation rb: bounded_queue ioq_ok ioq_contents 63 ioq_store ioq_fetch
  by unfold_locales (rule ioq_store_law ioq_fetch_law; assumption)+

lemma sint_index: "unat w < 64 \<Longrightarrow> sint (w :: u32) = uint w"
proof -
  assume "unat w < 64"
  then have "w < 64" by (simp add: word_less_nat_alt)
  then have "uint w < 64" by (simp add: word_less_def)
  then show ?thesis by (intro sint_small) simp
qed

lemma ioq_length_ring: "ioq_ok q \<Longrightarrow> unat (ioq_length q) = length (ioq_contents q)"
proof -
  assume ok: "ioq_ok q"
  have b: "unat (ioq_head q) < 64" "unat (ioq_tail q) < 64" using ok by (simp_all add: ioq_ok_def)
  have s: "sint (ioq_tail q) \<le> sint (ioq_head q) \<longleftrightarrow> ioq_tail q \<le> ioq_head q"
    using sint_index [OF b(1)] sint_index [OF b(2)] by (simp add: word_le_def)
  show ?thesis
  proof (cases "ioq_tail q \<le> ioq_head q")
    case True
    then show ?thesis
      unfolding length_contents ring_len_if [OF ok] ioq_length_def s
      by (simp add: unat_minus_le) (simp add: word_le_nat_alt)
  next
    case False
    let ?d = "ioq_tail q - ioq_head q"
    have lt: "unat (ioq_head q) < unat (ioq_tail q)" using False by (simp add: word_le_nat_alt)
    have d: "unat ?d = unat (ioq_tail q) - unat (ioq_head q)"
      using lt by (intro unat_minus_le) (simp add: word_le_nat_alt)
    have "unat (64 - ?d) = 64 - unat ?d"
      using unat_minus_le [of ?d 64] b d by (simp add: word_le_nat_alt)
    then show ?thesis using False b d lt
      unfolding length_contents ring_len_if [OF ok] ioq_length_def s bufsize_def by simp
  qed
qed

lemma getchar_fetch:
  assumes "ioq_ok q" "ioq_contents q = b # bs" "intr_get_status (cpu_eflags s) = INTR_OFF"
    and "producer q = 0 \<or> (sched_inv s \<and> producer q \<in> set (thread_all_list s) \<and> blocking (status (task s (producer q))))"
  shows "\<exists>q' s'. ioq_getchar q s = Some (Done b, q', s') \<and> ioq_ok q' \<and> ioq_contents q' = bs \<and>
     producer q' = 0 \<and> consumer q' = consumer q \<and> (sched_inv s \<longrightarrow> sched_inv s') \<and>
     thread_ready_list s' = (if producer q = 0 then [] else [producer q]) @ thread_ready_list s \<and> cpu_eflags s' = cpu_eflags s"
proof -
  obtain q' where q': "ioq_fetch q = Some (b, q')" "ioq_ok q'" "ioq_contents q' = bs"
    using ioq_fetch_law [OF assms(1,2)] by blast
  have f: "producer q' = producer q" "consumer q' = consumer q"
    using q'(1) by (auto simp: ioq_fetch_def aget_def split: if_splits)
  have e: "ioq_head q \<noteq> ioq_tail q"
    using ioq_empty_iff [OF assms(1)] assms(2) length_contents [of q] by auto
  show ?thesis
  proof (cases "producer q = 0")
    case True
    then show ?thesis using q' f e assms(3) by (simp add: ioq_getchar_def ioq_empty_def ASSERT_bind)
  next
    case False
    then obtain s' where "thread_unblock s (producer q) = Some s'" "sched_inv s'"
      "thread_ready_list s' = producer q # thread_ready_list s" "cpu_eflags s' = cpu_eflags s"
      using assms(4) unblock_running [of s "producer q"] by metis
    then show ?thesis
      using False q' f e assms(3)
      by (simp add: ioq_getchar_def ioq_empty_def ASSERT_bind wakeup_def ioq_ok_def)
        (simp add: ioq_contents_def ring_len_def)
  qed
qed

lemma putchar_store:
  assumes "ioq_ok q" "length (ioq_contents q) < 63" "intr_get_status (cpu_eflags s) = INTR_OFF"
    and "consumer q = 0 \<or> (sched_inv s \<and> consumer q \<in> set (thread_all_list s) \<and> blocking (status (task s (consumer q))))"
  shows "\<exists>q' s'. ioq_putchar q b s = Some (Done (), q', s') \<and> ioq_ok q' \<and> ioq_contents q' = ioq_contents q @ [b] \<and>
     consumer q' = 0 \<and> producer q' = producer q \<and> (sched_inv s \<longrightarrow> sched_inv s') \<and>
     thread_ready_list s' = (if consumer q = 0 then [] else [consumer q]) @ thread_ready_list s \<and> cpu_eflags s' = cpu_eflags s"
proof -
  obtain q' where q': "ioq_store q b = Some q'" "ioq_ok q'" "ioq_contents q' = ioq_contents q @ [b]"
    using ioq_store_law [OF assms(1,2)] by blast
  have f: "producer q' = producer q" "consumer q' = consumer q"
    using q'(1) by (auto simp: ioq_store_def aset_def split: if_splits)
  have e: "next_pos (ioq_head q) \<noteq> ioq_tail q"
    using ioq_full_iff [OF assms(1)] assms(2) length_contents [of q] by auto
  show ?thesis
  proof (cases "consumer q = 0")
    case True
    then show ?thesis using q' f e assms(3) by (simp add: ioq_putchar_def ioq_full_def ASSERT_bind)
  next
    case False
    then obtain s' where "thread_unblock s (consumer q) = Some s'" "sched_inv s'"
      "thread_ready_list s' = consumer q # thread_ready_list s" "cpu_eflags s' = cpu_eflags s"
      using assms(4) unblock_running [of s "consumer q"] by metis
    then show ?thesis
      using False q' f e assms(3)
      by (simp add: ioq_putchar_def ioq_full_def ASSERT_bind wakeup_def ioq_ok_def)
        (simp add: ioq_contents_def ring_len_def)
  qed
qed

lemma lock_acquire_free:
  "current s \<noteq> 0 \<Longrightarrow> lock_acquire lock_init s = Some (Returned, lock_held (current s), s)"
  by (simp add: lock_acquire_def lock_init_def sema_init_def sema_down_def sema_down_loop_def
      split_beta Let_def ASSERT_bind running_thread_def lock_acquired_def lock_held_def)

lemma putchar_full:
  assumes "ioq_ok q" "length (ioq_contents q) = 63" "intr_get_status (cpu_eflags s) = INTR_OFF"
    and "producer q = 0" "ioq_lock q = lock_init" "sched_inv s" "spaces_ok D s"
  shows "\<exists>q' s'. ioq_putchar q b s = Some (On_wait, q', s') \<and> ioq_contents q' = ioq_contents q \<and>
     producer q' = current s \<and> ioq_lock q' = lock_held (current s) \<and> sched_inv s' \<and>
     (current s \<noteq> idle_thread s \<longrightarrow> status (task s' (current s)) = TASK_BLOCKED \<and> current s' \<noteq> current s)"
proof -
  have full: "next_pos (ioq_head q) = ioq_tail q" using ioq_full_iff [OF assms(1)] assms(2) by simp
  have c: "current s \<noteq> 0"
    using sched_invD(2) [OF assms(6)] sched_preD(2) [OF sched_invD(1) [OF assms(6)]] by metis
  have bl: "blocking TASK_BLOCKED" by (simp add: blocking_def)
  obtain s' where s': "thread_block s TASK_BLOCKED = Some (intr_get_status (cpu_eflags s), s')" "sched_inv s'"
    "current s' # thread_ready_list s' = (if thread_ready_list s = [] then [idle_thread s] else thread_ready_list s)"
    "current s' \<noteq> current s \<longrightarrow> status (task s' (current s)) = TASK_BLOCKED"
    by (rule block_running [OF assms(6,7) bl]) (rule that)
  have "current s' \<noteq> current s" if "current s \<noteq> idle_thread s"
    using s'(3) that sched_invD(4) [OF assms(6)] by (cases "thread_ready_list s") auto
  moreover have "ioq_putchar q b s = Some (On_wait, q\<lparr>ioq_lock := lock_held (current s), producer := current s\<rparr>, s')"
    using full s'(1) c assms(3-5) lock_acquire_free [of s]
    by (simp add: ioq_putchar_def ioq_full_def ASSERT_bind ioq_wait_def running_thread_def)
  ultimately show ?thesis using s'(2,4) by (auto simp: ioq_contents_def ring_len_def)
qed

section \<open>Properties\<close>

definition ioq0 :: ioqueue where
  "ioq0 = ioqueue_init \<lparr>ioq_lock = lock_init, producer = 0, consumer = 0, ioq_buf = replicate 64 0,
     ioq_head = 5, ioq_tail = 9\<rparr>"

lemma ioq0_ok: "ioq_ok ioq0" "ioq_contents ioq0 = []" "producer ioq0 = 0" "consumer ioq0 = 0" "ioq_lock ioq0 = lock_init"
  by (simp_all add: ioq0_def ioqueue_init_def ioq_ok_def ioq_contents_def ring_len_def)

text \<open>Remark: \<^verbatim>\<open>ioq_putchar\<close> on a queue that is not full appends the byte and wakes a waiting
  consumer, which becomes the next thread to run; \<^verbatim>\<open>ioq_length\<close> is the number of bytes queued.\<close>

theorem ioq_putchar_appends:
  assumes "ioq_ok q" "length (ioq_contents q) < 63" "intr_get_status (cpu_eflags s) = INTR_OFF"
    and "consumer q = 0 \<or> (sched_inv s \<and> consumer q \<in> set (thread_all_list s) \<and> blocking (status (task s (consumer q))))"
  shows "\<exists>q' s'. ioq_putchar q b s = Some (Done (), q', s') \<and> ioq_ok q' \<and> ioq_contents q' = ioq_contents q @ [b] \<and>
     unat (ioq_length q') = Suc (unat (ioq_length q)) \<and> consumer q' = 0 \<and>
     thread_ready_list s' = (if consumer q = 0 then [] else [consumer q]) @ thread_ready_list s"
  using putchar_store [OF assms, of b] ioq_length_ring [OF assms(1)] ioq_length_ring by fastforce

theorem ioq_putchar_appends_witness:
  "\<exists>q' s'. ioq_putchar ioq0 65 sched0 = Some (Done (), q', s') \<and> ioq_contents q' = [65]"
  using ioq_putchar_appends [OF ioq0_ok(1) _ sched0_ok(3), of 65] ioq0_ok by auto

text \<open>Remark: \<^verbatim>\<open>ioq_getchar\<close> on a non-empty queue returns its first byte, removes it, and wakes a
  waiting producer.\<close>

theorem ioq_getchar_takes_first:
  assumes "ioq_ok q" "ioq_contents q = b # bs" "intr_get_status (cpu_eflags s) = INTR_OFF"
    and "producer q = 0 \<or> (sched_inv s \<and> producer q \<in> set (thread_all_list s) \<and> blocking (status (task s (producer q))))"
  shows "\<exists>q' s'. ioq_getchar q s = Some (Done b, q', s') \<and> ioq_ok q' \<and> ioq_contents q' = bs \<and> producer q' = 0 \<and>
     thread_ready_list s' = (if producer q = 0 then [] else [producer q]) @ thread_ready_list s"
  using getchar_fetch [OF assms] by fastforce

theorem ioq_getchar_takes_first_witness:
  "\<exists>q q' s'. ioq_getchar q sched0 = Some (Done 65, q', s') \<and> ioq_contents q' = []"
proof -
  obtain q where q: "ioq_store ioq0 65 = Some q" "ioq_ok q" "ioq_contents q = [65]"
    using ioq_store_law [OF ioq0_ok(1), of 65] ioq0_ok(2) by auto
  have "producer q = 0" using q(1) ioq0_ok(3) by (auto simp: ioq_store_def aset_def split: if_splits)
  with ioq_getchar_takes_first [OF q(2,3) sched0_ok(3)] show ?thesis by blast
qed

text \<open>Remark: a producer on a full queue blocks: it is recorded in \<^verbatim>\<open>producer\<close>, holds the
  queue's lock, leaves the CPU, and the buffer is unchanged, so no byte is overwritten.\<close>

theorem ioq_putchar_full_blocks:
  assumes "ioq_ok q" "length (ioq_contents q) = 63" "intr_get_status (cpu_eflags s) = INTR_OFF"
    and "producer q = 0" "ioq_lock q = lock_init" "sched_inv s" "spaces_ok D s"
  shows "\<exists>q' s'. ioq_putchar q b s = Some (On_wait, q', s') \<and> ioq_contents q' = ioq_contents q \<and>
     producer q' = current s \<and> ioq_lock q' = lock_held (current s) \<and> sched_inv s' \<and>
     (current s \<noteq> idle_thread s \<longrightarrow> status (task s' (current s)) = TASK_BLOCKED \<and> current s' \<noteq> current s)"
  by (rule putchar_full [OF assms])

text \<open>Remark: the ring buffer is a FIFO queue of capacity 63: up to 63 bytes stored into an empty
  buffer are fetched in the order in which they were stored, wherever the two indices stand.\<close>

theorem ioq_fifo:
  assumes "ioq_ok q" "ioq_contents q = []" "length bs \<le> 63"
  shows "\<exists>q1 q2. rb.put_all bs q = Some q1 \<and> rb.get_all (length bs) q1 = Some (bs, q2) \<and> ioq_contents q2 = []"
  using rb.put_get [OF assms] by blast

theorem ioq_fifo_witness:
  "\<exists>q1 q2. rb.put_all [1, 2, 3] ioq0 = Some q1 \<and> rb.get_all 3 q1 = Some ([1, 2, 3], q2)"
  using ioq_fifo [OF ioq0_ok(1,2), of "[1, 2, 3]"] by (auto simp only: list.size) (auto simp: numeral_3_eq_3)

lemma fill_exists:
  "n \<le> 63 \<Longrightarrow> \<exists>q. ioq_ok q \<and> length (ioq_contents q) = n \<and> producer q = 0 \<and> ioq_lock q = lock_init"
proof (induction n)
  case 0
  then show ?case using ioq0_ok by (metis list.size(3))
next
  case (Suc n)
  then obtain q where q: "ioq_ok q" "length (ioq_contents q) = n" "producer q = 0" "ioq_lock q = lock_init" by auto
  obtain q' where q': "ioq_store q 7 = Some q'" "ioq_ok q'" "ioq_contents q' = ioq_contents q @ [7]"
    using ioq_store_law [OF q(1), of 7] q(2) Suc.prems by auto
  moreover have "producer q' = 0" "ioq_lock q' = lock_init"
    using q'(1) q by (auto simp: ioq_store_def aset_def split: if_splits)
  moreover have "length (ioq_contents q') = Suc n" using q'(3) q(2) by (simp del: length_contents)
  ultimately show ?case by blast
qed

theorem ioq_putchar_full_blocks_witness:
  "\<exists>q q' s'. ioq_putchar q 8 sched0 = Some (On_wait, q', s') \<and> producer q' = 0x2000 \<and> length (ioq_contents q') = 63"
proof -
  obtain q where q: "ioq_ok q" "length (ioq_contents q) = 63" "producer q = 0" "ioq_lock q = lock_init"
    using fill_exists [of 63] by auto
  have c: "current sched0 = 0x2000" by (simp add: sched0_def)
  show ?thesis
    using ioq_putchar_full_blocks [OF q(1,2) sched0_ok(3) q(3,4) sched0_ok(1,2), of 8] q(2) c by metis
qed

end
