(* ===== verification/Kkeyboard.thy ===== *)
theory Kkeyboard
  imports Kioqueue
begin

text \<open>
  The keyboard driver (\<^verbatim>\<open>src/dev/keyboard.c\<close>): the interrupt handler as a state machine on the
  modifier keys, driven by the scancode read from port \<^verbatim>\<open>0x60\<close>, which puts characters into the
  queue \<^verbatim>\<open>kbd_buf\<close>. The message for an unknown key is not modelled. The theory shows that the
  handler always returns and never overruns the queue or the key map, how shift and caps lock
  choose the character, and that modifiers follow the make and break codes of their keys.
\<close>

section \<open>The handler\<close>

record kbd =
  ctrl_status :: bool
  shift_status :: bool
  alt_status :: bool
  caps_lock_status :: bool
  ext_scancode :: bool
  kbd_buf :: ioqueue

definition shift_l_make :: u16 where "shift_l_make = 0x2a"
definition shift_r_make :: u16 where "shift_r_make = 0x36"
definition alt_l_make :: u16 where "alt_l_make = 0x38"
definition alt_r_make :: u16 where "alt_r_make = 0xe038"
definition ctrl_l_make :: u16 where "ctrl_l_make = 0x1d"
definition ctrl_r_make :: u16 where "ctrl_r_make = 0xe01d"
definition caps_lock_make :: u16 where "caps_lock_make = 0x3a"

lemmas make_codes = shift_l_make_def shift_r_make_def alt_l_make_def alt_r_make_def ctrl_l_make_def
  ctrl_r_make_def caps_lock_make_def

text \<open>The characters of a key without and with shift, indexed by make code.\<close>

definition keymap :: "(u8 \<times> u8) list" where
  "keymap = [
     (0, 0), (27, 27), (49, 33), (50, 64), (51, 35), (52, 36), (53, 37), (54, 94),
     (55, 38), (56, 42), (57, 40), (48, 41), (45, 95), (61, 43), (8, 8), (9, 9),
     (113, 81), (119, 87), (101, 69), (114, 82), (116, 84), (121, 89), (117, 85), (105, 73),
     (111, 79), (112, 80), (91, 123), (93, 125), (13, 13), (0, 0), (97, 65), (115, 83),
     (100, 68), (102, 70), (103, 71), (104, 72), (106, 74), (107, 75), (108, 76), (59, 58),
     (39, 34), (96, 126), (0, 0), (92, 124), (122, 90), (120, 88), (99, 67), (118, 86),
     (98, 66), (110, 78), (109, 77), (44, 60), (46, 62), (47, 63), (0, 0), (42, 42),
     (0, 0), (32, 32), (0, 0)]"

text \<open>The keys whose second character needs shift whatever caps lock says.\<close>

definition shift_only :: "u16 \<Rightarrow> bool" where
  "shift_only scancode \<longleftrightarrow> scancode < 0x0e \<or> scancode = 0x29 \<or> scancode = 0x1a \<or> scancode = 0x1b \<or>
     scancode = 0x2b \<or> scancode = 0x27 \<or> scancode = 0x28 \<or> scancode = 0x33 \<or> scancode = 0x34 \<or>
     scancode = 0x35"

definition kbd_break :: "kbd \<Rightarrow> u16 \<Rightarrow> kbd" where
  "kbd_break k make_code =
     (if make_code = ctrl_l_make \<or> make_code = ctrl_r_make then k\<lparr>ctrl_status := False\<rparr>
      else if make_code = shift_l_make \<or> make_code = shift_r_make then k\<lparr>shift_status := False\<rparr>
      else if make_code = alt_l_make \<or> make_code = alt_r_make then k\<lparr>alt_status := False\<rparr>
      else k)"

definition kbd_modifier :: "kbd \<Rightarrow> u16 \<Rightarrow> kbd" where
  "kbd_modifier k scancode =
     (if scancode = ctrl_l_make \<or> scancode = ctrl_r_make then k\<lparr>ctrl_status := True\<rparr>
      else if scancode = shift_l_make \<or> scancode = shift_r_make then k\<lparr>shift_status := True\<rparr>
      else if scancode = alt_l_make \<or> scancode = alt_r_make then k\<lparr>alt_status := True\<rparr>
      else if scancode = caps_lock_make then k\<lparr>caps_lock_status := \<not> caps_lock_status k\<rparr>
      else k)"

definition kbd_char :: "kbd \<Rightarrow> u16 \<Rightarrow> u8 option" where
  "kbd_char k scancode = do {
     let shift = (if shift_only scancode then shift_status k else shift_status k \<noteq> caps_lock_status k);
     e \<leftarrow> aget keymap (ucast (scancode AND 0x00ff));
     Some (if shift then snd e else fst e)
   }"

definition kbd_put :: "kbd \<Rightarrow> u8 \<Rightarrow> 'a sched_scheme \<Rightarrow> (kbd \<times> 'a sched_scheme) option" where
  "kbd_put k cur_char s = do {
     let cur_char = (if ctrl_status k \<and> cur_char = 108 \<or> ctrl_status k \<and> cur_char = 117
                     then cur_char - 97 else cur_char);
     f \<leftarrow> ioq_full (kbd_buf k) s;
     if \<not> f then do { (_, q, s) \<leftarrow> ioq_putchar (kbd_buf k) cur_char s; Some (k\<lparr>kbd_buf := q\<rparr>, s) }
     else Some (k, s)
   }"

definition intr_keyboard_handler :: "kbd \<Rightarrow> u8 \<Rightarrow> 'a sched_scheme \<Rightarrow> (kbd \<times> 'a sched_scheme) option" where
  "intr_keyboard_handler k inb s =
     (let scancode = ucast inb :: u16 in
      if scancode = 0xe0 then Some (k\<lparr>ext_scancode := True\<rparr>, s)
      else
        let scancode = (if ext_scancode k then 0xe000 OR scancode else scancode);
            k = k\<lparr>ext_scancode := False\<rparr>;
            break_code = (scancode AND 0x0080 \<noteq> 0)
        in if break_code then Some (kbd_break k (scancode AND 0xff7f), s)
           else if (scancode > 0 \<and> scancode < 0x3b) \<or> scancode = alt_r_make \<or> scancode = ctrl_r_make
           then do {
             cur_char \<leftarrow> kbd_char k scancode;
             if cur_char \<noteq> 0 then kbd_put k cur_char s
             else Some (kbd_modifier k (scancode AND 0x00ff), s)
           }
           else Some (k, s))"

definition keyboard_init :: "kbd \<Rightarrow> kbd" where
  "keyboard_init k = k\<lparr>kbd_buf := ioqueue_init (kbd_buf k)\<rparr>"

fun kbd_feed :: "kbd \<Rightarrow> u8 list \<Rightarrow> 'a sched_scheme \<Rightarrow> (kbd \<times> 'a sched_scheme) option" where
  "kbd_feed k [] s = Some (k, s)"
| "kbd_feed k (b # bs) s = do { (k, s) \<leftarrow> intr_keyboard_handler k b s; kbd_feed k bs s }"

section \<open>Lemmas\<close>

lemma keymap_length [simp]: "length keymap = 59"
  by (simp add: keymap_def)

lemma keymap_index:
  fixes c :: u16
  assumes "(c > 0 \<and> c < 0x3b) \<or> c = alt_r_make \<or> c = ctrl_r_make"
  shows "unat (ucast (c AND 0x00ff) :: u32) < 59"
proof -
  have "c AND 0xff < 59"
  proof (cases "c < 0x3b")
    case True
    have "c AND 0xff \<le> c" by (rule word_and_le2)
    with True show ?thesis by (meson le_less_trans)
  next
    case False
    with assms show ?thesis by (auto simp: make_codes)
  qed
  then have "unat (c AND 0xff) < 59" by (simp add: word_less_nat_alt)
  moreover have "unat (ucast (c AND 0xff) :: u32) = unat (c AND 0xff)" by (rule unat_ucast_up) simp
  ultimately show ?thesis by simp
qed

text \<open>What the handler needs: a well-formed queue, interrupts off, and a consumer that is really
  blocked.\<close>

definition kbd_ok :: "kbd \<Rightarrow> 'a sched_scheme \<Rightarrow> bool" where
  "kbd_ok k s \<longleftrightarrow> ioq_ok (kbd_buf k) \<and> intr_get_status (cpu_eflags s) = INTR_OFF \<and> sched_inv s \<and>
     (consumer (kbd_buf k) = 0 \<or> (consumer (kbd_buf k) \<in> set (thread_all_list s) \<and>
        blocking (status (task s (consumer (kbd_buf k))))))"

lemma ring_len_lt: "ring_len q < 64"
  by (simp add: ring_len_def)

lemma kbd_put_returns:
  assumes "kbd_ok k s"
  shows "\<exists>k' s' cs. kbd_put k c s = Some (k', s') \<and> ioq_ok (kbd_buf k') \<and> sched_inv s' \<and>
     ioq_contents (kbd_buf k') = ioq_contents (kbd_buf k) @ cs \<and> length cs \<le> 1"
proof (cases "ring_len (kbd_buf k) = 63")
  case True
  then show ?thesis
    using assms by (simp add: kbd_put_def kbd_ok_def ioq_full_def ASSERT_bind ioq_full_iff Let_def)
next
  case False
  then have lt: "length (ioq_contents (kbd_buf k)) < 63" using ring_len_lt [of "kbd_buf k"] by simp
  let ?c = "if ctrl_status k \<and> c = 108 \<or> ctrl_status k \<and> c = 117 then c - 97 else c"
  obtain q s' where "ioq_putchar (kbd_buf k) ?c s = Some (Done (), q, s')" "ioq_ok q"
    "ioq_contents q = ioq_contents (kbd_buf k) @ [?c]" "sched_inv s'"
    using putchar_store [OF _ lt, of s ?c] assms by (auto simp: kbd_ok_def simp del: length_contents)
  then show ?thesis
    using False assms unfolding kbd_put_def kbd_ok_def ioq_full_def Let_def
    by (simp add: ASSERT_bind ioq_full_iff)
qed

lemma kbd_char_defined:
  "(c > 0 \<and> c < 0x3b) \<or> c = alt_r_make \<or> c = ctrl_r_make \<Longrightarrow> \<exists>ch. kbd_char k c = Some ch"
  using keymap_index [of c] by (simp add: kbd_char_def aget_def Let_def)

lemma kbd_modifier_buf [simp]: "kbd_buf (kbd_modifier k c) = kbd_buf k" "kbd_buf (kbd_break k c) = kbd_buf k"
  by (simp_all add: kbd_modifier_def kbd_break_def)

section \<open>Properties\<close>

text \<open>Remark: the keyboard interrupt handler returns for every scancode in every modifier state:
  it stays inside the key map, queues at most one character, drops it when the queue is full (it never
  waits), and keeps the queue and the scheduler well formed.\<close>

theorem keyboard_handler_returns:
  assumes "kbd_ok k s"
  shows "\<exists>k' s' cs. intr_keyboard_handler k b s = Some (k', s') \<and> ioq_ok (kbd_buf k') \<and> sched_inv s' \<and>
     ioq_contents (kbd_buf k') = ioq_contents (kbd_buf k) @ cs \<and> length cs \<le> 1"
proof -
  define c :: u16 where "c = (if ext_scancode k then 0xe000 OR ucast b else ucast b)"
  let ?k = "k\<lparr>ext_scancode := False\<rparr>"
  have inv: "kbd_ok ?k s" "ioq_ok (kbd_buf k)" "sched_inv s" using assms by (simp_all add: kbd_ok_def)
  have h: "intr_keyboard_handler k b s =
      (if ucast b = (0xe0 :: u16) then Some (k\<lparr>ext_scancode := True\<rparr>, s)
       else if c AND 0x80 \<noteq> 0 then Some (kbd_break ?k (c AND 0xff7f), s)
       else if (c > 0 \<and> c < 0x3b) \<or> c = alt_r_make \<or> c = ctrl_r_make
       then do { ch \<leftarrow> kbd_char ?k c; if ch \<noteq> 0 then kbd_put ?k ch s else Some (kbd_modifier ?k (c AND 0xff), s) }
       else Some (?k, s))"
    by (simp only: intr_keyboard_handler_def Let_def c_def)
  show ?thesis
  proof (cases "ucast b \<noteq> (0xe0 :: u16) \<and> c AND 0x80 = 0 \<and> ((c > 0 \<and> c < 0x3b) \<or> c = alt_r_make \<or> c = ctrl_r_make)")
    case True
    then obtain ch where "kbd_char ?k c = Some ch" using kbd_char_defined by blast
    then show ?thesis using kbd_put_returns [OF inv(1), of ch] inv(2,3) True unfolding h by auto
  next
    case False
    then show ?thesis using inv unfolding h by auto
  qed
qed

definition kbd0 :: kbd where
  "kbd0 = \<lparr>ctrl_status = False, shift_status = False, alt_status = False, caps_lock_status = False,
     ext_scancode = False, kbd_buf = ioq0\<rparr>"

lemma kbd0_ok: "kbd_ok kbd0 sched0"
  using sched0_ok ioq0_ok by (simp add: kbd_ok_def kbd0_def)

theorem keyboard_handler_returns_witness:
  "\<exists>k' s'. intr_keyboard_handler kbd0 0x1e sched0 = Some (k', s') \<and> length (ioq_contents (kbd_buf k')) \<le> 1"
  using keyboard_handler_returns [OF kbd0_ok, of "0x1e"] ioq0_ok(2)
  by (fastforce simp: kbd0_def simp del: length_contents)

text \<open>Remark: a letter key gives the capital letter exactly when one of shift and caps lock is
  active but not both; a digit key ignores caps lock.\<close>

definition is_lower :: "u8 \<Rightarrow> bool" where
  "is_lower ch \<longleftrightarrow> 97 \<le> ch \<and> ch \<le> 122"

definition is_digit :: "u8 \<Rightarrow> bool" where
  "is_digit ch \<longleftrightarrow> 48 \<le> ch \<and> ch \<le> 57"

lemma keymap_letters:
  "list_all (\<lambda>c. (is_lower (fst (keymap ! c)) \<longrightarrow> snd (keymap ! c) = fst (keymap ! c) - 32 \<and> \<not> shift_only (of_nat c)) \<and>
     (is_digit (fst (keymap ! c)) \<longrightarrow> shift_only (of_nat c))) [0..<59]"
  by code_simp

theorem keyboard_shift_caps:
  assumes "c < 59"
  shows "(is_lower (fst (keymap ! c)) \<longrightarrow>
           kbd_char k (of_nat c) =
             Some (if shift_status k \<noteq> caps_lock_status k then fst (keymap ! c) - 32 else fst (keymap ! c))) \<and>
         (is_digit (fst (keymap ! c)) \<longrightarrow>
           kbd_char k (of_nat c) = Some (if shift_status k then snd (keymap ! c) else fst (keymap ! c)))"
proof -
  have i: "unat (ucast (of_nat c AND 0xff :: u16) :: u32) = c"
  proof -
    have m: "(0xff :: u16) = mask 8" by (simp add: mask_eq_exp_minus_1)
    have "unat (of_nat c AND 0xff :: u16) = c"
      unfolding m take_bit_eq_mask [symmetric] unsigned_take_bit_eq
      using assms by (simp add: unat_of_nat_lt take_bit_nat_eq_self)
    moreover have "unat (ucast (of_nat c AND 0xff :: u16) :: u32) = unat (of_nat c AND 0xff :: u16)"
      by (rule unat_ucast_up) simp
    ultimately show ?thesis by simp
  qed
  have "(is_lower (fst (keymap ! c)) \<longrightarrow> snd (keymap ! c) = fst (keymap ! c) - 32 \<and> \<not> shift_only (of_nat c)) \<and>
     (is_digit (fst (keymap ! c)) \<longrightarrow> shift_only (of_nat c))"
    using keymap_letters assms by (simp add: list_all_iff del: upt_rec_numeral)
  then show ?thesis using assms by (simp add: kbd_char_def aget_def Let_def i)
qed

theorem keyboard_shift_caps_witness: "kbd_char (kbd0\<lparr>caps_lock_status := True\<rparr>) 0x10 = Some 81"
  using keyboard_shift_caps [of 16 "kbd0\<lparr>caps_lock_status := True\<rparr>"]
  by (simp add: kbd0_def keymap_def is_lower_def)

text \<open>Remark: a modifier follows its key: the make code of left shift, of left control or of
  right control (two bytes) switches exactly that modifier on, the break code switches it off again,
  and caps lock is toggled by its make code and ignores its break code; no character is queued.\<close>

theorem keyboard_modifiers:
  assumes "\<not> ext_scancode k"
  shows "kbd_feed k [0x2a] s = Some (k\<lparr>shift_status := True\<rparr>, s) \<and>
         kbd_feed k [0x2a, 0xaa] s = Some (k\<lparr>shift_status := False\<rparr>, s) \<and>
         kbd_feed k [0x1d, 0x9d] s = Some (k\<lparr>ctrl_status := False\<rparr>, s) \<and>
         kbd_feed k [0xe0, 0x1d] s = Some (k\<lparr>ctrl_status := True\<rparr>, s) \<and>
         kbd_feed k [0xe0, 0x1d, 0xe0, 0x9d] s = Some (k\<lparr>ctrl_status := False\<rparr>, s) \<and>
         kbd_feed k [0x3a, 0xba] s = Some (k\<lparr>caps_lock_status := \<not> caps_lock_status k\<rparr>, s)"
  using assms
  by (simp add: intr_keyboard_handler_def kbd_break_def kbd_modifier_def make_codes kbd_char_def aget_def
      keymap_def Let_def)

theorem keyboard_modifiers_witness: "kbd_feed kbd0 [0x2a] sched0 = Some (kbd0\<lparr>shift_status := True\<rparr>, sched0)"
  using keyboard_modifiers [of kbd0 sched0] by (simp add: kbd0_def)

end
