(* ===== verification/Kmemory.thy ===== *)
theory Kmemory
  imports Ksync
begin

text \<open>
  Memory management (\<^verbatim>\<open>src/kern/memory.c\<close>, \<^verbatim>\<open>src/inc/memory.h\<close>): the physical page pools, the
  virtual address pools, the mapping of pages, and the heap of \<^verbatim>\<open>sys_malloc\<close> and \<^verbatim>\<open>sys_free\<close>.
  Page tables live in the physical memory of \<open>Kpaging\<close> and are edited through virtual addresses.
  The header of an arena is kept under the physical address of its page and is reached by
  translating the arena's virtual address; the free lists hold virtual block addresses. Calls that
  return \<^verbatim>\<open>NULL\<close> return address 0; a failed \<^verbatim>\<open>ASSERT\<close>, a page fault and a taken pool lock are
  \<open>None\<close>. Progress messages on the screen are left out.

  The theory shows the layout of the pools, that a mapped page is translated as requested and no
  other translation changes, that the blocks of an arena are disjoint and find their arena again, and
  what allocation and release do to the free lists.
\<close>

section \<open>State\<close>

datatype pool_flags = PF_KERNEL | PF_USER

record pool =
  pool_bitmap :: bitmap
  phy_addr_start :: u32
  pool_size :: u32
  pool_lock :: lock

text \<open>\<^verbatim>\<open>a->desc\<close> is \<^verbatim>\<open>NULL\<close> or points into the kernel's descriptors or into those of a process.\<close>

datatype desc_ref = No_desc | Kernel_desc u32 | User_desc u32 u32

record arena =
  desc :: desc_ref
  cnt :: u32
  large :: u32

record kmem = sched +
  kernel_pool :: pool
  user_pool :: pool
  kernel_vaddr :: virtual_addr
  k_block_descs :: "mem_block_desc list"
  arenas :: "u32 \<Rightarrow> arena"

definition MEM_BITMAP_BASE :: u32 where "MEM_BITMAP_BASE = 0xc009a000"
definition K_HEAP_START :: u32 where "K_HEAP_START = 0xc0100000"
definition DESC_CNT :: nat where "DESC_CNT = 7"
definition sizeof_arena :: u32 where "sizeof_arena = 12"

definition get_pool :: "pool_flags \<Rightarrow> 'a kmem_scheme \<Rightarrow> pool" where
  "get_pool pf s = (case pf of PF_KERNEL \<Rightarrow> kernel_pool s | PF_USER \<Rightarrow> user_pool s)"

definition set_pool :: "pool_flags \<Rightarrow> pool \<Rightarrow> 'a kmem_scheme \<Rightarrow> 'a kmem_scheme" where
  "set_pool pf p s = (case pf of PF_KERNEL \<Rightarrow> s\<lparr>kernel_pool := p\<rparr> | PF_USER \<Rightarrow> s\<lparr>user_pool := p\<rparr>)"

text \<open>The virtual address pool of the kernel or of the running process.\<close>

definition get_vaddr :: "pool_flags \<Rightarrow> 'a kmem_scheme \<Rightarrow> virtual_addr" where
  "get_vaddr pf s = (case pf of PF_KERNEL \<Rightarrow> kernel_vaddr s
     | PF_USER \<Rightarrow> userproc_vaddr (task s (running_thread s)))"

definition set_vaddr :: "pool_flags \<Rightarrow> virtual_addr \<Rightarrow> 'a kmem_scheme \<Rightarrow> 'a kmem_scheme" where
  "set_vaddr pf v s = (case pf of PF_KERNEL \<Rightarrow> s\<lparr>kernel_vaddr := v\<rparr>
     | PF_USER \<Rightarrow> set_task (running_thread s) (\<lambda>t. t\<lparr>userproc_vaddr := v\<rparr>) s)"

section \<open>Zeroing memory\<close>

text \<open>\<^verbatim>\<open>memset(va, 0, n)\<close> inside one page, and on whole pages.\<close>

definition vzero :: "'a mmu_scheme \<Rightarrow> u32 \<Rightarrow> u32 \<Rightarrow> 'a mmu_scheme option" where
  "vzero s va n = do {
     ASSERT (va \<noteq> 0);
     pa \<leftarrow> translate s va;
     Some (s\<lparr>phys := (\<lambda>a. if a - pa < n then 0 else phys s a)\<rparr>)
   }"

fun vzero_pages :: "nat \<Rightarrow> u32 \<Rightarrow> 'a mmu_scheme \<Rightarrow> 'a mmu_scheme option" where
  "vzero_pages 0 va s = Some s"
| "vzero_pages (Suc n) va s = do { s \<leftarrow> vzero s va PG_SIZE; vzero_pages n (va + PG_SIZE) s }"

section \<open>Pages\<close>

text \<open>\<^verbatim>\<open>while (cnt < pg_cnt) bitmap_set(bm, start + cnt++, v)\<close>\<close>

fun set_run :: "nat \<Rightarrow> u32 \<Rightarrow> u8 \<Rightarrow> bitmap \<Rightarrow> bitmap option" where
  "set_run 0 i v bm = Some bm"
| "set_run (Suc n) i v bm = do { bm \<leftarrow> bitmap_set bm i v; set_run n (i + 1) v bm }"

definition vaddr_get :: "pool_flags \<Rightarrow> u32 \<Rightarrow> 'a kmem_scheme \<Rightarrow> (u32 \<times> 'a kmem_scheme) option" where
  "vaddr_get pf pg_cnt s = do {
     let v = get_vaddr pf s;
     bit_idx_start \<leftarrow> bitmap_scan (vaddr_bitmap v) pg_cnt;
     if bit_idx_start = -1 then Some (0, s)
     else do {
       bm \<leftarrow> set_run (unat pg_cnt) bit_idx_start 1 (vaddr_bitmap v);
       let s = set_vaddr pf (v\<lparr>vaddr_bitmap := bm\<rparr>) s;
       let va = vaddr_start v + push_bit 12 bit_idx_start;
       ASSERT (pf = PF_USER \<longrightarrow> va < 0xc0000000 - PG_SIZE);
       Some (va, s)
     }
   }"

definition pmalloc :: "pool \<Rightarrow> (u32 \<times> pool) option" where
  "pmalloc m_pool = do {
     bit_idx \<leftarrow> bitmap_scan (pool_bitmap m_pool) 1;
     if bit_idx = -1 then Some (0, m_pool)
     else do {
       bm \<leftarrow> bitmap_set (pool_bitmap m_pool) bit_idx 1;
       Some (push_bit 12 bit_idx + phy_addr_start m_pool, m_pool\<lparr>pool_bitmap := bm\<rparr>)
     }
   }"

definition entry :: "u32 \<Rightarrow> u32" where
  "entry page_phyaddr = page_phyaddr OR PG_US_U OR PG_RW_W OR PG_P_1"

definition page_table_add :: "u32 \<Rightarrow> u32 \<Rightarrow> 'a kmem_scheme \<Rightarrow> 'a kmem_scheme option" where
  "page_table_add vaddr page_phyaddr s = do {
     pde \<leftarrow> vread s (pde_ptr vaddr);
     if pde AND 1 \<noteq> 0 then do {
       pte \<leftarrow> vread s (pte_ptr vaddr);
       ASSERT (pte AND 1 = 0);
       vwrite s (pte_ptr vaddr) (entry page_phyaddr)
     }
     else do {
       (pde_phyaddr, p) \<leftarrow> pmalloc (kernel_pool s);
       let s = s\<lparr>kernel_pool := p\<rparr>;
       s \<leftarrow> vwrite s (pde_ptr vaddr) (entry pde_phyaddr);
       s \<leftarrow> vzero s (pte_ptr vaddr AND 0xfffff000) PG_SIZE;
       pte \<leftarrow> vread s (pte_ptr vaddr);
       ASSERT (pte AND 1 = 0);
       vwrite s (pte_ptr vaddr) (entry page_phyaddr)
     }
   }"

text \<open>The loop of \<^verbatim>\<open>malloc_page\<close>; the boolean says whether it ran to its end.\<close>

fun malloc_loop :: "nat \<Rightarrow> pool_flags \<Rightarrow> u32 \<Rightarrow> 'a kmem_scheme \<Rightarrow> (bool \<times> 'a kmem_scheme) option" where
  "malloc_loop 0 pf vaddr s = Some (True, s)"
| "malloc_loop (Suc n) pf vaddr s = do {
     (page_phyaddr, p) \<leftarrow> pmalloc (get_pool pf s);
     let s = set_pool pf p s;
     if page_phyaddr = 0 then Some (False, s)
     else do { s \<leftarrow> page_table_add vaddr page_phyaddr s; malloc_loop n pf (vaddr + PG_SIZE) s }
   }"

definition malloc_page :: "pool_flags \<Rightarrow> u32 \<Rightarrow> 'a kmem_scheme \<Rightarrow> (u32 \<times> 'a kmem_scheme) option" where
  "malloc_page pf pg_cnt s = do {
     ASSERT (pg_cnt > 0 \<and> pg_cnt < 3840);
     (va, s) \<leftarrow> vaddr_get pf pg_cnt s;
     if va = 0 then Some (0, s)
     else do {
       (ok, s) \<leftarrow> malloc_loop (unat pg_cnt) pf va s;
       Some (if ok then va else 0, s)
     }
   }"

definition get_kernel_pages :: "u32 \<Rightarrow> 'a kmem_scheme \<Rightarrow> (u32 \<times> 'a kmem_scheme) option" where
  "get_kernel_pages pg_cnt s = do {
     (vaddr, s) \<leftarrow> malloc_page PF_KERNEL pg_cnt s;
     if vaddr \<noteq> 0 then do { s \<leftarrow> vzero_pages (unat pg_cnt) vaddr s; Some (vaddr, s) }
     else Some (vaddr, s)
   }"

definition lock_pool :: "pool_flags \<Rightarrow> 'a kmem_scheme \<Rightarrow> 'a kmem_scheme option" where
  "lock_pool pf s = do {
     (lk, s) \<leftarrow> lock_enter (pool_lock (get_pool pf s)) s;
     Some (set_pool pf ((get_pool pf s)\<lparr>pool_lock := lk\<rparr>) s)
   }"

definition unlock_pool :: "pool_flags \<Rightarrow> 'a kmem_scheme \<Rightarrow> 'a kmem_scheme option" where
  "unlock_pool pf s = do {
     (lk, s) \<leftarrow> lock_release (pool_lock (get_pool pf s)) s;
     Some (set_pool pf ((get_pool pf s)\<lparr>pool_lock := lk\<rparr>) s)
   }"

definition get_user_pages :: "u32 \<Rightarrow> 'a kmem_scheme \<Rightarrow> (u32 \<times> 'a kmem_scheme) option" where
  "get_user_pages pg_cnt s = do {
     s \<leftarrow> lock_pool PF_USER s;
     (vaddr, s) \<leftarrow> malloc_page PF_USER pg_cnt s;
     ASSERT (vaddr \<noteq> 0);
     s \<leftarrow> vzero_pages (unat pg_cnt) vaddr s;
     s \<leftarrow> unlock_pool PF_USER s;
     Some (vaddr, s)
   }"

definition get_a_page :: "pool_flags \<Rightarrow> u32 \<Rightarrow> 'a kmem_scheme \<Rightarrow> (u32 \<times> 'a kmem_scheme) option" where
  "get_a_page pf vaddr s = do {
     s \<leftarrow> lock_pool pf s;
     ASSERT (pgdir (task s (running_thread s)) \<noteq> 0 \<and> pf = PF_USER \<or>
             pgdir (task s (running_thread s)) = 0 \<and> pf = PF_KERNEL);
     let v = get_vaddr pf s;
     let bit_idx = (vaddr - vaddr_start v) div PG_SIZE;
     ASSERT (0 < sint bit_idx);
     bm \<leftarrow> bitmap_set (vaddr_bitmap v) bit_idx 1;
     let s = set_vaddr pf (v\<lparr>vaddr_bitmap := bm\<rparr>) s;
     (page_phyaddr, p) \<leftarrow> pmalloc (get_pool pf s);
     let s = set_pool pf p s;
     if page_phyaddr = 0 then Some (0, s)
     else do {
       s \<leftarrow> page_table_add vaddr page_phyaddr s;
       s \<leftarrow> unlock_pool pf s;
       Some (vaddr, s)
     }
   }"

definition get_a_page_without_opvaddrbitmap ::
  "pool_flags \<Rightarrow> u32 \<Rightarrow> 'a kmem_scheme \<Rightarrow> (u32 \<times> 'a kmem_scheme) option" where
  "get_a_page_without_opvaddrbitmap pf vaddr s = do {
     s \<leftarrow> lock_pool pf s;
     (page_phyaddr, p) \<leftarrow> pmalloc (get_pool pf s);
     let s = set_pool pf p s;
     if page_phyaddr = 0 then do { s \<leftarrow> unlock_pool pf s; Some (0, s) }
     else do {
       s \<leftarrow> page_table_add vaddr page_phyaddr s;
       s \<leftarrow> unlock_pool pf s;
       Some (vaddr, s)
     }
   }"

definition pfree :: "u32 \<Rightarrow> 'a kmem_scheme \<Rightarrow> 'a kmem_scheme option" where
  "pfree pg_phy_addr s = do {
     let pf = (if pg_phy_addr \<ge> phy_addr_start (user_pool s) then PF_USER else PF_KERNEL);
     let p = get_pool pf s;
     bm \<leftarrow> bitmap_set (pool_bitmap p) (drop_bit 12 (pg_phy_addr - phy_addr_start p)) 0;
     Some (set_pool pf (p\<lparr>pool_bitmap := bm\<rparr>) s)
   }"

definition free_a_phy_page :: "u32 \<Rightarrow> 'a kmem_scheme \<Rightarrow> 'a kmem_scheme option" where
  "free_a_phy_page pg_phy_addr s = do {
     let pf = (if pg_phy_addr \<ge> phy_addr_start (user_pool s) then PF_USER else PF_KERNEL);
     let p = get_pool pf s;
     bm \<leftarrow> bitmap_set (pool_bitmap p) ((pg_phy_addr - phy_addr_start p) div PG_SIZE) 0;
     Some (set_pool pf (p\<lparr>pool_bitmap := bm\<rparr>) s)
   }"

definition vaddr_remove :: "pool_flags \<Rightarrow> u32 \<Rightarrow> u32 \<Rightarrow> 'a kmem_scheme \<Rightarrow> 'a kmem_scheme option" where
  "vaddr_remove pf vaddr pg_cnt s = do {
     let v = get_vaddr pf s;
     bm \<leftarrow> set_run (unat pg_cnt) (drop_bit 12 (vaddr - vaddr_start v)) 0 (vaddr_bitmap v);
     Some (set_vaddr pf (v\<lparr>vaddr_bitmap := bm\<rparr>) s)
   }"

text \<open>The two loops of \<^verbatim>\<open>mfree_page\<close> differ in the range that they assert.\<close>

definition frame_in :: "bool \<Rightarrow> u32 \<Rightarrow> 'a kmem_scheme \<Rightarrow> bool" where
  "frame_in user pa s \<longleftrightarrow> pa mod PG_SIZE = 0 \<and>
     (if user then pa \<ge> phy_addr_start (user_pool s)
      else pa \<ge> phy_addr_start (kernel_pool s) \<and> pa < phy_addr_start (user_pool s))"

fun mfree_loop :: "nat \<Rightarrow> bool \<Rightarrow> u32 \<Rightarrow> 'a kmem_scheme \<Rightarrow> 'a kmem_scheme option" where
  "mfree_loop 0 user vaddr s = Some s"
| "mfree_loop (Suc n) user vaddr s = do {
     pg_phy_addr \<leftarrow> addr_v2p s vaddr;
     ASSERT (frame_in user pg_phy_addr s);
     s \<leftarrow> pfree pg_phy_addr s;
     s \<leftarrow> page_table_pte_remove s vaddr;
     mfree_loop n user (vaddr + PG_SIZE) s
   }"

definition mfree_page :: "pool_flags \<Rightarrow> u32 \<Rightarrow> u32 \<Rightarrow> 'a kmem_scheme \<Rightarrow> 'a kmem_scheme option" where
  "mfree_page pf vaddr pg_cnt s = do {
     ASSERT (pg_cnt \<ge> 1 \<and> vaddr mod PG_SIZE = 0);
     pg_phy_addr \<leftarrow> addr_v2p s vaddr;
     ASSERT (pg_phy_addr mod PG_SIZE = 0 \<and> pg_phy_addr \<ge> 0x102000);
     s \<leftarrow> mfree_loop (unat pg_cnt) (pg_phy_addr \<ge> phy_addr_start (user_pool s)) vaddr s;
     vaddr_remove pf vaddr pg_cnt s
   }"

section \<open>Initialisation\<close>

text \<open>The bitmaps start with whatever bytes the memory holds at their addresses.\<close>

definition mem_pool_init :: "(u32 \<Rightarrow> u8) \<Rightarrow> u32 \<Rightarrow> 'a kmem_scheme \<Rightarrow> 'a kmem_scheme" where
  "mem_pool_init mem all_mem s =
     (let page_table_size = push_bit 8 PG_SIZE;
          used_mem = page_table_size + 0x100000;
          free_mem = all_mem - used_mem;
          all_free_pages = ucast (drop_bit 12 free_mem) :: u16;
          kernel_free_pages = drop_bit 1 all_free_pages;
          user_free_pages = all_free_pages - kernel_free_pages;
          kbm_length = ucast (drop_bit 3 kernel_free_pages) :: u32;
          ubm_length = ucast (drop_bit 3 user_free_pages) :: u32;
          kp_start = used_mem;
          up_start = kp_start + push_bit 12 (ucast kernel_free_pages);
          bm = (\<lambda>base len. bitmap_init \<lparr>btmp_bytes_len = len, bits = (\<lambda>i. mem (base + i))\<rparr>)
      in s\<lparr>kernel_pool := \<lparr>pool_bitmap = bm MEM_BITMAP_BASE kbm_length, phy_addr_start = kp_start,
             pool_size = push_bit 12 (ucast kernel_free_pages), pool_lock = lock_init\<rparr>,
           user_pool := \<lparr>pool_bitmap = bm (MEM_BITMAP_BASE + kbm_length) ubm_length, phy_addr_start = up_start,
             pool_size = push_bit 12 (ucast user_free_pages), pool_lock = lock_init\<rparr>,
           kernel_vaddr := \<lparr>vaddr_bitmap = bm (MEM_BITMAP_BASE + kbm_length + ubm_length) kbm_length,
             vaddr_start = K_HEAP_START\<rparr>\<rparr>)"

fun block_desc_init_loop :: "nat \<Rightarrow> u16 \<Rightarrow> mem_block_desc list" where
  "block_desc_init_loop 0 bsize = []"
| "block_desc_init_loop (Suc n) bsize =
     \<lparr>block_size = ucast bsize, blocks_per_arena = (PG_SIZE - sizeof_arena) div ucast bsize, free_list = []\<rparr>
       # block_desc_init_loop n (bsize * 2)"

definition block_desc_init :: "mem_block_desc list" where
  "block_desc_init = block_desc_init_loop DESC_CNT 16"

text \<open>\<open>mem_bytes_total\<close> is the word the boot loader left at \<^verbatim>\<open>0xb00\<close>.\<close>

definition mem_init :: "(u32 \<Rightarrow> u8) \<Rightarrow> u32 \<Rightarrow> 'a kmem_scheme \<Rightarrow> 'a kmem_scheme" where
  "mem_init mem mem_bytes_total s = (mem_pool_init mem mem_bytes_total s)\<lparr>k_block_descs := block_desc_init\<rparr>"

section \<open>The heap\<close>

text \<open>The descriptors that \<^verbatim>\<open>sys_malloc\<close> uses for the running thread, and a descriptor behind a
  pointer.\<close>

definition heap_pf :: "'a kmem_scheme \<Rightarrow> pool_flags" where
  "heap_pf s = (if pgdir (task s (running_thread s)) = 0 then PF_KERNEL else PF_USER)"

definition heap_descs :: "'a kmem_scheme \<Rightarrow> mem_block_desc list" where
  "heap_descs s = (if pgdir (task s (running_thread s)) = 0 then k_block_descs s
     else u_block_desc (task s (running_thread s)))"

definition heap_desc_ref :: "'a kmem_scheme \<Rightarrow> nat \<Rightarrow> desc_ref" where
  "heap_desc_ref s i = (if pgdir (task s (running_thread s)) = 0 then Kernel_desc (of_nat i)
     else User_desc (running_thread s) (of_nat i))"

definition get_desc :: "desc_ref \<Rightarrow> 'a kmem_scheme \<Rightarrow> mem_block_desc option" where
  "get_desc r s = (case r of No_desc \<Rightarrow> None
     | Kernel_desc i \<Rightarrow> aget (k_block_descs s) i
     | User_desc t i \<Rightarrow> aget (u_block_desc (task s t)) i)"

definition put_desc :: "desc_ref \<Rightarrow> mem_block_desc \<Rightarrow> 'a kmem_scheme \<Rightarrow> 'a kmem_scheme" where
  "put_desc r d s = (case r of No_desc \<Rightarrow> s
     | Kernel_desc i \<Rightarrow> s\<lparr>k_block_descs := (k_block_descs s)[unat i := d]\<rparr>
     | User_desc t i \<Rightarrow> set_task t (\<lambda>p. p\<lparr>u_block_desc := (u_block_desc p)[unat i := d]\<rparr>) s)"

definition get_arena :: "u32 \<Rightarrow> 'a kmem_scheme \<Rightarrow> arena option" where
  "get_arena a s = do { pa \<leftarrow> translate s a; Some (arenas s pa) }"

definition put_arena :: "u32 \<Rightarrow> arena \<Rightarrow> 'a kmem_scheme \<Rightarrow> 'a kmem_scheme option" where
  "put_arena a ar s = do { pa \<leftarrow> translate s a; Some (s\<lparr>arenas := (arenas s)(pa := ar)\<rparr>) }"

definition arena2block :: "u32 \<Rightarrow> u32 \<Rightarrow> u32 \<Rightarrow> u32" where
  "arena2block a bsize idx = a + sizeof_arena + idx * bsize"

definition block2arena :: "u32 \<Rightarrow> u32" where
  "block2arena b = b AND 0xfffff000"

text \<open>The loop over the descriptors stops at the first one whose blocks are large enough.\<close>

fun desc_search :: "u32 \<Rightarrow> mem_block_desc list \<Rightarrow> nat" where
  "desc_search req [] = 0"
| "desc_search req (d # ds) = (if req \<le> block_size d then 0 else Suc (desc_search req ds))"

text \<open>Splitting a new arena into blocks.\<close>

fun split_arena :: "u32 \<Rightarrow> u32 \<Rightarrow> nat list \<Rightarrow> u32 list \<Rightarrow> u32 list option" where
  "split_arena a bsize [] fl = Some fl"
| "split_arena a bsize (i # is) fl = do {
     let b = arena2block a bsize (of_nat i);
     ASSERT (b \<notin> set fl);
     split_arena a bsize is (fl @ [b])
   }"

definition new_arena :: "nat \<Rightarrow> 'a kmem_scheme \<Rightarrow> (bool \<times> 'a kmem_scheme) option" where
  "new_arena desc_idx s = do {
     (a, s) \<leftarrow> malloc_page (heap_pf s) 1 s;
     if a = 0 then Some (False, s)
     else do {
       s \<leftarrow> vzero_pages 1 a s;
       let r = heap_desc_ref s desc_idx;
       d \<leftarrow> get_desc r s;
       s \<leftarrow> put_arena a \<lparr>desc = r, cnt = blocks_per_arena d, large = 0\<rparr> s;
       fl \<leftarrow> split_arena a (block_size d) [0..<unat (blocks_per_arena d)] (free_list d);
       Some (True, put_desc r (d\<lparr>free_list := fl\<rparr>) s)
     }
   }"

definition malloc_small :: "u32 \<Rightarrow> 'a kmem_scheme \<Rightarrow> (u32 \<times> 'a kmem_scheme) option" where
  "malloc_small req s = do {
     let desc_idx = desc_search req (heap_descs s);
     let r = heap_desc_ref s desc_idx;
     d \<leftarrow> get_desc r s;
     (ok, s) \<leftarrow> (if free_list d = [] then new_arena desc_idx s else Some (True, s));
     if \<not> ok then do { s \<leftarrow> unlock_pool (heap_pf s) s; Some (0, s) }
     else do {
       d \<leftarrow> get_desc r s;
       ASSERT (free_list d \<noteq> []);
       let b = hd (free_list d);
       let s = put_desc r (d\<lparr>free_list := tl (free_list d)\<rparr>) s;
       s \<leftarrow> vzero s b (block_size d);
       let a = block2arena b;
       ar \<leftarrow> get_arena a s;
       s \<leftarrow> put_arena a (ar\<lparr>cnt := cnt ar - 1\<rparr>) s;
       s \<leftarrow> unlock_pool (heap_pf s) s;
       Some (b, s)
     }
   }"

definition malloc_large :: "u32 \<Rightarrow> 'a kmem_scheme \<Rightarrow> (u32 \<times> 'a kmem_scheme) option" where
  "malloc_large req s = do {
     let page_cnt = DIV_ROUND_UP (req + sizeof_arena) PG_SIZE;
     (a, s) \<leftarrow> malloc_page (heap_pf s) page_cnt s;
     if a \<noteq> 0 then do {
       s \<leftarrow> vzero_pages (unat page_cnt) a s;
       s \<leftarrow> put_arena a \<lparr>desc = No_desc, cnt = page_cnt, large = 1\<rparr> s;
       s \<leftarrow> unlock_pool (heap_pf s) s;
       Some (a + sizeof_arena, s)
     }
     else do { s \<leftarrow> unlock_pool (heap_pf s) s; Some (0, s) }
   }"

definition sys_malloc :: "u32 \<Rightarrow> 'a kmem_scheme \<Rightarrow> (u32 \<times> 'a kmem_scheme) option" where
  "sys_malloc req s =
     (if \<not> (req > 0 \<and> req < pool_size (get_pool (heap_pf s) s)) then Some (0, s)
      else do {
        s \<leftarrow> lock_pool (heap_pf s) s;
        if req > 1024 then malloc_large req s else malloc_small req s
      })"

text \<open>Taking the blocks of a free arena off the free list.\<close>

fun unlink_arena :: "u32 \<Rightarrow> u32 \<Rightarrow> nat list \<Rightarrow> u32 list \<Rightarrow> u32 list option" where
  "unlink_arena a bsize [] fl = Some fl"
| "unlink_arena a bsize (i # is) fl = do {
     let b = arena2block a bsize (of_nat i);
     ASSERT (b \<in> set fl);
     unlink_arena a bsize is (remove1 b fl)
   }"

definition free_small :: "u32 \<Rightarrow> 'a kmem_scheme \<Rightarrow> 'a kmem_scheme option" where
  "free_small b s = do {
     let a = block2arena b;
     ar \<leftarrow> get_arena a s;
     d \<leftarrow> get_desc (desc ar) s;
     let d = d\<lparr>free_list := free_list d @ [b]\<rparr>;
     let s = put_desc (desc ar) d s;
     let ar = ar\<lparr>cnt := cnt ar + 1\<rparr>;
     s \<leftarrow> put_arena a ar s;
     if cnt ar = blocks_per_arena d then do {
       fl \<leftarrow> unlink_arena a (block_size d) [0..<unat (blocks_per_arena d)] (free_list d);
       mfree_page (heap_pf s) a 1 (put_desc (desc ar) (d\<lparr>free_list := fl\<rparr>) s)
     }
     else Some s
   }"

definition sys_free :: "u32 \<Rightarrow> 'a kmem_scheme \<Rightarrow> 'a kmem_scheme option" where
  "sys_free ptr s = do {
     ASSERT (ptr \<noteq> 0);
     ASSERT (heap_pf s = PF_KERNEL \<longrightarrow> ptr \<ge> K_HEAP_START);
     s \<leftarrow> lock_pool (heap_pf s) s;
     ar \<leftarrow> get_arena (block2arena ptr) s;
     ASSERT (large ar = 0 \<or> large ar = 1);
     s \<leftarrow> (if desc ar = No_desc \<and> large ar = 1 then mfree_page (heap_pf s) (block2arena ptr) (cnt ar) s
           else free_small ptr s);
     unlock_pool (heap_pf s) s
   }"

section \<open>Mapping a page\<close>

lemma diff_self_iff: "y \<le> x \<Longrightarrow> y = 0 \<longleftrightarrow> x - y = (x :: nat)"
  by auto

lemma pg_base_aligned: "unat t mod 4096 = 0 \<longleftrightarrow> pg_base t = t"
proof -
  have b: "pg_base t = t \<longleftrightarrow> unat t - unat t mod 4096 = unat t" by (simp add: word_unat_eq_iff unat_pg_base)
  show ?thesis by (rule trans [OF diff_self_iff [OF mod_less_eq_dividend] b [symmetric]])
qed

lemma in_page_iff:
  assumes "pg_base t = t"
  shows "a - t < 4096 \<longleftrightarrow> pg_base a = t"
proof -
  obtain q where q: "unat t = 4096 * q" using assms pg_base_aligned [of t] by (auto simp: mod_eq_0_iff_dvd dvd_def)
  have tq: "4096 * q < 4294967296" using unat_less_4G [of t] q by simp
  have b: "pg_base a = t \<longleftrightarrow> unat a div 4096 = q"
    by (simp add: word_unat_eq_iff unat_pg_base minus_mod_eq_mult_div q)
  show ?thesis
  proof (cases "t \<le> a")
    case True
    then have d: "unat (a - t) = unat a - 4096 * q" "4096 * q \<le> unat a"
      using q by (simp_all add: unat_minus_le word_le_nat_alt)
    define r where "r = unat a - 4096 * q"
    have "unat a = r + q * 4096" using d(2) by (simp add: r_def)
    then have "unat a div 4096 = q \<longleftrightarrow> r < 4096" by (simp add: div_eq_0_iff)
    then show ?thesis unfolding b word_less_nat_alt d(1) by (simp add: r_def)
  next
    case False
    then have lt: "unat a < 4096 * q" using q by (simp add: word_le_nat_alt)
    have "unat (a - t) = unat a + 4294967296 - 4096 * q"
      using False q by (simp add: unat_sub_if' word_le_nat_alt)
    moreover have "q < 1048576" using tq by simp
    ultimately have "\<not> unat (a - t) < 4096" by simp
    moreover have "unat a div 4096 < q" using lt by (simp add: less_mult_imp_div_less mult.commute)
    ultimately show ?thesis unfolding b word_less_nat_alt by simp
  qed
qed



lemma pg_base_plus: "i < 1024 \<Longrightarrow> pg_base (pg_base x + i * 4) = pg_base x"
proof -
  assume i: "i < 1024"
  then have "unat i < 1024" by (simp add: word_less_nat_alt)
  obtain q where q: "unat (pg_base x) = 4096 * q" using unat_entry(2) [OF i, of x] by (auto simp: dvd_def)
  have "(4096 * q + unat i * 4) mod 4096 = unat i * 4" using \<open>unat i < 1024\<close> by simp
  then show ?thesis by (simp add: word_unat_eq_iff unat_pg_base [of "pg_base x + i * 4"] unat_entry(1) [OF i] q)
qed












section \<open>Page pools\<close>

text \<open>A pool whose bitmap covers page frames that do not wrap around.\<close>

definition pool_ok :: "pool \<Rightarrow> bool" where
  "pool_ok p \<longleftrightarrow> bitmap_ok (pool_bitmap p) \<and> pg_base (phy_addr_start p) = phy_addr_start p \<and>
     unat (phy_addr_start p) + nbits (pool_bitmap p) * 4096 \<le> 2 ^ 32"

definition frame :: "pool \<Rightarrow> u32 \<Rightarrow> u32" where
  "frame p i = push_bit 12 i + phy_addr_start p"

lemma unat_frame:
  assumes "pool_ok p" "unat i < nbits (pool_bitmap p)"
  shows "unat (frame p i) = unat (phy_addr_start p) + unat i * 4096" "pg_base (frame p i) = frame p i"
    "drop_bit 12 (frame p i - phy_addr_start p) = i"
proof -
  have lim: "unat (phy_addr_start p) + unat i * 4096 + 4096 \<le> 4294967296"
  proof -
    have "Suc (unat i) * 4096 \<le> nbits (pool_bitmap p) * 4096" using assms(2) by (intro mult_right_mono) simp_all
    then show ?thesis using assms(1) unfolding pool_ok_def by simp
  qed
  have sh: "unat (push_bit 12 i) = unat i * 4096"
    using lim by (simp add: push_bit_eq_mult unat_word_ariths)
  show f: "unat (frame p i) = unat (phy_addr_start p) + unat i * 4096"
    unfolding frame_def by (subst unat_plus_lt) (use lim sh in simp_all)
  have "unat (phy_addr_start p) mod 4096 = 0" using assms(1) pg_base_aligned by (simp add: pool_ok_def)
  then have "unat (frame p i) mod 4096 = 0" unfolding f by (simp only: mod_mult_self1)
  then show "pg_base (frame p i) = frame p i" by (rule iffD1 [OF pg_base_aligned])
  show "drop_bit 12 (frame p i - phy_addr_start p) = i"
    unfolding word_unat_eq_iff unat_shift by (simp add: frame_def sh)
qed

lemma pmalloc_frame:
  assumes "pool_ok p" "pmalloc p = Some (pa, p')"
  obtains i where "pa = frame p i" "bitmap_alloc (pool_bitmap p) = Some (i, pool_bitmap p')"
    "unat i < nbits (pool_bitmap p)" "\<not> bit_at (pool_bitmap p) (unat i)" "p' = p\<lparr>pool_bitmap := pool_bitmap p'\<rparr>"
proof -
  have ok: "bitmap_ok (pool_bitmap p)" using assms(1) by (simp add: pool_ok_def)
  obtain i where i: "bitmap_scan (pool_bitmap p) 1 = Some i"
    using assms(2) by (auto simp: pmalloc_def Option.bind_eq_Some_conv)
  obtain bm where bm: "bitmap_set (pool_bitmap p) i 1 = Some bm" using bitmap_set_returns [of 1] by auto
  have al: "bitmap_alloc (pool_bitmap p) = Some (i, bm)" using i bm by (simp add: bitmap_alloc_def)
  note d = bitmap_alloc_SomeD [OF ok al]
  have "i \<noteq> -1"
  proof
    assume "i = -1"
    then have "unat i = 4294967295" using unat_uminus_of_nat [of 1, where 'a = 32] by simp
    then show False using d bitmap_ok_nbits [OF ok] by simp
  qed
  then have "pa = frame p i" "p' = p\<lparr>pool_bitmap := bm\<rparr>"
    using assms(2) i bm by (simp_all add: pmalloc_def frame_def)
  then show thesis using that [of i] al d by simp
qed

lemma pmalloc_returns:
  assumes "pool_ok p" "\<exists>n < nbits (pool_bitmap p). \<not> bit_at (pool_bitmap p) n"
  shows "\<exists>pa p'. pmalloc p = Some (pa, p')"
proof -
  have ok: "bitmap_ok (pool_bitmap p)" using assms(1) by (simp add: pool_ok_def)
  obtain i bm where "bitmap_alloc (pool_bitmap p) = Some (i, bm)"
    using bitmap_alloc_returns [OF ok] assms(2) by blast
  then show ?thesis by (auto simp: pmalloc_def bitmap_alloc_def Option.bind_eq_Some_conv)
qed

definition pool_release :: "u32 \<Rightarrow> pool \<Rightarrow> pool option" where
  "pool_release pa p = do {
     bm \<leftarrow> bitmap_set (pool_bitmap p) (drop_bit 12 (pa - phy_addr_start p)) 0;
     Some (p\<lparr>pool_bitmap := bm\<rparr>)
   }"

definition pool_used :: "pool \<Rightarrow> u32 set" where
  "pool_used p = frame p ` bitmap_used (pool_bitmap p)"

definition pool_space :: "pool \<Rightarrow> u32 set" where
  "pool_space p = frame p ` bitmap_space (pool_bitmap p)"

lemma frame_inj: "frame p i = frame p j \<Longrightarrow> pool_ok p \<Longrightarrow> i \<in> bitmap_space (pool_bitmap p) \<Longrightarrow>
  j \<in> bitmap_space (pool_bitmap p) \<Longrightarrow> i = j"
  by (metis bitmap_space_def mem_Collect_eq unat_frame(3))

lemma pool_ok_bitmap:
  "pool_ok p \<Longrightarrow> bitmap_ok bm \<Longrightarrow> nbits bm = nbits (pool_bitmap p) \<Longrightarrow> pool_ok (p\<lparr>pool_bitmap := bm\<rparr>)"
  by (simp add: pool_ok_def)

lemma frame_bitmap [simp]: "frame (p\<lparr>pool_bitmap := bm\<rparr>) = frame p"
  by (simp add: frame_def fun_eq_iff)

lemma bitmap_used_sub: "bitmap_used b \<subseteq> bitmap_space b"
  by (auto simp: bitmap_used_def bitmap_space_def)

lemma pool_alloc_step:
  assumes "pool_ok p" "pmalloc p = Some (pa, p')"
  shows "pa \<in> pool_space p - pool_used p" "pool_used p' = insert pa (pool_used p)"
    "pool_space p' = pool_space p" "pool_ok p'"
proof -
  obtain i where i: "pa = frame p i" "bitmap_alloc (pool_bitmap p) = Some (i, pool_bitmap p')"
    "unat i < nbits (pool_bitmap p)" "p' = p\<lparr>pool_bitmap := pool_bitmap p'\<rparr>"
    by (rule pmalloc_frame [OF assms])
  have ok: "bitmap_ok (pool_bitmap p)" using assms(1) by (simp add: pool_ok_def)
  note law = bm.alloc_fresh [OF ok i(2)] bm.alloc_used [OF ok i(2)] bm.alloc_space [OF ok i(2)]
    bm.alloc_invar [OF ok i(2)]
  have fr: "frame p' = frame p" by (subst i(4)) simp
  show "pa \<in> pool_space p - pool_used p"
    using law(1) i(1) frame_inj [OF _ assms(1)] bitmap_used_sub by (auto simp: pool_space_def pool_used_def)
  show "pool_used p' = insert pa (pool_used p)" using law(2) by (simp add: pool_used_def fr i(1))
  show "pool_space p' = pool_space p" using law(3) by (simp add: pool_space_def fr)
  have "nbits (pool_bitmap p') = nbits (pool_bitmap p)"
    using i(2) bitmap_set_nbits by (auto simp: bitmap_alloc_def Option.bind_eq_Some_conv)
  then show "pool_ok p'" using pool_ok_bitmap [OF assms(1) law(4)] by (subst i(4)) simp
qed

lemma pool_release_step:
  assumes "pool_ok p" "pa \<in> pool_space p"
  shows "\<exists>p'. pool_release pa p = Some p'"
    "pool_release pa p = Some p' \<Longrightarrow> pool_used p' = pool_used p - {pa} \<and> pool_space p' = pool_space p \<and> pool_ok p'"
proof -
  obtain i where i: "pa = frame p i" "i \<in> bitmap_space (pool_bitmap p)" using assms(2) by (auto simp: pool_space_def)
  have ok: "bitmap_ok (pool_bitmap p)" using assms(1) by (simp add: pool_ok_def)
  have d: "drop_bit 12 (pa - phy_addr_start p) = i"
    unfolding i(1) using i(2) by (intro unat_frame [OF assms(1)]) (simp add: bitmap_space_def)
  show "\<exists>p'. pool_release pa p = Some p'"
    using bitmap_set_returns [of 0 "pool_bitmap p" i] by (auto simp: pool_release_def d)
  assume "pool_release pa p = Some p'"
  then obtain bm where bm: "bitmap_set (pool_bitmap p) i 0 = Some bm" "p' = p\<lparr>pool_bitmap := bm\<rparr>"
    by (auto simp: pool_release_def d Option.bind_eq_Some_conv)
  note law = bm.release_used [OF ok i(2) bm(1)] bm.release_space [OF ok i(2) bm(1)] bm.release_invar [OF ok i(2) bm(1)]
  have "frame p ` (bitmap_used (pool_bitmap p) - {i}) = pool_used p - {pa}"
    using frame_inj [OF _ assms(1)] bitmap_used_sub i by (auto simp: pool_used_def)
  then show "pool_used p' = pool_used p - {pa} \<and> pool_space p' = pool_space p \<and> pool_ok p'"
    using law bm pool_ok_bitmap [OF assms(1) law(3) bitmap_set_nbits [OF bm(1)]]
    by (simp add: pool_used_def pool_space_def)
qed

interpretation pp: bit_pool pmalloc pool_release pool_used pool_space pool_ok
proof (unfold_locales, goal_cases)
  case (1 s i s')
  then show ?case using pool_alloc_step(1) [OF 1] by blast
next
  case (2 s i s')
  then show ?case by (rule pool_alloc_step(2))
next
  case (3 s i s')
  then show ?case by (rule pool_alloc_step(3))
next
  case (4 s i s')
  then show ?case by (rule pool_alloc_step(4))
next
  case (6 s i)
  then show ?case by (rule pool_release_step(1))
next
  case (7 s i s')
  then show ?case using pool_release_step(2) [OF 7] by blast
next
  case (8 s i s')
  then show ?case using pool_release_step(2) [OF 8] by blast
next
  case (9 s i s')
  then show ?case using pool_release_step(2) [OF 9] by blast
next
  case (10 s)
  then show ?case using bitmap_used_sub by (auto simp: pool_space_def pool_used_def)
next
  case (5 s)
  have ok: "bitmap_ok (pool_bitmap s)" using 5 by (simp add: pool_ok_def)
  have "(\<exists>i s'. pmalloc s = Some (i, s')) \<longleftrightarrow> (\<exists>i b'. bitmap_alloc (pool_bitmap s) = Some (i, b'))"
    using pmalloc_returns [OF 5] bitmap_alloc_returns [OF ok] by (blast elim: pmalloc_frame [OF 5])
  also have "\<dots> \<longleftrightarrow> \<not> bitmap_space (pool_bitmap s) \<subseteq> bitmap_used (pool_bitmap s)" by (rule bm.alloc_returns [OF ok])
  also have "\<dots> \<longleftrightarrow> \<not> pool_space s \<subseteq> pool_used s"
    using frame_inj [OF _ 5] bitmap_used_sub by (fastforce simp: pool_space_def pool_used_def)
  finally show ?case .
next
  case (11 s)
  then have "finite (bitmap_space (pool_bitmap s))" by (intro bm.finite_space) (simp add: pool_ok_def)
  then show ?case by (simp add: pool_space_def)
qed

section \<open>Properties of pages and pools\<close>

text \<open>A machine with the page tables of \<open>mmu0\<close>, small pools and one kernel thread.\<close>

definition pool0 :: "u32 \<Rightarrow> pool" where
  "pool0 start = \<lparr>pool_bitmap = \<lparr>btmp_bytes_len = 4, bits = (\<lambda>_. 0)\<rparr>, phy_addr_start = start,
     pool_size = 0x20000, pool_lock = lock_init\<rparr>"

definition kmem0 :: kmem where
  "kmem0 = \<lparr>cr3 = cr3 mmu0, phys = phys mmu0, cpu_eflags = 0x200, esp0 = 0, current = 0x2000,
     task = (\<lambda>_. task0)(0x2000 := task0\<lparr>status := TASK_RUNNING\<rparr>),
     thread_ready_list = [0x1000], thread_all_list = [0x1000, 0x2000],
     idle_thread = 0x1000, main_thread = 0x2000, timer_ticks = 0,
     kernel_pool = pool0 0x200000, user_pool = pool0 0x220000,
     kernel_vaddr = \<lparr>vaddr_bitmap = \<lparr>btmp_bytes_len = 4, bits = (\<lambda>_. 0)\<rparr>, vaddr_start = K_HEAP_START\<rparr>,
     k_block_descs = block_desc_init, arenas = (\<lambda>_. \<lparr>desc = No_desc, cnt = 0, large = 0\<rparr>)\<rparr>"

lemma kmem0_fields [simp]:
  "cr3 kmem0 = 0x100000" "phys kmem0 = phys mmu0" "current kmem0 = 0x2000" "k_block_descs kmem0 = block_desc_init"
  "kernel_pool kmem0 = pool0 0x200000" "user_pool kmem0 = pool0 0x220000"
  "pgdir (task kmem0 0x2000) = 0"
  by (simp_all add: kmem0_def task0_def)

lemma pool0_ok: "pool_ok (pool0 0x200000)"
  by (simp add: pool_ok_def pool0_def bitmap_ok_def nbits_def pg_base_def)






text \<open>Property C9: successive \<^verbatim>\<open>pmalloc\<close> calls on a page pool succeed as long as frames are free and
  return distinct, page-aligned frames of the pool that were not in use; the frames in use grow by
  exactly these.\<close>

theorem pmalloc_many:
  assumes "pool_ok p" "n \<le> card (pool_space p - pool_used p)"
  shows "\<exists>fs p'. pp.alloc_many n p = Some (fs, p') \<and> length fs = n \<and> distinct fs \<and>
           set fs \<subseteq> pool_space p - pool_used p \<and> pool_used p' = pool_used p \<union> set fs \<and>
           (\<forall>f\<in>set fs. pg_base f = f)"
proof -
  obtain fs p' where a: "pp.alloc_many n p = Some (fs, p')" using pp.alloc_many_returns [OF assms] by blast
  note d = pp.alloc_many_distinct [OF assms(1) a]
  have "pg_base f = f" if "f \<in> pool_space p" for f
    using that unat_frame(2) [OF assms(1)] by (auto simp: pool_space_def bitmap_space_def)
  with a d show ?thesis by blast
qed

theorem pmalloc_many_witness:
  "\<exists>fs p'. pp.alloc_many 1 (pool0 0x200000) = Some (fs, p') \<and> length fs = 1"
proof -
  have "frame (pool0 0x200000) 0 \<in> pool_space (pool0 0x200000) - pool_used (pool0 0x200000)"
    by (auto simp: pool_space_def pool_used_def bitmap_space_def bitmap_used_def nbits_def bit_at_def pool0_def)
  moreover have "finite (pool_space (pool0 0x200000) - pool_used (pool0 0x200000))"
    using pp.finite_space [OF pool0_ok] by simp
  ultimately have "1 \<le> card (pool_space (pool0 0x200000) - pool_used (pool0 0x200000))"
    by (metis One_nat_def Suc_leI card_gt_0_iff empty_iff)
  from pmalloc_many [OF pool0_ok this] show ?thesis by blast
qed

lemma unat_ucast16: "unat (ucast (w :: u32) :: u16) = unat w mod 65536"
  by (simp add: unsigned_ucast_eq take_bit_eq_mod)

lemma unat_shift16: "unat (drop_bit k (a :: u16)) = unat a div 2 ^ k"
  unfolding unat_drop_bit_eq by (rule drop_bit_eq_div)

lemma unat_ucast32 [simp]: "unat (ucast (w :: u16) :: u32) = unat w"
  by (rule unat_ucast_up) simp

text \<open>Property C10: on a machine with between 2 MB and 258 MB of memory \<^verbatim>\<open>mem_pool_init\<close> makes two free
  page pools of whole frames: the kernel pool starts above the page tables at 2 MB, the user pool
  follows it without overlap and ends within the memory, and the bitmaps, all clear, never describe a
  frame outside their pool. The kernel heap starts behind the first megabyte of the kernel's half of the addresses,
  is empty, has an address for every frame of the kernel pool, and does not wrap around.\<close>

theorem mem_pool_init_layout:
  assumes "0x200000 \<le> unat all_mem" "unat all_mem < 0x200000 + 2 ^ 28"
    and s': "s' = mem_pool_init mem all_mem s"
  shows "pool_ok (kernel_pool s') \<and> pool_ok (user_pool s') \<and>
         pool_used (kernel_pool s') = {} \<and> pool_used (user_pool s') = {} \<and>
         unat (phy_addr_start (kernel_pool s')) = 0x200000 \<and>
         unat (phy_addr_start (user_pool s')) = 0x200000 + unat (pool_size (kernel_pool s')) \<and>
         unat (phy_addr_start (user_pool s')) + unat (pool_size (user_pool s')) \<le> unat all_mem \<and>
         nbits (pool_bitmap (kernel_pool s')) * 4096 \<le> unat (pool_size (kernel_pool s')) \<and>
         nbits (pool_bitmap (user_pool s')) * 4096 \<le> unat (pool_size (user_pool s')) \<and>
         vaddr_start (kernel_vaddr s') = 0xc0100000 \<and> bitmap_used (vaddr_bitmap (kernel_vaddr s')) = {} \<and>
         nbits (vaddr_bitmap (kernel_vaddr s')) = nbits (pool_bitmap (kernel_pool s')) \<and>
         unat (vaddr_start (kernel_vaddr s')) + nbits (vaddr_bitmap (kernel_vaddr s')) * 4096 \<le> 2 ^ 32"
proof -
  define f :: u16 where "f = ucast (drop_bit 12 (all_mem - 0x200000))"
  define k where "k = drop_bit 1 f"
  define u where "u = f - k"
  have uf: "unat f = (unat all_mem - 0x200000) div 4096"
  proof -
    have "unat (all_mem - 0x200000) = unat all_mem - 0x200000"
      using assms(1) by (subst unat_minus_le) (simp_all add: word_le_nat_alt)
    moreover have "(unat all_mem - 0x200000) div 4096 < 65536"
      using assms(2) by (simp add: less_mult_imp_div_less)
    ultimately show ?thesis by (simp only: f_def unat_ucast16 unat_shift) simp
  qed
  have uk: "unat k = unat f div 2" by (simp add: k_def unat_shift16)
  then have "k \<le> f" by (simp add: word_le_nat_alt)
  then have uu: "unat u = unat f - unat f div 2" by (simp add: u_def unat_minus_le uk)
  have f16: "unat f < 65536" using unsigned_less [of f] by simp
  have ps: "unat (push_bit 12 (ucast k :: u32)) = unat k * 4096" "unat (push_bit 12 (ucast u :: u32)) = unat u * 4096"
    using f16 uk uu by (simp_all add: push_bit_eq_mult unat_word_ariths)
  have st: "unat (0x200000 + push_bit 12 (ucast k :: u32)) = 0x200000 + unat k * 4096"
    using f16 uk ps by (subst unat_plus_lt) simp_all
  have kp: "kernel_pool s' = \<lparr>pool_bitmap = bitmap_init \<lparr>btmp_bytes_len = ucast (drop_bit 3 k), bits = (\<lambda>i. mem (MEM_BITMAP_BASE + i))\<rparr>,
      phy_addr_start = 0x200000, pool_size = push_bit 12 (ucast k), pool_lock = lock_init\<rparr>"
    by (simp add: s' mem_pool_init_def Let_def f_def k_def PG_SIZE_def)
  have up: "user_pool s' = \<lparr>pool_bitmap = bitmap_init \<lparr>btmp_bytes_len = ucast (drop_bit 3 u),
        bits = (\<lambda>i. mem (MEM_BITMAP_BASE + ucast (drop_bit 3 k) + i))\<rparr>,
      phy_addr_start = 0x200000 + push_bit 12 (ucast k), pool_size = push_bit 12 (ucast u), pool_lock = lock_init\<rparr>"
    by (simp add: s' mem_pool_init_def Let_def f_def k_def u_def PG_SIZE_def)
  have kv: "kernel_vaddr s' = \<lparr>vaddr_bitmap = bitmap_init \<lparr>btmp_bytes_len = ucast (drop_bit 3 k),
        bits = (\<lambda>i. mem (MEM_BITMAP_BASE + ucast (drop_bit 3 k) + ucast (drop_bit 3 u) + i))\<rparr>, vaddr_start = 0xc0100000\<rparr>"
    by (simp add: s' mem_pool_init_def Let_def f_def k_def u_def PG_SIZE_def K_HEAP_START_def)
  have nb: "nbits (bitmap_init \<lparr>btmp_bytes_len = ucast (drop_bit 3 w), bits = g\<rparr>) = unat w div 8 * 8"
    "bitmap_ok (bitmap_init \<lparr>btmp_bytes_len = ucast (drop_bit 3 w), bits = g\<rparr>)" if "unat w < 65536" for w :: u16 and g
    using that by (simp_all add: nbits_def bitmap_ok_def bitmap_init_def unat_shift16 [of 3, simplified])
  have none: "bitmap_used (bitmap_init b) = {}" for b
    using bitmap_init_bit [of _ b] by (auto simp: bitmap_used_def nbits_def bitmap_init_def)
  have w: "unat k < 65536" "unat u < 65536" using f16 uk uu by simp_all
  have al: "pg_base (0x200000 + push_bit 12 (ucast k :: u32)) = 0x200000 + push_bit 12 (ucast k)"
  proof (rule iffD1 [OF pg_base_aligned])
    show "unat (0x200000 + push_bit 12 (ucast k :: u32)) mod 4096 = 0" unfolding st by simp
  qed
  have sum: "unat k + unat u = unat f" using uk uu by simp
  have fit: "0x200000 + unat f * 4096 \<le> unat all_mem"
    using assms(1) div_times_less_eq_dividend [of "unat all_mem - 0x200000" 4096] unfolding uf by linarith
  have le: "unat k div 8 * 8 \<le> unat k" "unat u div 8 * 8 \<le> unat u" by simp_all
  have ok: "pool_ok (kernel_pool s')" "pool_ok (user_pool s')"
    using nb [OF w(1)] nb [OF w(2)] al st le sum f16
    by (simp_all add: pool_ok_def kp up) (simp add: pg_base_def)
  have heap: "vaddr_start (kernel_vaddr s') = 0xc0100000" "bitmap_used (vaddr_bitmap (kernel_vaddr s')) = {}"
    "nbits (vaddr_bitmap (kernel_vaddr s')) = nbits (pool_bitmap (kernel_pool s'))" "nbits (vaddr_bitmap (kernel_vaddr s')) = unat k div 8 * 8"
    using nb(1) [OF w(1)] none by (simp_all add: kv kp)
  have "unat k div 8 * 8 * 4096 \<le> 2 ^ 27" using le(1) uk f16 by simp
  then have "unat (vaddr_start (kernel_vaddr s')) + nbits (vaddr_bitmap (kernel_vaddr s')) * 4096 \<le> 2 ^ 32" by (simp add: heap(1,4))
  moreover have "nbits (pool_bitmap (kernel_pool s')) * 4096 \<le> unat (pool_size (kernel_pool s'))"
    "nbits (pool_bitmap (user_pool s')) * 4096 \<le> unat (pool_size (user_pool s'))"
    "unat (phy_addr_start (kernel_pool s')) = 0x200000"
    "unat (phy_addr_start (user_pool s')) = 0x200000 + unat (pool_size (kernel_pool s'))"
    "unat (phy_addr_start (user_pool s')) + unat (pool_size (user_pool s')) \<le> unat all_mem"
    "pool_used (kernel_pool s') = {}" "pool_used (user_pool s') = {}"
    using nb(1) [OF w(1)] nb(1) [OF w(2)] none ps st le sum fit by (simp_all add: kp up pool_used_def)
  ultimately show ?thesis using ok heap(1-3) by simp
qed

theorem mem_pool_init_layout_witness:
  "pool_ok (user_pool (mem_pool_init (\<lambda>_. 0xab) 0x2000000 kmem0)) \<and>
   unat (phy_addr_start (kernel_pool (mem_pool_init (\<lambda>_. 0xab) 0x2000000 kmem0))) = 0x200000 \<and>
   vaddr_start (kernel_vaddr (mem_pool_init (\<lambda>_. 0xab) 0x2000000 kmem0)) = 0xc0100000"
  using mem_pool_init_layout [of "0x2000000" _ "\<lambda>_. 0xab" kmem0, OF _ _ refl] by simp

section \<open>Arenas and blocks\<close>

lemma block_desc_init_eq:
  "block_desc_init = map (\<lambda>(b, n). \<lparr>block_size = b, blocks_per_arena = n, free_list = []\<rparr>)
     [(16, 255), (32, 127), (64, 63), (128, 31), (256, 15), (512, 7), (1024, 3)]"
  by code_simp

text \<open>What every descriptor satisfies: the blocks fit behind the header of an arena of one page.\<close>

definition desc_ok :: "mem_block_desc \<Rightarrow> bool" where
  "desc_ok d \<longleftrightarrow> 0 < block_size d \<and> 12 + unat (blocks_per_arena d) * unat (block_size d) \<le> 4096"

lemma block_desc_init_ok: "\<forall>d\<in>set block_desc_init. desc_ok d"
  by (simp add: block_desc_init_eq desc_ok_def)

lemma unat_block:
  assumes "pg_base a = a" "desc_ok d" "i < blocks_per_arena d"
  shows "unat (arena2block a (block_size d) i) = unat a + 12 + unat i * unat (block_size d)"
    "12 + unat i * unat (block_size d) + unat (block_size d) \<le> 4096"
proof -
  have "Suc (unat i) * unat (block_size d) \<le> unat (blocks_per_arena d) * unat (block_size d)"
    using assms(3) by (intro mult_right_mono) (simp_all add: word_less_nat_alt Suc_le_eq)
  then show lim: "12 + unat i * unat (block_size d) + unat (block_size d) \<le> 4096"
    using assms(2) by (simp add: desc_ok_def)
  have pos: "0 < unat (block_size d)" using assms(2) by (simp add: desc_ok_def word_less_nat_alt)
  obtain q where q: "unat a = 4096 * q" using assms(1) pg_base_aligned [of a] by (auto simp: mod_eq_0_iff_dvd dvd_def)
  then have "q < 1048576" using unat_less_4G [of a] by simp
  then have top: "unat a + 4096 \<le> 4294967296" using q by simp
  have m: "unat (i * block_size d) = unat i * unat (block_size d)"
    using lim by (simp add: unat_word_ariths)
  have h: "unat (a + 12) = unat a + 12" using top unat_plus_lt [of a 12] by simp
  show "unat (arena2block a (block_size d) i) = unat a + 12 + unat i * unat (block_size d)"
    unfolding arena2block_def sizeof_arena_def
    using unat_plus_lt [of "a + 12" "i * block_size d"] h m lim pos top by simp
qed

lemma block2arena_block:
  assumes "pg_base a = a" "desc_ok d" "i < blocks_per_arena d"
  shows "block2arena (arena2block a (block_size d) i) = a"
proof -
  obtain q where q: "unat a = 4096 * q" using assms(1) pg_base_aligned [of a] by (auto simp: mod_eq_0_iff_dvd dvd_def)
  have pos: "0 < unat (block_size d)" using assms(2) by (simp add: desc_ok_def word_less_nat_alt)
  have "12 + unat i * unat (block_size d) < 4096" using unat_block(2) [OF assms] pos by linarith
  then have "(unat a + 12 + unat i * unat (block_size d)) mod 4096 = 12 + unat i * unat (block_size d)"
    using page_mod [of "12 + unat i * unat (block_size d)" q] unfolding q by (simp add: algebra_simps)
  then have "unat (pg_base (arena2block a (block_size d) i)) = unat a"
    unfolding unat_pg_base unat_block(1) [OF assms] by simp
  then show ?thesis by (simp add: word_unat_eq_iff block2arena_def pg_base_def)
qed

text \<open>Property C7: the blocks of an arena lie behind its header inside the arena's page, blocks of
  different index do not overlap, and \<^verbatim>\<open>block2arena\<close> finds the arena of every block again; this holds
  for each of the seven size classes that \<^verbatim>\<open>block_desc_init\<close> sets up.\<close>

theorem arena_blocks_disjoint:
  assumes "pg_base a = a" "d \<in> set block_desc_init" "i < blocks_per_arena d" "j < blocks_per_arena d" "i \<noteq> j"
  shows "block2arena (arena2block a (block_size d) i) = a \<and>
         unat a + 12 \<le> unat (arena2block a (block_size d) i) \<and>
         unat (arena2block a (block_size d) i) + unat (block_size d) \<le> unat a + 4096 \<and>
         (unat (arena2block a (block_size d) i) + unat (block_size d) \<le> unat (arena2block a (block_size d) j) \<or>
          unat (arena2block a (block_size d) j) + unat (block_size d) \<le> unat (arena2block a (block_size d) i))"
proof -
  have ok: "desc_ok d" using block_desc_init_ok assms(2) by blast
  note bi = unat_block [OF assms(1) ok assms(3)] and bj = unat_block [OF assms(1) ok assms(4)]
  have sep: "x * b + b \<le> y * b" if "x < y" for x y b :: nat
    using mult_right_mono [of "Suc x" y b] that by simp
  have "unat i < unat j \<or> unat j < unat i" using assms(5) by (metis linorder_neqE_nat word_unat_eq_iff)
  then show ?thesis
    using bi bj block2arena_block [OF assms(1) ok assms(3)] sep [of "unat i" "unat j" "unat (block_size d)"]
      sep [of "unat j" "unat i" "unat (block_size d)"] by auto
qed

theorem arena_blocks_disjoint_witness: "block2arena (arena2block 0xc0100000 64 62) = 0xc0100000"
  using arena_blocks_disjoint [of "0xc0100000" "\<lparr>block_size = 64, blocks_per_arena = 63, free_list = []\<rparr>" 62 0]
  by (simp add: pg_base_def block_desc_init_eq)

section \<open>Allocation and release of small blocks\<close>

text \<open>The page directory and the present page tables; a store into any other frame leaves every
  translation alone.\<close>

definition table_frame :: "'a mmu_scheme \<Rightarrow> u32 \<Rightarrow> bool" where
  "table_frame m f \<longleftrightarrow> f = pg_base (cr3 m) \<or> (\<exists>a. phys m (walk_pde m a) AND PG_P_1 \<noteq> 0 \<and> pg_base (phys m (walk_pde m a)) = f)"

lemma translate_store:
  assumes "cr3 m' = cr3 m" "\<And>a. table_frame m (pg_base a) \<Longrightarrow> phys m' a = phys m a"
  shows "translate m' v = translate m v"
proof -
  have w: "walk_pde m' v = walk_pde m v" by (simp add: walk_pde_def assms(1))
  have "pg_base (walk_pde m v) = pg_base (cr3 m)" by (simp add: walk_pde_def pg_base_plus PDE_IDX_le)
  then have pde: "phys m' (walk_pde m v) = phys m (walk_pde m v)" by (intro assms(2)) (simp add: table_frame_def)
  show ?thesis
  proof (cases "phys m (walk_pde m v) AND PG_P_1 = 0")
    case True
    then show ?thesis by (simp add: translate_def w pde)
  next
    case False
    have "pg_base (walk_pte m v) = pg_base (phys m (walk_pde m v))" by (simp add: walk_pte_def pg_base_plus PTE_IDX_le)
    then have "phys m' (walk_pte m v) = phys m (walk_pte m v)"
      using False by (intro assms(2)) (auto simp: table_frame_def)
    moreover have "walk_pte m' v = walk_pte m v" by (simp add: walk_pte_def w pde)
    ultimately show ?thesis by (simp add: translate_def w pde)
  qed
qed

lemma heap_desc_get:
  "i < length (heap_descs s) \<Longrightarrow> i < 2 ^ 32 \<Longrightarrow> get_desc (heap_desc_ref s i) s = Some (heap_descs s ! i)"
  by (auto simp: get_desc_def heap_desc_ref_def heap_descs_def aget_def unat_of_nat_lt split: if_splits)

lemma heap_desc_put:
  "i < 2 ^ 32 \<Longrightarrow> heap_descs (put_desc (heap_desc_ref s i) d s) = (heap_descs s)[i := d]"
  by (simp add: put_desc_def heap_desc_ref_def heap_descs_def unat_of_nat_lt running_thread_def)

text \<open>The parts of the state that a change of a descriptor, a pool or a header leaves alone.\<close>

definition same_threads :: "'a kmem_scheme \<Rightarrow> 'a kmem_scheme \<Rightarrow> bool" where
  "same_threads s s' \<longleftrightarrow> current s' = current s \<and> cr3 s' = cr3 s \<and> cpu_eflags s' = cpu_eflags s \<and>
     (\<forall>t. pgdir (task s' t) = pgdir (task s t))"

lemma same_threads_upd: "same_threads s (t\<lparr>arenas := ar\<rparr>) \<longleftrightarrow> same_threads s t"
  by (simp add: same_threads_def)

lemma same_threads_trans: "same_threads a b \<Longrightarrow> same_threads b c \<Longrightarrow> same_threads a c"
  by (simp add: same_threads_def)

lemma same_threads_refs:
  "same_threads s s' \<Longrightarrow> heap_desc_ref s' i = heap_desc_ref s i" "same_threads s s' \<Longrightarrow> heap_pf s' = heap_pf s"
  by (simp_all add: same_threads_def heap_desc_ref_def heap_pf_def running_thread_def)

lemma set_task_kmem [simp]:
  "arenas (set_task t f s) = arenas s" "kernel_pool (set_task t f s) = kernel_pool s"
  "user_pool (set_task t f s) = user_pool s" "k_block_descs (set_task t f s) = k_block_descs s"
  "kernel_vaddr (set_task t f s) = kernel_vaddr s"
  by (simp_all add: set_task_def)

lemma put_desc_fields [simp]:
  "phys (put_desc r d s) = phys s" "arenas (put_desc r d s) = arenas s" "kernel_pool (put_desc r d s) = kernel_pool s"
  "user_pool (put_desc r d s) = user_pool s" "same_threads s (put_desc r d s)" "cr3 (put_desc r d s) = cr3 s"
  by (simp_all add: put_desc_def same_threads_def split: desc_ref.splits)

lemma set_pool_fields [simp]:
  "phys (set_pool pf p s) = phys s" "arenas (set_pool pf p s) = arenas s" "same_threads s (set_pool pf p s)"
  "cr3 (set_pool pf p s) = cr3 s" "heap_descs (set_pool pf p s) = heap_descs s" "get_pool pf (set_pool pf p s) = p"
  "current (set_pool pf p s) = current s"
  by (simp_all add: set_pool_def same_threads_def heap_descs_def running_thread_def get_pool_def split: pool_flags.splits)

lemma heap_descs_upd [simp]:
  "heap_descs (s\<lparr>phys := ph\<rparr>) = heap_descs s" "heap_descs (s\<lparr>arenas := ar\<rparr>) = heap_descs s"
  by (simp_all add: heap_descs_def running_thread_def)

lemma translate_cong: "cr3 m' = cr3 m \<Longrightarrow> phys m' = phys m \<Longrightarrow> translate m' v = translate m v"
  by (simp add: translate_def walk_pte_def walk_pde_def)

lemma get_pool_put_desc [simp]: "get_pool pf (put_desc r d s) = get_pool pf s"
  by (simp add: get_pool_def split: pool_flags.splits)

lemma lock_pool_free:
  "current s \<noteq> 0 \<Longrightarrow> pool_lock (get_pool pf s) = lock_init \<Longrightarrow>
     lock_pool pf s = Some (set_pool pf ((get_pool pf s)\<lparr>pool_lock := lock_held (current s)\<rparr>) s)"
  by (simp add: lock_pool_def)

lemma unlock_pool_held:
  "pool_lock (get_pool pf s) = lock_held (current s) \<Longrightarrow>
     unlock_pool pf s = Some (set_pool pf ((get_pool pf s)\<lparr>pool_lock := lock_init\<rparr>) s)"
  by (simp add: unlock_pool_def)

lemma desc_search_spec:
  "desc_search req ds < length ds \<longleftrightarrow> (\<exists>d\<in>set ds. req \<le> block_size d)"
  "desc_search req ds < length ds \<Longrightarrow> req \<le> block_size (ds ! desc_search req ds)"
  "j < desc_search req ds \<Longrightarrow> j < length ds \<and> \<not> req \<le> block_size (ds ! j)"
proof -
  show "desc_search req ds < length ds \<longleftrightarrow> (\<exists>d\<in>set ds. req \<le> block_size d)" by (induction ds) auto
  show "desc_search req ds < length ds \<Longrightarrow> req \<le> block_size (ds ! desc_search req ds)" by (induction ds) auto
  show "j < desc_search req ds \<Longrightarrow> j < length ds \<and> \<not> req \<le> block_size (ds ! j)"
  proof (induction ds arbitrary: j)
    case (Cons d ds)
    then show ?case by (cases j) (auto split: if_splits)
  qed simp
qed

definition block_mapped :: "'a kmem_scheme \<Rightarrow> u32 \<Rightarrow> u32 \<Rightarrow> u32 \<Rightarrow> u32 \<Rightarrow> bool" where
  "block_mapped s b n pb pa \<longleftrightarrow> b \<noteq> 0 \<and> translate s b = Some pb \<and> translate s (block2arena b) = Some pa \<and>
     (\<forall>a. a - pb < n \<longrightarrow> \<not> table_frame s (pg_base a))"

lemma translate_zeroed:
  assumes "block_mapped s b n pb pa" "cr3 m = cr3 s" "phys m = (\<lambda>a. if a - pb < n then 0 else phys s a)"
  shows "translate m v = translate s v"
proof (rule translate_store)
  fix a
  assume "table_frame s (pg_base a)"
  then have "\<not> a - pb < n" using assms(1) by (auto simp: block_mapped_def)
  then show "phys m a = phys s a" by (simp add: assms(3))
qed (simp add: assms(2))

lemma malloc_small_pops:
  assumes "i = desc_search req (heap_descs s)" "i < length (heap_descs s)" "i < 2 ^ 32"
    and d: "d = heap_descs s ! i" "free_list d = b # fl" and m: "block_mapped s b (block_size d) pb pa"
    and "pool_lock (get_pool (heap_pf s) s) = lock_held (current s)"
  obtains s' where "malloc_small req s = Some (b, s')"
    "heap_descs s' = (heap_descs s)[i := d\<lparr>free_list := fl\<rparr>]"
    "arenas s' = (arenas s)(pa := (arenas s pa)\<lparr>cnt := cnt (arenas s pa) - 1\<rparr>)"
    "phys s' = (\<lambda>a. if a - pb < block_size d then 0 else phys s a)" "same_threads s s'"
    "get_pool (heap_pf s) s' = (get_pool (heap_pf s) s)\<lparr>pool_lock := lock_init\<rparr>"
proof -
  let ?r = "heap_desc_ref s i" and ?pf = "heap_pf s"
  let ?s2 = "put_desc ?r (d\<lparr>free_list := fl\<rparr>) s"
  let ?s3 = "?s2\<lparr>phys := (\<lambda>a. if a - pb < block_size d then 0 else phys s a)\<rparr>"
  let ?ar = "(arenas s pa)\<lparr>cnt := cnt (arenas s pa) - 1\<rparr>"
  let ?s4 = "?s3\<lparr>arenas := (arenas s)(pa := ?ar)\<rparr>"
  let ?s5 = "set_pool ?pf ((get_pool ?pf s)\<lparr>pool_lock := lock_init\<rparr>) ?s4"
  have g: "get_desc ?r s = Some d" using heap_desc_get [OF assms(2,3)] d(1) by simp
  have b: "b \<noteq> 0" "translate s b = Some pb" "translate s (block2arena b) = Some pa"
    using m by (simp_all add: block_mapped_def)
  have t2: "translate ?s2 v = translate s v" for v by (rule translate_cong) simp_all
  have t3: "translate ?s3 v = translate s v" for v by (rule translate_zeroed [OF m]) simp_all
  have z: "vzero ?s2 b (block_size d) = Some ?s3" using b(1,2) t2 by (simp add: vzero_def cong: if_cong)
  have a: "get_arena (block2arena b) ?s3 = Some (arenas s pa)" "put_arena (block2arena b) ?ar ?s3 = Some ?s4"
    using b(3) t3 by (simp_all add: get_arena_def put_arena_def)
  have th: "same_threads s ?s4"
    using put_desc_fields(5) [of s ?r "d\<lparr>free_list := fl\<rparr>"] by (simp add: same_threads_def)
  have p4: "get_pool ?pf ?s4 = get_pool ?pf s" by (simp add: get_pool_def split: pool_flags.splits)
  have "current ?s4 = current s" using th by (simp add: same_threads_def)
  then have u: "unlock_pool ?pf ?s4 = Some ?s5" using unlock_pool_held [of ?pf ?s4] assms(7) p4 by simp
  have e: "malloc_small req s = Some (b, ?s5)"
    unfolding malloc_small_def using assms(1) g d(2) z a u same_threads_refs(2) [OF th] by simp
  have h: "heap_descs ?s5 = (heap_descs s)[i := d\<lparr>free_list := fl\<rparr>]"
    using heap_desc_put [OF assms(3), of s "d\<lparr>free_list := fl\<rparr>"] by simp
  have t: "same_threads s ?s5" using th by (simp add: same_threads_def set_pool_def split: pool_flags.splits)
  show thesis by (rule that [OF e h _ _ t]) simp_all
qed

lemma free_small_appends:
  assumes "i < length (heap_descs s)" "i < 2 ^ 32" "d = heap_descs s ! i"
    and "translate s (block2arena b) = Some pa" "desc (arenas s pa) = heap_desc_ref s i"
    and "cnt (arenas s pa) + 1 \<noteq> blocks_per_arena d"
  shows "free_small b s = Some ((put_desc (heap_desc_ref s i) (d\<lparr>free_list := free_list d @ [b]\<rparr>) s)
     \<lparr>arenas := (arenas s)(pa := (arenas s pa)\<lparr>cnt := cnt (arenas s pa) + 1\<rparr>)\<rparr>)"
proof -
  have t: "translate (put_desc r e s) v = translate s v" for r e v by (rule translate_cong) simp_all
  show ?thesis
    using heap_desc_get [OF assms(1,2)] assms(3-6)
    by (simp add: free_small_def get_arena_def put_arena_def t)
qed

lemma sys_malloc_pops:
  assumes "0 < req" "req \<le> 1024" "req < pool_size (get_pool (heap_pf s) s)"
    and "pool_lock (get_pool (heap_pf s) s) = lock_init" "current s \<noteq> 0"
    and i: "i = desc_search req (heap_descs s)" "i < length (heap_descs s)" "i < 2 ^ 32"
    and d: "d = heap_descs s ! i" "free_list d = b # fl" and m: "block_mapped s b (block_size d) pb pa"
  obtains s' where "sys_malloc req s = Some (b, s')"
    "heap_descs s' = (heap_descs s)[i := d\<lparr>free_list := fl\<rparr>]"
    "arenas s' = (arenas s)(pa := (arenas s pa)\<lparr>cnt := cnt (arenas s pa) - 1\<rparr>)"
    "phys s' = (\<lambda>a. if a - pb < block_size d then 0 else phys s a)" "same_threads s s'"
    "pool_lock (get_pool (heap_pf s) s') = lock_init" "\<And>v. translate s' v = translate s v"
proof -
  let ?pf = "heap_pf s"
  let ?s1 = "set_pool ?pf ((get_pool ?pf s)\<lparr>pool_lock := lock_held (current s)\<rparr>) s"
  have th1: "same_threads s ?s1" by simp
  have t1: "translate ?s1 v = translate s v" for v by (rule translate_cong) simp_all
  have m1: "block_mapped ?s1 b (block_size d) pb pa"
    using m by (simp add: block_mapped_def t1 table_frame_def walk_pde_def)
  obtain s' where s': "malloc_small req ?s1 = Some (b, s')"
    "heap_descs s' = (heap_descs ?s1)[i := d\<lparr>free_list := fl\<rparr>]"
    "arenas s' = (arenas ?s1)(pa := (arenas ?s1 pa)\<lparr>cnt := cnt (arenas ?s1 pa) - 1\<rparr>)"
    "phys s' = (\<lambda>a. if a - pb < block_size d then 0 else phys ?s1 a)" "same_threads ?s1 s'"
    "get_pool (heap_pf ?s1) s' = (get_pool (heap_pf ?s1) ?s1)\<lparr>pool_lock := lock_init\<rparr>"
    by (rule malloc_small_pops [of i req ?s1 d b fl pb pa])
      (use i d m1 same_threads_refs(2) [OF th1] in \<open>simp_all add: that\<close>)
  have e: "sys_malloc req s = Some (b, s')"
    using assms(1-5) lock_pool_free [of s ?pf] s'(1) by (simp add: sys_malloc_def flip: not_less)
  have p: "phys s' = (\<lambda>a. if a - pb < block_size d then 0 else phys s a)" using s'(4) by (simp cong: if_cong)
  have th: "same_threads s s'" by (rule same_threads_trans [OF th1 s'(5)])
  have "translate s' v = translate s v" for v
    using translate_zeroed [OF m, of s'] p th by (simp add: same_threads_def)
  moreover have "pool_lock (get_pool ?pf s') = lock_init" using s'(6) same_threads_refs(2) [OF th1] by simp
  ultimately show thesis using that [OF e _ _ p th] s'(2,3) by simp
qed

lemma sys_free_appends:
  assumes "b \<noteq> 0" "heap_pf s = PF_KERNEL \<Longrightarrow> b \<ge> K_HEAP_START"
    and "pool_lock (get_pool (heap_pf s) s) = lock_init" "current s \<noteq> 0"
    and i: "i < length (heap_descs s)" "i < 2 ^ 32" "d = heap_descs s ! i"
    and ar: "translate s (block2arena b) = Some pa" "desc (arenas s pa) = heap_desc_ref s i"
      "large (arenas s pa) = 0" "cnt (arenas s pa) + 1 \<noteq> blocks_per_arena d"
  obtains s' where "sys_free b s = Some s'"
    "heap_descs s' = (heap_descs s)[i := d\<lparr>free_list := free_list d @ [b]\<rparr>]"
    "arenas s' = (arenas s)(pa := (arenas s pa)\<lparr>cnt := cnt (arenas s pa) + 1\<rparr>)"
proof -
  let ?pf = "heap_pf s" and ?d = "d\<lparr>free_list := free_list d @ [b]\<rparr>"
  let ?s1 = "set_pool ?pf ((get_pool ?pf s)\<lparr>pool_lock := lock_held (current s)\<rparr>) s"
  let ?s2 = "(put_desc (heap_desc_ref ?s1 i) ?d ?s1)
     \<lparr>arenas := (arenas s)(pa := (arenas s pa)\<lparr>cnt := cnt (arenas s pa) + 1\<rparr>)\<rparr>"
  let ?s3 = "set_pool ?pf ((get_pool ?pf s)\<lparr>pool_lock := lock_init\<rparr>) ?s2"
  have th1: "same_threads s ?s1" by simp
  have t1: "translate ?s1 v = translate s v" for v by (rule translate_cong) simp_all
  have th2: "same_threads s ?s2" unfolding same_threads_upd by (rule same_threads_trans [OF th1 put_desc_fields(5)])
  have f: "free_small b ?s1 = Some ?s2"
    using free_small_appends [of i ?s1 d b pa] i ar t1 same_threads_refs(1) [OF th1] by simp
  have p2: "get_pool ?pf ?s2 = (get_pool ?pf s)\<lparr>pool_lock := lock_held (current s)\<rparr>"
    by (simp add: get_pool_def set_pool_def split: pool_flags.splits)
  have u: "unlock_pool ?pf ?s2 = Some ?s3"
    using unlock_pool_held [of ?pf ?s2] p2 th2 by (simp add: same_threads_def)
  have nd: "desc (arenas s pa) \<noteq> No_desc" using ar(2) by (simp add: heap_desc_ref_def)
  have e: "sys_free b s = Some ?s3"
    using assms(1-4) lock_pool_free [of s ?pf] f u ar(1,3) nd t1 same_threads_refs(2) [OF th1] same_threads_refs(2) [OF th2]
    by (simp add: sys_free_def get_arena_def)
  show thesis
    by (rule that [OF e]) (use heap_desc_put [OF i(2), of ?s1 ?d] in simp_all)
qed

text \<open>Property C6: a small request is served from the smallest size class that is large enough: when
  that class has a free block, \<^verbatim>\<open>sys_malloc\<close> returns the first one, cleared, takes it off the free list,
  counts it in its arena, maps or unmaps nothing, and leaves the pool unlocked; releasing the block
  with \<^verbatim>\<open>sys_free\<close> puts it back at the end of the free list and restores the count, as long as the arena
  still has blocks in use.\<close>

theorem malloc_free_small:
  assumes "0 < req" "req \<le> 1024" "req < pool_size (get_pool (heap_pf s) s)"
    and "pool_lock (get_pool (heap_pf s) s) = lock_init" "current s \<noteq> 0"
    and i: "i = desc_search req (heap_descs s)" "i < length (heap_descs s)" "i < 2 ^ 32"
    and d: "d = heap_descs s ! i" "free_list d = b # fl"
    and m: "block_mapped s b (block_size d) pb pa" "heap_pf s = PF_KERNEL \<Longrightarrow> b \<ge> K_HEAP_START"
    and ar: "desc (arenas s pa) = heap_desc_ref s i" "large (arenas s pa) = 0"
      "cnt (arenas s pa) \<noteq> blocks_per_arena d"
  shows "\<exists>s' s''. sys_malloc req s = Some (b, s') \<and> req \<le> block_size d \<and>
     (\<forall>j<i. block_size (heap_descs s ! j) < req) \<and> free_list (heap_descs s' ! i) = fl \<and>
     (\<forall>a. a - pb < block_size d \<longrightarrow> phys s' a = 0) \<and> (\<forall>v. translate s' v = translate s v) \<and>
     pool_lock (get_pool (heap_pf s) s') = lock_init \<and>
     sys_free b s' = Some s'' \<and> free_list (heap_descs s'' ! i) = fl @ [b] \<and> arenas s'' = arenas s"
proof -
  obtain s' where s': "sys_malloc req s = Some (b, s')"
    "heap_descs s' = (heap_descs s)[i := d\<lparr>free_list := fl\<rparr>]"
    "arenas s' = (arenas s)(pa := (arenas s pa)\<lparr>cnt := cnt (arenas s pa) - 1\<rparr>)"
    "phys s' = (\<lambda>a. if a - pb < block_size d then 0 else phys s a)" "same_threads s s'"
    "pool_lock (get_pool (heap_pf s) s') = lock_init" "\<And>v. translate s' v = translate s v"
    by (rule sys_malloc_pops [OF assms(1-5) i d m(1)]) (rule that)
  have b: "b \<noteq> 0" "translate s (block2arena b) = Some pa" using m(1) by (simp_all add: block_mapped_def)
  have c: "current s' \<noteq> 0" using s'(5) assms(5) by (simp add: same_threads_def)
  let ?d = "d\<lparr>free_list := fl\<rparr>"
  obtain s'' where s'': "sys_free b s' = Some s''"
    "heap_descs s'' = (heap_descs s')[i := ?d\<lparr>free_list := free_list ?d @ [b]\<rparr>]"
    "arenas s'' = (arenas s')(pa := (arenas s' pa)\<lparr>cnt := cnt (arenas s' pa) + 1\<rparr>)"
    using m(2) s'(2,3,6,7) b c i ar same_threads_refs [OF s'(5)]
    by (elim sys_free_appends [of b s' i ?d pa, rotated -1]) simp_all
  have "\<forall>j<i. block_size (heap_descs s ! j) < req"
    using desc_search_spec(3) [of _ req "heap_descs s"] i(1) by (auto simp: not_le)
  then show ?thesis
    using desc_search_spec(2) [of req "heap_descs s"] i d s' s'' by auto
qed

text \<open>A kernel thread whose heap has one arena of 64-byte blocks, with two free blocks.\<close>

definition kmem1 :: kmem where
  "kmem1 = kmem0\<lparr>phys := (\<lambda>_. 0)(0x100ffc := 0x100007, 0x100c00 := 0x101007, 0x101400 := 0x205007),
     k_block_descs := block_desc_init[2 := \<lparr>block_size = 64, blocks_per_arena = 63, free_list = [0xc010000c, 0xc010004c]\<rparr>],
     arenas := (arenas kmem0)(0x205000 := \<lparr>desc = Kernel_desc 2, cnt = 2, large = 0\<rparr>)\<rparr>"

lemma kmem1_simps [simp]:
  "cr3 kmem1 = 0x100000" "current kmem1 = 0x2000" "pgdir (task kmem1 0x2000) = 0"
  "kernel_pool kmem1 = pool0 0x200000" "running_thread kmem1 = 0x2000" "heap_pf kmem1 = PF_KERNEL"
  "arenas kmem1 0x205000 = \<lparr>desc = Kernel_desc 2, cnt = 2, large = 0\<rparr>"
  "phys kmem1 = (\<lambda>_. 0)(0x100ffc := 0x100007, 0x100c00 := 0x101007, 0x101400 := 0x205007)"
  by (simp_all add: kmem1_def kmem0_def task0_def running_thread_def heap_pf_def)

lemma kmem1_descs: "heap_descs kmem1 = block_desc_init[2 := \<lparr>block_size = 64, blocks_per_arena = 63, free_list = [0xc010000c, 0xc010004c]\<rparr>]"
  by (simp add: heap_descs_def) (simp add: kmem1_def)

lemma kmem1_frames: "table_frame kmem1 f \<Longrightarrow> f \<noteq> 0x205000"
proof -
  assume t: "table_frame kmem1 f"
  have "walk_pde kmem1 a \<noteq> 0x101400" for a
  proof
    assume eq: "walk_pde kmem1 a = 0x101400"
    have "pg_base (walk_pde kmem1 a) = pg_base 0x100000" by (simp add: walk_pde_def pg_base_plus PDE_IDX_le)
    then show False unfolding eq by (simp add: pg_base_def)
  qed
  with t show "f \<noteq> 0x205000" by (auto simp: table_frame_def pg_base_def split: if_splits)
qed

lemma kmem1_mapped: "block_mapped kmem1 0xc010000c 64 0x20500c 0x205000"
proof -
  have tr: "translate kmem1 0xc010000c = Some 0x20500c" "translate kmem1 (block2arena 0xc010000c) = Some 0x205000"
    by (simp_all add: translate_def walk_pde_def walk_pte_def pg_base_def PDE_IDX_def PTE_IDX_def PG_P_1_def block2arena_def)
  have "\<not> table_frame kmem1 (pg_base a)" if "a - 0x20500c < 64" for a
  proof -
    have "unat (a - 0x20500c) < 64" using that by (simp add: word_less_nat_alt)
    then have "unat ((a - 0x20500c) + 12) < 4096" using unat_plus_lt [of "a - 0x20500c" 12] by simp
    moreover have "(a - 0x20500c) + 12 = a - 0x205000" by simp
    ultimately have "a - 0x205000 < 4096" by (simp add: word_less_nat_alt)
    then have "pg_base a = 0x205000" using in_page_iff [of "0x205000" a] by (simp add: pg_base_def)
    then show ?thesis using kmem1_frames by auto
  qed
  with tr show ?thesis by (simp add: block_mapped_def)
qed

theorem malloc_free_small_witness:
  "\<exists>s' s''. sys_malloc 50 kmem1 = Some (0xc010000c, s') \<and> sys_free 0xc010000c s' = Some s'' \<and>
     free_list (heap_descs s'' ! 2) = [0xc010004c, 0xc010000c]"
proof -
  let ?d = "\<lparr>block_size = 64, blocks_per_arena = 63, free_list = [0xc010000c, 0xc010004c]\<rparr> :: mem_block_desc"
  have h: "2 = desc_search 50 (heap_descs kmem1)" "2 < length (heap_descs kmem1)" "?d = heap_descs kmem1 ! 2"
    by (simp_all add: kmem1_descs block_desc_init_eq)
  have p: "50 < pool_size (get_pool (heap_pf kmem1) kmem1)" "pool_lock (get_pool (heap_pf kmem1) kmem1) = lock_init"
    by (simp_all add: get_pool_def pool0_def)
  have m: "block_mapped kmem1 0xc010000c (block_size ?d) 0x20500c 0x205000" using kmem1_mapped by simp
  have r: "desc (arenas kmem1 0x205000) = heap_desc_ref kmem1 2" by (simp add: heap_desc_ref_def)
  obtain s' s'' where "sys_malloc 50 kmem1 = Some (0xc010000c, s')" "sys_free 0xc010000c s' = Some s''"
    "free_list (heap_descs s'' ! 2) = [0xc010004c] @ [0xc010000c]"
    using malloc_free_small [OF _ _ p _ h(1,2) _ h(3) _ m _ r, of "[0xc010004c]"] by (auto simp: K_HEAP_START_def)
  then show ?thesis by auto
qed

end
