(* ===== verification/Kbytes.thy ===== *)
theory Kbytes
  imports Kernel_Prelude
begin

text \<open>
  Byte buffers and the layout of C structures in them. A buffer of the disk driver and of the file
  system is a list of bytes; a 32-bit field occupies four bytes, the least significant first. The
  theory has the encoding of words, the copy of a structure into and out of a buffer, and the laws
  the file system rests on: decoding inverts encoding, and a copy changes its own bytes only.
\<close>

section \<open>Words as bytes\<close>

definition word_bytes :: "u32 \<Rightarrow> u8 list" where
  "word_bytes w = [ucast w, ucast (drop_bit 8 w), ucast (drop_bit 16 w), ucast (drop_bit 24 w)]"

fun bytes_word :: "u8 list \<Rightarrow> u32" where
  "bytes_word (a # b # c # d # _) =
     ucast a OR push_bit 8 (ucast b) OR push_bit 16 (ucast c) OR push_bit 24 (ucast d)"
| "bytes_word _ = 0"

definition words_bytes :: "u32 list \<Rightarrow> u8 list" where
  "words_bytes ws = concat (map word_bytes ws)"

fun bytes_words :: "u8 list \<Rightarrow> u32 list" where
  "bytes_words (a # b # c # d # bs) = bytes_word [a, b, c, d] # bytes_words bs"
| "bytes_words _ = []"

lemma length_word_bytes [simp]: "length (word_bytes w) = 4"
  by (simp add: word_bytes_def)

lemma length_words_bytes [simp]: "length (words_bytes ws) = 4 * length ws"
  by (induction ws) (simp_all add: words_bytes_def)

lemma length_bytes_words: "length (bytes_words bs) = length bs div 4"
  by (induction bs rule: bytes_words.induct) simp_all

lemma bytes_word_bytes [simp]: "bytes_word (word_bytes w @ bs) = w"
proof -
  have "bit (bytes_word (word_bytes w @ bs)) n = bit w n" if "n < 32" for n
  proof -
    consider "n < 8" | "8 \<le> n" "n < 16" | "16 \<le> n" "n < 24" | "24 \<le> n" using that by linarith
    then show ?thesis
      using that by cases (auto simp: word_bytes_def bit_or_iff bit_push_bit_iff bit_unsigned_iff
          bit_drop_bit_eq not_le dest: bit_imp_le_length)
  qed
  then show ?thesis by (intro bit_word_eqI) simp
qed

lemma bytes_word_bytes_nil [simp]: "bytes_word (word_bytes w) = w"
  using bytes_word_bytes [of w "[]"] by simp

lemma bytes_words_Cons: "bytes_words (word_bytes w @ bs) = w # bytes_words bs"
  using bytes_word_bytes_nil [of w] by (simp add: word_bytes_def)

lemma bytes_words_bytes [simp]: "bytes_words (words_bytes ws) = ws"
  by (induction ws) (simp_all add: words_bytes_def bytes_words_Cons)

lemma bytes_words_zero: "bytes_words (replicate (4 * n) 0) = replicate n 0"
  by (induction n) (simp_all add: eval_nat_numeral)

section \<open>Buffers\<close>

text \<open>\<^verbatim>\<open>memcpy(buf + off, xs, n)\<close> and \<^verbatim>\<open>memcpy(xs, buf + off, n)\<close> on a buffer. An access outside
  the buffer has no result.\<close>

definition put_at :: "nat \<Rightarrow> 'a list \<Rightarrow> 'a list \<Rightarrow> 'a list option" where
  "put_at off xs buf =
     (if off + length xs \<le> length buf then Some (take off buf @ xs @ drop (off + length xs) buf)
      else None)"

definition get_at :: "nat \<Rightarrow> nat \<Rightarrow> 'a list \<Rightarrow> 'a list option" where
  "get_at off n buf = (if off + n \<le> length buf then Some (take n (drop off buf)) else None)"

lemma put_at_length: "put_at off xs buf = Some buf' \<Longrightarrow> length buf' = length buf"
  by (auto simp: put_at_def split: if_splits)

lemma put_at_returns: "off + length xs \<le> length buf \<Longrightarrow> \<exists>buf'. put_at off xs buf = Some buf'"
  by (simp add: put_at_def)

lemma get_at_length: "get_at off n buf = Some xs \<Longrightarrow> length xs = n"
  by (auto simp: get_at_def split: if_splits)

lemma get_at_returns: "off + n \<le> length buf \<Longrightarrow> \<exists>xs. get_at off n buf = Some xs"
  by (simp add: get_at_def)

lemma get_put_same: "put_at off xs buf = Some buf' \<Longrightarrow> get_at off (length xs) buf' = Some xs"
  by (auto simp: put_at_def get_at_def split: if_splits)

lemma put_at_nth:
  assumes "put_at off xs buf = Some buf'" "i < length buf"
  shows "buf' ! i = (if off \<le> i \<and> i < off + length xs then xs ! (i - off) else buf ! i)"
  using assms by (auto simp: put_at_def nth_append split: if_splits)

lemma get_at_nth: "get_at off n buf = Some xs \<Longrightarrow> i < n \<Longrightarrow> xs ! i = buf ! (off + i)"
  by (auto simp: get_at_def split: if_splits)

lemma get_put_other:
  assumes "put_at off xs buf = Some buf'" "off' + n \<le> off \<or> off + length xs \<le> off'"
  shows "get_at off' n buf' = get_at off' n buf"
proof (cases "off' + n \<le> length buf")
  case True
  have "take n (drop off' buf') = take n (drop off' buf)"
  proof (rule nth_equalityI)
    show len: "length (take n (drop off' buf')) = length (take n (drop off' buf))"
      using put_at_length [OF assms(1)] by simp
    fix i assume "i < length (take n (drop off' buf'))"
    with len put_at_length [OF assms(1)] True assms(2)
    show "take n (drop off' buf') ! i = take n (drop off' buf) ! i"
      using put_at_nth [OF assms(1), of "off' + i"] by auto
  qed
  then show ?thesis using put_at_length [OF assms(1)] by (simp add: get_at_def)
qed (use put_at_length [OF assms(1)] in \<open>simp add: get_at_def\<close>)

end
