(* ===== verification/Kide.thy ===== *)
theory Kide
  imports Kbytes Klist
begin

text \<open>
  The disk driver (\<^verbatim>\<open>src/dev/ide.c\<close>, \<^verbatim>\<open>src/inc/ide.h\<close>). A channel keeps the flag
  \<^verbatim>\<open>expecting_intr\<close> and the semaphore \<^verbatim>\<open>disk_done\<close>; its two drives are the hardware: the
  sectors of each drive, its 512 bytes of identification, and what the status register answers to the
  successive reads after a command. A drive obeys the command in its command register and the five registers the
  driver writes before it: a transfer moves the number of sectors in the count register (0 means 256) from the
  28-bit address in the other four. It gives data only to a command that reads, takes data only for a command that
  writes, and raises one interrupt for a command, when its data can be read or has been taken. (A drive that raises
  one for every sector finds \<^verbatim>\<open>expecting_intr\<close> clear after the first, and the handler does nothing.)

  Modelled here is the transfer of the thread that holds the lock of the channel: \<^verbatim>\<open>lock_acquire\<close>
  and \<^verbatim>\<open>lock_release\<close> around it are those of \<open>Ksync\<close>, which shows that one thread at a time is
  between them, and the wait for the disk is the arrival of its interrupt. The theory shows that
  transfers of any size, cut into commands of at most 256 sectors with 8-bit registers, read and
  write exactly the addressed sectors.
\<close>

section \<open>Channels, drives and partitions\<close>

record taskfile =
  reg_sect_cnt :: u8
  reg_lba_l :: u8
  reg_lba_m :: u8
  reg_lba_h :: u8
  reg_dev :: u8

record ide_channel =
  port_base :: u16
  irq_no :: u8
  expecting_intr :: bool
  disk_done :: u8
  reg_status :: "nat \<Rightarrow> u8"
  reg_cmd :: "u8 option"
  media :: "bool \<Rightarrow> u32 \<Rightarrow> u8 list"
  identity :: "bool \<Rightarrow> u8 list"

text \<open>A \<^verbatim>\<open>struct disk *\<close> is the channel number and the device number on it.\<close>

record disk =
  my_channel :: u8
  dev_no :: u8

record ide =
  channels :: "u8 \<Rightarrow> ide_channel"

definition max_lba :: u32 where "max_lba = 80 * 1024 * 1024 div 512 - 1"
definition BIT_STAT_BSY :: u8 where "BIT_STAT_BSY = 0x80"
definition BIT_STAT_DRQ :: u8 where "BIT_STAT_DRQ = 0x8"
definition BIT_DEV_MBS :: u8 where "BIT_DEV_MBS = 0xa0"
definition BIT_DEV_LBA :: u8 where "BIT_DEV_LBA = 0x40"
definition BIT_DEV_DEV :: u8 where "BIT_DEV_DEV = 0x10"
definition CMD_IDENTIFY :: u8 where "CMD_IDENTIFY = 0xec"
definition CMD_READ_SECTOR :: u8 where "CMD_READ_SECTOR = 0x20"
definition CMD_WRITE_SECTOR :: u8 where "CMD_WRITE_SECTOR = 0x30"
definition SECTOR_SIZE :: nat where "SECTOR_SIZE = 512"

section \<open>The hardware\<close>

text \<open>What the registers select: the drive, the first sector and the number of sectors.\<close>

definition tf_slave :: "taskfile \<Rightarrow> bool" where
  "tf_slave r = (reg_dev r AND BIT_DEV_DEV \<noteq> 0)"

definition tf_lba :: "taskfile \<Rightarrow> u32" where
  "tf_lba r = ucast (reg_lba_l r) OR push_bit 8 (ucast (reg_lba_m r)) OR
     push_bit 16 (ucast (reg_lba_h r)) OR push_bit 24 (ucast (reg_dev r AND 0x0f))"

definition tf_count :: "taskfile \<Rightarrow> nat" where
  "tf_count r = (if reg_sect_cnt r = 0 then 256 else unat (reg_sect_cnt r))"

definition sectors :: "(u32 \<Rightarrow> u8 list) \<Rightarrow> u32 \<Rightarrow> nat \<Rightarrow> u8 list" where
  "sectors md lba n = concat (map (\<lambda>i. md (lba + of_nat i)) [0..<n])"

definition put_sectors :: "u32 \<Rightarrow> nat \<Rightarrow> u8 list \<Rightarrow> (u32 \<Rightarrow> u8 list) \<Rightarrow> u32 \<Rightarrow> u8 list" where
  "put_sectors lba n data md =
     (\<lambda>x. if unat (x - lba) < n then take 512 (drop (512 * unat (x - lba)) data) else md x)"

text \<open>The bytes that the selected drive has to give to its command, and whether it interrupts: a command that writes
  has to be given its data first.\<close>

definition drive_data :: "taskfile \<Rightarrow> ide_channel \<Rightarrow> u8 list option" where
  "drive_data r ch =
     (if reg_cmd ch = Some CMD_READ_SECTOR then Some (sectors (media ch (tf_slave r)) (tf_lba r) (tf_count r))
      else if reg_cmd ch = Some CMD_IDENTIFY then Some (identity ch (tf_slave r)) else None)"

definition drive_interrupts :: "ide_channel \<Rightarrow> bool" where
  "drive_interrupts ch \<longleftrightarrow> reg_cmd ch \<noteq> Some CMD_WRITE_SECTOR"

section \<open>The driver\<close>

definition get_channel :: "disk \<Rightarrow> 'a ide_scheme \<Rightarrow> ide_channel" where
  "get_channel dk s = channels s (my_channel dk)"

definition put_channel :: "disk \<Rightarrow> ide_channel \<Rightarrow> 'a ide_scheme \<Rightarrow> 'a ide_scheme" where
  "put_channel dk ch s = s\<lparr>channels := (channels s)(my_channel dk := ch)\<rparr>"

definition select_disk :: "disk \<Rightarrow> taskfile \<Rightarrow> taskfile" where
  "select_disk dk r =
     r\<lparr>reg_dev := BIT_DEV_MBS OR BIT_DEV_LBA OR (if dev_no dk = 1 then BIT_DEV_DEV else 0)\<rparr>"

definition select_sector :: "disk \<Rightarrow> u32 \<Rightarrow> u8 \<Rightarrow> taskfile \<Rightarrow> taskfile option" where
  "select_sector dk lba sec_cnt r =
     do { ASSERT (lba \<le> max_lba);
          Some (r\<lparr>reg_sect_cnt := sec_cnt, reg_lba_l := ucast lba, reg_lba_m := ucast (drop_bit 8 lba),
                  reg_lba_h := ucast (drop_bit 16 lba),
                  reg_dev := BIT_DEV_MBS OR BIT_DEV_LBA OR
                    (if dev_no dk = 1 then BIT_DEV_DEV else 0) OR ucast (drop_bit 24 lba)\<rparr>) }"

definition cmd_out :: "u8 \<Rightarrow> ide_channel \<Rightarrow> ide_channel" where
  "cmd_out cmd ch = ch\<lparr>expecting_intr := True, reg_cmd := Some cmd\<rparr>"

text \<open>The interrupt handler. \<^verbatim>\<open>sema_up\<close> raises the value of \<^verbatim>\<open>disk_done\<close>.\<close>

definition intr_hd_handler :: "u8 \<Rightarrow> 'a ide_scheme \<Rightarrow> 'a ide_scheme option" where
  "intr_hd_handler irq s =
     do { ASSERT (irq = 0x2e \<or> irq = 0x2f);
          let ch_no = irq - 0x2e;
          let channel = channels s ch_no;
          ASSERT (irq_no channel = irq);
          Some (if expecting_intr channel
                then s\<lparr>channels := (channels s)
                       (ch_no := channel\<lparr>expecting_intr := False, disk_done := disk_done channel + 1\<rparr>)\<rparr>
                else s) }"

text \<open>\<^verbatim>\<open>sema_down(&hd->my_channel->disk_done)\<close> after a command: the interrupt of the drive arrives,
  and the thread goes on if the semaphore lets it. With no count it would wait for ever.\<close>

definition disk_wait :: "disk \<Rightarrow> 'a ide_scheme \<Rightarrow> 'a ide_scheme option" where
  "disk_wait dk s =
     do { ASSERT (drive_interrupts (get_channel dk s));
          s \<leftarrow> intr_hd_handler (irq_no (get_channel dk s)) s;
          ASSERT (disk_done (get_channel dk s) \<noteq> 0);
          let ch = get_channel dk s;
          Some (put_channel dk (ch\<lparr>disk_done := disk_done ch - 1\<rparr>) s) }"

text \<open>\<^verbatim>\<open>time_limit -= 10 >= 0\<close> subtracts the value of the comparison, which is 1.\<close>

fun busy_wait_loop :: "(nat \<Rightarrow> u8) \<Rightarrow> nat \<Rightarrow> nat \<Rightarrow> bool" where
  "busy_wait_loop st i 0 = False"
| "busy_wait_loop st i (Suc time_limit) =
     (if time_limit = 0 then False
      else if st i AND BIT_STAT_BSY = 0 then st (Suc i) AND BIT_STAT_DRQ \<noteq> 0
      else busy_wait_loop st (Suc i) time_limit)"

definition busy_wait :: "ide_channel \<Rightarrow> bool" where
  "busy_wait ch = busy_wait_loop (reg_status ch) 0 (30 * 1000)"

definition size_in_byte :: "u8 \<Rightarrow> nat" where
  "size_in_byte sec_cnt = (if sec_cnt = 0 then 256 * 512 else unat sec_cnt * 512)"

text \<open>The command ends when its last byte has been moved.\<close>

definition read_from_sector :: "taskfile \<Rightarrow> ide_channel \<Rightarrow> u8 \<Rightarrow> (u8 list \<times> ide_channel) option" where
  "read_from_sector r ch sec_cnt =
     do { data \<leftarrow> drive_data r ch;
          bs \<leftarrow> get_at 0 (size_in_byte sec_cnt) data;
          Some (bs, ch\<lparr>reg_cmd := None\<rparr>) }"

definition write2sector :: "taskfile \<Rightarrow> ide_channel \<Rightarrow> u8 list \<Rightarrow> u8 \<Rightarrow> ide_channel option" where
  "write2sector r ch buf sec_cnt =
     do { ASSERT (reg_cmd ch = Some CMD_WRITE_SECTOR);
          data \<leftarrow> get_at 0 (size_in_byte sec_cnt) buf;
          Some (ch\<lparr>reg_cmd := None, media := (media ch)
                 (tf_slave r := put_sectors (tf_lba r) (tf_count r) data (media ch (tf_slave r)))\<rparr>) }"

definition secs_op :: "u32 \<Rightarrow> u32 \<Rightarrow> u32" where
  "secs_op secs_done sec_cnt = (if secs_done + 256 \<le> sec_cnt then 256 else sec_cnt - secs_done)"

partial_function (option) ide_read_loop ::
    "disk \<Rightarrow> u32 \<Rightarrow> u32 \<Rightarrow> u32 \<Rightarrow> taskfile \<Rightarrow> u8 list \<Rightarrow> 'a ide_scheme \<Rightarrow> (u8 list \<times> 'a ide_scheme) option"
where
  "ide_read_loop dk lba sec_cnt secs_done r buf s =
     (if secs_done < sec_cnt
      then do { let op = secs_op secs_done sec_cnt;
                r \<leftarrow> select_sector dk (lba + secs_done) (ucast op) r;
                let s = put_channel dk (cmd_out CMD_READ_SECTOR (get_channel dk s)) s;
                s \<leftarrow> disk_wait dk s;
                ASSERT (busy_wait (get_channel dk s));
                (bs, ch) \<leftarrow> read_from_sector r (get_channel dk s) (ucast op);
                ide_read_loop dk lba sec_cnt (secs_done + op) r (buf @ bs) (put_channel dk ch s) }
      else Some (buf, s))"

text \<open>\<^verbatim>\<open>ide_read\<close> returns the bytes that it stores from \<^verbatim>\<open>buf\<close> on. The registers keep what they
  held before; a transfer writes all of them.\<close>

definition taskfile0 :: taskfile where
  "taskfile0 = \<lparr>reg_sect_cnt = 0, reg_lba_l = 0, reg_lba_m = 0, reg_lba_h = 0, reg_dev = 0\<rparr>"

definition ide_read :: "disk \<Rightarrow> u32 \<Rightarrow> u32 \<Rightarrow> 'a ide_scheme \<Rightarrow> (u8 list \<times> 'a ide_scheme) option" where
  "ide_read dk lba sec_cnt s =
     do { ASSERT (lba \<le> max_lba);
          ASSERT (sec_cnt > 0);
          ide_read_loop dk lba sec_cnt 0 (select_disk dk taskfile0) [] s }"

partial_function (option) ide_write_loop ::
    "disk \<Rightarrow> u32 \<Rightarrow> u32 \<Rightarrow> u32 \<Rightarrow> taskfile \<Rightarrow> u8 list \<Rightarrow> 'a ide_scheme \<Rightarrow> 'a ide_scheme option"
where
  "ide_write_loop dk lba sec_cnt secs_done r buf s =
     (if secs_done < sec_cnt
      then do { let op = secs_op secs_done sec_cnt;
                r \<leftarrow> select_sector dk (lba + secs_done) (ucast op) r;
                let s = put_channel dk (cmd_out CMD_WRITE_SECTOR (get_channel dk s)) s;
                ASSERT (busy_wait (get_channel dk s));
                ch \<leftarrow> write2sector r (get_channel dk s) (drop (unat (secs_done * 512)) buf) (ucast op);
                s \<leftarrow> disk_wait dk (put_channel dk ch s);
                ide_write_loop dk lba sec_cnt (secs_done + op) r buf s }
      else Some s)"

definition ide_write :: "disk \<Rightarrow> u32 \<Rightarrow> u8 list \<Rightarrow> u32 \<Rightarrow> 'a ide_scheme \<Rightarrow> 'a ide_scheme option" where
  "ide_write dk lba buf sec_cnt s =
     do { ASSERT (lba \<le> max_lba);
          ASSERT (sec_cnt > 0);
          ide_write_loop dk lba sec_cnt 0 (select_disk dk taskfile0) buf s }"

section \<open>Registers\<close>

definition disk_slave :: "disk \<Rightarrow> bool" where
  "disk_slave dk = (dev_no dk = 1)"

lemma max_lba_eq: "max_lba = 163839"
  by (simp add: max_lba_def)

lemma low_bits_zero:
  fixes lba :: u32
  assumes "lba \<le> max_lba" "18 \<le> n"
  shows "\<not> bit lba n"
proof -
  have "unat lba \<le> unat (163839 :: u32)" using assms(1) by (simp add: max_lba_eq word_le_nat_alt)
  then have "unat lba < 2 ^ 18" by simp
  then show ?thesis using assms(2) by (rule not_bit_unat_less)
qed

lemma select_sector_decodes:
  assumes "select_sector dk lba n r = Some r'"
  shows "tf_lba r' = lba \<and> tf_slave r' = disk_slave dk \<and> tf_count r' = (if n = 0 then 256 else unat n)"
proof (intro conjI)
  from assms have le: "lba \<le> max_lba" and r': "r' = r\<lparr>reg_sect_cnt := n, reg_lba_l := ucast lba,
      reg_lba_m := ucast (drop_bit 8 lba), reg_lba_h := ucast (drop_bit 16 lba),
      reg_dev := BIT_DEV_MBS OR BIT_DEV_LBA OR (if dev_no dk = 1 then BIT_DEV_DEV else 0) OR
        ucast (drop_bit 24 lba)\<rparr>"
    by (auto simp: select_sector_def ASSERT_bind split: if_splits)
  have top: "(ucast (drop_bit 24 lba) :: u8) = 0"
    by (rule bit_word_eqI) (simp add: bit_unsigned_iff bit_drop_bit_eq low_bits_zero [OF le])
  show "tf_lba r' = lba"
  proof (rule bit_word_eqI)
    fix k assume k: "k < LENGTH(32)"
    have dev: "(reg_dev r' AND 0x0f) = 0"
      by (simp add: r' top BIT_DEV_MBS_def BIT_DEV_LBA_def BIT_DEV_DEV_def)
    consider "k < 8" | "8 \<le> k" "k < 16" | "16 \<le> k" "k < 24" | "24 \<le> k" using k by linarith
    then show "bit (tf_lba r') k = bit lba k"
      using k low_bits_zero [OF le, of k] unfolding tf_lba_def dev
      by cases (auto simp: r' bit_or_iff bit_push_bit_iff bit_unsigned_iff bit_drop_bit_eq
          dest: bit_imp_le_length)
  qed
  show "tf_slave r' = disk_slave dk"
    by (simp add: tf_slave_def r' top disk_slave_def BIT_DEV_MBS_def BIT_DEV_LBA_def BIT_DEV_DEV_def)
  show "tf_count r' = (if n = 0 then 256 else unat n)" by (simp add: tf_count_def r')
qed

section \<open>Commands\<close>

text \<open>The data of a drive, and a drive that answers: the channel is idle, its interrupt number is the
  one the handler expects, and the status register reports data within the limit of \<^verbatim>\<open>busy_wait\<close>.\<close>

definition disk_data :: "disk \<Rightarrow> 'a ide_scheme \<Rightarrow> u32 \<Rightarrow> u8 list" where
  "disk_data dk s = media (get_channel dk s) (disk_slave dk)"

definition put_disk :: "disk \<Rightarrow> (u32 \<Rightarrow> u8 list) \<Rightarrow> 'a ide_scheme \<Rightarrow> 'a ide_scheme" where
  "put_disk dk md s =
     put_channel dk ((get_channel dk s)\<lparr>media := (media (get_channel dk s))(disk_slave dk := md)\<rparr>) s"

definition ide_ready :: "disk \<Rightarrow> 'a ide_scheme \<Rightarrow> bool" where
  "ide_ready dk s \<longleftrightarrow>
     my_channel dk \<le> 1 \<and> irq_no (get_channel dk s) = 0x2e + my_channel dk \<and>
     \<not> expecting_intr (get_channel dk s) \<and> disk_done (get_channel dk s) = 0 \<and> reg_cmd (get_channel dk s) = None \<and>
     busy_wait (get_channel dk s) \<and> (\<forall>x. length (disk_data dk s x) = 512)"

lemma get_put_channel [simp]: "get_channel dk (put_channel dk ch s) = ch"
  by (simp add: get_channel_def put_channel_def)

lemma put_put_channel [simp]: "put_channel dk ch (put_channel dk ch' s) = put_channel dk ch s"
  by (simp add: put_channel_def)

lemma put_get_channel [simp]: "put_channel dk (get_channel dk s) s = s"
  by (simp add: get_channel_def put_channel_def)

lemma disk_data_put_disk [simp]: "disk_data dk (put_disk dk md s) = md"
  by (simp add: disk_data_def put_disk_def)

lemma put_put_disk [simp]: "put_disk dk md (put_disk dk md' s) = put_disk dk md s"
  by (simp add: put_disk_def)

lemma put_disk_data [simp]: "put_disk dk (disk_data dk s) s = s"
  by (simp add: put_disk_def disk_data_def)

lemma busy_wait_fields [simp]:
  "busy_wait (ch\<lparr>media := m\<rparr>) = busy_wait ch" "busy_wait (cmd_out c ch) = busy_wait ch"
  "busy_wait (ch\<lparr>reg_cmd := x\<rparr>) = busy_wait ch"
  by (simp_all add: busy_wait_def cmd_out_def)

lemma ide_ready_put_disk [simp]:
  "ide_ready dk s \<Longrightarrow> (\<And>x. length (md x) = 512) \<Longrightarrow> ide_ready dk (put_disk dk md s)"
  by (simp add: ide_ready_def put_disk_def disk_data_def)

lemma ch_no_cases: "(c :: u8) \<le> 1 \<Longrightarrow> c = 0 \<or> c = 1"
  by (metis eq_iff not_le word_le_0_iff word_less_1)

lemma disk_wait_ready:
  assumes "irq_no ch = 0x2e + my_channel dk" "my_channel dk \<le> 1" "\<not> expecting_intr ch" "disk_done ch = 0"
    "drive_interrupts ch"
  shows "disk_wait dk (put_channel dk (ch\<lparr>expecting_intr := True\<rparr>) s) = Some (put_channel dk ch s)"
proof -
  have "ch\<lparr>expecting_intr := False, disk_done := 0\<rparr> = ch" using assms(3,4) by (cases ch) simp
  then show ?thesis
    using ch_no_cases [OF assms(2)] assms(1,4,5)
    by (auto simp: disk_wait_def intr_hd_handler_def put_channel_def get_channel_def drive_interrupts_def)
qed

section \<open>Transfers\<close>

lemma sectors_0 [simp]: "sectors md lba 0 = []"
  by (simp add: sectors_def)

lemma sectors_1 [simp]: "sectors md lba (Suc 0) = md lba"
  by (simp add: sectors_def)

lemma sectors_add: "sectors md lba (a + b) = sectors md lba a @ sectors md (lba + of_nat a) b"
proof -
  have "[0..<a + b] = [0..<a] @ map (\<lambda>i. a + i) [0..<b]"
    using map_add_upt [of a b] by (simp add: upt_add_eq_append [of 0 a b] add.commute)
  then show ?thesis by (simp add: sectors_def comp_def add.assoc)
qed

lemma length_sectors: "(\<And>x. length (md x) = 512) \<Longrightarrow> length (sectors md lba n) = 512 * n"
  by (simp add: sectors_def length_concat comp_def sum_list_triv)

lemma sectors_cong: "(\<And>i. i < n \<Longrightarrow> md (lba + of_nat i) = md' (lba + of_nat i)) \<Longrightarrow> sectors md lba n = sectors md' lba n"
  unfolding sectors_def by (rule arg_cong [of _ _ concat]) (auto intro: map_cong)

lemma put_sectors_0 [simp]: "put_sectors lba 0 data md = md"
  by (simp add: put_sectors_def)

lemma put_sectors_1: "length data = 512 \<Longrightarrow> put_sectors lba (Suc 0) data md = md(lba := data)"
  by (auto simp: put_sectors_def fun_eq_iff unat_eq_0)

lemma put_sectors_add:
  assumes "a + b \<le> 2 ^ 31"
  shows "put_sectors (lba + of_nat a) b (drop (512 * a) data) (put_sectors lba a (take (512 * a) data) md) =
    put_sectors lba (a + b) data md"
proof
  fix x
  define k where "k = unat (x - lba)"
  have k: "unat (x - (lba + of_nat a)) = (if a \<le> k then k - a else k + 2 ^ 32 - a)"
  proof -
    have "x - (lba + of_nat a) = (x - lba) - of_nat a" by (simp add: diff_diff_eq)
    moreover have "unat (of_nat a :: u32) = a" using assms by (intro unat_of_nat_lt) simp
    ultimately have "unat (x - (lba + of_nat a)) =
        (if a \<le> unat (x - lba) then unat (x - lba) - a else unat (x - lba) + 2 ^ LENGTH(32) - a)"
      by (simp only: unat_sub_if')
    then show ?thesis unfolding k_def by simp
  qed
  show "put_sectors (lba + of_nat a) b (drop (512 * a) data) (put_sectors lba a (take (512 * a) data) md) x =
      put_sectors lba (a + b) data md x"
  proof (cases "k < a")
    case True
    have "take 512 (drop (512 * k) (take (512 * a) data)) = take 512 (drop (512 * k) data)"
      using True by (simp add: drop_take min_def)
    with True k assms show ?thesis by (simp add: put_sectors_def k_def [symmetric])
  next
    case False
    then have "512 * (k - a) + 512 * a = 512 * k" by (simp flip: distrib_left)
    with False k show ?thesis by (auto simp: put_sectors_def k_def [symmetric])
  qed
qed

lemma put_sectors_length:
  assumes "\<And>x. length (md x) = 512" "512 * n \<le> length data"
  shows "length (put_sectors lba n data md x) = 512"
  using assms by (auto simp: put_sectors_def not_less)

text \<open>One command moves between 1 and 256 sectors and brings the loop nearer to its end.\<close>

lemma secs_op_cases:
  assumes "secs_done < sec_cnt" "unat sec_cnt < 2 ^ 31"
  obtains k where "secs_op secs_done sec_cnt = of_nat k" "0 < k" "k \<le> 256"
    "unat secs_done + k \<le> unat sec_cnt" "unat (secs_done + of_nat k) = unat secs_done + k"
    "(if (ucast (of_nat k :: u32) :: u8) = 0 then 256 else unat (ucast (of_nat k :: u32) :: u8)) = k"
proof -
  define k where "k = (if unat secs_done + 256 \<le> unat sec_cnt then 256 else unat sec_cnt - unat secs_done)"
  have lt: "unat secs_done < unat sec_cnt" using assms(1) by (simp add: word_less_nat_alt)
  have "unat (secs_done + 256) = unat secs_done + 256" using lt assms(2) by (subst unat_plus_lt) simp_all
  then have op: "secs_op secs_done sec_cnt = of_nat k"
    using assms(1) by (auto simp: secs_op_def k_def word_le_nat_alt word_unat_eq_iff unat_minus_le
        order.strict_implies_order of_nat_diff lt less_imp_le)
  have k: "0 < k" "k \<le> 256" "unat secs_done + k \<le> unat sec_cnt" using lt by (auto simp: k_def)
  have small: "unat (of_nat k :: u32) = k" using k(2) by (intro unat_of_nat_lt) simp
  then have sum: "unat (secs_done + of_nat k) = unat secs_done + k"
    using k(3) assms(2) by (subst unat_plus_lt) simp_all
  have uc: "unat (ucast (of_nat k :: u32) :: u8) = k mod 256"
    by (simp add: unsigned_ucast_eq small take_bit_eq_mod)
  have "(if (ucast (of_nat k :: u32) :: u8) = 0 then 256 else unat (ucast (of_nat k :: u32) :: u8)) = k"
    using k uc by (cases "k = 256") (auto simp: unat_eq_0 [symmetric])
  then show thesis using that [OF op k sum] by simp
qed

lemma secs_left_less:
  fixes d n :: u32
  shows "0 < k \<Longrightarrow> unat d + k \<le> unat n \<Longrightarrow> unat (d + of_nat k) = unat d + k \<Longrightarrow>
    unat n - unat (d + of_nat k) < unat n - unat d"
  by simp

lemma lba_in_range:
  fixes lba d n :: u32
  assumes "unat lba + unat n \<le> 163840" "d < n"
  shows "lba + d \<le> max_lba"
proof -
  have "unat d < unat n" using assms(2) by (simp add: word_less_nat_alt)
  then have "unat (lba + d) = unat lba + unat d" using assms(1) by (subst unat_plus_lt) simp_all
  then show ?thesis using assms(1) \<open>unat d < unat n\<close> by (simp add: max_lba_eq word_le_nat_alt)
qed

lemma select_sector_returns:
  "lba \<le> max_lba \<Longrightarrow> \<exists>r'. select_sector dk lba n r = Some r'"
  by (simp add: select_sector_def)

lemma cmd_cycle:
  assumes "ide_ready dk s" "cmd \<noteq> CMD_WRITE_SECTOR"
  shows "disk_wait dk (put_channel dk (cmd_out cmd (get_channel dk s)) s) =
    Some (put_channel dk ((get_channel dk s)\<lparr>reg_cmd := Some cmd\<rparr>) s)"
proof -
  have e: "cmd_out cmd (get_channel dk s) = (get_channel dk s)\<lparr>reg_cmd := Some cmd\<rparr>\<lparr>expecting_intr := True\<rparr>"
    by (simp add: cmd_out_def)
  show ?thesis
    unfolding e by (rule disk_wait_ready) (use assms in \<open>simp_all add: ide_ready_def drive_interrupts_def\<close>)
qed

lemma idle_again:
  assumes "ide_ready dk s"
  shows "put_channel dk ((get_channel dk s)\<lparr>reg_cmd := Some c, reg_cmd := None\<rparr>) s = s"
proof -
  have "(get_channel dk s)\<lparr>reg_cmd := None\<rparr> = get_channel dk s"
    using assms by (cases "get_channel dk s") (simp add: ide_ready_def)
  then show ?thesis by simp
qed

lemma ide_read_loop_ok:
  assumes "ide_ready dk s" "unat lba + unat n \<le> 163840" "d \<le> n"
  shows "ide_read_loop dk lba n d r buf s =
    Some (buf @ sectors (disk_data dk s) (lba + d) (unat n - unat d), s)"
  using assms(3)
proof (induction "unat n - unat d" arbitrary: d r buf rule: less_induct)
  case less
  show ?case
  proof (cases "d < n")
    case True
    have n31: "unat n < 2 ^ 31" using assms(2) by simp
    obtain k where k: "secs_op d n = of_nat k" "0 < k" "k \<le> 256" "unat d + k \<le> unat n"
        "unat (d + of_nat k) = unat d + k"
        "(if (ucast (of_nat k :: u32) :: u8) = 0 then 256 else unat (ucast (of_nat k :: u32) :: u8)) = k"
      by (rule secs_op_cases [OF True n31]) (rule that)
    obtain r' where r': "select_sector dk (lba + d) (ucast (of_nat k :: u32)) r = Some r'"
      using select_sector_returns [OF lba_in_range [OF assms(2) True]] by blast
    note dec = select_sector_decodes [OF r']
    have len: "length (sectors (disk_data dk s) (lba + d) k) = 512 * k"
      using assms(1) by (intro length_sectors) (simp add: ide_ready_def)
    let ?c = "(get_channel dk s)\<lparr>reg_cmd := Some CMD_READ_SECTOR\<rparr>"
    have "size_in_byte (ucast (of_nat k :: u32)) = 512 * k" using k(6) by (auto simp: size_in_byte_def)
    then have rd: "read_from_sector r' ?c (ucast (of_nat k :: u32)) =
        Some (sectors (disk_data dk s) (lba + d) k, ?c\<lparr>reg_cmd := None\<rparr>)"
      using k(6) dec len by (simp add: read_from_sector_def drive_data_def disk_data_def get_at_def)
    have le: "d + of_nat k \<le> n" using k(4,5) by (simp add: word_le_nat_alt)
    have "busy_wait (get_channel dk s)" using assms(1) by (simp add: ide_ready_def)
    then have "ide_read_loop dk lba n d r buf s =
        ide_read_loop dk lba n (d + of_nat k) r' (buf @ sectors (disk_data dk s) (lba + d) k) s"
      using True k(1) r' cmd_cycle [OF assms(1), of CMD_READ_SECTOR] rd idle_again [OF assms(1)]
      by (subst ide_read_loop.simps) (simp add: Let_def CMD_READ_SECTOR_def CMD_WRITE_SECTOR_def)
    also have "\<dots> = Some (buf @ sectors (disk_data dk s) (lba + d) (unat n - unat d), s)"
      using less.hyps [OF secs_left_less [OF k(2,4,5)] le] k(4,5)
        sectors_add [of "disk_data dk s" "lba + d" k "unat n - unat d - k"]
      by (simp add: add.assoc)
    finally show ?thesis .
  next
    case False
    with less.prems show ?thesis by (subst ide_read_loop.simps) simp
  qed
qed

lemma ide_read_ok:
  assumes "ide_ready dk s" "unat lba + unat n \<le> 163840" "0 < n"
  shows "ide_read dk lba n s = Some (sectors (disk_data dk s) lba (unat n), s)"
  using ide_read_loop_ok [OF assms(1,2), of 0] lba_in_range [OF assms(2,3)] assms(3)
  by (simp add: ide_read_def)

lemma write2sector_ok:
  assumes "tf_slave r = disk_slave dk" "tf_lba r = lba" "tf_count r = k"
    "(if c = 0 then 256 else unat c) = k" "512 * k \<le> length buf" "reg_cmd ch = Some CMD_WRITE_SECTOR"
  shows "write2sector r ch buf c =
    Some (ch\<lparr>reg_cmd := None, media := (media ch)(disk_slave dk := put_sectors lba k (take (512 * k) buf) (media ch (disk_slave dk)))\<rparr>)"
proof -
  have "size_in_byte c = 512 * k" using assms(4) by (auto simp: size_in_byte_def)
  then show ?thesis using assms by (simp add: write2sector_def get_at_def)
qed

lemma ide_write_loop_ok:
  assumes "ide_ready dk s" "unat lba + unat n \<le> 163840" "d \<le> n" "512 * unat n \<le> length buf"
  shows "ide_write_loop dk lba n d r buf s =
    Some (put_disk dk (put_sectors (lba + d) (unat n - unat d) (drop (512 * unat d) buf) (disk_data dk s)) s)"
  using assms(1,3)
proof (induction "unat n - unat d" arbitrary: d r s rule: less_induct)
  case less
  show ?case
  proof (cases "d < n")
    case True
    have n31: "unat n < 2 ^ 31" using assms(2) by simp
    obtain k where k: "secs_op d n = of_nat k" "0 < k" "k \<le> 256" "unat d + k \<le> unat n"
        "unat (d + of_nat k) = unat d + k"
        "(if (ucast (of_nat k :: u32) :: u8) = 0 then 256 else unat (ucast (of_nat k :: u32) :: u8)) = k"
      by (rule secs_op_cases [OF True n31]) (rule that)
    obtain r' where r': "select_sector dk (lba + d) (ucast (of_nat k :: u32)) r = Some r'"
      using select_sector_returns [OF lba_in_range [OF assms(2) True]] by blast
    define md where "md = put_sectors (lba + d) k (take (512 * k) (drop (512 * unat d) buf)) (disk_data dk s)"
    have off: "unat (d * 512) = 512 * unat d"
    proof -
      have "unat d * 512 < 2 ^ 32" using True assms(2) by (simp add: word_less_nat_alt)
      then show ?thesis by (simp add: unat_word_ariths)
    qed
    let ?c = "cmd_out CMD_WRITE_SECTOR (get_channel dk s)"
    let ?d = "(get_channel dk s)\<lparr>media := (media (get_channel dk s))(disk_slave dk := md)\<rparr>"
    have idle: "(get_channel dk s)\<lparr>reg_cmd := None\<rparr> = get_channel dk s"
      using less.prems(1) by (cases "get_channel dk s") (simp add: ide_ready_def)
    have wr: "write2sector r' ?c (drop (512 * unat d) buf) (ucast (of_nat k :: u32)) = Some (?d\<lparr>expecting_intr := True\<rparr>)"
    proof -
      have "512 * (unat d + k) \<le> length buf" by (rule order_trans [OF mult_le_mono2 [OF k(4)] assms(4)])
      then have "512 * k \<le> length (drop (512 * unat d) buf)" by simp
      then have "write2sector r' ?c (drop (512 * unat d) buf) (ucast (of_nat k :: u32)) =
          Some (?c\<lparr>reg_cmd := None, media := (media ?c)(disk_slave dk := put_sectors (lba + d) k
            (take (512 * k) (drop (512 * unat d) buf)) (media ?c (disk_slave dk)))\<rparr>)"
        using select_sector_decodes [OF r'] k(6) by (intro write2sector_ok) (auto simp: cmd_out_def)
      also have "\<dots> = Some ((get_channel dk s)\<lparr>reg_cmd := None\<rparr>\<lparr>media := (media (get_channel dk s))(disk_slave dk := md),
          expecting_intr := True\<rparr>)"
        by (simp add: cmd_out_def md_def disk_data_def)
      finally show ?thesis unfolding idle .
    qed
    have len: "length (md x) = 512" for x
    proof -
      have "512 * (unat d + k) \<le> length buf" by (rule order_trans [OF mult_le_mono2 [OF k(4)] assms(4)])
      then show ?thesis unfolding md_def
        using less.prems(1) by (intro put_sectors_length) (simp_all add: ide_ready_def)
    qed
    have ready: "ide_ready dk (put_disk dk md s)" using less.prems(1) len by simp
    have wait: "disk_wait dk (put_channel dk (?d\<lparr>expecting_intr := True\<rparr>) s) = Some (put_disk dk md s)"
      using less.prems(1) unfolding put_disk_def by (intro disk_wait_ready) (simp_all add: ide_ready_def drive_interrupts_def)
    have le: "d + of_nat k \<le> n" using k(4,5) by (simp add: word_le_nat_alt)
    have "busy_wait ?c" using less.prems(1) by (simp add: ide_ready_def)
    then have "ide_write_loop dk lba n d r buf s =
        ide_write_loop dk lba n (d + of_nat k) r' buf (put_disk dk md s)"
      using True k(1) r' wr wait by (subst ide_write_loop.simps) (simp add: Let_def off)
    also have "\<dots> = Some (put_disk dk (put_sectors (lba + d) (unat n - unat d)
        (drop (512 * unat d) buf) (disk_data dk s)) s)"
    proof -
      have "put_sectors (lba + d + of_nat k) (unat n - unat d - k)
          (drop (512 * k) (drop (512 * unat d) buf)) md =
        put_sectors (lba + d) (k + (unat n - unat d - k)) (drop (512 * unat d) buf) (disk_data dk s)"
        unfolding md_def using n31 k(4) by (intro put_sectors_add) simp
      moreover have "k + (unat n - unat d - k) = unat n - unat d" using k(4) by simp
      moreover have "512 * k + 512 * unat d = 512 * unat (d + of_nat k)" using k(5) by simp
      moreover have "unat n - unat d - k = unat n - unat (d + of_nat k)" using k(5) by simp
      ultimately show ?thesis
        using less.hyps [OF secs_left_less [OF k(2,4,5)] ready le] by (simp only: drop_drop
            disk_data_put_disk put_put_disk add.assoc)
    qed
    finally show ?thesis .
  next
    case False
    with less.prems show ?thesis by (subst ide_write_loop.simps) simp
  qed
qed

lemma ide_write_ok:
  assumes "ide_ready dk s" "unat lba + unat n \<le> 163840" "0 < n" "512 * unat n \<le> length buf"
  shows "ide_write dk lba buf n s =
    Some (put_disk dk (put_sectors lba (unat n) buf (disk_data dk s)) s)"
  using ide_write_loop_ok [OF assms(1,2) _ assms(4), of 0] lba_in_range [OF assms(2,3)] assms(3)
  by (simp add: ide_write_def)

section \<open>A block device\<close>

text \<open>The contract the file system relies on: reads return the addressed sectors and change nothing,
  writes replace the addressed sectors and nothing else.\<close>

lemma take_chunks: "512 * n \<le> length buf \<Longrightarrow>
    concat (map (\<lambda>i. take 512 (drop (512 * i) buf)) [0..<n]) = take (512 * n) buf"
proof (induction n)
  case (Suc n)
  then have "512 * n \<le> length buf" by simp
  with Suc.IH show ?case by (simp add: take_add add.commute [of 512])
qed simp

lemma unat_lba_diff: "i < 2 ^ 31 \<Longrightarrow> unat (lba + of_nat i - lba :: u32) = i"
  by (simp add: unat_of_nat_lt)

lemma sectors_put_same:
  assumes "512 * n \<le> length buf" "n \<le> 2 ^ 31"
  shows "sectors (put_sectors lba n buf md) lba n = take (512 * n) buf"
proof -
  have "sectors (put_sectors lba n buf md) lba n = concat (map (\<lambda>i. take 512 (drop (512 * i) buf)) [0..<n])"
    unfolding sectors_def put_sectors_def
    by (rule arg_cong [of _ _ concat], rule map_cong) (use assms(2) in \<open>simp_all add: unat_of_nat_lt\<close>)
  then show ?thesis using take_chunks [OF assms(1)] by simp
qed

lemma sectors_put_other:
  assumes "unat lba + n \<le> 2 ^ 31" "unat lba' + m \<le> 2 ^ 31" "unat lba + n \<le> unat lba' \<or> unat lba' + m \<le> unat lba"
  shows "sectors (put_sectors lba n buf md) lba' m = sectors md lba' m"
proof (rule sectors_cong)
  fix i assume i: "i < m"
  have u: "unat (lba' + of_nat i) = unat lba' + i"
    using i assms(2) by (subst unat_plus_lt) (simp_all add: unat_of_nat_lt)
  have "n \<le> unat (lba' + of_nat i - lba)"
    using u i assms by (auto simp: unat_sub_if')
  then show "put_sectors lba n buf md (lba' + of_nat i) = md (lba' + of_nat i)"
    by (simp add: put_sectors_def)
qed

locale block_device =
  fixes rd :: "u32 \<Rightarrow> u32 \<Rightarrow> 's \<Rightarrow> (u8 list \<times> 's) option"
    and wr :: "u32 \<Rightarrow> u8 list \<Rightarrow> u32 \<Rightarrow> 's \<Rightarrow> 's option"
    and content :: "'s \<Rightarrow> u32 \<Rightarrow> u8 list"
    and ready :: "'s \<Rightarrow> bool"
    and cap :: nat
  assumes rd_sectors: "ready s \<Longrightarrow> unat lba + unat n \<le> cap \<Longrightarrow> 0 < n \<Longrightarrow>
      rd lba n s = Some (sectors (content s) lba (unat n), s)"
    and wr_sectors: "ready s \<Longrightarrow> unat lba + unat n \<le> cap \<Longrightarrow> 0 < n \<Longrightarrow> 512 * unat n \<le> length buf \<Longrightarrow>
      \<exists>s'. wr lba buf n s = Some s' \<and> content s' = put_sectors lba (unat n) buf (content s) \<and> ready s'"
    and cap_small: "cap \<le> 2 ^ 31"
begin

lemma read_after_write:
  assumes "ready s" "unat lba + unat n \<le> cap" "0 < n" "512 * unat n \<le> length buf" "wr lba buf n s = Some s'"
  shows "rd lba n s' = Some (take (512 * unat n) buf, s')"
proof -
  from wr_sectors [OF assms(1-4)] assms(5) have c: "content s' = put_sectors lba (unat n) buf (content s)" "ready s'"
    by auto
  have "unat n \<le> 2 ^ 31" using assms(2) cap_small by linarith
  with rd_sectors [OF c(2) assms(2,3)] sectors_put_same [OF assms(4)] show ?thesis by (simp add: c(1))
qed

lemma read_elsewhere:
  assumes "ready s" "unat lba + unat n \<le> cap" "0 < n" "512 * unat n \<le> length buf" "wr lba buf n s = Some s'"
    "unat lba' + unat m \<le> cap" "0 < m" "unat lba + unat n \<le> unat lba' \<or> unat lba' + unat m \<le> unat lba"
  shows "rd lba' m s' = Some (sectors (content s) lba' (unat m), s')"
proof -
  from wr_sectors [OF assms(1-4)] assms(5) have c: "content s' = put_sectors lba (unat n) buf (content s)" "ready s'"
    by auto
  have "unat lba + unat n \<le> 2 ^ 31" "unat lba' + unat m \<le> 2 ^ 31"
    using assms(2,6) cap_small by linarith+
  from sectors_put_other [OF this assms(8)] rd_sectors [OF c(2) assms(6,7)] show ?thesis by (simp add: c(1))
qed

end

interpretation bd: block_device "ide_read dk" "ide_write dk" "disk_data dk" "ide_ready dk" 163840
  for dk :: disk
proof unfold_locales
  fix s :: "'a ide_scheme" and lba n :: u32 and buf :: "u8 list"
  assume a: "ide_ready dk s" "unat lba + unat n \<le> 163840" "0 < n"
  show "ide_read dk lba n s = Some (sectors (disk_data dk s) lba (unat n), s)" by (rule ide_read_ok [OF a])
  assume b: "512 * unat n \<le> length buf"
  have "ide_ready dk (put_disk dk (put_sectors lba (unat n) buf (disk_data dk s)) s)"
    using a(1) b by (intro ide_ready_put_disk put_sectors_length) (simp_all add: ide_ready_def)
  with ide_write_ok [OF a b]
  show "\<exists>s'. ide_write dk lba buf n s = Some s' \<and>
      disk_data dk s' = put_sectors lba (unat n) buf (disk_data dk s) \<and> ide_ready dk s'"
    by simp
qed simp

section \<open>Partition tables\<close>

text \<open>The structures read from the boot sector: \<open>part_entry buf i\<close> is entry \<open>i\<close> of the table at
  byte 446, of which the code uses the type and the two 32-bit fields.\<close>

record partition_table_entry =
  fs_type :: u8
  e_start_lba :: u32
  e_sec_cnt :: u32

definition part_entry :: "u8 list \<Rightarrow> nat \<Rightarrow> partition_table_entry" where
  "part_entry bs i =
     (let p = drop (446 + 16 * i) bs
      in \<lparr>fs_type = p ! 4, e_start_lba = bytes_word (drop 8 p), e_sec_cnt = bytes_word (drop 12 p)\<rparr>)"

record partition =
  start_lba :: u32
  sec_cnt :: u32
  my_disk :: disk
  part_name :: "u8 list"

text \<open>The variables of a scan: \<^verbatim>\<open>ext_lba_base\<close>, \<^verbatim>\<open>p_no\<close>, \<^verbatim>\<open>l_no\<close>, the partitions recorded so far
  in the two arrays of the disk, and the partitions appended to \<^verbatim>\<open>partition_list\<close>.\<close>

record scan =
  ext_lba_base :: u32
  p_no :: u8
  l_no :: u8
  prim_parts :: "(u8 \<times> partition) list"
  logic_parts :: "(u8 \<times> partition) list"
  partition_list :: "partition list"

text \<open>\<^verbatim>\<open>sprintf(name, "%s%d", hd->name, n)\<close> for the one-digit and two-digit numbers of the scan.\<close>

definition numbered_name :: "u8 list \<Rightarrow> u8 \<Rightarrow> u8 list" where
  "numbered_name nm n =
     nm @ (if n < 10 then [n + 0x30] else [n div 10 + 0x30, n mod 10 + 0x30])"

text \<open>One call of \<^verbatim>\<open>partition_scan\<close> reads a sector and walks its four entries; an extended entry
  starts a nested call. The nesting depth is bounded by fuel: a chain of extended partitions that
  leads back to itself would nest for ever. Recording a ninth logical partition would write past
  \<^verbatim>\<open>logic_parts[8]\<close> and has no result.\<close>

fun partition_scan :: "nat \<Rightarrow> disk \<Rightarrow> u8 list \<Rightarrow> u32 \<Rightarrow> 'a ide_scheme \<Rightarrow> scan \<Rightarrow> scan option"
and scan_entries :: "nat \<Rightarrow> disk \<Rightarrow> u8 list \<Rightarrow> u32 \<Rightarrow> partition_table_entry list \<Rightarrow> 'a ide_scheme \<Rightarrow>
    scan \<Rightarrow> scan option"
where
  "partition_scan 0 dk nm ext_lba s c = None"
| "partition_scan (Suc f) dk nm ext_lba s c =
     do { (bs, s) \<leftarrow> ide_read dk ext_lba 1 s;
          scan_entries f dk nm ext_lba (map (part_entry bs) [0..<4]) s c }"
| "scan_entries f dk nm ext_lba [] s c = Some c"
| "scan_entries f dk nm ext_lba (p # ps) s c =
     (if fs_type p = 5
      then do { c \<leftarrow> (if ext_lba_base c \<noteq> 0
                       then partition_scan f dk nm (e_start_lba p + ext_lba_base c) s c
                       else partition_scan f dk nm (e_start_lba p) s (c\<lparr>ext_lba_base := e_start_lba p\<rparr>));
                scan_entries f dk nm ext_lba ps s c }
      else if fs_type p \<noteq> 0
      then if ext_lba = 0
           then do { let part = \<lparr>start_lba = ext_lba + e_start_lba p, sec_cnt = e_sec_cnt p, my_disk = dk,
                                 part_name = numbered_name nm (p_no c + 1)\<rparr>;
                     let c = c\<lparr>prim_parts := prim_parts c @ [(p_no c, part)],
                               partition_list := partition_list c @ [part], p_no := p_no c + 1\<rparr>;
                     ASSERT (p_no c < 4);
                     scan_entries f dk nm ext_lba ps s c }
           else do { let part = \<lparr>start_lba = ext_lba + e_start_lba p, sec_cnt = e_sec_cnt p, my_disk = dk,
                                 part_name = numbered_name nm (l_no c + 5)\<rparr>;
                     ASSERT (l_no c < 8);
                     let c = c\<lparr>logic_parts := logic_parts c @ [(l_no c, part)],
                               partition_list := partition_list c @ [part], l_no := l_no c + 1\<rparr>;
                     if l_no c \<ge> 8 then Some c else scan_entries f dk nm ext_lba ps s c }
      else scan_entries f dk nm ext_lba ps s c)"

section \<open>Initialisation\<close>

text \<open>\<^verbatim>\<open>swap_pairs_bytes\<close> on the bytes from \<^verbatim>\<open>dst\<close>; the result ends with the NUL byte. The source is
  called with lengths 20 and 40, where the 8-bit loop variable does not wrap.\<close>

fun swap_pairs_bytes :: "u8 list \<Rightarrow> nat \<Rightarrow> u8 list option" where
  "swap_pairs_bytes dst 0 = Some [0]"
| "swap_pairs_bytes (a # b # dst) (Suc n) =
     do { bs \<leftarrow> swap_pairs_bytes dst (n - 1); Some (b # a # bs) }"
| "swap_pairs_bytes _ (Suc n) = None"

definition identify_disk :: "disk \<Rightarrow> 'a ide_scheme \<Rightarrow> ((u8 list \<times> u8 list \<times> u32) \<times> 'a ide_scheme) option" where
  "identify_disk dk s =
     do { let r = select_disk dk taskfile0;
          let s = put_channel dk (cmd_out CMD_IDENTIFY (get_channel dk s)) s;
          s \<leftarrow> disk_wait dk s;
          ASSERT (busy_wait (get_channel dk s));
          (id_info, ch) \<leftarrow> read_from_sector r (get_channel dk s) 1;
          let s = put_channel dk ch s;
          sn \<leftarrow> swap_pairs_bytes (drop (10 * 2) id_info) 20;
          md \<leftarrow> swap_pairs_bytes (drop (27 * 2) id_info) 40;
          let sectors = bytes_word (drop (60 * 2) id_info);
          Some ((sn, md, sectors), s) }"

definition disk_name :: "u8 \<Rightarrow> u8 \<Rightarrow> u8 list" where
  "disk_name channel_no dev = [0x73, 0x64, 0x61 + channel_no * 2 + dev]"

definition init_channel :: "u8 \<Rightarrow> 'a ide_scheme \<Rightarrow> 'a ide_scheme" where
  "init_channel channel_no s =
     s\<lparr>channels := (channels s)(channel_no := (channels s channel_no)
       \<lparr>port_base := (if channel_no = 0 then 0x1f0 else 0x170),
        irq_no := (if channel_no = 0 then 0x20 + 14 else 0x20 + 15),
        expecting_intr := False, disk_done := 0\<rparr>)\<rparr>"

text \<open>The two drives of a channel: each is identified, and the second one is scanned. The numbers
  \<^verbatim>\<open>p_no\<close> and \<^verbatim>\<open>l_no\<close> start again for every drive, \<^verbatim>\<open>ext_lba_base\<close> does not. The array
  entries of a drive are its own, so the two arrays of the scan state are emptied.\<close>

fun init_drives :: "nat \<Rightarrow> u8 \<Rightarrow> u8 list \<Rightarrow> scan \<Rightarrow> 'a ide_scheme \<Rightarrow> (scan \<times> 'a ide_scheme) option" where
  "init_drives f channel_no [] c s = Some (c, s)"
| "init_drives f channel_no (dev # devs) c s =
     do { let dk = \<lparr>my_channel = channel_no, dev_no = dev\<rparr>;
          (_, s) \<leftarrow> identify_disk dk s;
          c \<leftarrow> (if dev \<noteq> 0 then partition_scan f dk (disk_name channel_no dev) 0 s c else Some c);
          init_drives f channel_no devs (c\<lparr>p_no := 0, l_no := 0, prim_parts := [], logic_parts := []\<rparr>) s }"

fun init_channels :: "nat \<Rightarrow> nat list \<Rightarrow> scan \<Rightarrow> 'a ide_scheme \<Rightarrow> (scan \<times> 'a ide_scheme) option" where
  "init_channels f [] c s = Some (c, s)"
| "init_channels f (n # ns) c s =
     do { ASSERT (n < 2);
          (c, s) \<leftarrow> init_drives f (of_nat n) [0, 1] c (init_channel (of_nat n) s);
          init_channels f ns c s }"

definition ide_init :: "nat \<Rightarrow> u8 \<Rightarrow> 'a ide_scheme \<Rightarrow> (scan \<times> 'a ide_scheme) option" where
  "ide_init f hd_cnt s =
     do { ASSERT (hd_cnt > 0);
          let channel_cnt = unat (DIV_ROUND_UP (ucast hd_cnt) 2);
          init_channels f [0..<channel_cnt]
            \<lparr>ext_lba_base = 0, p_no = 0, l_no = 0, prim_parts = [], logic_parts = [], partition_list = []\<rparr> s }"

lemma busy_wait_loop_iff:
  "busy_wait_loop st i n \<longleftrightarrow>
     (\<exists>k. Suc k < n \<and> (\<forall>j < k. st (i + j) AND BIT_STAT_BSY \<noteq> 0) \<and> st (i + k) AND BIT_STAT_BSY = 0 \<and>
          st (Suc (i + k)) AND BIT_STAT_DRQ \<noteq> 0)" (is "_ \<longleftrightarrow> (\<exists>k. ?P i n k)")
proof (induction n arbitrary: i)
  case (Suc n)
  show ?case
  proof (cases "n = 0 \<or> st i AND BIT_STAT_BSY = 0")
    case True
    then have "(\<exists>k. ?P i (Suc n) k) \<longleftrightarrow> n \<noteq> 0 \<and> st (Suc i) AND BIT_STAT_DRQ \<noteq> 0"
      by (auto intro: exI [of _ 0]) (metis add.right_neutral gr0I)
    with True show ?thesis by auto
  next
    case False
    have "(\<exists>k. ?P i (Suc n) k) \<longleftrightarrow> (\<exists>k. ?P (Suc i) n k)"
    proof
      assume "\<exists>k. ?P i (Suc n) k"
      then obtain k where k: "?P i (Suc n) k" by blast
      with False have "k \<noteq> 0" by (auto intro: gr0I)
      then obtain k' where "k = Suc k'" by (cases k) auto
      with k have "?P (Suc i) n k'" by (auto dest: spec [of _ "Suc _"])
      then show "\<exists>k. ?P (Suc i) n k" ..
    next
      assume "\<exists>k. ?P (Suc i) n k"
      then obtain k where k: "?P (Suc i) n k" by blast
      have "st (i + j) AND BIT_STAT_BSY \<noteq> 0" if "j < Suc k" for j
        using that k False by (cases j) auto
      with k have "?P i (Suc n) (Suc k)" by auto
      then show "\<exists>k. ?P i (Suc n) k" ..
    qed
    with False Suc.IH show ?thesis by auto
  qed
qed simp

section \<open>Properties\<close>

text \<open>A machine with one idle channel whose drives hold zero bytes and answer at once.\<close>

definition ide0 :: ide where
  "ide0 = \<lparr>channels = \<lambda>c. \<lparr>port_base = 0x1f0, irq_no = 0x2e + c, expecting_intr = False, disk_done = 0,
     reg_status = \<lambda>_. 0x48, reg_cmd = None, media = \<lambda>_ _. replicate 512 0, identity = \<lambda>_. replicate 512 0\<rparr>\<rparr>"

definition hd0 :: disk where "hd0 = \<lparr>my_channel = 0, dev_no = 1\<rparr>"

lemma busy_wait_at_once:
  assumes "reg_status ch 0 AND BIT_STAT_BSY = 0" "reg_status ch 1 AND BIT_STAT_DRQ \<noteq> 0"
  shows "busy_wait ch"
  unfolding busy_wait_def busy_wait_loop_iff by (rule exI [of _ 0]) (use assms in simp)

lemma ide0_ready: "ide_ready hd0 ide0"
  by (simp add: ide_ready_def ide0_def hd0_def get_channel_def disk_data_def busy_wait_at_once
      BIT_STAT_BSY_def BIT_STAT_DRQ_def)

text \<open>Property C18: a transfer of \<open>n\<close> sectors, done as commands of at most 256 sectors with the count
  and the address in 8-bit registers, reads and writes exactly the \<open>n\<close> addressed sectors of the
  addressed drive. The channel is left as it was found: the interrupt of every command has been
  taken.\<close>

theorem ide_transfer_exact:
  assumes "ide_ready dk s" "unat lba + unat n \<le> 163840" "0 < n" "512 * unat n \<le> length buf"
  shows "ide_read dk lba n s = Some (sectors (disk_data dk s) lba (unat n), s) \<and>
    ide_write dk lba buf n s = Some (put_disk dk (put_sectors lba (unat n) buf (disk_data dk s)) s)"
  by (rule conjI [OF ide_read_ok [OF assms(1-3)] ide_write_ok [OF assms]])

theorem ide_transfer_exact_witness:
  "ide_read hd0 5 600 ide0 = Some (sectors (disk_data hd0 ide0) 5 (unat (600 :: u32)), ide0) \<and>
   ide_write hd0 5 (replicate 307200 7) 600 ide0 =
     Some (put_disk hd0 (put_sectors 5 (unat (600 :: u32)) (replicate 307200 7) (disk_data hd0 ide0)) ide0)"
  using ide_transfer_exact [OF ide0_ready, of 5 600 "replicate 307200 7"] by simp

text \<open>Remark: what has been written is read back, and sectors that a write does not address
  keep their contents.\<close>

theorem ide_read_after_write:
  assumes "ide_ready dk s" "unat lba + unat n \<le> 163840" "0 < n" "512 * unat n \<le> length buf"
  shows "\<exists>s'. ide_write dk lba buf n s = Some s' \<and> ide_read dk lba n s' = Some (take (512 * unat n) buf, s') \<and>
    (\<forall>lba' m. unat lba' + unat m \<le> 163840 \<and> 0 < m \<and>
       (unat lba + unat n \<le> unat lba' \<or> unat lba' + unat m \<le> unat lba) \<longrightarrow>
       map_option fst (ide_read dk lba' m s') = map_option fst (ide_read dk lba' m s))"
proof -
  obtain s' where s': "ide_write dk lba buf n s = Some s'" using bd.wr_sectors [OF assms] by blast
  have "map_option fst (ide_read dk lba' m s') = map_option fst (ide_read dk lba' m s)"
    if "unat lba' + unat m \<le> 163840 \<and> 0 < m \<and> (unat lba + unat n \<le> unat lba' \<or> unat lba' + unat m \<le> unat lba)"
    for lba' m
    using that bd.read_elsewhere [OF assms s', of lba' m] bd.rd_sectors [OF assms(1), of lba' m] by simp
  with s' bd.read_after_write [OF assms s'] show ?thesis by blast
qed

theorem ide_read_after_write_witness:
  "\<exists>s'. ide_write hd0 9 (replicate 1024 3) 2 ide0 = Some s' \<and>
    ide_read hd0 9 2 s' = Some (take (512 * unat (2 :: u32)) (replicate 1024 3), s') \<and>
    (\<forall>lba' m. unat lba' + unat m \<le> 163840 \<and> 0 < m \<and>
       (unat (9 :: u32) + unat (2 :: u32) \<le> unat lba' \<or> unat lba' + unat m \<le> unat (9 :: u32)) \<longrightarrow>
       map_option fst (ide_read hd0 lba' m s') = map_option fst (ide_read hd0 lba' m ide0))"
  by (rule ide_read_after_write [OF ide0_ready]) simp_all

text \<open>Remark: \<^verbatim>\<open>busy_wait\<close> gives up after 29999 polls, each followed by a sleep of 10 ms: the
  comparison in \<^verbatim>\<open>time_limit -= 10 >= 0\<close> is the number subtracted, so the wait is ten times as long
  as the 30 seconds of the comment.\<close>

theorem busy_wait_polls:
  "busy_wait ch \<longleftrightarrow>
     (\<exists>k < 29999. (\<forall>j < k. reg_status ch j AND BIT_STAT_BSY \<noteq> 0) \<and> reg_status ch k AND BIT_STAT_BSY = 0 \<and>
        reg_status ch (Suc k) AND BIT_STAT_DRQ \<noteq> 0)"
  unfolding busy_wait_def busy_wait_loop_iff by (auto simp: less_Suc_eq_le)

text \<open>Remark: a boot sector with four primary partitions stops the kernel. The assertion
  \<^verbatim>\<open>p_no < 4\<close> stands after the increment, although the array has room for four.\<close>

theorem partition_scan_four_primaries:
  assumes "\<forall>p \<in> set ps. fs_type p \<noteq> 0 \<and> fs_type p \<noteq> 5" "length ps = 4" "p_no c = 0"
  shows "scan_entries f dk nm 0 ps s c = None"
proof -
  from assms(2) obtain a b d e where "ps = [a, b, d, e]"
    by (auto simp: eval_nat_numeral length_Suc_conv)
  with assms(1,3) show ?thesis by simp
qed

theorem partition_scan_four_primaries_witness:
  "scan_entries 1 hd0 [0x73] 0 (replicate 4 \<lparr>fs_type = 0x83, e_start_lba = 1, e_sec_cnt = 1\<rparr>) ide0
     \<lparr>ext_lba_base = 0, p_no = 0, l_no = 0, prim_parts = [], logic_parts = [], partition_list = []\<rparr> = None"
  by (rule partition_scan_four_primaries) simp_all

end
