(* ===== verification/Kinode.thy ===== *)
theory Kinode
  imports Kide Kbitmap
begin

text \<open>
  The state of the mounted file system, its bitmaps (the bitmap functions of \<^verbatim>\<open>src/fs/file.c\<close>) and
  its inodes (\<^verbatim>\<open>src/fs/inode.c\<close>, \<^verbatim>\<open>src/inc/inode.h\<close>, \<^verbatim>\<open>src/inc/super_block.h\<close>).

  The structures in kernel memory are typed stores: \<open>inodes s p\<close> is the \<^verbatim>\<open>struct inode\<close> at address
  \<open>p\<close> and \<open>open_inodes\<close> the queue of open inodes, front first. The code only ever passes
  \<^verbatim>\<open>cur_part\<close> as the partition, so the partition is part of the state. \<open>heap\<close> gives the
  addresses that \<^verbatim>\<open>sys_malloc\<close> returns in turn, 0 when it fails; what the heap guarantees of them is
  shown in \<open>Kmemory\<close>. A copy that leaves its buffer and an access through a null pointer
  have no result, like a failed assertion. Messages of \<^verbatim>\<open>printk\<close> are left out.

  The theory shows that inodes occupy disjoint slots of the inode table, that an inode written to the
  table is read back and leaves the other slots alone, that open counts are kept, and that releasing
  an inode frees its blocks and its number.
\<close>

section \<open>The mounted partition\<close>

record super_block =
  magic :: u32
  sb_sec_cnt :: u32
  inode_cnt :: u32
  part_lba_base :: u32
  block_bitmap_lba :: u32
  block_bitmap_sects :: u32
  inode_bitmap_lba :: u32
  inode_bitmap_sects :: u32
  inode_table_lba :: u32
  inode_table_sects :: u32
  data_start_lba :: u32
  root_inode_no :: u32
  dir_entry_size :: u32
  pad :: "u8 list"

record inode =
  i_no :: u32
  i_size :: u32
  i_open_cnts :: u32
  write_deny :: u32
  i_sectors :: "u32 list"

record dir =
  dir_inode :: u32
  dir_pos :: u32
  dir_buf :: "u8 list"

record file_rec =
  fd_pos :: u32
  fd_flag :: u32
  fd_inode :: u32

record fsys = ide +
  part :: partition
  sb :: super_block
  block_bitmap :: bitmap
  inode_bitmap :: bitmap
  open_inodes :: "u32 list"
  inodes :: "u32 \<Rightarrow> inode"
  dirs :: "u32 \<Rightarrow> dir"
  root_dir :: dir
  file_table :: "file_rec list"
  fd_table :: "u32 list"
  cwd_inode_nr :: u32
  heap :: "nat \<Rightarrow> u32"
  heap_cnt :: nat

definition heap_alloc :: "'a fsys_scheme \<Rightarrow> u32 \<times> 'a fsys_scheme" where
  "heap_alloc s = (heap s (heap_cnt s), s\<lparr>heap_cnt := Suc (heap_cnt s)\<rparr>)"

definition the_disk :: "'a fsys_scheme \<Rightarrow> disk" where
  "the_disk s = my_disk (part s)"

definition disk_read :: "u32 \<Rightarrow> u32 \<Rightarrow> 'a fsys_scheme \<Rightarrow> (u8 list \<times> 'a fsys_scheme) option" where
  "disk_read lba n s = ide_read (the_disk s) lba n s"

definition disk_write :: "u32 \<Rightarrow> u8 list \<Rightarrow> u32 \<Rightarrow> 'a fsys_scheme \<Rightarrow> 'a fsys_scheme option" where
  "disk_write lba buf n s = ide_write (the_disk s) lba buf n s"

section \<open>Bitmaps\<close>

datatype bitmap_type = INODE_BITMAP | BLOCK_BITMAP

definition inode_bitmap_alloc :: "'a fsys_scheme \<Rightarrow> (u32 \<times> 'a fsys_scheme) option" where
  "inode_bitmap_alloc s =
     do { bit_idx \<leftarrow> bitmap_scan (inode_bitmap s) 1;
          if bit_idx = -1 then Some (-1, s)
          else do { b \<leftarrow> bitmap_set (inode_bitmap s) bit_idx 1;
                    Some (bit_idx, s\<lparr>inode_bitmap := b\<rparr>) } }"

definition block_bitmap_alloc :: "'a fsys_scheme \<Rightarrow> (u32 \<times> 'a fsys_scheme) option" where
  "block_bitmap_alloc s =
     do { bit_idx \<leftarrow> bitmap_scan (block_bitmap s) 1;
          if bit_idx = -1 then Some (-1, s)
          else do { b \<leftarrow> bitmap_set (block_bitmap s) bit_idx 1;
                    Some (data_start_lba (sb s) + bit_idx, s\<lparr>block_bitmap := b\<rparr>) } }"

definition bitmap_sector :: "bitmap \<Rightarrow> u32 \<Rightarrow> u8 list" where
  "bitmap_sector b off_size = map (\<lambda>i. bits b (off_size + of_nat i)) [0..<512]"

definition bitmap_sync :: "u32 \<Rightarrow> bitmap_type \<Rightarrow> 'a fsys_scheme \<Rightarrow> 'a fsys_scheme option" where
  "bitmap_sync bit_idx btmp_type s =
     (let off_sec = bit_idx div 4096; off_size = off_sec * 512
      in case btmp_type of
           INODE_BITMAP \<Rightarrow> disk_write (inode_bitmap_lba (sb s) + off_sec) (bitmap_sector (inode_bitmap s) off_size) 1 s
         | BLOCK_BITMAP \<Rightarrow> disk_write (block_bitmap_lba (sb s) + off_sec) (bitmap_sector (block_bitmap s) off_size) 1 s)"

definition block_bitmap_free :: "u32 \<Rightarrow> 'a fsys_scheme \<Rightarrow> 'a fsys_scheme option" where
  "block_bitmap_free bit_idx s =
     do { b \<leftarrow> bitmap_set (block_bitmap s) bit_idx 0;
          bitmap_sync bit_idx BLOCK_BITMAP (s\<lparr>block_bitmap := b\<rparr>) }"

section \<open>Inodes\<close>

record inode_position =
  two_sec :: bool
  sec_lba :: u32
  off_size :: u32

definition sizeof_inode :: u32 where "sizeof_inode = 76"

definition inode_locate :: "u32 \<Rightarrow> 'a fsys_scheme \<Rightarrow> inode_position option" where
  "inode_locate inode_no s =
     do { ASSERT (inode_no < 4096);
          let off_size = inode_no * sizeof_inode;
          let off_sec = off_size div 512;
          let off_size_in_sec = off_size mod 512;
          let left_in_sec = 512 - off_size_in_sec;
          Some \<lparr>two_sec = (left_in_sec < sizeof_inode), sec_lba = inode_table_lba (sb s) + off_sec,
                off_size = off_size_in_sec\<rparr> }"

text \<open>The 19 words of the structure: four fields, thirteen sectors and the two pointers of the tag.\<close>

definition inode_bytes :: "inode \<Rightarrow> u8 list" where
  "inode_bytes i =
     words_bytes ([i_no i, i_size i, i_open_cnts i, write_deny i] @ i_sectors i @ [0, 0])"

definition bytes_inode :: "u8 list \<Rightarrow> inode" where
  "bytes_inode bs =
     (let ws = bytes_words bs
      in \<lparr>i_no = ws ! 0, i_size = ws ! 1, i_open_cnts = ws ! 2, write_deny = ws ! 3,
          i_sectors = take 13 (drop 4 ws)\<rparr>)"

definition upd_inode :: "u32 \<Rightarrow> (inode \<Rightarrow> inode) \<Rightarrow> 'a fsys_scheme \<Rightarrow> 'a fsys_scheme" where
  "upd_inode p f s = s\<lparr>inodes := (inodes s)(p := f (inodes s p))\<rparr>"

definition inode_open :: "u32 \<Rightarrow> 'a fsys_scheme \<Rightarrow> (u32 \<times> 'a fsys_scheme) option" where
  "inode_open inode_no s =
     (case find (\<lambda>p. i_no (inodes s p) = inode_no) (open_inodes s) of
        Some inode_found \<Rightarrow>
          Some (inode_found, upd_inode inode_found (\<lambda>i. i\<lparr>i_open_cnts := i_open_cnts i + 1\<rparr>) s)
      | None \<Rightarrow>
          do { inode_pos \<leftarrow> inode_locate inode_no s;
               let (inode_found, s) = heap_alloc s;
               let (inode_buf, s) = heap_alloc s;
               ASSERT (inode_found \<noteq> 0 \<and> inode_buf \<noteq> 0);
               (buf, s) \<leftarrow> disk_read (sec_lba inode_pos) (if two_sec inode_pos then 2 else 1) s;
               bs \<leftarrow> get_at (unat (off_size inode_pos)) 76 buf;
               let s = upd_inode inode_found (\<lambda>_. (bytes_inode bs)\<lparr>i_open_cnts := 1\<rparr>) s;
               Some (inode_found, s\<lparr>open_inodes := inode_found # open_inodes s\<rparr>) })"

text \<open>Read the sectors of a slot, replace its bytes and write the sectors back: the common part of
  \<^verbatim>\<open>inode_sync\<close> and \<^verbatim>\<open>inode_delete\<close>. \<open>io_len\<close> is the size of the buffer that the caller passes.\<close>

definition inode_store :: "nat \<Rightarrow> inode_position \<Rightarrow> u8 list \<Rightarrow> 'a fsys_scheme \<Rightarrow> 'a fsys_scheme option" where
  "inode_store io_len inode_pos bs s =
     do { let n = (if two_sec inode_pos then 2 else 1);
          ASSERT (512 * unat n \<le> io_len);
          (buf, s) \<leftarrow> disk_read (sec_lba inode_pos) n s;
          buf \<leftarrow> put_at (unat (off_size inode_pos)) bs buf;
          disk_write (sec_lba inode_pos) buf n s }"

text \<open>\<^verbatim>\<open>uint8_t inode_no = inode->i_no\<close> keeps the low eight bits of the number.\<close>

definition inode_sync :: "nat \<Rightarrow> inode \<Rightarrow> 'a fsys_scheme \<Rightarrow> 'a fsys_scheme option" where
  "inode_sync io_len inode s =
     do { let inode_no = ucast (ucast (i_no inode) :: u8);
          inode_pos \<leftarrow> inode_locate inode_no s;
          ASSERT (sec_lba inode_pos \<le> start_lba (part s) + sec_cnt (part s));
          let pure_inode = inode\<lparr>i_open_cnts := 0, write_deny := 0\<rparr>;
          inode_store io_len inode_pos (inode_bytes pure_inode) s }"

definition inode_close :: "u32 \<Rightarrow> 'a fsys_scheme \<Rightarrow> 'a fsys_scheme option" where
  "inode_close p s =
     do { let s = upd_inode p (\<lambda>i. i\<lparr>i_open_cnts := i_open_cnts i - 1\<rparr>) s;
          if i_open_cnts (inodes s p) = 0
          then do { ASSERT (p \<noteq> 0); Some (s\<lparr>open_inodes := remove1 p (open_inodes s)\<rparr>) }
          else Some s }"

definition inode_init :: "u32 \<Rightarrow> inode" where
  "inode_init inode_no =
     \<lparr>i_no = inode_no, i_size = 0, i_open_cnts = 0, write_deny = 0, i_sectors = replicate 13 0\<rparr>"

definition inode_delete :: "nat \<Rightarrow> u32 \<Rightarrow> 'a fsys_scheme \<Rightarrow> 'a fsys_scheme option" where
  "inode_delete io_len inode_no s =
     do { ASSERT (inode_no < 4096);
          inode_pos \<leftarrow> inode_locate inode_no s;
          ASSERT (sec_lba inode_pos \<le> start_lba (part s) + sec_cnt (part s));
          inode_store io_len inode_pos (replicate 76 0) s }"

fun release_blocks :: "u32 list \<Rightarrow> 'a fsys_scheme \<Rightarrow> 'a fsys_scheme option" where
  "release_blocks [] s = Some s"
| "release_blocks (lba # lbas) s =
     (if lba \<noteq> 0
      then do { let block_bitmap_idx = lba - data_start_lba (sb s);
                ASSERT (block_bitmap_idx > 0);
                s \<leftarrow> block_bitmap_free block_bitmap_idx s;
                release_blocks lbas s }
      else release_blocks lbas s)"

text \<open>The blocks of an inode; the block of its table of indirect blocks is freed on the way.\<close>

definition release_table :: "inode \<Rightarrow> 'a fsys_scheme \<Rightarrow> (u32 list \<times> 'a fsys_scheme) option" where
  "release_table inode_to_del s =
     (let direct = take 12 (i_sectors inode_to_del)
      in if i_sectors inode_to_del ! 12 \<noteq> 0
         then do { (buf, s) \<leftarrow> disk_read (i_sectors inode_to_del ! 12) 1 s;
                   let block_bitmap_idx = i_sectors inode_to_del ! 12 - data_start_lba (sb s);
                   ASSERT (block_bitmap_idx > 0);
                   s \<leftarrow> block_bitmap_free block_bitmap_idx s;
                   Some (direct @ bytes_words buf, s) }
         else Some (direct, s))"

text \<open>The end of \<^verbatim>\<open>inode_release\<close>: the inode's bit, its slot, and the reference held by the function.\<close>

definition release_number :: "u32 \<Rightarrow> u32 \<Rightarrow> 'a fsys_scheme \<Rightarrow> 'a fsys_scheme option" where
  "release_number inode_no p s =
     do { b \<leftarrow> bitmap_set (inode_bitmap s) inode_no 0;
          s \<leftarrow> bitmap_sync inode_no INODE_BITMAP (s\<lparr>inode_bitmap := b\<rparr>);
          let (io_buf, s) = heap_alloc s;
          ASSERT (io_buf \<noteq> 0);
          s \<leftarrow> inode_delete 1024 inode_no s;
          inode_close p s }"

definition inode_release :: "u32 \<Rightarrow> 'a fsys_scheme \<Rightarrow> 'a fsys_scheme option" where
  "inode_release inode_no s =
     do { (p, s) \<leftarrow> inode_open inode_no s;
          ASSERT (i_no (inodes s p) = inode_no);
          (all_blocks, s) \<leftarrow> release_table (inodes s p) s;
          s \<leftarrow> release_blocks all_blocks s;
          release_number inode_no p s }"

section \<open>Sectors of the mounted disk\<close>

definition data :: "'a fsys_scheme \<Rightarrow> u32 \<Rightarrow> u8 list" where
  "data s = disk_data (the_disk s) s"

definition wdata :: "(u32 \<Rightarrow> u8 list) \<Rightarrow> 'a fsys_scheme \<Rightarrow> 'a fsys_scheme" where
  "wdata md s = put_disk (the_disk s) md s"

definition fs_ready :: "'a fsys_scheme \<Rightarrow> bool" where
  "fs_ready s = ide_ready (the_disk s) s"

lemmas disk_defs = data_def wdata_def fs_ready_def the_disk_def disk_data_def put_disk_def put_channel_def
  get_channel_def ide_ready_def

lemma data_fields [simp]:
  "data (s\<lparr>sb := a\<rparr>) = data s" "data (s\<lparr>block_bitmap := b\<rparr>) = data s" "data (s\<lparr>inode_bitmap := b\<rparr>) = data s"
  "data (s\<lparr>open_inodes := c\<rparr>) = data s" "data (s\<lparr>inodes := d\<rparr>) = data s" "data (s\<lparr>dirs := e\<rparr>) = data s"
  "data (s\<lparr>root_dir := r\<rparr>) = data s" "data (s\<lparr>file_table := f\<rparr>) = data s" "data (s\<lparr>fd_table := g\<rparr>) = data s"
  "data (s\<lparr>cwd_inode_nr := h\<rparr>) = data s" "data (s\<lparr>heap_cnt := k\<rparr>) = data s"
  by (simp_all add: disk_defs)

lemma ready_fields [simp]:
  "fs_ready (s\<lparr>sb := a\<rparr>) = fs_ready s" "fs_ready (s\<lparr>block_bitmap := b\<rparr>) = fs_ready s"
  "fs_ready (s\<lparr>inode_bitmap := b\<rparr>) = fs_ready s" "fs_ready (s\<lparr>open_inodes := c\<rparr>) = fs_ready s"
  "fs_ready (s\<lparr>inodes := d\<rparr>) = fs_ready s" "fs_ready (s\<lparr>dirs := e\<rparr>) = fs_ready s"
  "fs_ready (s\<lparr>root_dir := r\<rparr>) = fs_ready s" "fs_ready (s\<lparr>file_table := f\<rparr>) = fs_ready s"
  "fs_ready (s\<lparr>fd_table := g\<rparr>) = fs_ready s" "fs_ready (s\<lparr>cwd_inode_nr := h\<rparr>) = fs_ready s"
  "fs_ready (s\<lparr>heap_cnt := k\<rparr>) = fs_ready s"
  by (simp_all add: disk_defs)

lemma fields_wdata [simp]:
  "part (wdata md s) = part s" "sb (wdata md s) = sb s" "block_bitmap (wdata md s) = block_bitmap s"
  "inode_bitmap (wdata md s) = inode_bitmap s" "open_inodes (wdata md s) = open_inodes s"
  "inodes (wdata md s) = inodes s" "dirs (wdata md s) = dirs s" "root_dir (wdata md s) = root_dir s"
  "file_table (wdata md s) = file_table s" "fd_table (wdata md s) = fd_table s"
  "cwd_inode_nr (wdata md s) = cwd_inode_nr s" "heap (wdata md s) = heap s" "heap_cnt (wdata md s) = heap_cnt s"
  "the_disk (wdata md s) = the_disk s"
  by (simp_all add: disk_defs)

text \<open>Updates of the disk move inside the updates of other fields.\<close>

lemma wdata_fields [simp]:
  "wdata md (s\<lparr>sb := a\<rparr>) = (wdata md s)\<lparr>sb := a\<rparr>" "wdata md (s\<lparr>block_bitmap := b\<rparr>) = (wdata md s)\<lparr>block_bitmap := b\<rparr>"
  "wdata md (s\<lparr>inode_bitmap := b\<rparr>) = (wdata md s)\<lparr>inode_bitmap := b\<rparr>"
  "wdata md (s\<lparr>open_inodes := c\<rparr>) = (wdata md s)\<lparr>open_inodes := c\<rparr>" "wdata md (s\<lparr>inodes := d\<rparr>) = (wdata md s)\<lparr>inodes := d\<rparr>"
  "wdata md (s\<lparr>dirs := e\<rparr>) = (wdata md s)\<lparr>dirs := e\<rparr>" "wdata md (s\<lparr>root_dir := r\<rparr>) = (wdata md s)\<lparr>root_dir := r\<rparr>"
  "wdata md (s\<lparr>file_table := f\<rparr>) = (wdata md s)\<lparr>file_table := f\<rparr>" "wdata md (s\<lparr>fd_table := g\<rparr>) = (wdata md s)\<lparr>fd_table := g\<rparr>"
  "wdata md (s\<lparr>cwd_inode_nr := h\<rparr>) = (wdata md s)\<lparr>cwd_inode_nr := h\<rparr>" "wdata md (s\<lparr>heap_cnt := k\<rparr>) = (wdata md s)\<lparr>heap_cnt := k\<rparr>"
  by (simp_all add: disk_defs)

lemma data_wdata [simp]: "data (wdata md s) = md"
  by (simp add: disk_defs)

lemma wdata_wdata [simp]: "wdata md (wdata md' s) = wdata md s"
  by (simp add: disk_defs)

lemma wdata_data [simp]: "wdata (data s) s = s"
  by (simp add: disk_defs)

lemma fs_ready_length [simp]: "fs_ready s \<Longrightarrow> length (data s lba) = 512"
  by (simp add: fs_ready_def ide_ready_def data_def)

lemma fs_ready_wdata [simp]: "fs_ready s \<Longrightarrow> (\<And>x. length (md x) = 512) \<Longrightarrow> fs_ready (wdata md s)"
  by (simp add: fs_ready_def wdata_def the_disk_def put_disk_def put_channel_def) (simp add: disk_defs)

lemma disk_read_ok:
  assumes "fs_ready s" "unat lba + unat n \<le> 163840" "0 < n"
  shows "disk_read lba n s = Some (sectors (data s) lba (unat n), s)"
  using ide_read_ok [OF assms [unfolded fs_ready_def]] by (simp add: disk_read_def data_def)

lemma disk_write_ok:
  assumes "fs_ready s" "unat lba + unat n \<le> 163840" "0 < n" "512 * unat n \<le> length buf"
  shows "disk_write lba buf n s = Some (wdata (put_sectors lba (unat n) buf (data s)) s)"
  using ide_write_ok [OF assms [unfolded fs_ready_def]] by (simp add: disk_write_def data_def wdata_def)

lemma disk_read_1: "fs_ready s \<Longrightarrow> unat lba < 163840 \<Longrightarrow> disk_read lba 1 s = Some (data s lba, s)"
  using disk_read_ok [of s lba 1] by simp

lemma disk_write_1:
  "fs_ready s \<Longrightarrow> unat lba < 163840 \<Longrightarrow> length buf = 512 \<Longrightarrow>
     disk_write lba buf 1 s = Some (wdata ((data s)(lba := buf)) s)"
  using disk_write_ok [of s lba 1 buf] by (simp add: put_sectors_1)

section \<open>The inode table\<close>

text \<open>The 608 sectors of the table as one array of bytes, and the slot of an inode in it.\<close>

definition inode_table :: "'a fsys_scheme \<Rightarrow> u8 list" where
  "inode_table s = sectors (data s) (inode_table_lba (sb s)) 608"

definition slot :: "'a fsys_scheme \<Rightarrow> u32 \<Rightarrow> u8 list" where
  "slot s n = take 76 (drop (76 * unat n) (inode_table s))"

text \<open>The table lies on the disk and in the partition.\<close>

definition table_ok :: "'a fsys_scheme \<Rightarrow> bool" where
  "table_ok s \<longleftrightarrow> fs_ready s \<and> unat (inode_table_lba (sb s)) + 608 \<le> unat (start_lba (part s)) + unat (sec_cnt (part s)) \<and>
     unat (start_lba (part s)) + unat (sec_cnt (part s)) \<le> 163840"

lemma length_inode_table: "fs_ready s \<Longrightarrow> length (inode_table s) = 512 * 608"
  unfolding inode_table_def by (intro length_sectors) simp

lemma inode_locate_ok:
  assumes "n < 4096"
  obtains pos where "inode_locate n s = Some pos"
    "sec_lba pos = inode_table_lba (sb s) + of_nat (76 * unat n div 512)"
    "unat (off_size pos) = 76 * unat n mod 512"
    "two_sec pos \<longleftrightarrow> 76 * unat n mod 512 + 76 > 512"
proof -
  have n: "unat n < 4096" using assms by (simp add: word_less_nat_alt)
  have mul: "unat (n * 76) = 76 * unat n" using n by (simp add: unat_word_ariths)
  have div: "n * 76 div 512 = of_nat (76 * unat n div 512)"
  proof -
    have "76 * unat n div 512 \<le> 76 * unat n" by (rule div_le_dividend)
    then have "unat (of_nat (76 * unat n div 512) :: u32) = 76 * unat n div 512"
      by (intro unat_of_nat_lt) (use n in simp)
    then show ?thesis by (simp only: word_unat_eq_iff unat_div mul) simp
  qed
  have mod: "unat (n * 76 mod 512) = 76 * unat n mod 512" by (simp add: unat_mod mul)
  have "unat (n * 76 mod 512) \<le> 512" by (simp add: mod mod_less_divisor less_imp_le)
  then have "unat (512 - n * 76 mod 512) = 512 - 76 * unat n mod 512"
    by (subst unat_minus_le) (simp_all add: word_le_nat_alt mod)
  then have left: "512 - n * 76 mod 512 < 76 \<longleftrightarrow> 76 * unat n mod 512 + 76 > 512"
    by (simp add: word_less_nat_alt) linarith
  show thesis
  proof (rule that)
    show "inode_locate n s = Some \<lparr>two_sec = (512 - n * 76 mod 512 < 76),
        sec_lba = inode_table_lba (sb s) + n * 76 div 512, off_size = n * 76 mod 512\<rparr>"
      using assms by (simp add: inode_locate_def sizeof_inode_def Let_def)
  qed (use div mod left in \<open>simp_all only: inode_position.simps\<close>)
qed

lemma sectors_sub:
  assumes "\<And>x. length (md x) = 512" "k + c \<le> N"
  shows "sectors md (lba + of_nat k) c = take (512 * c) (drop (512 * k) (sectors md lba N))"
proof -
  obtain r where N: "N = k + (c + r)" using assms(2) by (metis add.assoc le_Suc_ex)
  have "sectors md lba N = sectors md lba k @ sectors md (lba + of_nat k) c @
      sectors md (lba + of_nat k + of_nat c) r"
    by (simp only: N sectors_add)
  then show ?thesis using length_sectors [OF assms(1)] by simp
qed

lemma sectors_put_sub:
  assumes "\<And>x. length (md x) = 512" "k + c \<le> N" "length buf = 512 * c" "unat lba + N \<le> 2 ^ 31"
  shows "sectors (put_sectors (lba + of_nat k) c buf md) lba N =
    take (512 * k) (sectors md lba N) @ buf @ drop (512 * (k + c)) (sectors md lba N)"
proof -
  obtain r where N: "N = k + (c + r)" using assms(2) by (metis add.assoc le_Suc_ex)
  let ?md = "put_sectors (lba + of_nat k) c buf md"
  have uk: "unat (lba + of_nat k) = unat lba + k"
    using N assms(4) by (subst unat_plus_lt) (simp_all add: unat_of_nat_lt)
  have uc: "unat (lba + of_nat k + of_nat c) = unat lba + k + c"
    using N assms(4) by (subst unat_plus_lt) (simp_all add: unat_of_nat_lt uk)
  have "sectors ?md lba N = sectors ?md lba k @ sectors ?md (lba + of_nat k) c @
      sectors ?md (lba + of_nat k + of_nat c) r"
    by (simp only: N sectors_add)
  moreover have "sectors ?md lba k = sectors md lba k"
    using N assms(4) by (intro sectors_put_other) (simp_all add: uk)
  moreover have "sectors ?md (lba + of_nat k) c = buf"
    using N assms(3,4) by (subst sectors_put_same) simp_all
  moreover have "sectors ?md (lba + of_nat k + of_nat c) r = sectors md (lba + of_nat k + of_nat c) r"
    using N assms(4) by (intro sectors_put_other) (simp_all add: uk uc)
  moreover have "sectors md lba N = sectors md lba k @ sectors md (lba + of_nat k) c @
      sectors md (lba + of_nat k + of_nat c) r"
    by (simp only: N sectors_add)
  ultimately show ?thesis using length_sectors [OF assms(1)] by (simp add: distrib_left)
qed

text \<open>Where the slot of an inode lies: its first sector \<open>k\<close>, its offset \<open>o\<close> there, and the number \<open>c\<close> of
  sectors it touches.\<close>

lemma slot_geometry:
  assumes "(n :: u32) < 4096"
  obtains k off c where "76 * unat n div 512 = k" "76 * unat n mod 512 = off" "512 * k + off = 76 * unat n"
    "c = (if off + 76 > 512 then 2 else 1)" "off + 76 \<le> 512 * c" "k + c \<le> 608" "0 < c" "c \<le> 2"
proof -
  define k off where "k = 76 * unat n div 512" and "off = 76 * unat n mod 512"
  have n: "unat n < 4096" using assms by (simp add: word_less_nat_alt)
  have eq: "512 * k + off = 76 * unat n" unfolding k_def off_def by (rule mult_div_mod_eq)
  have off: "off < 512" by (simp add: off_def)
  have end_le: "512 * k + off + 76 \<le> 512 * 608" using eq n by simp
  have "k + (if off + 76 > 512 then 2 else 1) \<le> 608"
    using end_le by (cases "off + 76 > 512") simp_all
  then show thesis using that [OF k_def [symmetric] off_def [symmetric] eq refl] off by simp
qed

lemma slot_read:
  assumes "fs_ready s" "n < 4096" "inode_locate n s = Some pos"
  shows "get_at (unat (off_size pos)) 76 (sectors (data s) (sec_lba pos) (if two_sec pos then 2 else 1)) = Some (slot s n)"
proof -
  obtain pos' where p: "inode_locate n s = Some pos'"
    "sec_lba pos' = inode_table_lba (sb s) + of_nat (76 * unat n div 512)"
    "unat (off_size pos') = 76 * unat n mod 512" "two_sec pos' \<longleftrightarrow> 76 * unat n mod 512 + 76 > 512"
    by (rule inode_locate_ok [OF assms(2), of s]) (rule that)
  then have [simp]: "pos' = pos" using assms(3) by simp
  obtain k off c where g: "76 * unat n div 512 = k" "76 * unat n mod 512 = off" "512 * k + off = 76 * unat n"
    "c = (if off + 76 > 512 then 2 else 1)" "off + 76 \<le> 512 * c" "k + c \<le> 608"
    by (rule slot_geometry [OF assms(2)]) (rule that)
  have c: "(if two_sec pos then 2 else 1) = c" using p(4) g(2,4) by simp
  have sec: "sectors (data s) (sec_lba pos) c = take (512 * c) (drop (512 * k) (inode_table s))"
    using p(2) g(1) sectors_sub [of "data s" k c 608 "inode_table_lba (sb s)"] assms(1) g(6)
    by (simp add: inode_table_def)
  have len: "length (sectors (data s) (sec_lba pos) c) = 512 * c" using assms(1) by (intro length_sectors) simp
  have "take 76 (drop off (take (512 * c) (drop (512 * k) (inode_table s)))) = slot s n"
  proof -
    have "take 76 (drop off (take (512 * c) (drop (512 * k) (inode_table s)))) =
        take 76 (take (512 * c - off) (drop (512 * k + off) (inode_table s)))"
      by (simp add: drop_take add.commute)
    also have "\<dots> = take 76 (drop (512 * k + off) (inode_table s))" using g(5) by (simp add: min_absorb1)
    finally show ?thesis by (simp only: slot_def g(3))
  qed
  then show ?thesis unfolding c using g(5) len p(3) g(2) by (simp add: get_at_def sec)
qed

lemma splice_inner:
  assumes "off + length xs \<le> 512 * c" "512 * (k + c) \<le> length T"
  shows "take (512 * k) T @ (take off (take (512 * c) (drop (512 * k) T)) @ xs @
      drop (off + length xs) (take (512 * c) (drop (512 * k) T))) @ drop (512 * (k + c)) T =
    take (512 * k + off) T @ xs @ drop (512 * k + off + length xs) T"
proof -
  have "drop (off + length xs) (take (512 * c) (drop (512 * k) T)) @ drop (512 * (k + c)) T =
      drop (512 * k + off + length xs) T"
  proof -
    have "drop (off + length xs) (take (512 * c) (drop (512 * k) T)) =
        take (512 * c - (off + length xs)) (drop (512 * k + off + length xs) T)"
      by (simp add: drop_take ac_simps)
    moreover have "drop (512 * (k + c)) T = drop (512 * c - (off + length xs)) (drop (512 * k + off + length xs) T)"
      using assms by (simp add: distrib_left add.commute)
    ultimately show ?thesis by (simp only: append_take_drop_id)
  qed
  moreover have "take (512 * k) T @ take off (take (512 * c) (drop (512 * k) T)) = take (512 * k + off) T"
    using assms by (simp add: take_add min_absorb1)
  ultimately show ?thesis by (metis append.assoc)
qed

text \<open>The effect of storing 76 bytes in a slot: the table changes there, the rest of the disk does not.\<close>

definition slot_stored :: "u32 \<Rightarrow> u8 list \<Rightarrow> 'a fsys_scheme \<Rightarrow> (u32 \<Rightarrow> u8 list) \<Rightarrow> bool" where
  "slot_stored n bs s md \<longleftrightarrow>
     (\<forall>x. length (md x) = 512) \<and>
     sectors md (inode_table_lba (sb s)) 608 = take (76 * unat n) (inode_table s) @ bs @ drop (76 * unat n + 76) (inode_table s) \<and>
     (\<forall>x. unat x < unat (inode_table_lba (sb s)) \<or> unat (inode_table_lba (sb s)) + 608 \<le> unat x \<longrightarrow> md x = data s x)"

lemma table_okD:
  assumes "table_ok s"
  shows "fs_ready s" "unat (inode_table_lba (sb s)) + 608 \<le> 163840"
    "k < 608 \<Longrightarrow> unat (inode_table_lba (sb s) + of_nat k) = unat (inode_table_lba (sb s)) + k"
    "k < 608 \<Longrightarrow> inode_table_lba (sb s) + of_nat k \<le> start_lba (part s) + sec_cnt (part s)"
proof -
  show r: "fs_ready s" and t: "unat (inode_table_lba (sb s)) + 608 \<le> 163840"
    using assms by (simp_all add: table_ok_def)
  show u: "unat (inode_table_lba (sb s) + of_nat k) = unat (inode_table_lba (sb s)) + k" if "k < 608" for k
    using that t by (subst unat_plus_lt) (simp_all add: unat_of_nat_lt)
  have "unat (start_lba (part s) + sec_cnt (part s)) = unat (start_lba (part s)) + unat (sec_cnt (part s))"
    using assms by (intro unat_plus_lt) (simp add: table_ok_def)
  then show "inode_table_lba (sb s) + of_nat k \<le> start_lba (part s) + sec_cnt (part s)" if "k < 608" for k
    using u [OF that] that assms by (simp add: table_ok_def word_le_nat_alt)
qed

lemma inode_store_ok:
  assumes "table_ok s" "n < 4096" "inode_locate n s = Some pos" "length bs = 76"
    "two_sec pos \<longrightarrow> 1024 \<le> io_len" "512 \<le> io_len"
  shows "\<exists>md. inode_store io_len pos bs s = Some (wdata md s) \<and> slot_stored n bs s md"
proof -
  note t = table_okD [OF assms(1)]
  obtain pos' where p: "inode_locate n s = Some pos'"
    "sec_lba pos' = inode_table_lba (sb s) + of_nat (76 * unat n div 512)"
    "unat (off_size pos') = 76 * unat n mod 512" "two_sec pos' \<longleftrightarrow> 76 * unat n mod 512 + 76 > 512"
    by (rule inode_locate_ok [OF assms(2), of s]) (rule that)
  then have [simp]: "pos' = pos" using assms(3) by simp
  obtain k off c where g: "76 * unat n div 512 = k" "76 * unat n mod 512 = off" "512 * k + off = 76 * unat n"
    "c = (if off + 76 > 512 then 2 else 1)" "off + 76 \<le> 512 * c" "k + c \<le> 608" "0 < c" "c \<le> 2"
    by (rule slot_geometry [OF assms(2)]) (rule that)
  define w :: u32 where "w = (if two_sec pos then 2 else 1)"
  have w: "unat w = c" "0 < w" "512 * unat w \<le> io_len" using p(4) g(2,4) assms(5,6) by (auto simp: w_def)
  have lba: "sec_lba pos = inode_table_lba (sb s) + of_nat k" using p(2) g(1) by simp
  then have ulba: "unat (sec_lba pos) = unat (inode_table_lba (sb s)) + k" using t(3) [of k] g(6,7) by simp
  then have range: "unat (sec_lba pos) + unat w \<le> 163840" using w(1) t(2) g(6) by simp
  define S where "S = sectors (data s) (sec_lba pos) c"
  have S: "S = take (512 * c) (drop (512 * k) (inode_table s))" "length S = 512 * c"
    using sectors_sub [of "data s" k c 608 "inode_table_lba (sb s)"] t(1) g(6)
    by (simp_all add: S_def lba inode_table_def length_sectors)
  define S' where "S' = take off S @ bs @ drop (off + 76) S"
  have S': "put_at off bs S = Some S'" "length S' = 512 * c"
    using g(5) assms(4) S(2) by (simp_all add: put_at_def S'_def)
  define md where "md = put_sectors (sec_lba pos) c S' (data s)"
  have store: "inode_store io_len pos bs s = Some (wdata md s)"
    using disk_read_ok [OF t(1) range w(2)] disk_write_ok [OF t(1) range w(2), of S'] w S' p(3) g(2)
    by (simp add: inode_store_def w_def [symmetric] S_def [symmetric] md_def)
  have "sectors md (inode_table_lba (sb s)) 608 =
      take (512 * k) (inode_table s) @ S' @ drop (512 * (k + c)) (inode_table s)"
    unfolding md_def lba inode_table_def using t(1,2) g(6) S'(2) by (intro sectors_put_sub) simp_all
  also have "\<dots> = take (512 * k + off) (inode_table s) @ bs @ drop (512 * k + off + 76) (inode_table s)"
    unfolding S'_def S(1)
    using splice_inner [of off bs c k "inode_table s"] g(5,6) assms(4) length_inode_table [OF t(1)] by simp
  finally have T: "sectors md (inode_table_lba (sb s)) 608 =
      take (76 * unat n) (inode_table s) @ bs @ drop (76 * unat n + 76) (inode_table s)"
    unfolding g(3) .
  have other: "md x = data s x" if "unat x < unat (inode_table_lba (sb s)) \<or> unat (inode_table_lba (sb s)) + 608 \<le> unat x" for x
  proof -
    have "c \<le> unat (x - sec_lba pos)" using that ulba g(6,8) t(2) by (auto simp: unat_sub_if')
    then show ?thesis by (simp add: md_def put_sectors_def)
  qed
  have "length (md x) = 512" for x
    unfolding md_def using t(1) S'(2) by (intro put_sectors_length) simp_all
  with store T other show ?thesis by (auto simp: slot_stored_def)
qed

lemma take_drop_disjoint:
  assumes "length xs = 76" "76 * n + 76 \<le> length T" "m \<noteq> n"
  shows "take 76 (drop (76 * m) (take (76 * n) T @ xs @ drop (76 * n + 76) T)) = take 76 (drop (76 * m) T)"
proof (cases "m < n")
  case True
  then have "76 * m + 76 \<le> 76 * n" by simp
  with assms(2) show ?thesis by (simp add: drop_take min_absorb1 min_absorb2)
next
  case False
  with assms(3) have "76 * n + 76 \<le> 76 * m" by simp
  with assms(1,2) show ?thesis by (simp add: min_absorb2 drop_append)
qed

lemma slot_stored_slots:
  assumes "slot_stored n bs s md" "fs_ready s" "n < 4096" "length bs = 76"
  shows "slot (wdata md s) n = bs" and "m \<noteq> n \<Longrightarrow> slot (wdata md s) m = slot s m"
    and "table_ok s \<Longrightarrow> table_ok (wdata md s)"
proof -
  have T: "inode_table (wdata md s) = take (76 * unat n) (inode_table s) @ bs @ drop (76 * unat n + 76) (inode_table s)"
    using assms(1) by (simp add: slot_stored_def inode_table_def)
  have n: "76 * unat n + 76 \<le> length (inode_table s)"
    using assms(3) by (simp add: length_inode_table [OF assms(2)] word_less_nat_alt)
  show "slot (wdata md s) n = bs" unfolding slot_def T using n assms(4) by (simp add: min_absorb2)
  show "slot (wdata md s) m = slot s m" if "m \<noteq> n"
    unfolding slot_def T using that by (intro take_drop_disjoint [OF assms(4) n]) (simp add: word_unat_eq_iff)
  show "table_ok (wdata md s)" if "table_ok s"
    using that assms(1) by (simp add: table_ok_def slot_stored_def)
qed

lemma length_inode_bytes [simp]: "length (i_sectors i) = 13 \<Longrightarrow> length (inode_bytes i) = 76"
  by (simp add: inode_bytes_def)

lemma bytes_inode_bytes [simp]:
  "length (i_sectors i) = 13 \<Longrightarrow> bytes_inode (inode_bytes i) = i"
  by (simp add: bytes_inode_def inode_bytes_def)

definition pure_inode :: "inode \<Rightarrow> inode" where
  "pure_inode i = i\<lparr>i_open_cnts := 0, write_deny := 0\<rparr>"

lemma ucast_u8: "unat (ucast (ucast (n :: u32) :: u8) :: u32) = unat n mod 256"
  by (simp add: unsigned_ucast_eq take_bit_eq_mod unat_mod)

lemma inode_sync_fits:
  assumes "table_ok s" "length (i_sectors i) = 13" "512 \<le> io_len"
    "76 * (unat (i_no i) mod 256) mod 512 + 76 > 512 \<longrightarrow> 1024 \<le> io_len"
  shows "\<exists>md. inode_sync io_len i s = Some (wdata md s) \<and>
    slot_stored (of_nat (unat (i_no i) mod 256)) (inode_bytes (pure_inode i)) s md"
proof -
  let ?n = "ucast (ucast (i_no i) :: u8) :: u32"
  have n: "?n = of_nat (unat (i_no i) mod 256)"
    by (simp add: word_unat_eq_iff ucast_u8 unat_of_nat_lt less_trans [of _ 256])
  have lt: "?n < 4096" by (simp add: word_less_nat_alt ucast_u8 less_trans [of _ 256])
  obtain pos where p: "inode_locate ?n s = Some pos"
    "sec_lba pos = inode_table_lba (sb s) + of_nat (76 * unat ?n div 512)"
    "two_sec pos \<longleftrightarrow> 76 * unat ?n mod 512 + 76 > 512"
    by (rule inode_locate_ok [OF lt, of s]) (rule that)
  obtain k c where g: "76 * unat ?n div 512 = k" "0 < c" "k + c \<le> 608"
    by (rule slot_geometry [OF lt]) (rule that)
  have "k < 608" using g(2,3) by simp
  then have "sec_lba pos \<le> start_lba (part s) + sec_cnt (part s)"
    using table_okD(4) [OF assms(1), of k] p(2) g(1) by simp
  moreover have "\<exists>md. inode_store io_len pos (inode_bytes (pure_inode i)) s = Some (wdata md s) \<and>
      slot_stored ?n (inode_bytes (pure_inode i)) s md"
    using assms(2-4) p(3) by (intro inode_store_ok [OF assms(1) lt p(1)]) (simp_all add: pure_inode_def ucast_u8)
  ultimately show ?thesis using p(1) n by (auto simp: inode_sync_def pure_inode_def)
qed

lemma inode_sync_ok:
  assumes "table_ok s" "length (i_sectors i) = 13" "1024 \<le> io_len"
  shows "\<exists>md. inode_sync io_len i s = Some (wdata md s) \<and>
    slot_stored (of_nat (unat (i_no i) mod 256)) (inode_bytes (pure_inode i)) s md"
  using inode_sync_fits [OF assms(1,2), of io_len] assms(3) by simp

lemma inode_open_disk:
  assumes "table_ok s" "n < 4096" "n \<notin> (\<lambda>p. i_no (inodes s p)) ` set (open_inodes s)"
    "heap s (heap_cnt s) \<noteq> 0" "heap s (Suc (heap_cnt s)) \<noteq> 0"
  shows "inode_open n s = Some (heap s (heap_cnt s),
    s\<lparr>open_inodes := heap s (heap_cnt s) # open_inodes s, heap_cnt := heap_cnt s + 2,
      inodes := (inodes s)(heap s (heap_cnt s) := (bytes_inode (slot s n))\<lparr>i_open_cnts := 1\<rparr>)\<rparr>)"
proof -
  note t = table_okD [OF assms(1)]
  have none: "find (\<lambda>p. i_no (inodes s p) = n) (open_inodes s) = None"
    using assms(3) by (auto simp: find_None_iff)
  obtain pos where p: "inode_locate n s = Some pos"
    "sec_lba pos = inode_table_lba (sb s) + of_nat (76 * unat n div 512)"
    "unat (off_size pos) = 76 * unat n mod 512" "two_sec pos \<longleftrightarrow> 76 * unat n mod 512 + 76 > 512"
    by (rule inode_locate_ok [OF assms(2), of s]) (rule that)
  obtain k off c where g: "76 * unat n div 512 = k" "76 * unat n mod 512 = off"
    "c = (if off + 76 > 512 then 2 else 1)" "k + c \<le> 608" "0 < c"
    by (rule slot_geometry [OF assms(2)]) (rule that)
  let ?w = "if two_sec pos then 2 else 1 :: u32" and ?s = "s\<lparr>heap_cnt := Suc (Suc (heap_cnt s))\<rparr>"
  have "unat (sec_lba pos) + c \<le> 163840" using t(2) t(3) [of k] g p(2) by simp
  moreover have w: "unat ?w = c" "0 < ?w" "unat ?w = (if two_sec pos then 2 else 1)" using p(4) g(2,3) by auto
  ultimately have "disk_read (sec_lba pos) ?w ?s = Some (sectors (data s) (sec_lba pos) (unat ?w), ?s)"
    using disk_read_ok [of ?s "sec_lba pos" ?w] t(1) by simp
  with slot_read [OF t(1) assms(2) p(1)] w(3) none p(1) assms(4,5)
  show ?thesis by (simp add: inode_open_def heap_alloc_def upd_inode_def inode_locate_def Let_def cong: if_cong)
qed

lemma inode_open_shared:
  assumes "p \<in> set (open_inodes s)" "inj_on (\<lambda>p. i_no (inodes s p)) (set (open_inodes s))"
  shows "inode_open (i_no (inodes s p)) s =
    Some (p, upd_inode p (\<lambda>i. i\<lparr>i_open_cnts := i_open_cnts i + 1\<rparr>) s)"
proof -
  have "find (\<lambda>q. i_no (inodes s q) = i_no (inodes s p)) (open_inodes s) = Some p"
  proof (cases "find (\<lambda>q. i_no (inodes s q) = i_no (inodes s p)) (open_inodes s)")
    case None
    with assms(1) show ?thesis by (auto simp: find_None_iff)
  next
    case (Some q)
    then have "i_no (inodes s q) = i_no (inodes s p)" "q \<in> set (open_inodes s)"
      by (auto simp: find_Some_iff)
    with Some assms show ?thesis by (auto dest: inj_onD)
  qed
  then show ?thesis by (simp add: inode_open_def)
qed

section \<open>Bitmaps and their copies on the disk\<close>

text \<open>The order of the areas of a partition, and the sizes of the bitmaps in memory.\<close>

definition layout_ok :: "'a fsys_scheme \<Rightarrow> bool" where
  "layout_ok s \<longleftrightarrow> fs_ready s \<and> bitmap_ok (block_bitmap s) \<and> bitmap_ok (inode_bitmap s) \<and>
     nbits (block_bitmap s) = 4096 * unat (block_bitmap_sects (sb s)) \<and> nbits (inode_bitmap s) = 4096 \<and>
     unat (block_bitmap_lba (sb s)) + unat (block_bitmap_sects (sb s)) \<le> unat (inode_bitmap_lba (sb s)) \<and>
     unat (inode_bitmap_lba (sb s)) + 1 \<le> unat (inode_table_lba (sb s)) \<and>
     unat (inode_table_lba (sb s)) + 608 \<le> unat (data_start_lba (sb s)) \<and>
     unat (data_start_lba (sb s)) \<le> unat (start_lba (part s)) + unat (sec_cnt (part s)) \<and>
     unat (start_lba (part s)) + unat (sec_cnt (part s)) \<le> 163840"

lemma layout_table: "layout_ok s \<Longrightarrow> table_ok s"
  by (simp add: layout_ok_def table_ok_def)

text \<open>The disk holds a copy of a bitmap from sector \<open>lba\<close> on.\<close>

definition map_on_disk :: "bitmap \<Rightarrow> u32 \<Rightarrow> (u32 \<Rightarrow> u8 list) \<Rightarrow> bool" where
  "map_on_disk b lba md \<longleftrightarrow>
     (\<forall>k. 4096 * k < nbits b \<longrightarrow> md (lba + of_nat k) = bitmap_sector b (of_nat (512 * k)))"

lemma length_bitmap_sector [simp]: "length (bitmap_sector b off) = 512"
  by (simp add: bitmap_sector_def)

lemma unat_div_4096: "unat (i div 4096 :: u32) = unat i div 4096"
  by (simp add: unat_div)

lemma bitmap_sync_block:
  assumes "layout_ok s" "unat i < nbits (block_bitmap s)"
  shows "bitmap_sync i BLOCK_BITMAP s = Some (wdata ((data s)
    (block_bitmap_lba (sb s) + i div 4096 := bitmap_sector (block_bitmap s) (i div 4096 * 512))) s)"
    and "unat (block_bitmap_lba (sb s) + i div 4096) = unat (block_bitmap_lba (sb s)) + unat i div 4096"
    and "unat i div 4096 < unat (block_bitmap_sects (sb s))"
proof -
  show lt: "unat i div 4096 < unat (block_bitmap_sects (sb s))"
    using assms by (simp add: layout_ok_def less_mult_imp_div_less mult.commute)
  show u: "unat (block_bitmap_lba (sb s) + i div 4096) = unat (block_bitmap_lba (sb s)) + unat i div 4096"
    using assms(1) lt by (subst unat_plus_lt) (simp_all add: layout_ok_def unat_div_4096)
  show "bitmap_sync i BLOCK_BITMAP s = Some (wdata ((data s)
    (block_bitmap_lba (sb s) + i div 4096 := bitmap_sector (block_bitmap s) (i div 4096 * 512))) s)"
    using assms(1) lt u by (simp add: bitmap_sync_def Let_def disk_write_1 layout_ok_def)
qed

lemma bitmap_sync_inode:
  assumes "layout_ok s" "i < 4096"
  shows "bitmap_sync i INODE_BITMAP s =
    Some (wdata ((data s)(inode_bitmap_lba (sb s) := bitmap_sector (inode_bitmap s) 0)) s)"
proof -
  have "i div 4096 = 0"
    using assms(2) by (simp add: word_unat_eq_iff unat_div_4096 word_less_nat_alt)
  then show ?thesis using assms(1) by (simp add: bitmap_sync_def disk_write_1 layout_ok_def)
qed

lemma bitmap_set_bits:
  assumes "bitmap_set b i v = Some b'" "j \<noteq> drop_bit 3 i"
  shows "bits b' j = bits b j"
proof -
  let ?w = "if v \<noteq> 0 then bits b (drop_bit 3 i) OR push_bit (unat (i AND 7)) 1
    else bits b (drop_bit 3 i) AND NOT (push_bit (unat (i AND 7)) 1)"
  from assms(1) have "b' = b\<lparr>bits := (bits b)(drop_bit 3 i := ?w)\<rparr>"
    unfolding bitmap_set_def Let_def ASSERT_bind
    by (cases "v = 0 \<or> v = 1") (simp_all only: if_True if_False option.simps simp_thms)
  with assms(2) show ?thesis by simp
qed

lemma bitmap_sector_other:
  assumes "bitmap_set b i v = Some b'" "k \<noteq> unat i div 4096" "k < 2 ^ 19"
  shows "bitmap_sector b' (of_nat (512 * k)) = bitmap_sector b (of_nat (512 * k))"
proof -
  have "bits b' (of_nat (512 * k) + of_nat j) = bits b (of_nat (512 * k) + of_nat j)" if "j < 512" for j
  proof (rule bitmap_set_bits [OF assms(1)])
    have "unat (of_nat (512 * k + j) :: u32) = 512 * k + j"
      using that assms(3) by (intro unat_of_nat_lt) simp
    then have u: "unat (of_nat (512 * k) + of_nat j :: u32) = 512 * k + j" by simp
    have "(512 * k + j) div 512 = k" using that by simp
    moreover have "unat i div 8 div 512 = unat i div 4096" by (simp add: div_mult2_eq [symmetric])
    ultimately have "512 * k + j \<noteq> unat i div 8" using assms(2) by metis
    then show "of_nat (512 * k) + of_nat j \<noteq> (drop_bit 3 i :: u32)"
      using u unat_drop_bit_3 [of i] by metis
  qed
  then show ?thesis by (simp add: bitmap_sector_def)
qed

lemma map_on_disk_sync:
  assumes "map_on_disk b lba md" "bitmap_set b i v = Some b'" "nbits b < 2 ^ 31"
  shows "map_on_disk b' lba (md(lba + i div 4096 := bitmap_sector b' (i div 4096 * 512)))"
  unfolding map_on_disk_def
proof (intro allI impI)
  fix k assume k: "4096 * k < nbits b'"
  then have k': "4096 * k < nbits b" "k < 2 ^ 19" using bitmap_set_nbits [OF assms(2)] assms(3) by auto
  show "(md(lba + i div 4096 := bitmap_sector b' (i div 4096 * 512))) (lba + of_nat k) =
      bitmap_sector b' (of_nat (512 * k))"
  proof (cases "of_nat k = i div 4096")
    case True
    then show ?thesis by (simp add: mult.commute)
  next
    case False
    then have "k \<noteq> unat i div 4096" by (auto simp flip: unat_div_4096)
    with bitmap_sector_other [OF assms(2) this k'(2)] False k'(1) assms(1) show ?thesis
      by (auto simp: map_on_disk_def)
  qed
qed

lemma layout_ok_update:
  assumes "layout_ok s" "bitmap_set (block_bitmap s) i v = Some b" "\<And>x. length (md x) = 512"
  shows "layout_ok ((wdata md s)\<lparr>block_bitmap := b\<rparr>)"
  using assms bitmap_set_nbits [OF assms(2)] bitmap_set_ok [OF assms(2)] by (simp add: layout_ok_def)

section \<open>Releasing blocks\<close>

definition blk_idx :: "'a fsys_scheme \<Rightarrow> u32 \<Rightarrow> nat" where
  "blk_idx s lba = unat (lba - data_start_lba (sb s))"

text \<open>A block that an inode may own: in the data area, not block 0 of the root directory, on the disk.\<close>

definition block_ok :: "'a fsys_scheme \<Rightarrow> u32 \<Rightarrow> bool" where
  "block_ok s lba \<longleftrightarrow> unat (data_start_lba (sb s)) < unat lba \<and> unat lba < 163840 \<and>
     blk_idx s lba < nbits (block_bitmap s)"

text \<open>\<open>bits_cleared s I s'\<close>: \<open>s'\<close> is \<open>s\<close> with the bits \<open>I\<close> of the block bitmap cleared, in memory and
  on the disk; everything else is unchanged.\<close>

definition bits_cleared :: "'a fsys_scheme \<Rightarrow> nat set \<Rightarrow> 'a fsys_scheme \<Rightarrow> bool" where
  "bits_cleared s I s' \<longleftrightarrow>
     (\<exists>md b. s' = (wdata md s)\<lparr>block_bitmap := b\<rparr> \<and> layout_ok s' \<and> nbits b = nbits (block_bitmap s) \<and>
        (\<forall>n < nbits b. bit_at b n \<longleftrightarrow> bit_at (block_bitmap s) n \<and> n \<notin> I) \<and>
        (\<forall>x. unat x < unat (block_bitmap_lba (sb s)) \<or> unat (inode_bitmap_lba (sb s)) \<le> unat x \<longrightarrow> md x = data s x) \<and>
        (map_on_disk (block_bitmap s) (block_bitmap_lba (sb s)) (data s) \<longrightarrow>
         map_on_disk b (block_bitmap_lba (sb s)) md))"

lemma bits_cleared_refl: "layout_ok s \<Longrightarrow> bits_cleared s {} s"
  unfolding bits_cleared_def by (rule exI [of _ "data s"], rule exI [of _ "block_bitmap s"]) simp

lemma bits_cleared_trans:
  assumes "bits_cleared s I s1" "bits_cleared s1 J s2"
  shows "bits_cleared s (I \<union> J) s2"
proof -
  from assms(1) obtain md b where 1: "s1 = (wdata md s)\<lparr>block_bitmap := b\<rparr>" "nbits b = nbits (block_bitmap s)"
    "\<forall>n < nbits b. bit_at b n \<longleftrightarrow> bit_at (block_bitmap s) n \<and> n \<notin> I"
    "\<forall>x. unat x < unat (block_bitmap_lba (sb s)) \<or> unat (inode_bitmap_lba (sb s)) \<le> unat x \<longrightarrow> md x = data s x"
    "map_on_disk (block_bitmap s) (block_bitmap_lba (sb s)) (data s) \<longrightarrow> map_on_disk b (block_bitmap_lba (sb s)) md"
    by (auto simp: bits_cleared_def)
  from assms(2) obtain md' b' where 2: "s2 = (wdata md' s1)\<lparr>block_bitmap := b'\<rparr>" "layout_ok s2" "nbits b' = nbits (block_bitmap s1)"
    "\<forall>n < nbits b'. bit_at b' n \<longleftrightarrow> bit_at (block_bitmap s1) n \<and> n \<notin> J"
    "\<forall>x. unat x < unat (block_bitmap_lba (sb s)) \<or> unat (inode_bitmap_lba (sb s)) \<le> unat x \<longrightarrow> md' x = data s1 x"
    "map_on_disk (block_bitmap s1) (block_bitmap_lba (sb s)) (data s1) \<longrightarrow> map_on_disk b' (block_bitmap_lba (sb s)) md'"
    by (auto simp: bits_cleared_def 1(1))
  show ?thesis
    unfolding bits_cleared_def
    by (rule exI [of _ md'], rule exI [of _ b']) (use 1 2 in auto)
qed

lemma block_bitmap_free_ok:
  assumes "layout_ok s" "unat i < nbits (block_bitmap s)"
  shows "\<exists>s'. block_bitmap_free i s = Some s' \<and> bits_cleared s {unat i} s'"
proof -
  obtain b where b: "bitmap_set (block_bitmap s) i 0 = Some b" using bitmap_set_returns [of 0] by blast
  define md where "md = (data s)(block_bitmap_lba (sb s) + i div 4096 := bitmap_sector b (i div 4096 * 512))"
  have len: "length (md x) = 512" for x using assms(1) by (simp add: md_def layout_ok_def)
  have ok: "layout_ok (s\<lparr>block_bitmap := b\<rparr>)"
    using layout_ok_update [OF assms(1) b, of "data s"] assms(1) by (simp add: layout_ok_def)
  have nb: "nbits b = nbits (block_bitmap s)" by (rule bitmap_set_nbits [OF b])
  note sync = bitmap_sync_block [OF ok, of i, simplified, folded md_def]
  have "block_bitmap_free i s = Some ((wdata md s)\<lparr>block_bitmap := b\<rparr>)"
    using b sync(1) assms(2) nb by (simp add: block_bitmap_free_def)
  moreover have "bits_cleared s {unat i} ((wdata md s)\<lparr>block_bitmap := b\<rparr>)"
    unfolding bits_cleared_def
  proof (intro exI conjI)
    show "layout_ok ((wdata md s)\<lparr>block_bitmap := b\<rparr>)" by (rule layout_ok_update [OF assms(1) b len])
    have n31: "nbits b < 2 ^ 31" using nb bitmap_ok_nbits assms(1) by (simp add: layout_ok_def)
    show "\<forall>n < nbits b. bit_at b n \<longleftrightarrow> bit_at (block_bitmap s) n \<and> n \<notin> {unat i}"
      using bit_at_set [OF b] n31 by auto
    show "map_on_disk (block_bitmap s) (block_bitmap_lba (sb s)) (data s) \<longrightarrow> map_on_disk b (block_bitmap_lba (sb s)) md"
      unfolding md_def using map_on_disk_sync [OF _ b] n31 nb by simp
    show "\<forall>x. unat x < unat (block_bitmap_lba (sb s)) \<or> unat (inode_bitmap_lba (sb s)) \<le> unat x \<longrightarrow> md x = data s x"
      using sync(2,3) assms nb by (auto simp: md_def layout_ok_def)
  qed (simp_all add: nb)
  ultimately show ?thesis by blast
qed

lemma bits_cleared_frame:
  assumes "bits_cleared s I s'"
  shows "layout_ok s'" "sb s' = sb s" "part s' = part s" "inodes s' = inodes s" "open_inodes s' = open_inodes s"
    "inode_bitmap s' = inode_bitmap s" "heap s' = heap s" "heap_cnt s' = heap_cnt s"
    "nbits (block_bitmap s') = nbits (block_bitmap s)" "dirs s' = dirs s"
    "unat (inode_bitmap_lba (sb s)) \<le> unat x \<Longrightarrow> data s' x = data s x"
    "n < nbits (block_bitmap s) \<Longrightarrow> bit_at (block_bitmap s') n \<longleftrightarrow> bit_at (block_bitmap s) n \<and> n \<notin> I"
  using assms by (auto simp: bits_cleared_def)

lemma blk_idx_bits: "unat (lba - data_start_lba (sb s)) = blk_idx s lba"
  by (simp add: blk_idx_def)

lemma block_ok_positive: "block_ok s lba \<Longrightarrow> 0 < lba - data_start_lba (sb s)"
  by (auto simp: block_ok_def word_neq_0_conv [symmetric])

lemma release_blocks_ok:
  assumes "layout_ok s" "\<forall>lba \<in> set lbas. lba \<noteq> 0 \<longrightarrow> block_ok s lba"
  shows "\<exists>s'. release_blocks lbas s = Some s' \<and> bits_cleared s (blk_idx s ` {lba \<in> set lbas. lba \<noteq> 0}) s'"
  using assms
proof (induction lbas arbitrary: s)
  case Nil
  then show ?case using bits_cleared_refl by auto
next
  case (Cons lba lbas)
  show ?case
  proof (cases "lba = 0")
    case True
    have "{x \<in> set (lba # lbas). x \<noteq> 0} = {x \<in> set lbas. x \<noteq> 0}" using True by auto
    with Cons.IH [OF Cons.prems(1)] Cons.prems(2) True show ?thesis by (simp only: release_blocks.simps) auto
  next
    case False
    with Cons.prems(2) have ok: "block_ok s lba" by simp
    obtain s1 where s1: "block_bitmap_free (lba - data_start_lba (sb s)) s = Some s1"
        "bits_cleared s {blk_idx s lba} s1"
      using block_bitmap_free_ok [OF Cons.prems(1), of "lba - data_start_lba (sb s)"] ok
      by (auto simp: block_ok_def blk_idx_bits)
    note fr = bits_cleared_frame [OF s1(2)]
    have idx: "blk_idx s1 = blk_idx s" by (simp add: fun_eq_iff blk_idx_def fr(2))
    have "\<forall>x \<in> set lbas. x \<noteq> 0 \<longrightarrow> block_ok s1 x"
      using Cons.prems(2) by (simp add: block_ok_def idx fr(2,9))
    then obtain s2 where s2: "release_blocks lbas s1 = Some s2"
        "bits_cleared s1 (blk_idx s ` {x \<in> set lbas. x \<noteq> 0}) s2"
      using Cons.IH [OF fr(1)] idx by auto
    have "{x \<in> set (lba # lbas). x \<noteq> 0} = insert lba {x \<in> set lbas. x \<noteq> 0}" using False by auto
    with bits_cleared_trans [OF s1(2) s2(2)] s1(1) s2(1) False block_ok_positive [OF ok] show ?thesis
      by simp
  qed
qed

text \<open>The blocks that an inode owns: the direct blocks, the table of indirect blocks and its entries.\<close>

definition owned_blocks :: "'a fsys_scheme \<Rightarrow> inode \<Rightarrow> u32 set" where
  "owned_blocks s i =
     {b \<in> set (take 12 (i_sectors i)). b \<noteq> 0} \<union>
     (if i_sectors i ! 12 \<noteq> 0
      then insert (i_sectors i ! 12) {b \<in> set (bytes_words (data s (i_sectors i ! 12))). b \<noteq> 0} else {})"

lemma release_all_blocks:
  assumes "layout_ok s" "\<forall>b \<in> owned_blocks s i. block_ok s b"
  shows "\<exists>ab s1 s'. release_table i s = Some (ab, s1) \<and> release_blocks ab s1 = Some s' \<and>
    bits_cleared s (blk_idx s ` owned_blocks s i) s'"
proof (cases "i_sectors i ! 12 = 0")
  case True
  with release_blocks_ok [OF assms(1), of "take 12 (i_sectors i)"] assms(2) show ?thesis
    by (auto simp: owned_blocks_def release_table_def)
next
  case False
  let ?t = "i_sectors i ! 12"
  have ok: "block_ok s ?t" using assms(2) False by (simp add: owned_blocks_def)
  have rd: "disk_read ?t 1 s = Some (data s ?t, s)"
    using ok assms(1) by (intro disk_read_1) (simp_all add: block_ok_def layout_ok_def)
  obtain s1 where s1: "block_bitmap_free (?t - data_start_lba (sb s)) s = Some s1" "bits_cleared s {blk_idx s ?t} s1"
    using block_bitmap_free_ok [OF assms(1), of "?t - data_start_lba (sb s)"] ok
    by (auto simp: block_ok_def blk_idx_bits)
  note fr = bits_cleared_frame [OF s1(2)]
  have idx: "blk_idx s1 = blk_idx s" by (simp add: fun_eq_iff blk_idx_def fr(2))
  let ?bs = "take 12 (i_sectors i) @ bytes_words (data s ?t)"
  have "\<forall>x \<in> set ?bs. x \<noteq> 0 \<longrightarrow> block_ok s1 x"
    using assms(2) False by (auto simp: block_ok_def idx fr(2,9) owned_blocks_def)
  then obtain s2 where s2: "release_blocks ?bs s1 = Some s2" "bits_cleared s1 (blk_idx s ` {x \<in> set ?bs. x \<noteq> 0}) s2"
    using release_blocks_ok [OF fr(1), of ?bs] idx by auto
  have "owned_blocks s i = insert ?t {x \<in> set ?bs. x \<noteq> 0}" using False by (auto simp: owned_blocks_def)
  with bits_cleared_trans [OF s1(2) s2(2)] s1(1) s2(1) False block_ok_positive [OF ok] rd show ?thesis
    by (simp add: release_table_def)
qed

lemma inode_delete_ok:
  assumes "table_ok s" "n < 4096" "1024 \<le> io_len"
  shows "\<exists>md. inode_delete io_len n s = Some (wdata md s) \<and> slot_stored n (replicate 76 0) s md"
proof -
  obtain pos where p: "inode_locate n s = Some pos"
    "sec_lba pos = inode_table_lba (sb s) + of_nat (76 * unat n div 512)"
    by (rule inode_locate_ok [OF assms(2), of s]) (rule that)
  obtain k c where g: "76 * unat n div 512 = k" "0 < c" "k + c \<le> 608"
    by (rule slot_geometry [OF assms(2)]) (rule that)
  have "sec_lba pos \<le> start_lba (part s) + sec_cnt (part s)"
    using table_okD(4) [OF assms(1), of k] p(2) g by simp
  moreover have "\<exists>md. inode_store io_len pos (replicate 76 0) s = Some (wdata md s) \<and> slot_stored n (replicate 76 0) s md"
    using assms by (intro inode_store_ok [OF assms(1,2) p(1)]) simp_all
  ultimately show ?thesis using p(1) assms(2) by (auto simp: inode_delete_def)
qed

lemma slot_frame:
  assumes "sb s' = sb s" "\<And>x. unat (inode_table_lba (sb s)) \<le> unat x \<Longrightarrow> data s' x = data s x" "table_ok s"
  shows "slot s' n = slot s n"
proof -
  have "sectors (data s') (inode_table_lba (sb s)) 608 = sectors (data s) (inode_table_lba (sb s)) 608"
    using table_okD(3) [OF assms(3)] by (intro sectors_cong assms(2)) simp
  then show ?thesis by (simp add: slot_def inode_table_def assms(1))
qed

text \<open>Everything an inode release changes.\<close>

definition released :: "'a fsys_scheme \<Rightarrow> u32 \<Rightarrow> inode \<Rightarrow> 'a fsys_scheme \<Rightarrow> bool" where
  "released s n i s' \<longleftrightarrow>
     (\<forall>k < nbits (block_bitmap s). bit_at (block_bitmap s') k \<longleftrightarrow>
        bit_at (block_bitmap s) k \<and> k \<notin> blk_idx s ` owned_blocks s i) \<and>
     (\<forall>k < 4096. bit_at (inode_bitmap s') k \<longleftrightarrow> bit_at (inode_bitmap s) k \<and> k \<noteq> unat n) \<and>
     slot s' n = replicate 76 0 \<and> (\<forall>m. m \<noteq> n \<longrightarrow> slot s' m = slot s m) \<and>
     (\<forall>x. unat (data_start_lba (sb s)) \<le> unat x \<longrightarrow> data s' x = data s x)"

lemma inode_release_tail:
  assumes "layout_ok s" "n < 4096" "p \<noteq> 0" "heap s (heap_cnt s) \<noteq> 0" "i_open_cnts (inodes s p) = 1"
    "open_inodes s = p # ps"
  shows "\<exists>s'. release_number n p s = Some s' \<and> open_inodes s' = ps \<and> block_bitmap s' = block_bitmap s \<and>
     (\<forall>k < 4096. bit_at (inode_bitmap s') k \<longleftrightarrow> bit_at (inode_bitmap s) k \<and> k \<noteq> unat n) \<and>
     slot s' n = replicate 76 0 \<and> (\<forall>m. m \<noteq> n \<longrightarrow> slot s' m = slot s m) \<and>
     (\<forall>x. unat (data_start_lba (sb s)) \<le> unat x \<longrightarrow> data s' x = data s x)"
proof -
  have tab: "table_ok s" by (rule layout_table [OF assms(1)])
  obtain b where b: "bitmap_set (inode_bitmap s) n 0 = Some b" using bitmap_set_returns [of 0] by blast
  have ok1: "layout_ok (s\<lparr>inode_bitmap := b\<rparr>)"
    using assms(1) bitmap_set_nbits [OF b] bitmap_set_ok [OF b] by (simp add: layout_ok_def)
  define md1 where "md1 = (data s)(inode_bitmap_lba (sb s) := bitmap_sector b 0)"
  define s2 where "s2 = (wdata md1 s)\<lparr>inode_bitmap := b, heap_cnt := Suc (heap_cnt s)\<rparr>"
  have sync: "bitmap_sync n INODE_BITMAP (s\<lparr>inode_bitmap := b\<rparr>) = Some ((wdata md1 s)\<lparr>inode_bitmap := b\<rparr>)"
    using bitmap_sync_inode [OF ok1 assms(2)] by (simp add: md1_def)
  have tab2: "table_ok s2" using tab by (simp add: s2_def table_ok_def md1_def)
  have md1: "md1 x = data s x" if "unat (inode_table_lba (sb s)) \<le> unat x" for x
    using that assms(1) by (auto simp: md1_def layout_ok_def)
  obtain md where md: "inode_delete 1024 n s2 = Some (wdata md s2)" "slot_stored n (replicate 76 0) s2 md"
    using inode_delete_ok [OF tab2 assms(2), of 1024] by auto
  note sl = slot_stored_slots [OF md(2) table_okD(1) [OF tab2] assms(2) length_replicate]
  have fr: "slot s2 m = slot s m" for m
    using md1 by (intro slot_frame [OF _ _ tab]) (simp_all add: s2_def)
  define s3 where "s3 = (wdata md s2)\<lparr>inodes := (inodes s)(p := (inodes s p)\<lparr>i_open_cnts := 0\<rparr>), open_inodes := ps\<rparr>"
  have close: "inode_close p (wdata md s2) = Some s3"
    using assms(3,5,6) by (simp add: inode_close_def upd_inode_def s2_def s3_def)
  have "slot s3 m = slot (wdata md s2) m" for m
    by (simp add: slot_def inode_table_def s3_def)
  moreover have "data s3 x = data s x" if "unat (data_start_lba (sb s)) \<le> unat x" for x
    using that md(2) md1 assms(1) by (simp add: s3_def slot_stored_def s2_def layout_ok_def)
  moreover have "bit_at (inode_bitmap s3) k \<longleftrightarrow> bit_at (inode_bitmap s) k \<and> k \<noteq> unat n" if "k < 4096" for k
    using bit_at_set [OF b, of k] that by (simp add: s3_def s2_def)
  ultimately have "open_inodes s3 = ps \<and> block_bitmap s3 = block_bitmap s \<and>
      (\<forall>k < 4096. bit_at (inode_bitmap s3) k \<longleftrightarrow> bit_at (inode_bitmap s) k \<and> k \<noteq> unat n) \<and>
      slot s3 n = replicate 76 0 \<and> (\<forall>m. m \<noteq> n \<longrightarrow> slot s3 m = slot s m) \<and>
      (\<forall>x. unat (data_start_lba (sb s)) \<le> unat x \<longrightarrow> data s3 x = data s x)"
    using sl(1,2) fr by (simp add: s3_def s2_def)
  moreover have "heap_alloc ((wdata md1 s)\<lparr>inode_bitmap := b\<rparr>) = (heap s (heap_cnt s), s2)"
    by (simp add: heap_alloc_def s2_def)
  ultimately show ?thesis using b sync md(1) close assms(4) by (intro exI [of _ s3]) (simp add: release_number_def)
qed

section \<open>Properties\<close>

text \<open>A mounted partition with the root directory (inode 0, one block) and a file of one block
  (inode 1).\<close>

definition inode0 :: "u32 \<Rightarrow> u32 \<Rightarrow> u32 \<Rightarrow> inode" where
  "inode0 n sz blk = \<lparr>i_no = n, i_size = sz, i_open_cnts = 0, write_deny = 0, i_sectors = blk # replicate 12 0\<rparr>"

definition fs0_media :: "u32 \<Rightarrow> u8 list" where
  "fs0_media = (\<lambda>_. replicate 512 0)
     (2056 := inode_bytes (inode0 0 72 2664) @ inode_bytes (inode0 1 3 2665) @ replicate 360 0,
      2664 := [0x2e] @ replicate 15 0 @ words_bytes [0, 2] @ [0x2e, 0x2e] @ replicate 14 0 @ words_bytes [0, 2] @
              [0x66] @ replicate 15 0 @ words_bytes [1, 1] @ replicate 440 0,
      2665 := [0x61, 0x62, 0x63] @ replicate 509 0)"

definition fs0 :: fsys where
  "fs0 = \<lparr>channels = \<lambda>c. \<lparr>port_base = 0x1f0, irq_no = 0x2e + c, expecting_intr = False, disk_done = 0,
       reg_status = \<lambda>_. 0x48, reg_cmd = None, media = \<lambda>_. fs0_media, identity = \<lambda>_. replicate 512 0\<rparr>,
     part = \<lparr>start_lba = 2048, sec_cnt = 20000, my_disk = hd0, part_name = [0x73, 0x64, 0x62, 0x31]\<rparr>,
     sb = \<lparr>magic = 0x19590318, sb_sec_cnt = 20000, inode_cnt = 4096, part_lba_base = 2048,
       block_bitmap_lba = 2050, block_bitmap_sects = 5, inode_bitmap_lba = 2055, inode_bitmap_sects = 1,
       inode_table_lba = 2056, inode_table_sects = 608, data_start_lba = 2664, root_inode_no = 0,
       dir_entry_size = 24, pad = replicate 460 0\<rparr>,
     block_bitmap = \<lparr>btmp_bytes_len = 2560, bits = \<lambda>i. if i = 0 then 3 else if i < 2423 then 0 else 0xff\<rparr>,
     inode_bitmap = \<lparr>btmp_bytes_len = 512, bits = (\<lambda>_. 0)(0 := 3)\<rparr>,
     open_inodes = [0xc0200000], inodes = \<lambda>_. (inode0 0 72 2664)\<lparr>i_open_cnts := 1\<rparr>,
     dirs = \<lambda>_. \<lparr>dir_inode = 0, dir_pos = 0, dir_buf = replicate 512 0\<rparr>,
     root_dir = \<lparr>dir_inode = 0xc0200000, dir_pos = 0, dir_buf = replicate 512 0\<rparr>,
     file_table = replicate 32 \<lparr>fd_pos = 0, fd_flag = 0, fd_inode = 0\<rparr>,
     fd_table = [0, 1, 2] @ replicate 5 (-1), cwd_inode_nr = 0,
     heap = \<lambda>n. 0xc0200400 + of_nat n, heap_cnt = 0\<rparr>"

lemma inode0_sectors [simp]: "length (i_sectors (inode0 n z b)) = 13" "i_no (inode0 n z b) = n"
  by (simp_all add: inode0_def)

lemma data_fs0: "data fs0 = fs0_media"
  by (simp add: data_def disk_data_def get_channel_def fs0_def the_disk_def)

lemma length_fs0_media: "length (fs0_media x) = 512"
  by (simp add: fs0_media_def)

lemma layout_fs0: "layout_ok fs0"
proof -
  have "fs_ready fs0"
    using length_fs0_media
    by (simp add: fs_ready_def ide_ready_def the_disk_def get_channel_def disk_data_def fs0_def hd0_def
        busy_wait_at_once BIT_STAT_BSY_def BIT_STAT_DRQ_def)
  then show ?thesis by (simp add: layout_ok_def fs0_def bitmap_ok_def nbits_def)
qed

lemma slot_fs0: "slot fs0 1 = inode_bytes (inode0 1 3 2665)"
proof -
  have loc: "inode_locate 1 fs0 = Some \<lparr>two_sec = False, sec_lba = 2056, off_size = 76\<rparr>"
    by (simp add: inode_locate_def sizeof_inode_def fs0_def)
  have "get_at 76 76 (fs0_media 2056) = Some (inode_bytes (inode0 1 3 2665))"
    by (simp add: fs0_media_def get_at_def)
  moreover have "fs_ready fs0" using layout_fs0 by (simp add: layout_ok_def)
  ultimately show ?thesis using slot_read [OF _ _ loc] by (simp add: data_fs0)
qed

text \<open>Property C19: an inode that \<^verbatim>\<open>inode_sync\<close> writes to the inode table is what \<^verbatim>\<open>inode_open\<close> reads
  back, with an open count of one and writing allowed, also when the slot crosses a sector boundary,
  and the slots of all other inodes keep their bytes. This holds for the numbers below 256.\<close>

theorem inode_sync_open:
  assumes "table_ok s" "i_no i < 256" "length (i_sectors i) = 13" "1024 \<le> io_len"
    "i_no i \<notin> (\<lambda>p. i_no (inodes s p)) ` set (open_inodes s)"
    "heap s (heap_cnt s) \<noteq> 0" "heap s (Suc (heap_cnt s)) \<noteq> 0"
  shows "\<exists>s1 s2 p. inode_sync io_len i s = Some s1 \<and> (\<forall>m. m \<noteq> i_no i \<longrightarrow> slot s1 m = slot s m) \<and>
    inode_open (i_no i) s1 = Some (p, s2) \<and> inodes s2 p = i\<lparr>i_open_cnts := 1, write_deny := 0\<rparr> \<and>
    open_inodes s2 = p # open_inodes s"
proof -
  have u: "unat (i_no i) < 256" using assms(2) by (simp add: word_less_nat_alt)
  then have n: "of_nat (unat (i_no i) mod 256) = i_no i" and lt: "i_no i < 4096"
    by (simp_all add: word_less_nat_alt)
  obtain md where md: "inode_sync io_len i s = Some (wdata md s)"
    "slot_stored (i_no i) (inode_bytes (pure_inode i)) s md"
    using inode_sync_ok [OF assms(1,3,4)] n by auto
  have len: "length (inode_bytes (pure_inode i)) = 76" using assms(3) by (simp add: pure_inode_def)
  note sl = slot_stored_slots [OF md(2) table_okD(1) [OF assms(1)] lt len]
  have dec: "(bytes_inode (inode_bytes (pure_inode i)))\<lparr>i_open_cnts := 1\<rparr> = i\<lparr>i_open_cnts := 1, write_deny := 0\<rparr>"
    using assms(3) by (simp add: pure_inode_def)
  have "inode_open (i_no i) (wdata md s) = Some (heap s (heap_cnt s),
      (wdata md s)\<lparr>open_inodes := heap s (heap_cnt s) # open_inodes s, heap_cnt := heap_cnt s + 2,
        inodes := (inodes s)(heap s (heap_cnt s) := i\<lparr>i_open_cnts := 1, write_deny := 0\<rparr>)\<rparr>)"
    using inode_open_disk [OF sl(3) [OF assms(1)] lt] assms(5-7) sl(1) dec by simp
  with md(1) sl(2) show ?thesis by simp
qed

theorem inode_sync_open_witness:
  "\<exists>s1 s2 p. inode_sync 1024 (inode0 6 10 2700) fs0 = Some s1 \<and>
    (\<forall>m. m \<noteq> i_no (inode0 6 10 2700) \<longrightarrow> slot s1 m = slot fs0 m) \<and>
    inode_open (i_no (inode0 6 10 2700)) s1 = Some (p, s2) \<and>
    inodes s2 p = (inode0 6 10 2700)\<lparr>i_open_cnts := 1, write_deny := 0\<rparr> \<and> open_inodes s2 = p # open_inodes fs0"
proof (rule inode_sync_open)
  show "table_ok fs0" by (rule layout_table [OF layout_fs0])
qed (simp_all add: fs0_def)

text \<open>Property C20: an inode number of 256 or more is stored in the slot of the number modulo 256,
  because \<^verbatim>\<open>inode_sync\<close> copies the number to a \<^verbatim>\<open>uint8_t\<close>. The inode in that slot is overwritten and
  the inode's own slot keeps its old bytes.\<close>

theorem inode_sync_truncates:
  assumes "table_ok s" "256 \<le> i_no i" "length (i_sectors i) = 13" "1024 \<le> io_len"
  shows "\<exists>s'. inode_sync io_len i s = Some s' \<and> slot s' (i_no i) = slot s (i_no i) \<and>
    slot s' (of_nat (unat (i_no i) mod 256)) = inode_bytes (pure_inode i)"
proof -
  let ?n = "of_nat (unat (i_no i) mod 256) :: u32"
  obtain md where md: "inode_sync io_len i s = Some (wdata md s)" "slot_stored ?n (inode_bytes (pure_inode i)) s md"
    using inode_sync_ok [OF assms(1,3,4)] by auto
  have un: "unat ?n = unat (i_no i) mod 256" by (intro unat_of_nat_lt) (simp add: less_trans [of _ 256])
  then have lt: "?n < 4096" by (simp add: word_less_nat_alt less_trans [of _ 256])
  have ne: "i_no i \<noteq> ?n"
  proof
    assume "i_no i = ?n"
    with un have "unat (i_no i) < 256" by (metis mod_less_divisor zero_less_numeral)
    with assms(2) show False by (simp add: word_le_nat_alt)
  qed
  have len: "length (inode_bytes (pure_inode i)) = 76" using assms(3) by (simp add: pure_inode_def)
  note sl = slot_stored_slots [OF md(2) table_okD(1) [OF assms(1)] lt len]
  from md(1) sl(1) sl(2) [OF ne] show ?thesis by blast
qed

theorem inode_sync_truncates_witness:
  "\<exists>s'. inode_sync 1024 (inode0 257 10 2700) fs0 = Some s' \<and>
    slot s' (i_no (inode0 257 10 2700)) = slot fs0 (i_no (inode0 257 10 2700)) \<and>
    slot s' (of_nat (unat (i_no (inode0 257 10 2700)) mod 256)) = inode_bytes (pure_inode (inode0 257 10 2700))"
  by (rule inode_sync_truncates [OF layout_table [OF layout_fs0]]) simp_all

text \<open>Property C21: open inodes are shared and counted. Opening an inode that is open already returns
  the same object with a count one higher, and closing it again restores the state. Opening an inode
  from the disk and closing it leaves the queue of open inodes as it was.\<close>

theorem inode_open_close:
  assumes "table_ok s" "inj_on (\<lambda>p. i_no (inodes s p)) (set (open_inodes s))"
    "\<forall>p \<in> set (open_inodes s). p \<noteq> 0 \<and> i_open_cnts (inodes s p) \<noteq> -1 \<and> i_open_cnts (inodes s p) \<noteq> 0"
    "n < 4096" "heap s (heap_cnt s) \<noteq> 0" "heap s (Suc (heap_cnt s)) \<noteq> 0"
  shows "\<exists>p s1 s2. inode_open n s = Some (p, s1) \<and> inode_close p s1 = Some s2 \<and>
    open_inodes s2 = open_inodes s \<and>
    (n \<in> (\<lambda>p. i_no (inodes s p)) ` set (open_inodes s) \<longrightarrow>
       p \<in> set (open_inodes s) \<and> i_no (inodes s p) = n \<and> s2 = s)"
proof (cases "n \<in> (\<lambda>p. i_no (inodes s p)) ` set (open_inodes s)")
  case True
  then obtain p where p: "p \<in> set (open_inodes s)" "n = i_no (inodes s p)" by blast
  let ?s1 = "upd_inode p (\<lambda>i. i\<lparr>i_open_cnts := i_open_cnts i + 1\<rparr>) s"
  have "inode_open n s = Some (p, ?s1)" using inode_open_shared [OF p(1) assms(2)] p(2) by simp
  moreover have "inode_close p ?s1 = Some s"
    using assms(3) p(1) by (simp add: inode_close_def upd_inode_def)
  ultimately show ?thesis using p by blast
next
  case False
  note o = inode_open_disk [OF assms(1,4) False assms(5,6)]
  from o assms(5) show ?thesis by (simp add: inode_close_def upd_inode_def False)
qed

theorem inode_open_close_witness:
  "\<exists>p s1 s2. inode_open 1 fs0 = Some (p, s1) \<and> inode_close p s1 = Some s2 \<and> open_inodes s2 = open_inodes fs0 \<and>
    (1 \<in> (\<lambda>p. i_no (inodes fs0 p)) ` set (open_inodes fs0) \<longrightarrow>
       p \<in> set (open_inodes fs0) \<and> i_no (inodes fs0 p) = 1 \<and> s2 = fs0)"
  by (rule inode_open_close [OF layout_table [OF layout_fs0]]) (simp_all add: fs0_def)

text \<open>Property C22: releasing an inode clears the bits of exactly the blocks it owns, direct, indirect
  and the table of indirect blocks, clears its bit in the inode bitmap and its slot in the inode table,
  and changes no other bit, no other slot and no sector of the data area.\<close>

theorem inode_release_frees:
  assumes "layout_ok s" "n < 4096" "i_no (bytes_inode (slot s n)) = n"
    "n \<notin> (\<lambda>p. i_no (inodes s p)) ` set (open_inodes s)"
    "\<forall>b \<in> owned_blocks s (bytes_inode (slot s n)). block_ok s b"
    "\<forall>k < 3. heap s (heap_cnt s + k) \<noteq> 0"
  shows "\<exists>s'. inode_release n s = Some s' \<and> open_inodes s' = open_inodes s \<and>
    released s n (bytes_inode (slot s n)) s'"
proof -
  let ?p = "heap s (heap_cnt s)" and ?i = "bytes_inode (slot s n)"
  define s1 where "s1 = s\<lparr>open_inodes := ?p # open_inodes s, heap_cnt := heap_cnt s + 2,
      inodes := (inodes s)(?p := ?i\<lparr>i_open_cnts := 1\<rparr>)\<rparr>"
  have h: "?p \<noteq> 0" "heap s (Suc (heap_cnt s)) \<noteq> 0" "heap s (heap_cnt s + 2) \<noteq> 0"
    using assms(6) [rule_format, of 0] assms(6) [rule_format, of 1] assms(6) [rule_format, of 2] by simp_all
  have op: "inode_open n s = Some (?p, s1)"
    unfolding s1_def by (rule inode_open_disk [OF layout_table [OF assms(1)] assms(2,4) h(1,2)])
  have ok1: "layout_ok s1" using assms(1) by (simp add: s1_def layout_ok_def)
  have own: "owned_blocks s1 (inodes s1 ?p) = owned_blocks s ?i" "blk_idx s1 = blk_idx s"
    by (simp_all add: owned_blocks_def s1_def blk_idx_def fun_eq_iff)
  have "\<forall>b \<in> owned_blocks s1 (inodes s1 ?p). block_ok s1 b"
    using assms(5) unfolding own(1) by (simp add: block_ok_def blk_idx_def s1_def)
  from release_all_blocks [OF ok1 this] obtain ab s1' s2 where
    blocks: "release_table (inodes s1 ?p) s1 = Some (ab, s1')" "release_blocks ab s1' = Some s2"
    and cl: "bits_cleared s1 (blk_idx s ` owned_blocks s ?i) s2"
    unfolding own by blast
  note fr = bits_cleared_frame [OF cl]
  from inode_release_tail [OF fr(1) assms(2) h(1), of "open_inodes s"] obtain s3 where
    s3: "release_number n ?p s2 = Some s3" "open_inodes s3 = open_inodes s" "block_bitmap s3 = block_bitmap s2"
      "\<forall>k < 4096. bit_at (inode_bitmap s3) k \<longleftrightarrow> bit_at (inode_bitmap s2) k \<and> k \<noteq> unat n"
      "slot s3 n = replicate 76 0" "\<forall>m. m \<noteq> n \<longrightarrow> slot s3 m = slot s2 m"
      "\<forall>x. unat (data_start_lba (sb s2)) \<le> unat x \<longrightarrow> data s3 x = data s2 x"
    using fr h(3) by (auto simp: s1_def)
  have dat: "data s2 x = data s x" if "unat (inode_bitmap_lba (sb s)) \<le> unat x" for x
    using fr(11) [of x] that by (simp add: s1_def)
  have "slot s2 m = slot s m" for m
    using dat assms(1) fr(2) by (intro slot_frame [OF _ _ layout_table [OF assms(1)]]) (simp_all add: s1_def layout_ok_def)
  then have "released s n ?i s3"
    using s3 fr(2,6,9,12) dat assms(1) by (simp add: released_def s1_def layout_ok_def)
  moreover have "i_no (inodes s1 ?p) = n" using assms(3) by (simp add: s1_def)
  then have "inode_release n s = Some s3" using op blocks s3(1) by (simp add: inode_release_def)
  ultimately show ?thesis using s3(2) by blast
qed

theorem inode_release_frees_witness:
  "\<exists>s'. inode_release 1 fs0 = Some s' \<and> open_inodes s' = open_inodes fs0 \<and>
    released fs0 1 (bytes_inode (slot fs0 1)) s'"
proof (rule inode_release_frees [OF layout_fs0])
  have "i_sectors (inode0 1 3 2665) = 2665 # replicate 12 0" by (simp add: inode0_def)
  then have "owned_blocks fs0 (inode0 1 3 2665) = {2665}"
    by (auto simp: owned_blocks_def)
  then show "\<forall>b \<in> owned_blocks fs0 (bytes_inode (slot fs0 1)). block_ok fs0 b"
    by (simp add: slot_fs0 block_ok_def blk_idx_def nbits_def) (simp add: fs0_def)
qed (simp_all add: slot_fs0, simp_all add: fs0_def numeral_3_eq_3 less_Suc_eq)

text \<open>Remark: setting a bit of the block bitmap and synchronising it keeps the copy on the disk
  equal to the bitmap in memory, and writes no sector outside the bitmap's area.\<close>

theorem bitmap_sync_keeps_copy:
  assumes "layout_ok s" "map_on_disk (block_bitmap s) (block_bitmap_lba (sb s)) (data s)"
    "unat i < nbits (block_bitmap s)" "v = 0 \<or> v = 1"
  shows "\<exists>b s'. bitmap_set (block_bitmap s) i v = Some b \<and>
    bitmap_sync i BLOCK_BITMAP (s\<lparr>block_bitmap := b\<rparr>) = Some s' \<and>
    map_on_disk b (block_bitmap_lba (sb s)) (data s') \<and>
    (\<forall>x. unat x < unat (block_bitmap_lba (sb s)) \<or> unat (inode_bitmap_lba (sb s)) \<le> unat x \<longrightarrow> data s' x = data s x)"
proof -
  obtain b where b: "bitmap_set (block_bitmap s) i v = Some b" using bitmap_set_returns [OF assms(4)] by blast
  have ok: "layout_ok (s\<lparr>block_bitmap := b\<rparr>)"
    using layout_ok_update [OF assms(1) b, of "data s"] assms(1) by (simp add: layout_ok_def)
  have "unat i < nbits b" using assms(3) bitmap_set_nbits [OF b] by simp
  note sync = bitmap_sync_block [OF ok, simplified, OF this]
  have "nbits (block_bitmap s) < 2 ^ 31" using bitmap_ok_nbits assms(1) by (simp add: layout_ok_def)
  from map_on_disk_sync [OF assms(2) b this] b sync(1)
  show ?thesis using sync(2,3) assms(1) by (auto simp: layout_ok_def)
qed

lemma zero_map_on_disk:
  "map_on_disk \<lparr>btmp_bytes_len = 2560, bits = \<lambda>_. 0\<rparr> 2050 fs0_media"
  unfolding map_on_disk_def
proof (intro allI impI)
  fix k :: nat assume "4096 * k < nbits \<lparr>btmp_bytes_len = 2560, bits = \<lambda>_. 0\<rparr>"
  then have "k = 0 \<or> k = 1 \<or> k = 2 \<or> k = 3 \<or> k = 4" by (simp add: nbits_def) linarith
  then have "fs0_media (2050 + of_nat k) = replicate 512 0"
    by (elim disjE) (simp_all add: fs0_media_def)
  then show "fs0_media (2050 + of_nat k) =
      bitmap_sector \<lparr>btmp_bytes_len = 2560, bits = \<lambda>_. 0\<rparr> (of_nat (512 * k))"
    by (simp add: bitmap_sector_def map_replicate_const)
qed

theorem bitmap_sync_keeps_copy_witness:
  "\<exists>b s'. bitmap_set \<lparr>btmp_bytes_len = 2560, bits = \<lambda>_. 0\<rparr> 4099 1 = Some b \<and>
    bitmap_sync 4099 BLOCK_BITMAP
      (fs0\<lparr>block_bitmap := \<lparr>btmp_bytes_len = 2560, bits = \<lambda>_. 0\<rparr>, block_bitmap := b\<rparr>) = Some s' \<and>
    map_on_disk b 2050 (data s') \<and>
    (\<forall>x. unat x < unat (2050 :: u32) \<or> unat (2055 :: u32) \<le> unat x \<longrightarrow> data s' x = data fs0 x)"
proof -
  let ?s = "fs0\<lparr>block_bitmap := \<lparr>btmp_bytes_len = 2560, bits = \<lambda>_. 0\<rparr>\<rparr>"
  have ok: "layout_ok ?s"
    using layout_fs0 by (simp add: layout_ok_def bitmap_ok_def nbits_def) (simp add: fs0_def)
  have sb: "block_bitmap_lba (sb fs0) = 2050" "inode_bitmap_lba (sb fs0) = 2055" by (simp_all add: fs0_def)
  have "map_on_disk (block_bitmap ?s) (block_bitmap_lba (sb ?s)) (data ?s)"
    using zero_map_on_disk by (simp add: data_fs0 sb)
  from bitmap_sync_keeps_copy [OF ok this, of 4099 1] show ?thesis by (simp add: sb nbits_def)
qed

section \<open>Allocating blocks\<close>

text \<open>A block whose bit is clear lies on the disk.\<close>

definition free_on_disk :: "'a fsys_scheme \<Rightarrow> bool" where
  "free_on_disk s \<longleftrightarrow>
     (\<forall>n < nbits (block_bitmap s). \<not> bit_at (block_bitmap s) n \<longrightarrow> unat (data_start_lba (sb s)) + n < 163840)"

definition block_used :: "'a fsys_scheme \<Rightarrow> u32 \<Rightarrow> bool" where
  "block_used s lba \<longleftrightarrow> unat (data_start_lba (sb s)) \<le> unat lba \<and> unat lba < 163840 \<and>
     blk_idx s lba < nbits (block_bitmap s) \<and> bit_at (block_bitmap s) (blk_idx s lba)"

text \<open>The effect of allocating a block and writing the changed sector of the bitmap: a block \<open>lba\<close> of
  the data area that was free becomes used, and nothing else changes outside the bitmap.\<close>

definition block_taken :: "'a fsys_scheme \<Rightarrow> u32 \<Rightarrow> 'a fsys_scheme \<Rightarrow> bool" where
  "block_taken s lba s' \<longleftrightarrow>
     (\<exists>md b. s' = (wdata md s)\<lparr>block_bitmap := b\<rparr> \<and> layout_ok s' \<and> nbits b = nbits (block_bitmap s) \<and>
        \<not> bit_at (block_bitmap s) (blk_idx s lba) \<and> blk_idx s lba < nbits b \<and>
        unat lba = unat (data_start_lba (sb s)) + blk_idx s lba \<and> unat lba < 163840 \<and>
        (\<forall>n < nbits b. bit_at b n \<longleftrightarrow> bit_at (block_bitmap s) n \<or> n = blk_idx s lba) \<and>
        (\<forall>x. unat x < unat (block_bitmap_lba (sb s)) \<or> unat (inode_bitmap_lba (sb s)) \<le> unat x \<longrightarrow> md x = data s x))"

lemma block_alloc_sync:
  assumes "layout_ok s" "free_on_disk s" "\<exists>n < nbits (block_bitmap s). \<not> bit_at (block_bitmap s) n"
  obtains lba s1 s2 where "block_bitmap_alloc s = Some (lba, s1)" "lba \<noteq> -1" "lba - data_start_lba (sb s) \<noteq> -1"
    "sb s1 = sb s" "bitmap_sync (lba - data_start_lba (sb s)) BLOCK_BITMAP s1 = Some s2" "block_taken s lba s2"
    "\<And>h. bitmap_sync (lba - data_start_lba (sb s)) BLOCK_BITMAP (s1\<lparr>inodes := h\<rparr>) = Some (s2\<lparr>inodes := h\<rparr>)"
    "inodes s1 = inodes s" "block_taken s lba s1"
proof -
  have okb: "bitmap_ok (block_bitmap s)" using assms(1) by (simp add: layout_ok_def)
  from bitmap_alloc_returns [OF okb] assms(3) obtain i b where ib: "bitmap_alloc (block_bitmap s) = Some (i, b)" by blast
  note d = bitmap_alloc_SomeD [OF okb ib]
  have n31: "nbits (block_bitmap s) < 2 ^ 31" by (rule bitmap_ok_nbits [OF okb])
  have scan: "bitmap_scan (block_bitmap s) 1 = Some i" using ib d by (auto simp: bitmap_alloc_def bind_eq_Some_conv)
  have i1: "i \<noteq> -1" using d n31 by (auto simp: unat_minus_1)
  define lba where "lba = data_start_lba (sb s) + i"
  have u: "unat (data_start_lba (sb s)) + unat i < 163840" using assms(2) d by (simp add: free_on_disk_def)
  have ulba: "unat lba = unat (data_start_lba (sb s)) + unat i"
    unfolding lba_def using u by (subst unat_plus_lt) simp_all
  have idx: "lba - data_start_lba (sb s) = i" "blk_idx s lba = unat i" by (simp_all add: lba_def blk_idx_def)
  have l1: "lba \<noteq> -1" using ulba u by (auto simp: unat_minus_1)
  define s1 where "s1 = s\<lparr>block_bitmap := b\<rparr>"
  have nb: "nbits b = nbits (block_bitmap s)" using bitmap_set_nbits d by blast
  have ok1: "layout_ok s1"
    using layout_ok_update [OF assms(1) conjunct1 [OF d], of "data s"] assms(1) by (simp add: layout_ok_def s1_def)
  have ib1: "unat i < nbits (block_bitmap s1)" using d nb by (simp add: s1_def)
  define md where "md = (data s)(block_bitmap_lba (sb s) + i div 4096 := bitmap_sector b (i div 4096 * 512))"
  have sync: "bitmap_sync i BLOCK_BITMAP s1 = Some ((wdata md s)\<lparr>block_bitmap := b\<rparr>)"
    "unat (block_bitmap_lba (sb s) + i div 4096) = unat (block_bitmap_lba (sb s)) + unat i div 4096"
    "unat i div 4096 < unat (block_bitmap_sects (sb s))"
    using bitmap_sync_block [OF ok1 ib1] by (simp_all add: s1_def md_def)
  have len: "length (md x) = 512" for x using assms(1) by (simp add: md_def layout_ok_def)
  have "block_taken s lba ((wdata md s)\<lparr>block_bitmap := b\<rparr>)"
    unfolding block_taken_def
  proof (intro exI conjI)
    show "layout_ok ((wdata md s)\<lparr>block_bitmap := b\<rparr>)" by (rule layout_ok_update [OF assms(1) _ len]) (use d in blast)
    show "\<forall>n < nbits b. bit_at b n \<longleftrightarrow> bit_at (block_bitmap s) n \<or> n = blk_idx s lba"
      using bit_at_set [of "block_bitmap s" i 1 b] d n31 nb by (simp add: idx)
    show "\<forall>x. unat x < unat (block_bitmap_lba (sb s)) \<or> unat (inode_bitmap_lba (sb s)) \<le> unat x \<longrightarrow> md x = data s x"
      using sync(2,3) assms(1) by (auto simp: md_def layout_ok_def)
  qed (use d nb idx ulba u in simp_all)
  moreover have "block_taken s lba s1"
    unfolding block_taken_def
  proof (intro exI conjI)
    show "s1 = (wdata (data s) s)\<lparr>block_bitmap := b\<rparr>" by (simp add: s1_def)
    show "\<forall>n < nbits b. bit_at b n \<longleftrightarrow> bit_at (block_bitmap s) n \<or> n = blk_idx s lba"
      using bit_at_set [of "block_bitmap s" i 1 b] d n31 nb by (simp add: idx)
  qed (use d nb idx ulba u ok1 in simp_all)
  moreover have "block_bitmap_alloc s = Some (lba, s1)"
    using scan d i1 by (simp add: block_bitmap_alloc_def s1_def lba_def)
  moreover have "bitmap_sync i BLOCK_BITMAP (s1\<lparr>inodes := h\<rparr>) = Some ((wdata md s)\<lparr>block_bitmap := b, inodes := h\<rparr>)" for h
  proof -
    have "layout_ok (s1\<lparr>inodes := h\<rparr>)" using ok1 by (simp add: layout_ok_def)
    from bitmap_sync_block(1) [OF this, of i] ib1 show ?thesis by (simp add: s1_def md_def)
  qed
  ultimately show thesis using that [of lba s1 "(wdata md s)\<lparr>block_bitmap := b\<rparr>"] l1 i1 idx sync(1) by (simp add: s1_def)
qed

lemma block_taken_frame:
  assumes "block_taken s lba s'"
  shows "layout_ok s'" "sb s' = sb s" "part s' = part s" "inodes s' = inodes s" "open_inodes s' = open_inodes s"
    "inode_bitmap s' = inode_bitmap s" "heap s' = heap s" "heap_cnt s' = heap_cnt s"
    "nbits (block_bitmap s') = nbits (block_bitmap s)" "dirs s' = dirs s" "root_dir s' = root_dir s"
    "file_table s' = file_table s" "fd_table s' = fd_table s" "cwd_inode_nr s' = cwd_inode_nr s"
    "unat (inode_bitmap_lba (sb s)) \<le> unat x \<Longrightarrow> data s' x = data s x"
    "unat (data_start_lba (sb s)) \<le> unat lba" "unat lba < 163840" "\<not> block_used s lba"
    "block_used s' x \<longleftrightarrow> block_used s x \<or> x = lba"
    "free_on_disk s \<Longrightarrow> free_on_disk s'"
proof -
  have inj: "blk_idx s x = blk_idx s lba \<longleftrightarrow> x = lba" for x
    unfolding blk_idx_def by (metis diff_add_cancel word_unat_eq_iff)
  have idx: "blk_idx s' = blk_idx s" using assms by (auto simp: block_taken_def blk_idx_def fun_eq_iff)
  show "block_used s' x \<longleftrightarrow> block_used s x \<or> x = lba"
    using assms inj [of x] unfolding block_used_def idx by (auto simp: block_taken_def)
  show "free_on_disk s'" if "free_on_disk s" using assms that by (auto simp: block_taken_def free_on_disk_def)
qed (use assms in \<open>auto simp: block_taken_def block_used_def blk_idx_def\<close>)

end
