(* ===== verification/Kdir.thy ===== *)
theory Kdir
  imports Kinode
begin

text \<open>
  Directories (\<^verbatim>\<open>src/fs/dir.c\<close>, \<^verbatim>\<open>src/inc/dir.h\<close>). A directory's blocks are sectors of 24-byte
  entries: sixteen characters of name, an inode number and a file type, 0 for a free entry. A
  \<^verbatim>\<open>struct dir *\<close> is the address of \<^verbatim>\<open>root_dir\<close> or an address on the heap.

  The theory shows what a search finds, that an entry written with \<^verbatim>\<open>sync_dir_entry\<close> is found
  afterwards and keeps the other entries, that \<^verbatim>\<open>delete_dir_entry\<close> removes exactly its entry, that it
  does not return when the last entry of an indirect block goes.
\<close>

section \<open>Entries\<close>

definition FT_UNKNOWN :: u32 where "FT_UNKNOWN = 0"
definition FT_REGULAR :: u32 where "FT_REGULAR = 1"
definition FT_DIRECTORY :: u32 where "FT_DIRECTORY = 2"
definition MAX_FILE_NAME_LEN :: nat where "MAX_FILE_NAME_LEN = 16"

record dir_entry =
  filename :: "u8 list"
  de_i_no :: u32
  f_type :: u32

definition dir_entry_bytes :: "dir_entry \<Rightarrow> u8 list" where
  "dir_entry_bytes e = filename e @ words_bytes [de_i_no e, f_type e]"

definition bytes_dir_entry :: "u8 list \<Rightarrow> dir_entry" where
  "bytes_dir_entry bs =
     \<lparr>filename = take 16 bs, de_i_no = bytes_word (drop 16 bs), f_type = bytes_word (drop 20 bs)\<rparr>"

text \<open>Entry \<open>k\<close> of a sector, its name as \<^verbatim>\<open>strcmp\<close> reads it (up to the first NUL byte, which may lie
  behind the sixteen characters), and its type.\<close>

definition entry_at :: "u8 list \<Rightarrow> nat \<Rightarrow> dir_entry" where
  "entry_at buf k = bytes_dir_entry (take 24 (drop (24 * k) buf))"

definition name_at :: "u8 list \<Rightarrow> nat \<Rightarrow> u8 list" where
  "name_at buf k = takeWhile (\<lambda>c. c \<noteq> 0) (drop (24 * k) buf)"

datatype dir_ptr = Root_dir | Heap_dir u32

definition get_dir :: "dir_ptr \<Rightarrow> 'a fsys_scheme \<Rightarrow> dir" where
  "get_dir d s = (case d of Root_dir \<Rightarrow> root_dir s | Heap_dir p \<Rightarrow> dirs s p)"

definition put_dir :: "dir_ptr \<Rightarrow> dir \<Rightarrow> 'a fsys_scheme \<Rightarrow> 'a fsys_scheme" where
  "put_dir d v s = (case d of Root_dir \<Rightarrow> s\<lparr>root_dir := v\<rparr> | Heap_dir p \<Rightarrow> s\<lparr>dirs := (dirs s)(p := v)\<rparr>)"

definition the_dir_inode :: "dir_ptr \<Rightarrow> 'a fsys_scheme \<Rightarrow> inode" where
  "the_dir_inode d s = inodes s (dir_inode (get_dir d s))"

definition entries_per_sec :: "'a fsys_scheme \<Rightarrow> nat" where
  "entries_per_sec s = unat (512 div dir_entry_size (sb s))"

section \<open>Opening, searching, closing\<close>

definition open_root_dir :: "'a fsys_scheme \<Rightarrow> 'a fsys_scheme option" where
  "open_root_dir s =
     do { (p, s) \<leftarrow> inode_open (root_inode_no (sb s)) s;
          Some (s\<lparr>root_dir := (root_dir s)\<lparr>dir_inode := p, dir_pos := 0\<rparr>\<rparr>) }"

definition dir_open :: "u32 \<Rightarrow> 'a fsys_scheme \<Rightarrow> (dir_ptr \<times> 'a fsys_scheme) option" where
  "dir_open inode_no s =
     do { let (pdir, s) = heap_alloc s;
          (p, s) \<leftarrow> inode_open inode_no s;
          ASSERT (pdir \<noteq> 0);
          Some (Heap_dir pdir, s\<lparr>dirs := (dirs s)(pdir := (dirs s pdir)\<lparr>dir_inode := p, dir_pos := 0\<rparr>)\<rparr>) }"

text \<open>The block addresses of an inode: twelve direct ones and the entries of the indirect table. The
  array is cleared before it is filled.\<close>

definition all_blocks :: "inode \<Rightarrow> 'a fsys_scheme \<Rightarrow> (u32 list \<times> 'a fsys_scheme) option" where
  "all_blocks i s =
     (if i_sectors i ! 12 \<noteq> 0
      then do { (buf, s) \<leftarrow> disk_read (i_sectors i ! 12) 1 s;
                Some (take 12 (i_sectors i) @ bytes_words buf, s) }
      else Some (take 12 (i_sectors i) @ replicate 128 0, s))"

fun search_blocks :: "u8 list \<Rightarrow> u32 list \<Rightarrow> 'a fsys_scheme \<Rightarrow> (dir_entry option \<times> 'a fsys_scheme) option" where
  "search_blocks nm [] s = Some (None, s)"
| "search_blocks nm (b # bs) s =
     (if b = 0 then search_blocks nm bs s
      else do { (buf, s) \<leftarrow> disk_read b 1 s;
                case find (\<lambda>k. name_at buf k = nm) [0..<entries_per_sec s] of
                  Some k \<Rightarrow> Some (Some (entry_at buf k), s)
                | None \<Rightarrow> search_blocks nm bs s })"

definition search_dir_entry :: "dir_ptr \<Rightarrow> u8 list \<Rightarrow> 'a fsys_scheme \<Rightarrow> (dir_entry option \<times> 'a fsys_scheme) option" where
  "search_dir_entry pdir nm s =
     do { let (ab, s) = heap_alloc s;
          if ab = 0 then Some (None, s)
          else do { (blocks, s) \<leftarrow> all_blocks (the_dir_inode pdir s) s;
                    let (buf, s) = heap_alloc s;
                    ASSERT (buf \<noteq> 0);
                    search_blocks nm blocks s } }"

definition dir_close :: "dir_ptr \<Rightarrow> 'a fsys_scheme \<Rightarrow> 'a fsys_scheme option" where
  "dir_close d s =
     (case d of Root_dir \<Rightarrow> Some s
      | Heap_dir p \<Rightarrow> do { s \<leftarrow> inode_close (dir_inode (dirs s p)) s; ASSERT (p \<noteq> 0); Some s })"

section \<open>Writing entries\<close>

definition create_dir_entry :: "u8 list \<Rightarrow> u32 \<Rightarrow> u32 \<Rightarrow> dir_entry \<Rightarrow> dir_entry option" where
  "create_dir_entry nm inode_no file_type p_de =
     do { ASSERT (length nm \<le> MAX_FILE_NAME_LEN);
          fname \<leftarrow> put_at 0 nm (filename p_de);
          Some (p_de\<lparr>filename := fname, de_i_no := inode_no, f_type := file_type\<rparr>) }"

definition set_sector :: "u32 \<Rightarrow> nat \<Rightarrow> u32 \<Rightarrow> 'a fsys_scheme \<Rightarrow> 'a fsys_scheme" where
  "set_sector p k lba s = upd_inode p (\<lambda>i. i\<lparr>i_sectors := (i_sectors i)[k := lba]\<rparr>) s"

text \<open>The new block of a directory whose existing blocks are full. Block 12 first takes a block for
  the table of indirect blocks.\<close>

definition new_dir_block ::
    "u32 \<Rightarrow> u32 list \<Rightarrow> nat \<Rightarrow> 'a fsys_scheme \<Rightarrow> (u32 option \<times> 'a fsys_scheme) option" where
  "new_dir_block p blocks idx s =
     do { (block_lba, s) \<leftarrow> block_bitmap_alloc s;
          if block_lba = -1 then Some (None, s)
          else do {
            let block_bitmap_idx = block_lba - data_start_lba (sb s);
            ASSERT (block_bitmap_idx \<noteq> -1);
            s \<leftarrow> bitmap_sync block_bitmap_idx BLOCK_BITMAP s;
            if idx < 12 then Some (Some block_lba, set_sector p idx block_lba s)
            else if idx = 12
            then do { let s = set_sector p 12 block_lba s;
                      (block_lba2, s) \<leftarrow> block_bitmap_alloc s;
                      if block_lba2 = -1
                      then do { b \<leftarrow> bitmap_set (block_bitmap s) (i_sectors (inodes s p) ! 12 - data_start_lba (sb s)) 0;
                                Some (None, set_sector p 12 0 (s\<lparr>block_bitmap := b\<rparr>)) }
                      else do { let block_bitmap_idx = block_lba2 - data_start_lba (sb s);
                                ASSERT (block_bitmap_idx \<noteq> -1);
                                s \<leftarrow> bitmap_sync block_bitmap_idx BLOCK_BITMAP s;
                                s \<leftarrow> disk_write (i_sectors (inodes s p) ! 12)
                                      (words_bytes (drop 12 (blocks[12 := block_lba2]))) 1 s;
                                Some (Some block_lba2, s) } }
            else do { s \<leftarrow> disk_write (i_sectors (inodes s p) ! 12)
                            (words_bytes (drop 12 (blocks[idx := block_lba]))) 1 s;
                      Some (Some block_lba, s) } } }"

definition grow_dir :: "u32 \<Rightarrow> u32 \<Rightarrow> 'a fsys_scheme \<Rightarrow> 'a fsys_scheme" where
  "grow_dir p n s = upd_inode p (\<lambda>i. i\<lparr>i_size := i_size i + n\<rparr>) s"

fun sync_blocks :: "u32 \<Rightarrow> dir_entry \<Rightarrow> u32 list \<Rightarrow> nat list \<Rightarrow> 'a fsys_scheme \<Rightarrow> (bool \<times> 'a fsys_scheme) option" where
  "sync_blocks p e blocks [] s = Some (False, s)"
| "sync_blocks p e blocks (idx # idxs) s =
     (if blocks ! idx = 0
      then do { (r, s) \<leftarrow> new_dir_block p blocks idx s;
                case r of None \<Rightarrow> Some (False, s)
                | Some lba \<Rightarrow>
                    do { buf \<leftarrow> put_at 0 (dir_entry_bytes e) (replicate 512 0);
                         s \<leftarrow> disk_write lba buf 1 s;
                         Some (True, grow_dir p (dir_entry_size (sb s)) s) } }
      else do { (buf, s) \<leftarrow> disk_read (blocks ! idx) 1 s;
                case find (\<lambda>k. f_type (entry_at buf k) = FT_UNKNOWN) [0..<entries_per_sec s] of
                  Some k \<Rightarrow>
                    do { buf \<leftarrow> put_at (24 * k) (dir_entry_bytes e) buf;
                         s \<leftarrow> disk_write (blocks ! idx) buf 1 s;
                         Some (True, grow_dir p (dir_entry_size (sb s)) s) }
                | None \<Rightarrow> sync_blocks p e blocks idxs s })"

definition sync_dir_entry :: "dir_ptr \<Rightarrow> dir_entry \<Rightarrow> 'a fsys_scheme \<Rightarrow> (bool \<times> 'a fsys_scheme) option" where
  "sync_dir_entry parent_dir e s =
     do { let p = dir_inode (get_dir parent_dir s);
          ASSERT (i_size (inodes s p) mod dir_entry_size (sb s) = 0);
          let blocks = take 12 (i_sectors (inodes s p)) @ replicate 128 0;
          sync_blocks p e blocks [0..<140] s }"

section \<open>Deleting entries\<close>

text \<open>The pass over the entries of one sector: whether the entry \<open>.\<close> is there, how many entries there
  are besides \<open>.\<close> and \<open>..\<close>, and the position of the entry with the wanted number. A second entry
  with that number fails the assertion.\<close>

record del_scan =
  is_dir_first_block :: bool
  dir_entry_cnt :: u8
  dir_entry_found :: "nat option"

fun scan_delete :: "u8 list \<Rightarrow> u32 \<Rightarrow> nat list \<Rightarrow> del_scan \<Rightarrow> del_scan option" where
  "scan_delete buf inode_no [] c = Some c"
| "scan_delete buf inode_no (k # ks) c =
     (if f_type (entry_at buf k) \<noteq> FT_UNKNOWN
      then if name_at buf k = [0x2e] then scan_delete buf inode_no ks (c\<lparr>is_dir_first_block := True\<rparr>)
           else if name_at buf k \<noteq> [0x2e, 0x2e]
           then do { let c = c\<lparr>dir_entry_cnt := dir_entry_cnt c + 1\<rparr>;
                     if de_i_no (entry_at buf k) = inode_no
                     then do { ASSERT (dir_entry_found c = None);
                               scan_delete buf inode_no ks (c\<lparr>dir_entry_found := Some k\<rparr>) }
                     else scan_delete buf inode_no ks c }
           else scan_delete buf inode_no ks c
      else scan_delete buf inode_no ks c)"

text \<open>The sector with the entry has been found. A sector that held only this entry is freed, unless it
  is the first one. For an indirect block the code counts the blocks of the indirect table in a loop
  that never advances (\<^verbatim>\<open>while (indirect_block_idx < 140)\<close> without an increment), so it does not
  return.\<close>

definition drop_entry :: "u32 \<Rightarrow> u32 list \<Rightarrow> nat \<Rightarrow> u8 list \<Rightarrow> del_scan \<Rightarrow> nat \<Rightarrow> 'a fsys_scheme \<Rightarrow> 'a fsys_scheme option" where
  "drop_entry p blocks idx buf c k s =
     do { ASSERT (dir_entry_cnt c \<ge> 1);
          s \<leftarrow> (if dir_entry_cnt c = 1 \<and> \<not> is_dir_first_block c
               then do { s \<leftarrow> block_bitmap_free (blocks ! idx - data_start_lba (sb s)) s;
                         if idx < 12 then Some (set_sector p idx 0 s) else None }
               else do { buf \<leftarrow> put_at (24 * k) (replicate (unat (dir_entry_size (sb s))) 0) buf;
                         disk_write (blocks ! idx) buf 1 s });
          ASSERT (i_size (inodes s p) \<ge> dir_entry_size (sb s));
          let s = upd_inode p (\<lambda>i. i\<lparr>i_size := i_size i - dir_entry_size (sb s)\<rparr>) s;
          inode_sync 1024 (inodes s p) s }"

fun delete_blocks :: "u32 \<Rightarrow> u32 \<Rightarrow> u32 list \<Rightarrow> nat list \<Rightarrow> 'a fsys_scheme \<Rightarrow> (bool \<times> 'a fsys_scheme) option" where
  "delete_blocks p inode_no blocks [] s = Some (False, s)"
| "delete_blocks p inode_no blocks (idx # idxs) s =
     (if blocks ! idx = 0 then delete_blocks p inode_no blocks idxs s
      else do { (buf, s) \<leftarrow> disk_read (blocks ! idx) 1 s;
                c \<leftarrow> scan_delete buf inode_no [0..<entries_per_sec s]
                      \<lparr>is_dir_first_block = False, dir_entry_cnt = 0, dir_entry_found = None\<rparr>;
                case dir_entry_found c of
                  None \<Rightarrow> delete_blocks p inode_no blocks idxs s
                | Some k \<Rightarrow> do { s \<leftarrow> drop_entry p blocks idx buf c k s; Some (True, s) } })"

definition delete_dir_entry :: "dir_ptr \<Rightarrow> u32 \<Rightarrow> 'a fsys_scheme \<Rightarrow> (bool \<times> 'a fsys_scheme) option" where
  "delete_dir_entry pdir inode_no s =
     do { (blocks, s) \<leftarrow> all_blocks (the_dir_inode pdir s) s;
          delete_blocks (dir_inode (get_dir pdir s)) inode_no blocks [0..<140] s }"

section \<open>Reading directories\<close>

text \<open>The pass over the entries of one sector: \<open>pos\<close> counts the bytes of the entries seen so far, and
  the first used entry at or after \<^verbatim>\<open>dir_pos\<close> is returned.\<close>

fun read_entries :: "u8 list \<Rightarrow> u32 \<Rightarrow> u32 \<Rightarrow> nat list \<Rightarrow> u32 \<Rightarrow> (nat option \<times> u32) option" where
  "read_entries buf esz dpos [] pos = Some (None, pos)"
| "read_entries buf esz dpos (k # ks) pos =
     (if f_type (entry_at buf k) \<noteq> 0
      then if pos < dpos then read_entries buf esz dpos ks (pos + esz)
           else do { ASSERT (pos = dpos); Some (Some k, pos) }
      else read_entries buf esz dpos ks pos)"

fun read_blocks :: "dir_ptr \<Rightarrow> u32 list \<Rightarrow> u32 \<Rightarrow> 'a fsys_scheme \<Rightarrow> (dir_entry option \<times> 'a fsys_scheme) option" where
  "read_blocks d [] pos s = Some (None, s)"
| "read_blocks d (b # bs) pos s =
     (if dir_pos (get_dir d s) \<ge> i_size (the_dir_inode d s) then Some (None, s)
      else if b = 0 then read_blocks d bs pos s
      else do { (buf, s) \<leftarrow> disk_read b 1 s;
                let s = put_dir d ((get_dir d s)\<lparr>dir_buf := buf\<rparr>) s;
                let esz = dir_entry_size (sb s);
                (r, pos) \<leftarrow> read_entries buf esz (dir_pos (get_dir d s)) [0..<entries_per_sec s] pos;
                case r of
                  Some k \<Rightarrow> Some (Some (entry_at buf k),
                    put_dir d ((get_dir d s)\<lparr>dir_pos := dir_pos (get_dir d s) + esz\<rparr>) s)
                | None \<Rightarrow> read_blocks d bs pos s })"

definition dir_read :: "dir_ptr \<Rightarrow> 'a fsys_scheme \<Rightarrow> (dir_entry option \<times> 'a fsys_scheme) option" where
  "dir_read d s =
     do { (blocks, s) \<leftarrow> all_blocks (the_dir_inode d s) s;
          let block_cnt = (if i_sectors (the_dir_inode d s) ! 12 \<noteq> 0 then 140 else 12);
          read_blocks d (take block_cnt blocks) 0 s }"

definition dir_is_empty :: "dir_ptr \<Rightarrow> 'a fsys_scheme \<Rightarrow> bool" where
  "dir_is_empty d s = (i_size (the_dir_inode d s) = dir_entry_size (sb s) * 2)"

definition dir_remove :: "dir_ptr \<Rightarrow> dir_ptr \<Rightarrow> 'a fsys_scheme \<Rightarrow> (u32 \<times> 'a fsys_scheme) option" where
  "dir_remove parent_dir child_dir s =
     do { let child = the_dir_inode child_dir s;
          ASSERT (list_all (\<lambda>k. i_sectors child ! k = 0) [1..<13]);
          let (io_buf, s) = heap_alloc s;
          if io_buf = 0 then Some (-1, s)
          else do { (_, s) \<leftarrow> delete_dir_entry parent_dir (i_no child) s;
                    s \<leftarrow> inode_release (i_no child) s;
                    Some (0, s) } }"

section \<open>Directories as maps from names to entries\<close>

text \<open>What \<^verbatim>\<open>search_dir_entry\<close> looks for: the first entry with the name, block by block.\<close>

fun lookup :: "(u32 \<Rightarrow> u8 list) \<Rightarrow> u32 list \<Rightarrow> u8 list \<Rightarrow> dir_entry option" where
  "lookup md [] nm = None"
| "lookup md (b # bs) nm =
     (if b = 0 then lookup md bs nm
      else case find (\<lambda>k. name_at (md b) k = nm) [0..<21] of
             Some k \<Rightarrow> Some (entry_at (md b) k) | None \<Rightarrow> lookup md bs nm)"

definition inode_blocks :: "(u32 \<Rightarrow> u8 list) \<Rightarrow> inode \<Rightarrow> u32 list" where
  "inode_blocks md i = take 12 (i_sectors i) @
     (if i_sectors i ! 12 \<noteq> 0 then bytes_words (md (i_sectors i ! 12)) else replicate 128 0)"

definition dir_map :: "dir_ptr \<Rightarrow> 'a fsys_scheme \<Rightarrow> u8 list \<Rightarrow> dir_entry option" where
  "dir_map d s = lookup (data s) (inode_blocks (data s) (the_dir_inode d s))"

text \<open>Sectors of a directory: the type of every entry is one of the three of the source, and a free
  entry has no name.\<close>

definition dir_sector_ok :: "u8 list \<Rightarrow> bool" where
  "dir_sector_ok buf \<longleftrightarrow> length buf = 512 \<and>
     (\<forall>k < 21. f_type (entry_at buf k) \<le> 2 \<and> (f_type (entry_at buf k) = 0 \<longrightarrow> name_at buf k = []))"

definition raw_at :: "u8 list \<Rightarrow> nat \<Rightarrow> u8 list" where
  "raw_at buf k = take 24 (drop (24 * k) buf)"

lemma entry_at_raw: "entry_at buf k = bytes_dir_entry (raw_at buf k)"
  by (simp add: entry_at_def raw_at_def)

lemma length_raw_at: "length buf = 512 \<Longrightarrow> k < 21 \<Longrightarrow> length (raw_at buf k) = 24"
  by (simp add: raw_at_def)

lemma bytes_word_top_zero:
  assumes "bytes_word [a, b, c, d] \<le> 2"
  shows "d = 0"
proof -
  have "unat (bytes_word [a, b, c, d]) < 2 ^ 8" using assms by (simp add: word_le_nat_alt)
  then have "\<not> bit (bytes_word [a, b, c, d]) (24 + n)" for n by (rule not_bit_unat_less) simp
  then have "\<not> bit d n" if "n < 8" for n
    using that by (auto simp: bit_or_iff bit_push_bit_iff bit_unsigned_iff)
  then show ?thesis by (intro bit_word_eqI) simp
qed

lemma list_of_length_4:
  assumes "length xs = 4"
  obtains a b c d where "xs = [a, b, c, d]"
  using assms by (auto simp: numeral_eq_Suc length_Suc_conv)

text \<open>The name of an entry lies within the 24 bytes of the entry, since its type has a zero byte.\<close>

lemma raw_has_zero:
  assumes "length raw = 24" "f_type (bytes_dir_entry raw) \<le> 2"
  shows "0 \<in> set raw"
proof -
  have "length (drop 20 raw) = 4" using assms(1) by simp
  then obtain a b c d where dr: "drop 20 raw = [a, b, c, d]"
    by (rule list_of_length_4)
  then have "d = 0" using assms(2) bytes_word_top_zero [of a b c d] by (simp add: bytes_dir_entry_def)
  then have "0 \<in> set (drop 20 raw)" using dr by simp
  then show ?thesis by (meson in_set_dropD)
qed

lemma takeWhile_take:
  assumes "x \<in> set (take n xs)" "\<not> P x"
  shows "takeWhile P xs = takeWhile P (take n xs)"
proof -
  have "takeWhile P (take n xs @ drop n xs) = takeWhile P (take n xs)"
    using assms by (rule takeWhile_append1)
  then show ?thesis by simp
qed

lemma name_at_raw:
  assumes "length buf = 512" "k < 21" "f_type (entry_at buf k) \<le> 2"
  shows "name_at buf k = takeWhile (\<lambda>c. c \<noteq> 0) (raw_at buf k)"
proof -
  have "0 \<in> set (raw_at buf k)"
    using raw_has_zero [OF length_raw_at [OF assms(1,2)]] assms(3) by (simp add: entry_at_raw)
  then show ?thesis unfolding name_at_def raw_at_def by (intro takeWhile_take) auto
qed

lemma raw_at_put:
  assumes "length buf = 512" "k < 21" "length bs = 24" "put_at (24 * k) bs buf = Some buf'" "j < 21"
  shows "raw_at buf' j = (if j = k then bs else raw_at buf j)"
proof (cases "j = k")
  case True
  then show ?thesis using get_put_same [OF assms(4)] assms(3) put_at_length [OF assms(4)] assms(1,2)
    by (simp add: get_at_def raw_at_def)
next
  case False
  then have "24 * j + 24 \<le> 24 * k \<or> 24 * k + length bs \<le> 24 * j" using assms(3) by (auto simp: neq_iff)
  from get_put_other [OF assms(4) this] False put_at_length [OF assms(4)] assms(1,5) show ?thesis
    by (simp add: get_at_def raw_at_def)
qed

text \<open>Replacing one entry of a sector.\<close>

lemma sector_put:
  assumes "dir_sector_ok buf" "k < 21" "length bs = 24" "f_type (bytes_dir_entry bs) \<le> 2"
    "f_type (bytes_dir_entry bs) = 0 \<longrightarrow> takeWhile (\<lambda>c. c \<noteq> 0) bs = []"
    "put_at (24 * k) bs buf = Some buf'"
  shows "dir_sector_ok buf'" and "entry_at buf' k = bytes_dir_entry bs"
    and "name_at buf' k = takeWhile (\<lambda>c. c \<noteq> 0) bs"
    and "\<And>j. j < 21 \<Longrightarrow> j \<noteq> k \<Longrightarrow> entry_at buf' j = entry_at buf j \<and> name_at buf' j = name_at buf j"
proof -
  have len: "length buf = 512" "length buf' = 512"
    using assms(1) put_at_length [OF assms(6)] by (simp_all add: dir_sector_ok_def)
  have raw: "raw_at buf' j = (if j = k then bs else raw_at buf j)" if "j < 21" for j
    by (rule raw_at_put [OF len(1) assms(2,3,6) that])
  have ty: "f_type (entry_at buf' j) \<le> 2" if "j < 21" for j
    using raw [OF that] assms(1,4) that by (simp add: entry_at_raw dir_sector_ok_def)
  have nm: "name_at buf' j = takeWhile (\<lambda>c. c \<noteq> 0) (raw_at buf' j)" if "j < 21" for j
    by (rule name_at_raw [OF len(2) that ty [OF that]])
  have nm0: "name_at buf j = takeWhile (\<lambda>c. c \<noteq> 0) (raw_at buf j)" if "j < 21" for j
    using name_at_raw [OF len(1) that] assms(1) that by (simp add: dir_sector_ok_def)
  show k: "entry_at buf' k = bytes_dir_entry bs" "name_at buf' k = takeWhile (\<lambda>c. c \<noteq> 0) bs"
    using raw [OF assms(2)] nm [OF assms(2)] by (simp_all add: entry_at_raw)
  show other: "entry_at buf' j = entry_at buf j \<and> name_at buf' j = name_at buf j" if "j < 21" "j \<noteq> k" for j
    using raw [OF that(1)] nm [OF that(1)] nm0 [OF that(1)] that(2) by (simp add: entry_at_raw)
  show "dir_sector_ok buf'"
    unfolding dir_sector_ok_def
  proof (intro conjI allI impI)
    show "f_type (entry_at buf' j) \<le> 2" if "j < 21" for j by (rule ty [OF that])
    show "name_at buf' j = []" if "j < 21" "f_type (entry_at buf' j) = 0" for j
      using that assms(1,5) k other [OF that(1)] by (cases "j = k") (auto simp: dir_sector_ok_def)
  qed (rule len(2))
qed

subsection \<open>Lookups under updates\<close>

declare upt_rec_numeral [simp del] upt_rec [simp del]

lemma lookup_cong:
  "(\<And>b. b \<in> set bs \<Longrightarrow> b \<noteq> 0 \<Longrightarrow> md' b = md b) \<Longrightarrow> lookup md' bs nm = lookup md bs nm"
  by (induction bs) (auto split: option.splits)

lemma lookup_zeros [simp]: "lookup md (bs @ replicate n 0) nm = lookup md bs nm"
proof (induction bs)
  case Nil
  show ?case by (induction n) simp_all
qed (simp split: option.split)

lemma find_uptD: "find P [0..<n] = Some k \<Longrightarrow> k < n \<and> P k"
  by (auto simp: find_Some_iff)

lemma lookup_None_iff:
  "lookup md bs nm = None \<longleftrightarrow> (\<forall>b \<in> set bs. b \<noteq> 0 \<longrightarrow> (\<forall>k < 21. name_at (md b) k \<noteq> nm))"
  by (induction bs) (auto simp: find_None_iff dest: find_uptD split: option.splits)

lemma find_cong':
  "(\<And>x. x \<in> set xs \<Longrightarrow> P x = Q x) \<Longrightarrow> find P xs = find Q xs"
  by (induction xs) auto

text \<open>Changing entry \<open>k\<close> of one sector does not affect names that it neither had nor gets.\<close>

lemma lookup_other:
  assumes "\<And>j. j < 21 \<Longrightarrow> j \<noteq> k \<Longrightarrow> entry_at buf' j = entry_at (md b) j \<and> name_at buf' j = name_at (md b) j"
    "nm \<noteq> name_at buf' k" "nm \<noteq> name_at (md b) k"
  shows "lookup (md(b := buf')) bs nm = lookup md bs nm"
proof (induction bs)
  case (Cons x xs)
  have "find (\<lambda>j. name_at buf' j = nm) [0..<21] = find (\<lambda>j. name_at (md b) j = nm) [0..<21]"
    using assms by (intro find_cong') (metis atLeastLessThan_iff set_upt)
  moreover have "entry_at buf' j = entry_at (md b) j" if "find (\<lambda>j. name_at (md b) j = nm) [0..<21] = Some j" for j
    using find_uptD [OF that] assms(1) [of j] assms(3) by (cases "j = k") auto
  ultimately show ?case using Cons.IH by (simp split: option.split)
qed simp

lemma find_only:
  assumes "k < 21" "\<And>j. j < 21 \<Longrightarrow> P j \<longleftrightarrow> j = k"
  shows "find P [0..<21] = Some k"
proof (cases "find P [0..<21]")
  case None
  with assms show ?thesis by (auto simp: find_None_iff)
next
  case (Some j)
  then have "j < 21 \<and> P j" by (auto simp: find_Some_iff)
  with assms(2) Some show ?thesis by auto
qed

lemma lookup_new:
  assumes "\<And>j. j < 21 \<Longrightarrow> j \<noteq> k \<Longrightarrow> name_at buf' j = name_at (md b) j"
    "lookup md bs (name_at buf' k) = None" "b \<in> set bs" "b \<noteq> 0" "k < 21"
  shows "lookup (md(b := buf')) bs (name_at buf' k) = Some (entry_at buf' k)"
  using assms(2,3)
proof (induction bs)
  case (Cons x xs)
  have abs: "name_at (md y) j \<noteq> name_at buf' k" if "y \<in> set (x # xs)" "y \<noteq> 0" "j < 21" for y j
    using Cons.prems(1) that unfolding lookup_None_iff by blast
  show ?case
  proof (cases "x = b")
    case True
    have "find (\<lambda>j. name_at buf' j = name_at buf' k) [0..<21] = Some k"
      using assms(1) abs [of b] True assms(4) by (intro find_only [OF assms(5)]) (metis list.set_intros(1))
    with True assms(4) show ?thesis by simp
  next
    case False
    have "x \<noteq> 0 \<Longrightarrow> find (\<lambda>j. name_at (md x) j = name_at buf' k) [0..<21] = None"
      using abs [of x] by (auto simp: find_None_iff)
    moreover have "lookup md xs (name_at buf' k) = None" using Cons.prems(1) unfolding lookup_None_iff by simp
    ultimately show ?thesis using Cons False by auto
  qed
qed simp

text \<open>Adding a block whose only named entry is entry 0, and removing a block.\<close>

lemma lookup_add_block:
  assumes "idx < length bs" "bs ! idx = 0" "b \<noteq> 0" "nm \<noteq> []"
    "\<And>j. 0 < j \<Longrightarrow> j < 21 \<Longrightarrow> name_at (md b) j = []"
  shows "lookup md (bs[idx := b]) nm =
    (if nm = name_at (md b) 0 \<and> lookup md (take idx bs) nm = None then Some (entry_at (md b) 0) else lookup md bs nm)"
  using assms(1,2)
proof (induction bs arbitrary: idx)
  case (Cons x xs)
  show ?case
  proof (cases idx)
    case 0
    have "find (\<lambda>j. name_at (md b) j = nm) [0..<21] = (if nm = name_at (md b) 0 then Some 0 else None)"
    proof (cases "nm = name_at (md b) 0")
      case True
      then have "find (\<lambda>j. name_at (md b) j = nm) [0..<21] = Some 0"
        using assms(4,5) by (intro find_only, simp) (metis gr0I)
      with True show ?thesis by simp
    next
      case False
      with assms(4,5) have "\<forall>j < 21. name_at (md b) j \<noteq> nm" by (metis neq0_conv)
      with False show ?thesis by (auto simp: find_None_iff)
    qed
    with 0 Cons.prems assms(3) show ?thesis by simp
  next
    case (Suc i)
    with Cons.prems have i: "i < length xs" "xs ! i = 0" by simp_all
    show ?thesis
      using Cons.IH [OF i]
      by (cases "x = 0"; cases "find (\<lambda>j. name_at (md x) j = nm) [0..<21]"; cases "nm = name_at (md b) 0")
        (auto simp: Suc)
  qed
qed simp

lemma lookup_remove_block:
  assumes "\<And>k. k < 21 \<Longrightarrow> idx < length bs \<Longrightarrow> bs ! idx \<noteq> 0 \<Longrightarrow> name_at (md (bs ! idx)) k \<noteq> nm"
  shows "lookup md (bs[idx := 0]) nm = lookup md bs nm"
  using assms
proof (induction bs arbitrary: idx)
  case (Cons x xs)
  show ?case
  proof (cases idx)
    case 0
    have "x \<noteq> 0 \<Longrightarrow> find (\<lambda>j. name_at (md x) j = nm) [0..<21] = None"
      using Cons.prems 0 by (auto simp: find_None_iff)
    with 0 show ?thesis by simp
  next
    case (Suc i)
    with Cons.prems have i: "name_at (md (xs ! i)) k \<noteq> nm" if "k < 21" "i < length xs" "xs ! i \<noteq> 0" for k
      using that by simp
    show ?thesis
      using Cons.IH [OF i] by (cases "x = 0"; cases "find (\<lambda>j. name_at (md x) j = nm) [0..<21]") (simp_all add: Suc)
  qed
qed simp

subsection \<open>Searching\<close>

lemma search_blocks_ok:
  assumes "fs_ready s" "entries_per_sec s = 21" "\<forall>b \<in> set bs. b \<noteq> 0 \<longrightarrow> unat b < 163840"
  shows "search_blocks nm bs s = Some (lookup (data s) bs nm, s)"
  using assms(3)
proof (induction bs)
  case (Cons b bs)
  then show ?case
    using disk_read_1 [OF assms(1), of b] assms(2) by (auto split: option.split)
qed simp

lemma all_blocks_ok:
  assumes "fs_ready s" "unat (i_sectors i ! 12) < 163840"
  shows "all_blocks i s = Some (inode_blocks (data s) i, s)"
  using disk_read_1 [OF assms] by (simp add: all_blocks_def inode_blocks_def)

lemma get_dir_fields [simp]:
  "get_dir d (s\<lparr>heap_cnt := n\<rparr>) = get_dir d s" "get_dir d (s\<lparr>inodes := f\<rparr>) = get_dir d s"
  "get_dir d (s\<lparr>block_bitmap := b\<rparr>) = get_dir d s" "get_dir d (s\<lparr>open_inodes := o'\<rparr>) = get_dir d s"
  "get_dir d (wdata md s) = get_dir d s" "get_dir d (upd_inode p g s) = get_dir d s"
  by (simp_all add: get_dir_def upd_inode_def split: dir_ptr.split)

lemma search_dir_entry_ok:
  assumes "fs_ready s" "dir_entry_size (sb s) = 24"
    "unat (i_sectors (the_dir_inode d s) ! 12) < 163840"
    "\<forall>b \<in> set (inode_blocks (data s) (the_dir_inode d s)). b \<noteq> 0 \<longrightarrow> unat b < 163840"
    "heap s (heap_cnt s) \<noteq> 0" "heap s (Suc (heap_cnt s)) \<noteq> 0"
  shows "search_dir_entry d nm s = Some (dir_map d s nm, s\<lparr>heap_cnt := heap_cnt s + 2\<rparr>)"
proof -
  let ?s1 = "s\<lparr>heap_cnt := Suc (heap_cnt s)\<rparr>" and ?s2 = "s\<lparr>heap_cnt := Suc (Suc (heap_cnt s))\<rparr>"
  have i: "the_dir_inode d ?s1 = the_dir_inode d s" by (simp add: the_dir_inode_def)
  have ab: "all_blocks (the_dir_inode d ?s1) ?s1 = Some (inode_blocks (data s) (the_dir_inode d s), ?s1)"
    using all_blocks_ok [of ?s1 "the_dir_inode d s"] assms(1,3) by (simp add: i)
  have "entries_per_sec ?s2 = 21" using assms(2) by (simp add: entries_per_sec_def)
  with search_blocks_ok [of ?s2 _ nm] assms(1,4)
  have "search_blocks nm (inode_blocks (data s) (the_dir_inode d s)) ?s2 = Some (dir_map d s nm, ?s2)"
    by (simp add: dir_map_def)
  with ab assms(5,6) show ?thesis by (simp add: search_dir_entry_def heap_alloc_def)
qed

subsection \<open>Adding an entry\<close>

definition entry_ok :: "dir_entry \<Rightarrow> bool" where
  "entry_ok e \<longleftrightarrow> length (filename e) = 16 \<and> f_type e \<noteq> 0 \<and> f_type e \<le> 2"

definition entry_name :: "dir_entry \<Rightarrow> u8 list" where
  "entry_name e = takeWhile (\<lambda>c. c \<noteq> 0) (dir_entry_bytes e)"

lemma entry_bytes_ok:
  assumes "entry_ok e"
  shows "length (dir_entry_bytes e) = 24" "bytes_dir_entry (dir_entry_bytes e) = e"
proof -
  show "length (dir_entry_bytes e) = 24" using assms by (simp add: dir_entry_bytes_def entry_ok_def)
  have "drop 20 (dir_entry_bytes e) = word_bytes (f_type e)" "drop 16 (dir_entry_bytes e) = word_bytes (de_i_no e) @ word_bytes (f_type e)"
    using assms by (simp_all add: dir_entry_bytes_def entry_ok_def words_bytes_def)
  moreover have "take 16 (dir_entry_bytes e) = filename e"
    using assms by (simp add: dir_entry_bytes_def entry_ok_def)
  ultimately show "bytes_dir_entry (dir_entry_bytes e) = e" by (simp add: bytes_dir_entry_def)
qed

lemma zero_sector_ok: "dir_sector_ok (replicate 512 0)"
proof -
  have "raw_at (replicate 512 0) k = replicate 24 0" if "k < 21" for k
    using that by (simp add: raw_at_def)
  moreover have "bytes_dir_entry (replicate 24 0) = \<lparr>filename = replicate 16 0, de_i_no = 0, f_type = 0\<rparr>"
    by (simp add: bytes_dir_entry_def numeral_eq_Suc)
  moreover have "name_at (replicate 512 0) k = []" for k
    by (cases "512 - 24 * k") (simp_all add: name_at_def)
  ultimately show ?thesis by (simp add: dir_sector_ok_def entry_at_raw)
qed

text \<open>A directory without indirect blocks: its blocks are in use and hold well-formed sectors.\<close>

definition dir_ok :: "dir_ptr \<Rightarrow> 'a fsys_scheme \<Rightarrow> bool" where
  "dir_ok d s \<longleftrightarrow> layout_ok s \<and> dir_entry_size (sb s) = 24 \<and> length (i_sectors (the_dir_inode d s)) = 13 \<and>
     i_sectors (the_dir_inode d s) ! 12 = 0 \<and> i_size (the_dir_inode d s) mod 24 = 0 \<and>
     (\<forall>b \<in> set (take 12 (i_sectors (the_dir_inode d s))). b \<noteq> 0 \<longrightarrow> block_used s b \<and> dir_sector_ok (data s b))"

definition has_free :: "u8 list \<Rightarrow> bool" where
  "has_free buf \<longleftrightarrow> (\<exists>k < 21. f_type (entry_at buf k) = 0)"

lemma dir_map_direct:
  "i_sectors (the_dir_inode d s) ! 12 = 0 \<Longrightarrow>
     dir_map d s = lookup (data s) (take 12 (i_sectors (the_dir_inode d s)))"
  by (simp add: dir_map_def inode_blocks_def fun_eq_iff)

lemma find_free:
  assumes "has_free buf"
  obtains k where "find (\<lambda>k. f_type (entry_at buf k) = FT_UNKNOWN) [0..<21] = Some k" "k < 21" "f_type (entry_at buf k) = 0"
proof (cases "find (\<lambda>k. f_type (entry_at buf k) = FT_UNKNOWN) [0..<21]")
  case None
  with assms show thesis by (auto simp: find_None_iff has_free_def FT_UNKNOWN_def)
next
  case (Some k)
  from find_uptD [OF Some] have "k < 21" "f_type (entry_at buf k) = 0" by (simp_all add: FT_UNKNOWN_def)
  with Some show thesis by (rule that)
qed

lemma sync_blocks_skip:
  assumes "fs_ready s" "entries_per_sec s = 21"
    "\<forall>i \<in> set pre. blocks ! i \<noteq> 0 \<and> unat (blocks ! i) < 163840 \<and> \<not> has_free (data s (blocks ! i))"
  shows "sync_blocks p e blocks (pre @ post) s = sync_blocks p e blocks post s"
  using assms(3)
proof (induction pre)
  case (Cons i pre)
  have "find (\<lambda>k. f_type (entry_at (data s (blocks ! i)) k) = FT_UNKNOWN) [0..<21] = None"
    using Cons.prems by (auto simp: find_None_iff has_free_def FT_UNKNOWN_def)
  with Cons disk_read_1 [OF assms(1), of "blocks ! i"] assms(2) show ?case by simp
qed simp

text \<open>The directory after an entry has been written to block \<open>b\<close>.\<close>

lemma sector_write_entry:
  assumes "dir_sector_ok buf" "entry_ok e" "k < 21" "f_type (entry_at buf k) = 0"
  obtains buf' where "put_at (24 * k) (dir_entry_bytes e) buf = Some buf'" "dir_sector_ok buf'"
    "entry_at buf' k = e" "name_at buf' k = entry_name e" "name_at buf k = []"
    "\<And>j. j < 21 \<Longrightarrow> j \<noteq> k \<Longrightarrow> entry_at buf' j = entry_at buf j \<and> name_at buf' j = name_at buf j"
proof -
  note b = entry_bytes_ok [OF assms(2)]
  have "24 * k + length (dir_entry_bytes e) \<le> length buf" using b(1) assms(1,3) by (simp add: dir_sector_ok_def)
  then obtain buf' where put: "put_at (24 * k) (dir_entry_bytes e) buf = Some buf'" using put_at_returns by blast
  have ty: "f_type (bytes_dir_entry (dir_entry_bytes e)) \<le> 2"
    "f_type (bytes_dir_entry (dir_entry_bytes e)) = 0 \<longrightarrow> takeWhile (\<lambda>c. c \<noteq> 0) (dir_entry_bytes e) = []"
    using assms(2) b(2) by (simp_all add: entry_ok_def)
  note sp = sector_put [OF assms(1,3) b(1) ty put]
  have "name_at buf k = []" using assms by (simp add: dir_sector_ok_def)
  then show thesis using that [OF put sp(1)] sp(2-4) b(2) by (simp add: entry_name_def)
qed

text \<open>Where \<^verbatim>\<open>sync_dir_entry\<close> puts an entry: block \<open>j\<close> is the first one that has room or is not allocated.\<close>

definition room_at :: "dir_ptr \<Rightarrow> 'a fsys_scheme \<Rightarrow> nat \<Rightarrow> bool" where
  "room_at d s j \<longleftrightarrow> j < 12 \<and>
     (\<forall>i < j. i_sectors (the_dir_inode d s) ! i \<noteq> 0 \<and> \<not> has_free (data s (i_sectors (the_dir_inode d s) ! i))) \<and>
     (i_sectors (the_dir_inode d s) ! j \<noteq> 0 \<longrightarrow> has_free (data s (i_sectors (the_dir_inode d s) ! j))) \<and>
     (i_sectors (the_dir_inode d s) ! j = 0 \<longrightarrow>
        free_on_disk s \<and> (\<exists>n < nbits (block_bitmap s). \<not> bit_at (block_bitmap s) n))"

lemma dir_ok_block:
  assumes "dir_ok d s" "i < 12" "i_sectors (the_dir_inode d s) ! i \<noteq> 0"
  shows "block_used s (i_sectors (the_dir_inode d s) ! i)" "dir_sector_ok (data s (i_sectors (the_dir_inode d s) ! i))"
    "unat (i_sectors (the_dir_inode d s) ! i) < 163840"
    "i_sectors (the_dir_inode d s) ! i \<in> set (take 12 (i_sectors (the_dir_inode d s)))"
proof -
  have "i < length (take 12 (i_sectors (the_dir_inode d s)))" using assms(1,2) by (simp add: dir_ok_def)
  from nth_mem [OF this] assms(2)
  show m: "i_sectors (the_dir_inode d s) ! i \<in> set (take 12 (i_sectors (the_dir_inode d s)))" by simp
  with assms(1,3) show "block_used s (i_sectors (the_dir_inode d s) ! i)"
    "dir_sector_ok (data s (i_sectors (the_dir_inode d s) ! i))" unfolding dir_ok_def by blast+
  then show "unat (i_sectors (the_dir_inode d s) ! i) < 163840" by (simp add: block_used_def)
qed

lemma sync_dir_entry_at:
  assumes "dir_ok d s" "room_at d s j"
  shows "sync_dir_entry d e s = sync_blocks (dir_inode (get_dir d s)) e
    (take 12 (i_sectors (the_dir_inode d s)) @ replicate 128 0) (j # [Suc j..<140]) s"
proof -
  let ?bl = "take 12 (i_sectors (the_dir_inode d s)) @ replicate 128 0"
  have j: "j < 12" using assms(2) by (simp add: room_at_def)
  have split: "[0..<140] = [0..<j] @ j # [Suc j..<140]"
    using j upt_add_eq_append [of 0 j "140 - j"] upt_conv_Cons [of j 140] by simp
  have bl: "?bl ! i = i_sectors (the_dir_inode d s) ! i" if "i < 12" for i
    using that assms(1) by (simp add: dir_ok_def nth_append)
  have pre: "\<forall>i \<in> set [0..<j]. ?bl ! i \<noteq> 0 \<and> unat (?bl ! i) < 163840 \<and> \<not> has_free (data s (?bl ! i))"
  proof
    fix i assume "i \<in> set [0..<j]"
    then have i: "i < j" "i < 12" using j by auto
    then have "i_sectors (the_dir_inode d s) ! i \<noteq> 0 \<and> \<not> has_free (data s (i_sectors (the_dir_inode d s) ! i))"
      using assms(2) by (simp add: room_at_def)
    with dir_ok_block(3) [OF assms(1) i(2)] bl [OF i(2)]
    show "?bl ! i \<noteq> 0 \<and> unat (?bl ! i) < 163840 \<and> \<not> has_free (data s (?bl ! i))" by simp
  qed
  have "fs_ready s" "entries_per_sec s = 21"
    using assms(1) by (simp_all add: dir_ok_def layout_ok_def entries_per_sec_def)
  note skip = sync_blocks_skip [OF this pre]
  have "sync_dir_entry d e s = sync_blocks (dir_inode (get_dir d s)) e ?bl [0..<140] s"
    using assms(1) unfolding sync_dir_entry_def dir_ok_def the_dir_inode_def by (simp only: Let_def ASSERT_simps) simp
  then show ?thesis by (simp only: split skip)
qed

definition dir_update :: "dir_ptr \<Rightarrow> 'a fsys_scheme \<Rightarrow> u8 list \<Rightarrow> dir_entry option \<Rightarrow> 'a fsys_scheme \<Rightarrow> bool" where
  "dir_update d s nm r s' \<longleftrightarrow> (\<forall>nm'. nm' \<noteq> [] \<longrightarrow> dir_map d s' nm' = (if nm' = nm then r else dir_map d s nm'))"

lemma sync_existing:
  assumes "dir_ok d s" "room_at d s j" "i_sectors (the_dir_inode d s) ! j \<noteq> 0" "entry_ok e" "dir_map d s (entry_name e) = None"
  shows "\<exists>s'. sync_dir_entry d e s = Some (True, s') \<and> dir_update d s (entry_name e) (Some e) s' \<and>
    i_size (the_dir_inode d s') = i_size (the_dir_inode d s) + 24"
proof -
  let ?i = "the_dir_inode d s" and ?p = "dir_inode (get_dir d s)"
  define b where "b = i_sectors ?i ! j"
  have j: "j < 12" "has_free (data s b)" using assms(2,3) by (simp_all add: room_at_def b_def)
  note blk = dir_ok_block [OF assms(1) j(1) assms(3), folded b_def]
  obtain k where k: "find (\<lambda>k. f_type (entry_at (data s b) k) = FT_UNKNOWN) [0..<21] = Some k" "k < 21"
      "f_type (entry_at (data s b) k) = 0"
    by (rule find_free [OF j(2)])
  obtain buf' where w: "put_at (24 * k) (dir_entry_bytes e) (data s b) = Some buf'" "dir_sector_ok buf'"
    "entry_at buf' k = e" "name_at buf' k = entry_name e" "name_at (data s b) k = []"
    "\<And>j. j < 21 \<Longrightarrow> j \<noteq> k \<Longrightarrow> entry_at buf' j = entry_at (data s b) j \<and> name_at buf' j = name_at (data s b) j"
    by (rule sector_write_entry [OF blk(2) assms(4) k(2,3)]) (rule that)
  define md where "md = (data s)(b := buf')"
  define s' where "s' = grow_dir ?p 24 (wdata md s)"
  have r: "fs_ready s" "entries_per_sec s = 21" "dir_entry_size (sb s) = 24" "length (i_sectors ?i) = 13" "i_sectors ?i ! 12 = 0"
    using assms(1) by (simp_all add: dir_ok_def layout_ok_def entries_per_sec_def)
  have "(take 12 (i_sectors ?i) @ replicate 128 0) ! j = b" using j(1) r(4) by (simp add: b_def nth_append)
  then have "sync_dir_entry d e s = Some (True, s')"
    using sync_dir_entry_at [OF assms(1,2), of e] disk_read_1 [OF r(1) blk(3)] k(1) w(1) r(2,3)
      disk_write_1 [OF r(1) blk(3), of buf'] w(2) assms(3)
    by (simp add: b_def [symmetric] s'_def md_def dir_sector_ok_def)
  moreover have i': "the_dir_inode d s' = ?i\<lparr>i_size := i_size ?i + 24\<rparr>"
    by (simp add: s'_def grow_dir_def the_dir_inode_def) (simp add: upd_inode_def)
  have "data s' = md" by (simp add: s'_def grow_dir_def upd_inode_def)
  then have map': "dir_map d s' = lookup md (take 12 (i_sectors ?i))"
    using dir_map_direct [of d s'] i' r(5) by simp
  have "dir_update d s (entry_name e) (Some e) s'"
    unfolding dir_update_def map' dir_map_direct [OF r(5)]
  proof (intro allI impI)
    fix nm' :: "u8 list" assume "nm' \<noteq> []"
    show "lookup md (take 12 (i_sectors ?i)) nm' =
        (if nm' = entry_name e then Some e else lookup (data s) (take 12 (i_sectors ?i)) nm')"
    proof (cases "nm' = entry_name e")
      case True
      have "lookup md (take 12 (i_sectors ?i)) (name_at buf' k) = Some (entry_at buf' k)"
        unfolding md_def using assms(3,5) w(4,6) blk(4) k(2) dir_map_direct [OF r(5)]
        by (intro lookup_new) (simp_all add: b_def)
      with True w(3,4) show ?thesis by simp
    next
      case False
      with \<open>nm' \<noteq> []\<close> w(4,5) lookup_other [of k buf' "data s" b nm', OF w(6)] show ?thesis
        by (simp add: md_def)
    qed
  qed
  ultimately show ?thesis using i' by auto
qed

lemma sync_new:
  assumes "dir_ok d s" "room_at d s j" "i_sectors (the_dir_inode d s) ! j = 0" "entry_ok e" "dir_map d s (entry_name e) = None"
  shows "\<exists>s'. sync_dir_entry d e s = Some (True, s') \<and> dir_update d s (entry_name e) (Some e) s' \<and>
    i_size (the_dir_inode d s') = i_size (the_dir_inode d s) + 24"
proof -
  let ?i = "the_dir_inode d s" and ?p = "dir_inode (get_dir d s)"
  have r: "fs_ready s" "layout_ok s" "dir_entry_size (sb s) = 24" "length (i_sectors ?i) = 13" "i_sectors ?i ! 12 = 0"
    using assms(1) by (simp_all add: dir_ok_def layout_ok_def)
  have j: "j < 12" "free_on_disk s" "\<exists>n < nbits (block_bitmap s). \<not> bit_at (block_bitmap s) n"
    using assms(2,3) by (simp_all add: room_at_def)
  obtain lba s1 s2 where a: "block_bitmap_alloc s = Some (lba, s1)" "lba \<noteq> -1" "lba - data_start_lba (sb s) \<noteq> -1"
    "sb s1 = sb s" "bitmap_sync (lba - data_start_lba (sb s)) BLOCK_BITMAP s1 = Some s2" "block_taken s lba s2"
    by (rule block_alloc_sync [OF r(2) j(2,3)]) (rule that)
  note t = block_taken_frame [OF a(6)]
  have lba0: "lba \<noteq> 0" using t(16) r(2) by (auto simp: layout_ok_def)
  obtain buf' where w: "put_at 0 (dir_entry_bytes e) (replicate 512 0) = Some buf'" "dir_sector_ok buf'"
    "entry_at buf' 0 = e" "name_at buf' 0 = entry_name e"
    "\<And>j. j < 21 \<Longrightarrow> j \<noteq> 0 \<Longrightarrow> name_at buf' j = name_at (replicate 512 0) j"
  proof -
    have "f_type (entry_at (replicate 512 0) 0) = 0"
      by (simp add: entry_at_def bytes_dir_entry_def numeral_eq_Suc)
    then obtain b where "put_at (24 * 0) (dir_entry_bytes e) (replicate 512 0) = Some b" "dir_sector_ok b"
      "entry_at b 0 = e" "name_at b 0 = entry_name e" "name_at (replicate 512 0) 0 = []"
      "\<And>j. j < 21 \<Longrightarrow> j \<noteq> 0 \<Longrightarrow> entry_at b j = entry_at (replicate 512 0) j \<and> name_at b j = name_at (replicate 512 0) j"
      by (rule sector_write_entry [OF zero_sector_ok assms(4) zero_less_numeral]) (rule that)
    then show thesis by (intro that [of b]) simp_all
  qed
  define md where "md = (data s2)(lba := buf')"
  define s' where "s' = grow_dir ?p 24 (wdata md (set_sector ?p j lba s2))"
  have r2: "fs_ready s2" using t(1) by (simp add: layout_ok_def)
  have wr: "disk_write lba buf' 1 (set_sector ?p j lba s2) = Some (wdata md (set_sector ?p j lba s2))"
    using disk_write_1 [of "set_sector ?p j lba s2" lba buf'] r2 t(17) w(2)
    by (simp add: md_def dir_sector_ok_def set_sector_def upd_inode_def)
  have "(take 12 (i_sectors ?i) @ replicate 128 0) ! j = 0" using j(1) r(4) assms(3) by (simp add: nth_append)
  then have sync: "sync_dir_entry d e s = Some (True, s')"
    using sync_dir_entry_at [OF assms(1,2), of e] a(1-5) j(1) w(1) wr t(2) r(3)
    by (simp add: new_dir_block_def s'_def set_sector_def upd_inode_def)
  have i': "the_dir_inode d s' = ?i\<lparr>i_sectors := (i_sectors ?i)[j := lba], i_size := i_size ?i + 24\<rparr>"
  proof -
    have "get_dir d s2 = get_dir d s" using t(10,11) by (simp add: get_dir_def split: dir_ptr.split)
    then show ?thesis using t(4)
      by (simp add: s'_def grow_dir_def the_dir_inode_def set_sector_def) (simp add: upd_inode_def)
  qed
  have dat: "data s' = md" by (simp add: s'_def grow_dir_def upd_inode_def set_sector_def)
  let ?bs = "take 12 (i_sectors ?i)"
  have map': "dir_map d s' = lookup md (?bs[j := lba])"
    using dir_map_direct [of d s'] i' r(4,5) j(1) dat by (simp add: take_update_swap)
  have same: "lookup md bs nm' = lookup (data s) bs nm'" if "set bs \<subseteq> set ?bs" for bs nm'
  proof (rule lookup_cong)
    fix b assume "b \<in> set bs" "b \<noteq> 0"
    with that assms(1) have u: "block_used s b" by (auto simp: dir_ok_def)
    with t(18) have "b \<noteq> lba" by blast
    moreover have "data s2 b = data s b" using u r(2) by (intro t(15)) (simp add: block_used_def layout_ok_def)
    ultimately show "md b = data s b" by (simp add: md_def)
  qed
  have names0: "name_at (md lba) k = []" if "0 < k" "k < 21" for k
    using that w(5) [of k] zero_sector_ok by (simp add: md_def name_at_def)
  have add: "lookup md (?bs[j := lba]) nm' = (if nm' = name_at (md lba) 0 \<and> lookup md (take j ?bs) nm' = None
      then Some (entry_at (md lba) 0) else lookup md ?bs nm')" if "nm' \<noteq> []" for nm'
    using j(1) r(4) assms(3) lba0 that names0 by (intro lookup_add_block) simp_all
  have "lookup md (take j ?bs) (entry_name e) = None"
  proof -
    have "set (take j ?bs) \<subseteq> set ?bs" by (rule set_take_subset)
    moreover have "lookup (data s) ?bs (entry_name e) = None" using assms(5) dir_map_direct [OF r(5)] by simp
    ultimately show ?thesis unfolding same [OF set_take_subset] lookup_None_iff by blast
  qed
  then have "dir_update d s (entry_name e) (Some e) s'"
    unfolding dir_update_def map' dir_map_direct [OF r(5)]
    using add w(3,4) same [OF subset_refl] by (simp add: md_def)
  with sync i' show ?thesis by simp
qed

subsection \<open>Deleting an entry\<close>

definition counted :: "u8 list \<Rightarrow> nat \<Rightarrow> bool" where
  "counted buf k \<longleftrightarrow> f_type (entry_at buf k) \<noteq> 0 \<and> name_at buf k \<noteq> [0x2e] \<and> name_at buf k \<noteq> [0x2e, 0x2e]"

definition matches :: "u8 list \<Rightarrow> u32 \<Rightarrow> nat \<Rightarrow> bool" where
  "matches buf n k \<longleftrightarrow> counted buf k \<and> de_i_no (entry_at buf k) = n"

definition dot_entry :: "u8 list \<Rightarrow> nat \<Rightarrow> bool" where
  "dot_entry buf k \<longleftrightarrow> f_type (entry_at buf k) \<noteq> 0 \<and> name_at buf k = [0x2e]"

lemma scan_delete_ok:
  assumes "length (filter (matches buf n) ks) + (if dir_entry_found c = None then 0 else 1) \<le> 1"
  shows "scan_delete buf n ks c =
    Some \<lparr>is_dir_first_block = is_dir_first_block c \<or> (\<exists>k \<in> set ks. dot_entry buf k),
          dir_entry_cnt = dir_entry_cnt c + of_nat (length (filter (counted buf) ks)),
          dir_entry_found = (case dir_entry_found c of None \<Rightarrow> find (matches buf n) ks | Some k \<Rightarrow> Some k)\<rparr>"
  using assms
proof (induction ks arbitrary: c)
  case Nil
  show ?case by (cases c) (simp split: option.split)
next
  case (Cons k ks)
  consider (free) "f_type (entry_at buf k) = 0" | (dot) "dot_entry buf k"
    | (dots) "f_type (entry_at buf k) \<noteq> 0" "name_at buf k = [0x2e, 0x2e]"
    | (other) "counted buf k" "\<not> matches buf n k" | (match) "counted buf k" "matches buf n k"
    unfolding dot_entry_def counted_def by blast
  then show ?case
  proof cases
    case free
    then have "\<not> counted buf k" "\<not> matches buf n k" "\<not> dot_entry buf k"
      by (simp_all add: matches_def counted_def dot_entry_def)
    with free Cons show ?thesis by (simp add: FT_UNKNOWN_def split: option.split)
  next
    case dot
    then have "\<not> counted buf k" "\<not> matches buf n k" "f_type (entry_at buf k) \<noteq> 0" "name_at buf k = [0x2e]"
      by (simp_all add: matches_def counted_def dot_entry_def)
    with dot Cons show ?thesis by (simp add: FT_UNKNOWN_def split: option.split)
  next
    case dots
    then have "\<not> counted buf k" "\<not> matches buf n k" "\<not> dot_entry buf k"
      by (simp_all add: matches_def counted_def dot_entry_def)
    with dots Cons show ?thesis by (simp add: FT_UNKNOWN_def split: option.split)
  next
    case other
    then have "de_i_no (entry_at buf k) \<noteq> n" "\<not> dot_entry buf k" "f_type (entry_at buf k) \<noteq> 0"
      "name_at buf k \<noteq> [0x2e]" "name_at buf k \<noteq> [0x2e, 0x2e]"
      by (simp_all add: matches_def counted_def dot_entry_def)
    with other Cons show ?thesis by (simp add: FT_UNKNOWN_def split: option.split)
  next
    case match
    then have "de_i_no (entry_at buf k) = n" "\<not> dot_entry buf k" "f_type (entry_at buf k) \<noteq> 0"
      "name_at buf k \<noteq> [0x2e]" "name_at buf k \<noteq> [0x2e, 0x2e]"
      by (simp_all add: matches_def counted_def dot_entry_def)
    moreover have none: "dir_entry_found c = None" using Cons.prems match(2) by (auto split: if_splits)
    moreover have "length (filter (matches buf n) ks) = 0" using Cons.prems match(2) none by simp
    ultimately show ?thesis
      using match Cons.IH [of "c\<lparr>dir_entry_cnt := dir_entry_cnt c + 1, dir_entry_found := Some k\<rparr>"]
      by (simp add: FT_UNKNOWN_def split: option.split)
  qed
qed

lemma filter_only:
  assumes "k < 21" "\<And>j. j < 21 \<Longrightarrow> P j \<longleftrightarrow> j = k"
  shows "filter P [0..<21] = [k]"
proof -
  have "[0..<21] = [0..<k] @ k # [Suc k..<21]"
    using assms(1) upt_add_eq_append [of 0 k "21 - k"] upt_conv_Cons [of k 21] by simp
  moreover have "filter P [0..<k] = []" "filter P [Suc k..<21] = []" "P k"
    using assms by (auto simp: filter_empty_conv)
  ultimately show ?thesis by simp
qed

lemma delete_blocks_skip:
  assumes "fs_ready s" "entries_per_sec s = 21"
    "\<forall>i \<in> set pre. blocks ! i \<noteq> 0 \<longrightarrow> unat (blocks ! i) < 163840 \<and> (\<forall>m < 21. \<not> matches (data s (blocks ! i)) n m)"
  shows "delete_blocks p n blocks (pre @ post) s = delete_blocks p n blocks post s"
  using assms(3)
proof (induction pre)
  case (Cons i pre)
  show ?case
  proof (cases "blocks ! i = 0")
    case False
    let ?c = "\<lparr>is_dir_first_block = False, dir_entry_cnt = 0, dir_entry_found = None\<rparr>"
    let ?buf = "data s (blocks ! i)"
    have none: "filter (matches ?buf n) [0..<21] = []" "find (matches ?buf n) [0..<21] = None"
      using Cons.prems False by (auto simp: filter_empty_conv find_None_iff)
    from scan_delete_ok [of ?buf n "[0..<21]" ?c] none
    obtain c where "scan_delete ?buf n [0..<21] ?c = Some c" "dir_entry_found c = None" by simp
    with False Cons disk_read_1 [OF assms(1), of "blocks ! i"] assms(2) show ?thesis by simp
  qed (use Cons in simp)
qed simp

text \<open>Entry \<open>k\<close> of block \<open>j\<close> is the only entry for inode \<open>n\<close>, and no other entry has its name.\<close>

definition only_match :: "dir_ptr \<Rightarrow> 'a fsys_scheme \<Rightarrow> u32 \<Rightarrow> nat \<Rightarrow> nat \<Rightarrow> bool" where
  "only_match d s n j k \<longleftrightarrow>
     (let sec = i_sectors (the_dir_inode d s)
      in j < 12 \<and> k < 21 \<and> sec ! j \<noteq> 0 \<and>
         (\<forall>i < 12. \<forall>m < 21. sec ! i \<noteq> 0 \<longrightarrow> (matches (data s (sec ! i)) n m \<longleftrightarrow> i = j \<and> m = k)) \<and>
         (\<forall>i < 12. \<forall>m < 21. sec ! i \<noteq> 0 \<and> (i, m) \<noteq> (j, k) \<longrightarrow>
            name_at (data s (sec ! i)) m \<noteq> name_at (data s (sec ! j)) k))"

text \<open>The entry \<open>..\<close> is in the block of the entry \<open>.\<close>.\<close>

definition dots_together :: "dir_ptr \<Rightarrow> 'a fsys_scheme \<Rightarrow> bool" where
  "dots_together d s \<longleftrightarrow>
     (let sec = i_sectors (the_dir_inode d s)
      in \<forall>i < 12. sec ! i \<noteq> 0 \<longrightarrow>
           (\<exists>m < 21. f_type (entry_at (data s (sec ! i)) m) \<noteq> 0 \<and> name_at (data s (sec ! i)) m = [0x2e, 0x2e]) \<longrightarrow>
           (\<exists>m < 21. dot_entry (data s (sec ! i)) m))"

lemma delete_finds:
  assumes "dir_ok d s" "only_match d s n j k"
  defines "b \<equiv> i_sectors (the_dir_inode d s) ! j"
  shows "delete_dir_entry d n s =
    map_option (\<lambda>s'. (True, s')) (drop_entry (dir_inode (get_dir d s))
      (take 12 (i_sectors (the_dir_inode d s)) @ replicate 128 0) j (data s b)
      \<lparr>is_dir_first_block = (\<exists>m < 21. dot_entry (data s b) m),
       dir_entry_cnt = of_nat (length (filter (counted (data s b)) [0..<21])), dir_entry_found = Some k\<rparr> k s)"
proof -
  let ?sec = "i_sectors (the_dir_inode d s)" and ?p = "dir_inode (get_dir d s)"
  let ?bl = "take 12 ?sec @ replicate 128 0"
  have r: "fs_ready s" "entries_per_sec s = 21" "length ?sec = 13" "?sec ! 12 = 0"
    using assms(1) by (simp_all add: dir_ok_def layout_ok_def entries_per_sec_def)
  have m: "j < 12" "k < 21" "?sec ! j \<noteq> 0"
    "\<And>i m. i < 12 \<Longrightarrow> m < 21 \<Longrightarrow> ?sec ! i \<noteq> 0 \<Longrightarrow> matches (data s (?sec ! i)) n m \<longleftrightarrow> i = j \<and> m = k"
    using assms(2) by (simp_all add: only_match_def Let_def)
  have bl: "?bl ! i = ?sec ! i" if "i < 12" for i using that r(3) by (simp add: nth_append)
  have split: "[0..<140] = [0..<j] @ j # [Suc j..<140]"
    using m(1) upt_add_eq_append [of 0 j "140 - j"] upt_conv_Cons [of j 140] by simp
  have pre: "\<forall>i \<in> set [0..<j]. ?bl ! i \<noteq> 0 \<longrightarrow> unat (?bl ! i) < 163840 \<and> (\<forall>m < 21. \<not> matches (data s (?bl ! i)) n m)"
    using m dir_ok_block(3) [OF assms(1)] by (auto simp: bl)
  have ab: "all_blocks (the_dir_inode d s) s = Some (?bl, s)"
    using all_blocks_ok [OF r(1), of "the_dir_inode d s"] r(4) by (simp add: inode_blocks_def)
  have mb: "matches (data s b) n i \<longleftrightarrow> i = k" if "i < 21" for i using m(4) [OF m(1) that m(3)] by (simp add: b_def)
  have "filter (matches (data s b) n) [0..<21] = [k]" "find (matches (data s b) n) [0..<21] = Some k"
    using mb by (auto intro: filter_only [OF m(2)] find_only [OF m(2)])
  with scan_delete_ok [of "data s b" n "[0..<21]" "\<lparr>is_dir_first_block = False, dir_entry_cnt = 0, dir_entry_found = None\<rparr>"]
  have sc: "scan_delete (data s b) n [0..<21] \<lparr>is_dir_first_block = False, dir_entry_cnt = 0, dir_entry_found = None\<rparr> =
      Some \<lparr>is_dir_first_block = (\<exists>m < 21. dot_entry (data s b) m),
        dir_entry_cnt = of_nat (length (filter (counted (data s b)) [0..<21])), dir_entry_found = Some k\<rparr>"
    by (simp add: Bex_def)
  have "disk_read b 1 s = Some (data s b, s)"
    unfolding b_def by (rule disk_read_1 [OF r(1) dir_ok_block(3) [OF assms(1) m(1,3)]])
  moreover have "?bl ! j = b" using bl [OF m(1)] by (simp add: b_def)
  ultimately have "delete_blocks ?p n ?bl (j # [Suc j..<140]) s =
      map_option (\<lambda>s'. (True, s')) (drop_entry ?p ?bl j (data s b) \<lparr>is_dir_first_block = (\<exists>m < 21. dot_entry (data s b) m),
       dir_entry_cnt = of_nat (length (filter (counted (data s b)) [0..<21])), dir_entry_found = Some k\<rparr> k s)"
    using m(3) r(2) sc by (simp add: b_def [symmetric] map_conv_bind_option comp_def)
  then show ?thesis
    unfolding delete_dir_entry_def ab by (simp add: split delete_blocks_skip [OF r(1,2) pre])
qed

lemma delete_finish:
  assumes "layout_ok s" "dir_entry_size (sb s) = 24" "length (i_sectors (inodes s p)) = 13" "24 \<le> i_size (inodes s p)"
  shows "\<exists>s'. do { ASSERT (i_size (inodes s p) \<ge> dir_entry_size (sb s));
          let s = upd_inode p (\<lambda>i. i\<lparr>i_size := i_size i - dir_entry_size (sb s)\<rparr>) s;
          inode_sync 1024 (inodes s p) s } = Some s' \<and>
     (\<forall>x. unat (data_start_lba (sb s)) \<le> unat x \<longrightarrow> data s' x = data s x) \<and>
     inodes s' = (inodes s)(p := (inodes s p)\<lparr>i_size := i_size (inodes s p) - 24\<rparr>) \<and> get_dir d s' = get_dir d s"
proof -
  let ?s = "upd_inode p (\<lambda>i. i\<lparr>i_size := i_size i - 24\<rparr>) s"
  have tab: "table_ok ?s" using layout_table [OF assms(1)] by (simp add: upd_inode_def table_ok_def)
  have len: "length (i_sectors (inodes ?s p)) = 13" using assms(3) by (simp add: upd_inode_def)
  from inode_sync_ok [OF tab len, of 1024] obtain md where md: "inode_sync 1024 (inodes ?s p) ?s = Some (wdata md ?s)"
    "slot_stored (of_nat (unat (i_no (inodes ?s p)) mod 256)) (inode_bytes (pure_inode (inodes ?s p))) ?s md"
    by auto
  have "data (wdata md ?s) x = data s x" if "unat (data_start_lba (sb s)) \<le> unat x" for x
    using md(2) that assms(1) by (simp add: slot_stored_def upd_inode_def layout_ok_def)
  with md(1) assms(2,4) show ?thesis by (simp add: upd_inode_def)
qed

lemma matchD:
  assumes "only_match d s n j k"
  defines "sec \<equiv> i_sectors (the_dir_inode d s)"
  shows "j < 12" "k < 21" "sec ! j \<noteq> 0" "counted (data s (sec ! j)) k"
    "\<And>i m. i < 12 \<Longrightarrow> m < 21 \<Longrightarrow> sec ! i \<noteq> 0 \<Longrightarrow> (i, m) \<noteq> (j, k) \<Longrightarrow>
       name_at (data s (sec ! i)) m \<noteq> name_at (data s (sec ! j)) k"
    "\<And>i. i < 12 \<Longrightarrow> sec ! i = sec ! j \<Longrightarrow> i = j"
proof -
  show b: "j < 12" "k < 21" "sec ! j \<noteq> 0"
    using assms(1) by (simp_all add: only_match_def Let_def sec_def)
  have m: "matches (data s (sec ! i)) n m \<longleftrightarrow> i = j \<and> m = k" if "i < 12" "m < 21" "sec ! i \<noteq> 0" for i m
    using assms(1) that by (simp add: only_match_def Let_def sec_def)
  show "counted (data s (sec ! j)) k" using m [OF b] by (simp add: matches_def)
  show "name_at (data s (sec ! i)) m \<noteq> name_at (data s (sec ! j)) k"
    if "i < 12" "m < 21" "sec ! i \<noteq> 0" "(i, m) \<noteq> (j, k)" for i m
    using assms(1) that unfolding only_match_def Let_def sec_def by blast
  show "i = j" if "i < 12" "sec ! i = sec ! j" for i
    using m [OF that(1) b(2)] m [OF b] that(2) b(3) by simp
qed

lemma nonzero_block_index:
  assumes "b \<in> set (take 12 sec)" "length sec = 13"
  obtains i where "i < 12" "b = sec ! i"
proof -
  from assms(1) obtain i where i: "i < length (take 12 sec)" "b = take 12 sec ! i" by (metis in_set_conv_nth)
  with assms(2) show thesis by (intro that [of i]) simp_all
qed

lemma counted_few:
  assumes "counted buf k" "k < 21"
  shows "0 < length (filter (counted buf) [0..<21])" "length (filter (counted buf) [0..<21]) \<le> 21"
proof -
  show "0 < length (filter (counted buf) [0..<21])" using assms by (auto simp: filter_empty_conv)
  show "length (filter (counted buf) [0..<21]) \<le> 21" using length_filter_le [of "counted buf" "[0..<21]"] by simp
qed

lemma of_nat_u8_small: "c \<le> 21 \<Longrightarrow> unat (of_nat c :: u8) = c"
  by (intro unat_of_nat_lt) simp

text \<open>The sector without its entry \<open>k\<close>.\<close>

lemma sector_clear_entry:
  assumes "dir_sector_ok buf" "k < 21"
  obtains buf' where "put_at (24 * k) (replicate 24 0) buf = Some buf'" "dir_sector_ok buf'" "name_at buf' k = []"
    "\<And>j. j < 21 \<Longrightarrow> j \<noteq> k \<Longrightarrow> entry_at buf' j = entry_at buf j \<and> name_at buf' j = name_at buf j"
proof -
  have "24 * k + length (replicate 24 (0 :: u8)) \<le> length buf" using assms by (simp add: dir_sector_ok_def)
  then obtain buf' where put: "put_at (24 * k) (replicate 24 0) buf = Some buf'" using put_at_returns by blast
  have z: "f_type (bytes_dir_entry (replicate 24 0)) = 0"
    by (simp add: bytes_dir_entry_def numeral_eq_Suc)
  have nm: "takeWhile (\<lambda>c. c \<noteq> 0) (replicate 24 (0 :: u8)) = []" by (simp add: numeral_eq_Suc)
  have "f_type (bytes_dir_entry (replicate 24 0)) \<le> 2" using z by simp
  from sector_put [OF assms length_replicate this _ put] nm put show thesis by (intro that [of buf']) simp_all
qed

lemma delete_clear:
  assumes "dir_ok d s" "only_match d s n j k" "24 \<le> i_size (the_dir_inode d s)"
  defines "b \<equiv> i_sectors (the_dir_inode d s) ! j"
  assumes keep: "length (filter (counted (data s b)) [0..<21]) \<noteq> 1 \<or> (\<exists>m < 21. dot_entry (data s b) m)"
  shows "\<exists>s'. delete_dir_entry d n s = Some (True, s') \<and> dir_update d s (name_at (data s b) k) None s' \<and>
    i_size (the_dir_inode d s') = i_size (the_dir_inode d s) - 24"
proof -
  let ?i = "the_dir_inode d s" and ?p = "dir_inode (get_dir d s)"
  let ?sec = "i_sectors ?i"
  note m = matchD [OF assms(2), folded b_def]
  note blk = dir_ok_block [OF assms(1) m(1), folded b_def, OF m(3)]
  have r: "layout_ok s" "fs_ready s" "dir_entry_size (sb s) = 24" "length ?sec = 13" "?sec ! 12 = 0"
    using assms(1) by (simp_all add: dir_ok_def layout_ok_def)
  obtain buf' where w: "put_at (24 * k) (replicate 24 0) (data s b) = Some buf'" "dir_sector_ok buf'" "name_at buf' k = []"
    "\<And>j. j < 21 \<Longrightarrow> j \<noteq> k \<Longrightarrow> entry_at buf' j = entry_at (data s b) j \<and> name_at buf' j = name_at (data s b) j"
    by (rule sector_clear_entry [OF blk(2) m(2)]) (rule that)
  define md where "md = (data s)(b := buf')"
  have len: "length (md x) = 512" for x using r(2) w(2) by (simp add: md_def dir_sector_ok_def)
  have wr: "disk_write b buf' 1 s = Some (wdata md s)"
    using disk_write_1 [OF r(2) blk(3), of buf'] w(2) by (simp add: md_def dir_sector_ok_def)
  have ok1: "layout_ok (wdata md s)" using r(1) len by (simp add: layout_ok_def)
  obtain s' where s': "do { ASSERT (i_size (inodes (wdata md s) ?p) \<ge> dir_entry_size (sb (wdata md s)));
          let s = upd_inode ?p (\<lambda>i. i\<lparr>i_size := i_size i - dir_entry_size (sb (wdata md s))\<rparr>) (wdata md s);
          inode_sync 1024 (inodes s ?p) s } = Some s'"
     "\<forall>x. unat (data_start_lba (sb s)) \<le> unat x \<longrightarrow> data s' x = md x"
     "inodes s' = (inodes s)(?p := ?i\<lparr>i_size := i_size ?i - 24\<rparr>)" "get_dir d s' = get_dir d s"
    using delete_finish [OF ok1, of ?p d] r(3,4) assms(3) by (auto simp: the_dir_inode_def)
  have bl: "(take 12 ?sec @ replicate 128 0) ! j = b" using m(1) r(4) by (simp add: b_def nth_append)
  have cnt: "of_nat (length (filter (counted (data s b)) [0..<21])) \<ge> (1 :: u8)"
    "of_nat (length (filter (counted (data s b)) [0..<21])) = (1 :: u8) \<longleftrightarrow> length (filter (counted (data s b)) [0..<21]) = 1"
    using counted_few [OF m(4,2)] of_nat_u8_small by (simp_all add: word_le_nat_alt word_unat_eq_iff Suc_le_eq)
  have "delete_dir_entry d n s = Some (True, s')"
    using delete_finds [OF assms(1,2), folded b_def] s'(1) bl wr w(1) r(3) cnt keep
    by (auto simp: drop_entry_def)
  moreover have "dir_map d s' = lookup md (take 12 ?sec)"
  proof -
    have "the_dir_inode d s' = ?i\<lparr>i_size := i_size ?i - 24\<rparr>" using s'(3,4) by (simp add: the_dir_inode_def)
    then have "dir_map d s' = lookup (data s') (take 12 ?sec)" using dir_map_direct [of d s'] r(5) by simp
    moreover have "lookup (data s') (take 12 ?sec) nm = lookup md (take 12 ?sec) nm" for nm
      using assms(1) s'(2) by (intro lookup_cong) (auto simp: dir_ok_def block_used_def)
    ultimately show ?thesis by (simp add: fun_eq_iff)
  qed
  moreover have "lookup md (take 12 ?sec) nm = (if nm = name_at (data s b) k then None else lookup (data s) (take 12 ?sec) nm)"
    if "nm \<noteq> []" for nm
  proof (cases "nm = name_at (data s b) k")
    case True
    have "name_at (md x) q \<noteq> nm" if x: "x \<in> set (take 12 ?sec)" "x \<noteq> 0" and "q < 21" for x q
    proof -
      obtain i where i: "i < 12" "x = ?sec ! i" by (rule nonzero_block_index [OF x(1) r(4)])
      have "name_at (data s x) q \<noteq> nm" if "\<not> (x = b \<and> q = k)"
        using m(5) [OF i(1) \<open>q < 21\<close>] m(6) [OF i(1)] that i(2) \<open>x \<noteq> 0\<close> True by (auto simp: b_def)
      then show ?thesis using w(3) w(4) [OF \<open>q < 21\<close>] \<open>nm \<noteq> []\<close> by (cases "x = b"; cases "q = k") (auto simp: md_def)
    qed
    with True show ?thesis unfolding lookup_None_iff if_P [OF True] by blast
  next
    case False
    with lookup_other [of k buf' "data s" b nm, OF w(4)] w(3) that show ?thesis by (simp add: md_def)
  qed
  ultimately show ?thesis
    using s'(3,4) dir_map_direct [OF r(5)] by (auto simp: dir_update_def the_dir_inode_def)
qed

lemma counted_single:
  assumes "length (filter (counted buf) [0..<21]) = 1" "counted buf k" "k < 21" "counted buf m" "m < 21"
  shows "m = k"
proof -
  from assms(1) obtain x where x: "filter (counted buf) [0..<21] = [x]" by (auto simp: length_Suc_conv)
  have "m \<in> set (filter (counted buf) [0..<21])" "k \<in> set (filter (counted buf) [0..<21])" using assms by auto
  with x show ?thesis by simp
qed

lemma delete_free:
  assumes "dir_ok d s" "only_match d s n j k" "24 \<le> i_size (the_dir_inode d s)" "dots_together d s"
  defines "b \<equiv> i_sectors (the_dir_inode d s) ! j"
  assumes single: "length (filter (counted (data s b)) [0..<21]) = 1" and nodot: "\<not> (\<exists>m < 21. dot_entry (data s b) m)"
  shows "\<exists>s'. delete_dir_entry d n s = Some (True, s') \<and> dir_update d s (name_at (data s b) k) None s' \<and>
    i_size (the_dir_inode d s') = i_size (the_dir_inode d s) - 24"
proof -
  let ?i = "the_dir_inode d s" and ?p = "dir_inode (get_dir d s)"
  let ?sec = "i_sectors ?i"
  note m = matchD [OF assms(2), folded b_def]
  note blk = dir_ok_block [OF assms(1) m(1), folded b_def, OF m(3)]
  have r: "layout_ok s" "fs_ready s" "dir_entry_size (sb s) = 24" "length ?sec = 13" "?sec ! 12 = 0"
    using assms(1) by (simp_all add: dir_ok_def layout_ok_def)
  obtain s1 where s1: "block_bitmap_free (b - data_start_lba (sb s)) s = Some s1" "bits_cleared s {blk_idx s b} s1"
    using block_bitmap_free_ok [OF r(1), of "b - data_start_lba (sb s)"] blk(1) by (auto simp: blk_idx_bits block_used_def)
  note fr = bits_cleared_frame [OF s1(2)]
  have gd: "get_dir d s1 = get_dir d s"
    using s1(2) by (auto simp: bits_cleared_def)
  define s2 where "s2 = set_sector ?p j 0 s1"
  have i2: "inodes s2 = (inodes s)(?p := ?i\<lparr>i_sectors := ?sec[j := 0]\<rparr>)"
    by (simp add: s2_def set_sector_def upd_inode_def fr(4) the_dir_inode_def)
  have s2: "layout_ok s2" "sb s2 = sb s" "data s2 = data s1" "get_dir d s2 = get_dir d s"
    using fr(1,2) gd by (simp_all add: s2_def set_sector_def) (simp_all add: upd_inode_def layout_ok_def)
  obtain s' where s': "do { ASSERT (i_size (inodes s2 ?p) \<ge> dir_entry_size (sb s2));
          let s = upd_inode ?p (\<lambda>i. i\<lparr>i_size := i_size i - dir_entry_size (sb s2)\<rparr>) s2;
          inode_sync 1024 (inodes s ?p) s } = Some s'"
     "\<forall>x. unat (data_start_lba (sb s)) \<le> unat x \<longrightarrow> data s' x = data s1 x"
     "inodes s' = (inodes s2)(?p := (inodes s2 ?p)\<lparr>i_size := i_size ?i - 24\<rparr>)" "get_dir d s' = get_dir d s"
    using delete_finish [OF s2(1), of ?p d] r(3,4) assms(3) s2(2-4) by (auto simp: i2)
  have bl: "(take 12 ?sec @ replicate 128 0) ! j = b" using m(1) r(4) by (simp add: b_def nth_append)
  have "delete_dir_entry d n s = Some (True, s')"
    using delete_finds [OF assms(1,2), folded b_def] s'(1) bl single nodot s1(1) m(1)
    by (simp add: drop_entry_def s2_def)
  moreover have map': "dir_map d s' = lookup (data s) ((take 12 ?sec)[j := 0])"
  proof -
    have "the_dir_inode d s' = ?i\<lparr>i_sectors := ?sec[j := 0], i_size := i_size ?i - 24\<rparr>"
      using s'(3,4) i2 by (simp add: the_dir_inode_def)
    then have "dir_map d s' = lookup (data s') ((take 12 ?sec)[j := 0])"
      using dir_map_direct [of d s'] r(4,5) m(1) by (simp add: take_update_swap)
    moreover have "lookup (data s') ((take 12 ?sec)[j := 0]) nm = lookup (data s) ((take 12 ?sec)[j := 0]) nm" for nm
    proof (rule lookup_cong)
      fix x assume "x \<in> set ((take 12 ?sec)[j := 0])" "x \<noteq> 0"
      then have "x \<in> set (take 12 ?sec)" using set_update_subset_insert [of "take 12 ?sec" j 0] by blast
      with assms(1) \<open>x \<noteq> 0\<close> have u: "unat (data_start_lba (sb s)) \<le> unat x" by (simp add: dir_ok_def block_used_def)
      moreover have "data s1 x = data s x" using u r(1) by (intro fr(11)) (simp add: layout_ok_def)
      ultimately show "data s' x = data s x" using s'(2) by simp
    qed
    ultimately show ?thesis by (simp add: fun_eq_iff)
  qed
  have names: "name_at (data s b) q = []" if "q < 21" "q \<noteq> k" for q
  proof (cases "f_type (entry_at (data s b) q) = 0")
    case True
    then show ?thesis using blk(2) that(1) by (simp add: dir_sector_ok_def)
  next
    case False
    have "\<not> counted (data s b) q" using counted_single [OF single m(4,2)] that by blast
    with False have "name_at (data s b) q = [0x2e] \<or> name_at (data s b) q = [0x2e, 0x2e]" by (auto simp: counted_def)
    with False nodot assms(4) that(1) m(1,3) show ?thesis
      by (auto simp: dot_entry_def dots_together_def Let_def b_def)
  qed
  have "lookup (data s) ((take 12 ?sec)[j := 0]) nm =
      (if nm = name_at (data s b) k then None else lookup (data s) (take 12 ?sec) nm)" if "nm \<noteq> []" for nm
  proof (cases "nm = name_at (data s b) k")
    case True
    have "name_at (data s x) q \<noteq> nm" if x: "x \<in> set ((take 12 ?sec)[j := 0])" "x \<noteq> 0" and "q < 21" for x q
    proof -
      obtain i where i: "i < length (take 12 ?sec)" "x = (take 12 ?sec)[j := 0] ! i"
        using x(1) by (metis in_set_conv_nth length_list_update)
      then have "i \<noteq> j" "x = ?sec ! i" "i < 12" using x(2) r(4) m(1) by (auto simp: nth_list_update split: if_splits)
      with m(5) [of i q] x(2) \<open>q < 21\<close> True show ?thesis by (simp add: b_def)
    qed
    then show ?thesis unfolding if_P [OF True] lookup_None_iff by blast
  next
    case False
    with names that have "name_at (data s (take 12 ?sec ! j)) q \<noteq> nm" if "q < 21" for q
      using \<open>q < 21\<close> m(1) by (cases "q = k") (auto simp: b_def)
    then have "lookup (data s) ((take 12 ?sec)[j := 0]) nm = lookup (data s) (take 12 ?sec) nm"
      by (rule lookup_remove_block)
    with False show ?thesis by simp
  qed
  then have "dir_update d s (name_at (data s b) k) None s'"
    unfolding dir_update_def map' dir_map_direct [OF r(5)] by blast
  moreover have "i_size (the_dir_inode d s') = i_size ?i - 24" using s'(3,4) i2 by (simp add: the_dir_inode_def)
  ultimately show ?thesis by blast
qed

section \<open>Properties\<close>

lemma dir_fs0:
  "the_dir_inode Root_dir fs0 = (inode0 0 72 2664)\<lparr>i_open_cnts := 1\<rparr>" "dir_entry_size (sb fs0) = 24"
  "block_bitmap_lba (sb fs0) = 2050" "data_start_lba (sb fs0) = 2664" "get_dir Root_dir fs0 = root_dir fs0"
  by (simp_all add: the_dir_inode_def get_dir_def fs0_def)

lemma inode0_sec: "i_sectors (inode0 n z b) = b # replicate 12 0" "i_size (inode0 n z b) = z"
  by (simp_all add: inode0_def)

text \<open>The root directory of the example: \<open>.\<close>, \<open>..\<close> and a file \<open>f\<close> with inode 1, then free entries.\<close>

lemma slots_21: "k < 21 \<Longrightarrow> k = 0 \<or> k = 1 \<or> k = 2 \<or> (3 \<le> k \<and> k < (21 :: nat))"
  by linarith

definition dot_e :: dir_entry where "dot_e = \<lparr>filename = 0x2e # replicate 15 0, de_i_no = 0, f_type = 2\<rparr>"
definition dots_e :: dir_entry where "dots_e = \<lparr>filename = 0x2e # 0x2e # replicate 14 0, de_i_no = 0, f_type = 2\<rparr>"
definition file_e :: dir_entry where "file_e = \<lparr>filename = 0x66 # replicate 15 0, de_i_no = 1, f_type = 1\<rparr>"

lemmas root_entries = dot_e_def dots_e_def file_e_def

lemma takeWhile_zeros: "0 < n \<Longrightarrow> takeWhile (\<lambda>c. c \<noteq> 0) (replicate n 0 @ ys) = []"
  by (cases n) simp_all

lemma root_entries_ok: "entry_ok dot_e" "entry_ok dots_e" "entry_ok file_e"
  by (simp_all add: root_entries entry_ok_def)

lemma root_names: "entry_name dot_e = [0x2e]" "entry_name dots_e = [0x2e, 0x2e]" "entry_name file_e = [0x66]"
  by (simp_all add: entry_name_def dir_entry_bytes_def root_entries takeWhile_zeros)

lemma fs0_root:
  "data fs0 2664 = dir_entry_bytes dot_e @ dir_entry_bytes dots_e @ dir_entry_bytes file_e @ replicate 440 0"
  by (simp add: data_fs0 fs0_media_def dir_entry_bytes_def root_entries)

lemma fs0_raw:
  "raw_at (data fs0 2664) 0 = dir_entry_bytes dot_e" "raw_at (data fs0 2664) 1 = dir_entry_bytes dots_e"
  "raw_at (data fs0 2664) 2 = dir_entry_bytes file_e" "3 \<le> k \<Longrightarrow> k < 21 \<Longrightarrow> raw_at (data fs0 2664) k = replicate 24 0"
  using root_entries_ok [THEN entry_bytes_ok(1)] by (simp_all add: fs0_root raw_at_def)

lemma fs0_entries:
  "entry_at (data fs0 2664) 0 = dot_e" "entry_at (data fs0 2664) (Suc 0) = dots_e" "entry_at (data fs0 2664) 2 = file_e"
  "3 \<le> k \<Longrightarrow> k < 21 \<Longrightarrow> f_type (entry_at (data fs0 2664) k) = 0"
  using root_entries_ok [THEN entry_bytes_ok(2)] fs0_raw
  by (simp_all add: entry_at_raw) (simp add: bytes_dir_entry_def numeral_eq_Suc)

lemma fs0_names:
  "name_at (data fs0 2664) 0 = [0x2e]" "name_at (data fs0 2664) (Suc 0) = [0x2e, 0x2e]" "name_at (data fs0 2664) 2 = [0x66]"
  "3 \<le> k \<Longrightarrow> k < 21 \<Longrightarrow> name_at (data fs0 2664) k = []"
proof -
  have len: "length (data fs0 2664) = 512" by (simp add: data_fs0 length_fs0_media)
  have n: "name_at (data fs0 2664) k = takeWhile (\<lambda>c. c \<noteq> 0) (raw_at (data fs0 2664) k)" if "k < 21" for k
    using slots_21 [OF that] fs0_entries that by (intro name_at_raw [OF len that]) (auto simp: root_entries)
  show "name_at (data fs0 2664) 0 = [0x2e]" "name_at (data fs0 2664) (Suc 0) = [0x2e, 0x2e]" "name_at (data fs0 2664) 2 = [0x66]"
    using n [of 0] n [of 1] n [of 2] fs0_raw(1-3) root_names by (simp_all add: entry_name_def)
  show "name_at (data fs0 2664) k = []" if "3 \<le> k" "k < 21"
    using n [OF that(2)] fs0_raw(4) [OF that] by (simp add: takeWhile_replicate)
qed

lemma fs0_sector_ok: "dir_sector_ok (data fs0 2664)"
proof -
  have "f_type (entry_at (data fs0 2664) k) \<le> 2 \<and>
      (f_type (entry_at (data fs0 2664) k) = 0 \<longrightarrow> name_at (data fs0 2664) k = [])" if "k < 21" for k
    using slots_21 [OF that] fs0_entries(1-3) fs0_entries(4) [of k] fs0_names(4) [of k]
    by (elim disjE) (simp_all add: root_entries)
  then show ?thesis using length_fs0_media [of 2664] by (simp add: dir_sector_ok_def data_fs0)
qed

lemma fs0_dir_ok: "dir_ok Root_dir fs0"
proof -
  have "block_used fs0 2664" by (simp add: block_used_def blk_idx_def bit_at_def nbits_def) (simp add: fs0_def)
  then show ?thesis
    using layout_fs0 fs0_sector_ok by (auto simp: dir_ok_def dir_fs0 inode0_sec)
qed

lemma fs0_lookup: "dir_map Root_dir fs0 nm =
    (if nm = [0x2e] then Some dot_e else if nm = [0x2e, 0x2e] then Some dots_e
     else if nm = [0x66] then Some file_e else if nm = [] then Some (entry_at (data fs0 2664) 3) else None)"
proof -
  have split: "[0..<21] = 0 # 1 # 2 # 3 # [4..<21]" by (simp add: upt_conv_Cons)
  have rest: "find (\<lambda>k. name_at (data fs0 2664) k = nm) [4..<21] = None" if "nm \<noteq> []"
    using that fs0_names(4) by (auto simp: find_None_iff)
  show ?thesis
    using dir_map_direct [of Root_dir fs0] rest lookup_zeros [of "data fs0" "[]" 11 nm]
    by (simp add: dir_fs0 inode0_sec split fs0_names fs0_entries(1-3) take_Cons')
qed

text \<open>Property C23: \<^verbatim>\<open>search_dir_entry\<close> returns the first entry of the directory with the name, over the
  direct blocks and the blocks of the indirect table, and reports a missing name.\<close>

theorem search_dir_entry_first:
  assumes "fs_ready s" "dir_entry_size (sb s) = 24"
    "unat (i_sectors (the_dir_inode d s) ! 12) < 163840"
    "\<forall>b \<in> set (inode_blocks (data s) (the_dir_inode d s)). b \<noteq> 0 \<longrightarrow> unat b < 163840"
    "heap s (heap_cnt s) \<noteq> 0" "heap s (Suc (heap_cnt s)) \<noteq> 0"
  shows "search_dir_entry d nm s = Some (dir_map d s nm, s\<lparr>heap_cnt := heap_cnt s + 2\<rparr>) \<and>
    (dir_map d s nm = None \<longleftrightarrow>
      (\<forall>b \<in> set (inode_blocks (data s) (the_dir_inode d s)). b \<noteq> 0 \<longrightarrow> (\<forall>k < 21. name_at (data s b) k \<noteq> nm)))"
  using search_dir_entry_ok [OF assms] by (simp add: dir_map_def lookup_None_iff)

theorem search_dir_entry_first_witness:
  "search_dir_entry Root_dir [0x66] fs0 = Some (dir_map Root_dir fs0 [0x66], fs0\<lparr>heap_cnt := heap_cnt fs0 + 2\<rparr>) \<and>
   dir_map Root_dir fs0 [0x66] = Some file_e"
proof -
  have r: "fs_ready fs0" using layout_fs0 by (simp add: layout_ok_def)
  have bl: "inode_blocks (data fs0) (the_dir_inode Root_dir fs0) = 2664 # replicate 139 0"
    by (simp add: inode_blocks_def dir_fs0 inode0_sec replicate_add [symmetric])
  have h: "heap fs0 (heap_cnt fs0) \<noteq> 0" "heap fs0 (Suc (heap_cnt fs0)) \<noteq> 0" by (simp_all add: fs0_def)
  have "search_dir_entry Root_dir [0x66] fs0 = Some (dir_map Root_dir fs0 [0x66], fs0\<lparr>heap_cnt := heap_cnt fs0 + 2\<rparr>)"
    by (rule conjunct1 [OF search_dir_entry_first [OF r _ _ _ h]]) (simp add: dir_fs0 inode0_sec, simp add: dir_fs0 inode0_sec, simp add: bl)
  then show ?thesis by (simp add: fs0_lookup)
qed

text \<open>Property C24: an entry written to a directory without a table of indirect blocks, in the first free
  entry of its blocks or in a new direct block, is found under its name afterwards; every other name keeps its entry,
  and the size of the directory grows by one entry. The statement does not cover directories whose direct blocks are
  full or that have a table already (\<open>dir_ok\<close> asks for an empty table and \<open>room_at\<close> for room in the first twelve
  blocks): there \<^verbatim>\<open>sync_dir_entry\<close> never reads the table it has, and takes its blocks for free ones.\<close>

theorem sync_dir_entry_adds:
  assumes "dir_ok d s" "room_at d s j" "entry_ok e" "dir_map d s (entry_name e) = None"
  shows "\<exists>s'. sync_dir_entry d e s = Some (True, s') \<and>
    (\<forall>nm. nm \<noteq> [] \<longrightarrow> dir_map d s' nm = (if nm = entry_name e then Some e else dir_map d s nm)) \<and>
    i_size (the_dir_inode d s') = i_size (the_dir_inode d s) + 24"
  using sync_existing [OF assms(1,2) _ assms(3,4)] sync_new [OF assms(1,2) _ assms(3,4)]
  by (cases "i_sectors (the_dir_inode d s) ! j = 0") (simp_all add: dir_update_def)

theorem sync_dir_entry_adds_witness:
  "\<exists>s'. sync_dir_entry Root_dir \<lparr>filename = 0x67 # replicate 15 0, de_i_no = 2, f_type = 1\<rparr> fs0 = Some (True, s') \<and>
    (\<forall>nm. nm \<noteq> [] \<longrightarrow> dir_map Root_dir s' nm =
      (if nm = entry_name \<lparr>filename = 0x67 # replicate 15 0, de_i_no = 2, f_type = 1\<rparr>
       then Some \<lparr>filename = 0x67 # replicate 15 0, de_i_no = 2, f_type = 1\<rparr> else dir_map Root_dir fs0 nm)) \<and>
    i_size (the_dir_inode Root_dir s') = i_size (the_dir_inode Root_dir fs0) + 24"
proof (rule sync_dir_entry_adds [OF fs0_dir_ok])
  have "has_free (data fs0 2664)" using fs0_entries(4) [of 3] unfolding has_free_def by (intro exI [of _ 3]) simp
  then show "room_at Root_dir fs0 0" by (simp add: room_at_def dir_fs0 inode0_sec)
  show "entry_ok \<lparr>filename = 0x67 # replicate 15 0, de_i_no = 2, f_type = 1\<rparr>" by (simp add: entry_ok_def)
  have "entry_name \<lparr>filename = 0x67 # replicate 15 0, de_i_no = 2, f_type = 1\<rparr> = [0x67]"
    by (simp add: entry_name_def dir_entry_bytes_def takeWhile_zeros)
  then show "dir_map Root_dir fs0 (entry_name \<lparr>filename = 0x67 # replicate 15 0, de_i_no = 2, f_type = 1\<rparr>) = None"
    by (simp add: fs0_lookup)
qed

text \<open>Property C25: deleting the entry of an inode from a directory without a table of indirect blocks makes its
  name unknown and keeps the entries of all other names, both when the entry is cleared in its block and when the
  block, left without entries, is given back. Directories with a table are excluded by \<open>dir_ok\<close>: there the removal
  of the last entry of a block does not return (\<open>delete_indirect_hangs\<close>).\<close>

theorem delete_dir_entry_removes:
  assumes "dir_ok d s" "only_match d s n j k" "24 \<le> i_size (the_dir_inode d s)" "dots_together d s"
  shows "\<exists>s'. delete_dir_entry d n s = Some (True, s') \<and>
    (\<forall>nm. nm \<noteq> [] \<longrightarrow> dir_map d s' nm =
       (if nm = name_at (data s (i_sectors (the_dir_inode d s) ! j)) k then None else dir_map d s nm)) \<and>
    i_size (the_dir_inode d s') = i_size (the_dir_inode d s) - 24"
  using delete_clear [OF assms(1-3)] delete_free [OF assms]
  unfolding dir_update_def by blast

theorem delete_dir_entry_removes_witness:
  "\<exists>s'. delete_dir_entry Root_dir 1 fs0 = Some (True, s') \<and>
    (\<forall>nm. nm \<noteq> [] \<longrightarrow> dir_map Root_dir s' nm =
       (if nm = name_at (data fs0 (i_sectors (the_dir_inode Root_dir fs0) ! 0)) 2 then None else dir_map Root_dir fs0 nm)) \<and>
    i_size (the_dir_inode Root_dir s') = i_size (the_dir_inode Root_dir fs0) - 24"
proof (rule delete_dir_entry_removes [OF fs0_dir_ok])
  have sec: "i_sectors (the_dir_inode Root_dir fs0) ! i = (if i = 0 then 2664 else 0)" if "i < 12" for i
    using that by (simp add: dir_fs0 inode0_sec nth_Cons')
  have mt: "matches (data fs0 2664) 1 m \<longleftrightarrow> m = 2" "m \<noteq> 2 \<longrightarrow> name_at (data fs0 2664) m \<noteq> [0x66]" if "m < 21" for m
    using slots_21 [OF that] fs0_entries(1-3) fs0_entries(4) [of m] fs0_names(1-3) fs0_names(4) [of m]
    by (elim disjE; simp add: matches_def counted_def root_entries)+
  show "only_match Root_dir fs0 1 0 2"
    unfolding only_match_def Let_def using sec mt fs0_names(3) by auto
  have "dot_entry (data fs0 2664) 0" using fs0_entries(1) fs0_names(1) by (simp add: dot_entry_def dot_e_def)
  then show "dots_together Root_dir fs0"
    unfolding dots_together_def Let_def using sec by (metis zero_less_numeral)
  show "24 \<le> i_size (the_dir_inode Root_dir fs0)" by (simp add: dir_fs0 inode0_sec)
qed

text \<open>Remark: the loop that counts the blocks of the indirect table never ends. Deleting the last entry
  of an indirect block does not return.\<close>

theorem delete_indirect_hangs:
  assumes "12 \<le> idx" "dir_entry_cnt c = 1" "\<not> is_dir_first_block c"
  shows "drop_entry p blocks idx buf c k s = None"
  using assms by (simp add: drop_entry_def)

theorem delete_indirect_hangs_witness:
  "drop_entry 0 (replicate 140 2700) 12 (replicate 512 0)
     \<lparr>is_dir_first_block = False, dir_entry_cnt = 1, dir_entry_found = Some 0\<rparr> 0 fs0 = None"
  by (rule delete_indirect_hangs) simp_all

end
