(* ===== verification/Kfile.thy ===== *)
theory Kfile
  imports Kdir
begin

text \<open>
  Files (\<^verbatim>\<open>src/fs/file.c\<close>, \<^verbatim>\<open>src/inc/file.h\<close>): the system-wide table of open files, the descriptors of
  a process, creating, opening, closing, writing and reading. A \<^verbatim>\<open>struct file *\<close> is an index of the
  file table, a null \<^verbatim>\<open>fd_inode\<close> is 0, and a result of \<open>-1\<close> reports an error as in the source.

  The theory shows what the loop of \<^verbatim>\<open>file_write\<close> does to the blocks it is given and what is gained by the
  allocation of blocks; the theorems on \<^verbatim>\<open>file_write\<close> and \<^verbatim>\<open>file_read\<close> are in \<open>Kfile_rw\<close>.
\<close>

section \<open>Descriptors\<close>

definition MAX_FILE_OPEN :: nat where "MAX_FILE_OPEN = 32"
definition MAX_FILES_OPEN_PER_PROC :: nat where "MAX_FILES_OPEN_PER_PROC = 8"
definition O_WRONLY :: u8 where "O_WRONLY = 1"
definition O_RDWR :: u8 where "O_RDWR = 2"
definition O_CREAT :: u8 where "O_CREAT = 4"

definition get_free_slot_in_global :: "'a fsys_scheme \<Rightarrow> u32" where
  "get_free_slot_in_global s =
     (case find (\<lambda>i. fd_inode (file_table s ! i) = 0) [3..<MAX_FILE_OPEN] of
        Some fd_idx \<Rightarrow> of_nat fd_idx | None \<Rightarrow> -1)"

definition pcb_fd_install :: "u32 \<Rightarrow> 'a fsys_scheme \<Rightarrow> u32 \<times> 'a fsys_scheme" where
  "pcb_fd_install globa_fd_idx s =
     (case find (\<lambda>i. fd_table s ! i = -1) [3..<MAX_FILES_OPEN_PER_PROC] of
        Some local_fd_idx \<Rightarrow> (of_nat local_fd_idx, s\<lparr>fd_table := (fd_table s)[local_fd_idx := globa_fd_idx]\<rparr>)
      | None \<Rightarrow> (-1, s))"

definition get_file :: "u32 \<Rightarrow> 'a fsys_scheme \<Rightarrow> file_rec" where
  "get_file fd s = file_table s ! unat fd"

definition put_file :: "u32 \<Rightarrow> file_rec \<Rightarrow> 'a fsys_scheme \<Rightarrow> 'a fsys_scheme" where
  "put_file fd f s = s\<lparr>file_table := (file_table s)[unat fd := f]\<rparr>"

section \<open>Creating, opening and closing\<close>

definition zero_entry :: dir_entry where
  "zero_entry = \<lparr>filename = replicate 16 0, de_i_no = 0, f_type = 0\<rparr>"

text \<open>The rollback of \<^verbatim>\<open>file_create\<close>: step 3 clears the table entry, steps 3 and 2 free the inode's
  memory, and all steps return the inode number.\<close>

definition create_rollback :: "nat \<Rightarrow> u32 \<Rightarrow> u32 \<Rightarrow> u32 \<Rightarrow> 'a fsys_scheme \<Rightarrow> (u32 \<times> 'a fsys_scheme) option" where
  "create_rollback step fd_idx p inode_no s =
     do { let s = (if step = 3 then put_file fd_idx \<lparr>fd_pos = 0, fd_flag = 0, fd_inode = 0\<rparr> s else s);
          ASSERT (step = 1 \<or> p \<noteq> 0);
          b \<leftarrow> bitmap_set (inode_bitmap s) inode_no 0;
          Some (-1, s\<lparr>inode_bitmap := b\<rparr>) }"

definition file_create :: "dir_ptr \<Rightarrow> u8 list \<Rightarrow> u8 \<Rightarrow> 'a fsys_scheme \<Rightarrow> (u32 \<times> 'a fsys_scheme) option" where
  "file_create parent_dir nm flag s =
     do { let (io_buf, s) = heap_alloc s;
          if io_buf = 0 then Some (-1, s) else do {
          (inode_no, s) \<leftarrow> inode_bitmap_alloc s;
          if inode_no = -1 then Some (-1, s) else do {
          let (p, s) = heap_alloc s;
          if p = 0 then create_rollback 1 0 p inode_no s else do {
          let s = upd_inode p (\<lambda>_. inode_init inode_no) s;
          let fd_idx = get_free_slot_in_global s;
          if fd_idx = -1 then create_rollback 2 fd_idx p inode_no s else do {
          let s = put_file fd_idx \<lparr>fd_pos = 0, fd_flag = ucast flag, fd_inode = p\<rparr> s;
          let s = upd_inode p (\<lambda>i. i\<lparr>write_deny := 0\<rparr>) s;
          new_dir_entry \<leftarrow> create_dir_entry nm inode_no FT_REGULAR zero_entry;
          (synced, s) \<leftarrow> sync_dir_entry parent_dir new_dir_entry s;
          if \<not> synced then create_rollback 3 fd_idx p inode_no s else do {
          s \<leftarrow> inode_sync 1024 (the_dir_inode parent_dir s) s;
          s \<leftarrow> inode_sync 1024 (inodes s p) s;
          s \<leftarrow> bitmap_sync inode_no INODE_BITMAP s;
          let s = s\<lparr>open_inodes := p # open_inodes s\<rparr>;
          let s = upd_inode p (\<lambda>i. i\<lparr>i_open_cnts := 1\<rparr>) s;
          Some (pcb_fd_install fd_idx s) }}}}}}"

definition file_open :: "u32 \<Rightarrow> u8 \<Rightarrow> 'a fsys_scheme \<Rightarrow> (u32 \<times> 'a fsys_scheme) option" where
  "file_open inode_no flag s =
     (let fd_idx = get_free_slot_in_global s
      in if fd_idx = -1 then Some (-1, s)
         else do { (p, s) \<leftarrow> inode_open inode_no s;
                   let s = put_file fd_idx \<lparr>fd_pos = 0, fd_flag = ucast flag, fd_inode = p\<rparr> s;
                   if flag AND O_WRONLY \<noteq> 0 \<or> flag AND O_RDWR \<noteq> 0
                   then if write_deny (inodes s p) = 0
                        then Some (pcb_fd_install fd_idx (upd_inode p (\<lambda>i. i\<lparr>write_deny := 1\<rparr>) s))
                        else Some (-1, s)
                   else Some (pcb_fd_install fd_idx s) })"

definition file_close :: "u32 \<Rightarrow> 'a fsys_scheme \<Rightarrow> (u32 \<times> 'a fsys_scheme) option" where
  "file_close fd s =
     do { let p = fd_inode (get_file fd s);
          ASSERT (p \<noteq> 0);
          s \<leftarrow> inode_close p (upd_inode p (\<lambda>i. i\<lparr>write_deny := 0\<rparr>) s);
          Some (0, put_file fd ((get_file fd s)\<lparr>fd_inode := 0\<rparr>) s) }"

section \<open>Writing\<close>

text \<open>The loop that allocates the blocks \<^verbatim>\<open>block_idx\<close> up to \<^verbatim>\<open>file_will_use_blocks\<close>. The three
  situations of the source have the same loop: below 12 the block is also recorded in the inode.\<close>

fun alloc_blocks :: "u32 \<Rightarrow> nat list \<Rightarrow> u32 list \<Rightarrow> 'a fsys_scheme \<Rightarrow> (u32 list option \<times> 'a fsys_scheme) option" where
  "alloc_blocks p [] ab s = Some (Some ab, s)"
| "alloc_blocks p (idx # idxs) ab s =
     do { (block_lba, s) \<leftarrow> block_bitmap_alloc s;
          if block_lba = -1 then Some (None, s)
          else do { ASSERT (idx < 12 \<longrightarrow> i_sectors (inodes s p) ! idx = 0);
                    let s = (if idx < 12 then set_sector p idx block_lba s else s);
                    let block_bitmap_idx = block_lba - data_start_lba (sb s);
                    s \<leftarrow> bitmap_sync block_bitmap_idx BLOCK_BITMAP s;
                    alloc_blocks p idxs (ab[idx := block_lba]) s } }"

text \<open>Collecting the block addresses a write needs: nothing to add, or the three situations of the
  source. The array starts out cleared. \<open>None\<close> as the list means that the disk is full.\<close>

definition write_blocks :: "u32 \<Rightarrow> nat \<Rightarrow> nat \<Rightarrow> 'a fsys_scheme \<Rightarrow> (u32 list option \<times> 'a fsys_scheme) option" where
  "write_blocks p has_used will_use s =
     (let ab = replicate 140 0; sec = i_sectors (inodes s p)
      in if will_use = has_used
         then if has_used \<le> 12 then Some (Some (ab[has_used - 1 := sec ! (has_used - 1)]), s)
              else do { ASSERT (sec ! 12 \<noteq> 0);
                        (buf, s) \<leftarrow> disk_read (sec ! 12) 1 s;
                        Some (Some (take 12 ab @ bytes_words buf), s) }
         else if will_use \<le> 12
         then do { ASSERT (sec ! (has_used - 1) \<noteq> 0);
                   alloc_blocks p [has_used..<will_use] (ab[has_used - 1 := sec ! (has_used - 1)]) s }
         else if has_used \<le> 12
         then do { let ab = ab[has_used - 1 := sec ! (has_used - 1)];
                   (block_lba, s) \<leftarrow> block_bitmap_alloc s;
                   if block_lba = -1 then Some (None, s)
                   else do { ASSERT (i_sectors (inodes s p) ! 12 = 0);
                             let s = set_sector p 12 block_lba s;
                             (r, s) \<leftarrow> alloc_blocks p [has_used..<will_use] ab s;
                             case r of None \<Rightarrow> Some (None, s)
                             | Some ab \<Rightarrow> do { s \<leftarrow> disk_write block_lba (words_bytes (drop 12 ab)) 1 s; Some (Some ab, s) } } }
         else do { ASSERT (sec ! 12 \<noteq> 0);
                   (buf, s) \<leftarrow> disk_read (sec ! 12) 1 s;
                   (r, s) \<leftarrow> alloc_blocks p [has_used..<will_use] (take 12 ab @ bytes_words buf) s;
                   case r of None \<Rightarrow> Some (None, s)
                   | Some ab \<Rightarrow> do { s \<leftarrow> disk_write (sec ! 12) (words_bytes (drop 12 ab)) 1 s; Some (Some ab, s) } })"

text \<open>The loop that writes the bytes, sector by sector. The first sector is read before it is changed.\<close>

function write_loop :: "u32 \<Rightarrow> u32 \<Rightarrow> u32 list \<Rightarrow> bool \<Rightarrow> u8 list \<Rightarrow> 'a fsys_scheme \<Rightarrow> 'a fsys_scheme option" where
  "write_loop fd p ab first_write_block src s =
     (if src = [] then Some s
      else do { let sec_idx = i_size (inodes s p) div 512;
                sec_lba \<leftarrow> aget ab sec_idx;
                let sec_off_bytes = unat (i_size (inodes s p) mod 512);
                let sec_left_bytes = 512 - sec_off_bytes;
                let chunk_size = min (length src) sec_left_bytes;
                (io_buf, s) \<leftarrow> (if first_write_block then disk_read sec_lba 1 s else Some (replicate 512 0, s));
                io_buf \<leftarrow> put_at sec_off_bytes (take chunk_size src) io_buf;
                s \<leftarrow> disk_write sec_lba io_buf 1 s;
                let s = upd_inode p (\<lambda>i. i\<lparr>i_size := i_size i + of_nat chunk_size\<rparr>) s;
                let s = put_file fd ((get_file fd s)\<lparr>fd_pos := fd_pos (get_file fd s) + of_nat chunk_size\<rparr>) s;
                write_loop fd p ab False (drop chunk_size src) s })"
  by pat_completeness auto
termination
  by (relation "measure (\<lambda>(fd, p, ab, first, src, s). length src)")
    (auto simp: unat_mod)

text \<open>The first part of \<^verbatim>\<open>file_write\<close>: a file without a block gets one.\<close>

definition first_block :: "u32 \<Rightarrow> 'a fsys_scheme \<Rightarrow> (bool \<times> 'a fsys_scheme) option" where
  "first_block p s =
     (if i_sectors (inodes s p) ! 0 = 0
      then do { (block_lba, s) \<leftarrow> block_bitmap_alloc s;
                if block_lba = -1 then Some (True, s)
                else do { let s = set_sector p 0 block_lba s;
                          let block_bitmap_idx = block_lba - data_start_lba (sb s);
                          ASSERT (block_bitmap_idx \<noteq> 0);
                          s \<leftarrow> bitmap_sync block_bitmap_idx BLOCK_BITMAP s;
                          Some (False, s) } }
      else Some (False, s))"

definition file_write :: "u32 \<Rightarrow> u8 list \<Rightarrow> u32 \<Rightarrow> 'a fsys_scheme \<Rightarrow> (u32 \<times> 'a fsys_scheme) option" where
  "file_write fd buf count s =
     (let p = fd_inode (get_file fd s)
      in if i_size (inodes s p) + count > 512 * 140 then Some (-1, s) else do {
     let (io_buf, s) = heap_alloc s;
     if io_buf = 0 then Some (-1, s) else do {
     let (all_blocks, s) = heap_alloc s;
     if all_blocks = 0 then Some (-1, s) else do {
     (full, s) \<leftarrow> first_block p s;
     if full then Some (-1, s) else do {
     let has_used = i_size (inodes s p) div 512 + 1;
     let will_use = (i_size (inodes s p) + count) div 512 + 1;
     ASSERT (will_use \<le> 140);
     (r, s) \<leftarrow> write_blocks p (unat has_used) (unat will_use) s;
     case r of None \<Rightarrow> Some (-1, s)
     | Some ab \<Rightarrow> do {
         src \<leftarrow> get_at 0 (unat count) buf;
         let s = put_file fd ((get_file fd s)\<lparr>fd_pos := i_size (inodes s p) - 1\<rparr>) s;
         s \<leftarrow> write_loop fd p ab True src s;
         s \<leftarrow> inode_sync 512 (inodes s p) s;
         Some (count, s) }}}}})"

section \<open>Reading\<close>

text \<open>The addresses a read needs. Every case copies direct blocks, the indirect table, or both.\<close>

definition read_addrs :: "u32 \<Rightarrow> nat \<Rightarrow> nat \<Rightarrow> 'a fsys_scheme \<Rightarrow> (u32 list \<times> 'a fsys_scheme) option" where
  "read_addrs p start_idx end_idx s =
     (let sec = i_sectors (inodes s p); ab = replicate 140 0;
          direct = (\<lambda>ks. map (\<lambda>k. if k \<in> set ks then sec ! k else 0) [0..<12])
      in if end_idx = start_idx
         then if end_idx < 12 then Some (direct [end_idx] @ drop 12 ab, s)
              else do { (buf, s) \<leftarrow> disk_read (sec ! 12) 1 s; Some (take 12 ab @ bytes_words buf, s) }
         else if end_idx < 12 then Some (direct [start_idx..<end_idx + 1] @ drop 12 ab, s)
         else do { ASSERT (sec ! 12 \<noteq> 0);
                   (buf, s) \<leftarrow> disk_read (sec ! 12) 1 s;
                   Some (direct [start_idx..<12] @ bytes_words buf, s) })"

function read_loop :: "u32 \<Rightarrow> u32 list \<Rightarrow> nat \<Rightarrow> u8 list \<Rightarrow> 'a fsys_scheme \<Rightarrow> (u8 list \<times> 'a fsys_scheme) option" where
  "read_loop fd ab size_left dst s =
     (if size_left = 0 then Some (dst, s)
      else do { let pos = fd_pos (get_file fd s);
                sec_lba \<leftarrow> aget ab (pos div 512);
                let sec_off_bytes = unat (pos mod 512);
                let chunk_size = min size_left (512 - sec_off_bytes);
                (io_buf, s) \<leftarrow> disk_read sec_lba 1 s;
                bs \<leftarrow> get_at sec_off_bytes chunk_size io_buf;
                let s = put_file fd ((get_file fd s)\<lparr>fd_pos := pos + of_nat chunk_size\<rparr>) s;
                read_loop fd ab (size_left - chunk_size) (dst @ bs) s })"
  by pat_completeness auto
termination
  by (relation "measure (\<lambda>(fd, ab, n, dst, s). n)") (auto simp: unat_mod)

text \<open>The result is the return value and the bytes stored from \<^verbatim>\<open>buf\<close> on.\<close>

definition file_read :: "u32 \<Rightarrow> u32 \<Rightarrow> 'a fsys_scheme \<Rightarrow> ((u32 \<times> u8 list) \<times> 'a fsys_scheme) option" where
  "file_read fd count s =
     (let p = fd_inode (get_file fd s); pos = fd_pos (get_file fd s);
          over = pos + count > i_size (inodes s p);
          size = (if over then i_size (inodes s p) - pos else count)
      in if over \<and> size = 0 then Some ((-1, []), s) else do {
     let (io_buf, s) = heap_alloc s;
     if io_buf = 0 then Some ((-1, []), s) else do {
     let (all_blocks, s) = heap_alloc s;
     if all_blocks = 0 then Some ((-1, []), s) else do {
     let start_idx = pos div 512;
     let end_idx = (pos + size) div 512;
     ASSERT (start_idx < 139 \<and> end_idx < 139);
     (ab, s) \<leftarrow> read_addrs p (unat start_idx) (unat end_idx) s;
     (dst, s) \<leftarrow> read_loop fd ab (unat size) [] s;
     Some ((size, dst), s) }}})"

declare write_loop.simps [simp del] read_loop.simps [simp del]

section \<open>The contents of a file\<close>

definition fcontent :: "(u32 \<Rightarrow> u8 list) \<Rightarrow> u32 list \<Rightarrow> nat \<Rightarrow> u8 list" where
  "fcontent md bl n = take n (concat (map md bl))"

text \<open>The blocks that a file of this size has, and its contents. A file has a block for the byte after
  its last one: \<^verbatim>\<open>i_size / BLOCK_SIZE + 1\<close> blocks.\<close>

definition file_blocks :: "'a fsys_scheme \<Rightarrow> u32 \<Rightarrow> u32 list" where
  "file_blocks s p = take (Suc (unat (i_size (inodes s p)) div 512)) (inode_blocks (data s) (inodes s p))"

definition file_content :: "'a fsys_scheme \<Rightarrow> u32 \<Rightarrow> u8 list" where
  "file_content s p = fcontent (data s) (file_blocks s p) (unat (i_size (inodes s p)))"

lemma length_concat_512: "(\<And>x. length (md x) = 512) \<Longrightarrow> length (concat (map md bl)) = 512 * length bl"
  by (induction bl) simp_all

lemma fcontent_cong: "(\<And>b. b \<in> set bl \<Longrightarrow> md' b = md b) \<Longrightarrow> fcontent md' bl n = fcontent md bl n"
  unfolding fcontent_def by (rule arg_cong [of _ _ "\<lambda>xs. take n (concat xs)"]) (rule map_cong, simp_all)

lemma fcontent_prefix:
  assumes "\<And>x. length (md x) = 512" "n \<le> 512 * length bl"
  shows "fcontent md (bl @ bl') n = fcontent md bl n"
  using assms length_concat_512 [of md bl] by (simp add: fcontent_def)

lemma concat_split_block:
  assumes "k < length bl"
  shows "concat (map md bl) = concat (map md (take k bl)) @ md (bl ! k) @ concat (map md (drop (Suc k) bl))"
  by (subst id_take_nth_drop [OF assms]) simp

text \<open>Writing a chunk behind the last byte, within one block, appends it to the contents.\<close>

lemma fcontent_write:
  assumes "distinct bl" "k < length bl" "\<And>x. length (md x) = 512" "off + length xs \<le> 512" "length buf = 512"
    "take off buf = take off (md (bl ! k))" "put_at off xs buf = Some buf'"
  shows "fcontent (md(bl ! k := buf')) bl (512 * k + off + length xs) = fcontent md bl (512 * k + off) @ xs"
proof -
  let ?md = "md(bl ! k := buf')"
  have "distinct (take k bl @ bl ! k # drop (Suc k) bl)"
    using assms(1) id_take_nth_drop [OF assms(2)] by simp
  then have "bl ! k \<notin> set (take k bl)" by simp
  then have A: "concat (map ?md (take k bl)) = concat (map md (take k bl))"
    by (intro arg_cong [of _ _ concat] map_cong) auto
  have lenA: "length (concat (map md (take k bl))) = 512 * k"
    using length_concat_512 [of md "take k bl"] assms(2,3) by simp
  have buf': "take (off + length xs) buf' = take off buf @ xs" "length buf' = 512"
    using assms(4,5,7) put_at_length [OF assms(7)] by (auto simp: put_at_def)
  have "concat (map ?md bl) = concat (map md (take k bl)) @ buf' @ concat (map ?md (drop (Suc k) bl))"
    using concat_split_block [OF assms(2), of ?md] A by simp
  then have "fcontent ?md bl (512 * k + off + length xs) = concat (map md (take k bl)) @ take (off + length xs) buf'"
    using lenA buf'(2) assms(4) by (simp add: fcontent_def add.assoc)
  moreover have "fcontent md bl (512 * k + off) = concat (map md (take k bl)) @ take off (md (bl ! k))"
    using concat_split_block [OF assms(2), of md] lenA assms(3,4) by (simp add: fcontent_def)
  ultimately show ?thesis using buf'(1) assms(6) by simp
qed

lemma unat_small_add:
  fixes a b :: u32
  shows "unat a + unat b < 2 ^ 32 \<Longrightarrow> unat (a + b) = unat a + unat b"
  by (rule unat_plus_lt) simp

lemma unat_div_512: "unat (n div 512 :: u32) = unat n div 512" and unat_mod_512: "unat (n mod 512 :: u32) = unat n mod 512"
  by (simp_all add: unat_div unat_mod)

lemma write_loop_ok:
  assumes "fs_ready s" "length ab = 140" "distinct B" "length B \<le> 140" "\<forall>b \<in> set B. unat b < 163840"
    "\<forall>k < length B. unat (i_size (inodes s p)) div 512 \<le> k \<longrightarrow> ab ! k = B ! k"
    "unat (i_size (inodes s p)) + length src < 512 * length B"
    "first \<or> unat (i_size (inodes s p)) mod 512 = 0" "unat fd < length (file_table s)"
  shows "\<exists>md. write_loop fd p ab first src s =
      Some ((wdata md s)\<lparr>inodes := (inodes s)(p := (inodes s p)\<lparr>i_size := i_size (inodes s p) + of_nat (length src)\<rparr>),
        file_table := (file_table s)[unat fd := (get_file fd s)\<lparr>fd_pos := fd_pos (get_file fd s) + of_nat (length src)\<rparr>]\<rparr>) \<and>
    (\<forall>x. length (md x) = 512) \<and> (\<forall>x. x \<notin> set B \<longrightarrow> md x = data s x) \<and>
    fcontent md B (unat (i_size (inodes s p)) + length src) = fcontent (data s) B (unat (i_size (inodes s p))) @ src"
  using assms
proof (induction "length src" arbitrary: src s first rule: less_induct)
  case less
  show ?case
  proof (cases "src = []")
    case True
    then show ?thesis using less.prems
      by (subst write_loop.simps) (auto intro!: exI [of _ "data s"] simp: get_file_def)
  next
    case False
    let ?sz = "i_size (inodes s p)" and ?n = "length src"
    define k off where "k = unat ?sz div 512" and "off = unat ?sz mod 512"
    define c where "c = min ?n (512 - off)"
    have sz: "unat ?sz = 512 * k + off" "off < 512" by (simp_all add: k_def off_def)
    have c: "0 < c" "c \<le> ?n" "off + c \<le> 512" using False sz(2) by (auto simp: c_def)
    have k: "k < length B" using less.prems(7) sz by simp
    have abk: "ab ! k = B ! k" using less.prems(6) k by (simp add: k_def)
    have lba: "unat (B ! k) < 163840" using less.prems(5) k by simp
    define buf where "buf = (if first then data s (B ! k) else replicate 512 0)"
    have buf: "length buf = 512" "take off buf = take off (data s (B ! k))"
      using less.prems(1,8) by (auto simp: buf_def off_def)
    define buf' where "buf' = take off buf @ take c src @ drop (off + c) buf"
    have put: "put_at off (take c src) buf = Some buf'" "length buf' = 512"
      using buf(1) c by (simp_all add: put_at_def buf'_def min_absorb2)
    define md1 where "md1 = (data s)(B ! k := buf')"
    define i1 where "i1 = (inodes s p)\<lparr>i_size := ?sz + of_nat c\<rparr>"
    define f1 where "f1 = (get_file fd s)\<lparr>fd_pos := fd_pos (get_file fd s) + of_nat c\<rparr>"
    define s1 where "s1 = (wdata md1 s)\<lparr>inodes := (inodes s)(p := i1), file_table := (file_table s)[unat fd := f1]\<rparr>"
    have len1: "length (md1 x) = 512" for x using less.prems(1) put(2) by (simp add: md1_def)
    have idx: "aget ab (?sz div 512) = Some (B ! k)"
      using less.prems(2,4) k abk by (simp add: unat_div_512 k_def [symmetric])
    have step: "write_loop fd p ab first src s = write_loop fd p ab False (drop c src) s1"
    proof -
      have rd: "(if first then disk_read (B ! k) 1 s else Some (replicate 512 0, s)) = Some (buf, s)"
        using disk_read_1 [OF less.prems(1) lba] by (simp add: buf_def)
      have wr: "disk_write (B ! k) buf' 1 s = Some (wdata md1 s)"
        using disk_write_1 [OF less.prems(1) lba put(2)] by (simp add: md1_def)
      have "put_file fd ((get_file fd (upd_inode p (\<lambda>i. i\<lparr>i_size := i_size i + of_nat c\<rparr>) (wdata md1 s)))
          \<lparr>fd_pos := fd_pos (get_file fd (upd_inode p (\<lambda>i. i\<lparr>i_size := i_size i + of_nat c\<rparr>) (wdata md1 s))) + of_nat c\<rparr>)
          (upd_inode p (\<lambda>i. i\<lparr>i_size := i_size i + of_nat c\<rparr>) (wdata md1 s)) = s1"
        by (simp add: put_file_def upd_inode_def get_file_def s1_def i1_def f1_def)
      with False show ?thesis
        by (subst write_loop.simps)
          (simp add: idx rd wr put(1) Let_def unat_mod_512 off_def [symmetric] c_def [symmetric])
    qed
    have usz1: "unat (i_size i1) = unat ?sz + c"
      using less.prems(4,7) c(2) by (simp add: i1_def) (subst unat_plus_lt; simp add: unat_of_nat_lt)
    have s1: "fs_ready s1" "inodes s1 p = i1" "data s1 = md1" "length (file_table s1) = length (file_table s)"
      "get_file fd s1 = f1" "inodes s1 = (inodes s)(p := i1)"
      using less.prems(1,9) len1 by (simp_all add: s1_def get_file_def)
    have next_ok: "\<forall>j < length B. unat (i_size (inodes s1 p)) div 512 \<le> j \<longrightarrow> ab ! j = B ! j"
    proof -
      have "unat ?sz div 512 \<le> unat (i_size i1) div 512" unfolding usz1 by (rule div_le_mono) simp
      then show ?thesis using less.prems(6) unfolding s1(2) by (meson order_trans)
    qed
    have bound: "unat (i_size (inodes s1 p)) + length (drop c src) < 512 * length B"
      using less.prems(7) c(2) usz1 by (simp add: s1(2))
    have align: "drop c src = [] \<or> unat (i_size (inodes s1 p)) mod 512 = 0"
    proof (cases "c = ?n")
      case False
      then have "off + c = 512" using c(2) sz(2) by (simp add: c_def min_def split: if_splits)
      then have "unat (i_size i1) = 512 * Suc k" using usz1 sz(1) by simp
      then show ?thesis by (simp add: s1(2))
    qed simp
    have less': "length (drop c src) < length src" using c by simp
    have fc: "fcontent md1 B (unat ?sz + c) = fcontent (data s) B (unat ?sz) @ take c src"
      using fcontent_write [where md = "data s", OF less.prems(3) k fs_ready_length [OF less.prems(1)] _ buf put(1)] c sz(1)
      by (simp add: md1_def min_absorb2)
    show ?thesis
    proof (cases "drop c src = []")
      case True
      then have cn: "c = ?n" using c(2) by simp
      have "write_loop fd p ab first src s = Some s1" using step True by (simp add: write_loop.simps)
      moreover have "fcontent md1 B (unat ?sz + ?n) = fcontent (data s) B (unat ?sz) @ src"
        using fc cn by simp
      ultimately show ?thesis using len1 nth_mem [OF k] cn
        by (intro exI [of _ md1]) (auto simp: s1_def i1_def f1_def md1_def)
    next
      case False
      with align have al: "False \<or> unat (i_size (inodes s1 p)) mod 512 = 0" by simp
      have fd1: "unat fd < length (file_table s1)" using less.prems(9) s1(4) by simp
      obtain md where md: "write_loop fd p ab False (drop c src) s1 =
          Some ((wdata md s1)\<lparr>inodes := (inodes s1)(p := (inodes s1 p)\<lparr>i_size := i_size (inodes s1 p) + of_nat (length (drop c src))\<rparr>),
            file_table := (file_table s1)[unat fd := (get_file fd s1)\<lparr>fd_pos := fd_pos (get_file fd s1) + of_nat (length (drop c src))\<rparr>]\<rparr>)"
        "\<forall>x. length (md x) = 512" "\<forall>x. x \<notin> set B \<longrightarrow> md x = data s1 x"
        "fcontent md B (unat (i_size (inodes s1 p)) + length (drop c src)) =
           fcontent (data s1) B (unat (i_size (inodes s1 p))) @ drop c src"
        using less.hyps [OF less' s1(1) less.prems(2-5) next_ok bound al fd1] by blast
      have sum: "(of_nat c :: u32) + of_nat (?n - c) = of_nat ?n" using c(2) by (simp flip: of_nat_add)
      from md(4) fc have "fcontent md B (unat ?sz + ?n) = fcontent (data s) B (unat ?sz) @ src"
        using usz1 c(2) by (simp add: s1(2,3))
      moreover have "md x = data s x" if "x \<notin> set B" for x
        using md(3) that nth_mem [OF k] by (auto simp: s1(3) md1_def)
      moreover have "write_loop fd p ab first src s =
          Some ((wdata md s)\<lparr>inodes := (inodes s)(p := (inodes s p)\<lparr>i_size := ?sz + of_nat ?n\<rparr>),
        file_table := (file_table s)[unat fd := (get_file fd s)\<lparr>fd_pos := fd_pos (get_file fd s) + of_nat ?n\<rparr>]\<rparr>)"
        unfolding step md(1) using sum s1 by (simp add: s1_def i1_def f1_def add.assoc)
      ultimately show ?thesis using md(2) by blast
    qed
  qed
qed

section \<open>Allocating the blocks of a file\<close>

definition nfree :: "'a fsys_scheme \<Rightarrow> nat" where
  "nfree s = card {n. n < nbits (block_bitmap s) \<and> \<not> bit_at (block_bitmap s) n}"

lemma nfree_taken:
  assumes "block_taken s lba s'"
  shows "nfree s = Suc (nfree s')"
proof -
  let ?F = "\<lambda>s. {n. n < nbits (block_bitmap s) \<and> \<not> bit_at (block_bitmap s) n}"
  have "?F s = insert (blk_idx s lba) (?F s')" "blk_idx s lba \<notin> ?F s'"
    using assms by (auto simp: block_taken_def)
  moreover have "finite (?F s')" by simp
  ultimately show ?thesis unfolding nfree_def by simp
qed

lemma nfree_ex: "0 < nfree s \<Longrightarrow> \<exists>n < nbits (block_bitmap s). \<not> bit_at (block_bitmap s) n"
  unfolding nfree_def by (metis (mono_tags, lifting) card_gt_0_iff empty_Collect_eq)

text \<open>The parts of the state that allocation leaves alone.\<close>

definition fs_frame :: "'a fsys_scheme \<Rightarrow> 'a fsys_scheme \<Rightarrow> bool" where
  "fs_frame s s' \<longleftrightarrow> sb s' = sb s \<and> part s' = part s \<and> file_table s' = file_table s \<and> fd_table s' = fd_table s \<and>
     heap s' = heap s \<and> heap_cnt s' = heap_cnt s \<and> open_inodes s' = open_inodes s \<and> inode_bitmap s' = inode_bitmap s \<and>
     dirs s' = dirs s \<and> root_dir s' = root_dir s \<and> cwd_inode_nr s' = cwd_inode_nr s"

text \<open>\<open>gained s N s'\<close>: the blocks \<open>N\<close>, free in \<open>s\<close>, are in use in \<open>s'\<close>; no data block has changed.\<close>

definition gained :: "'a fsys_scheme \<Rightarrow> u32 list \<Rightarrow> 'a fsys_scheme \<Rightarrow> bool" where
  "gained s N s' \<longleftrightarrow> fs_frame s s' \<and> layout_ok s' \<and> free_on_disk s' \<and> distinct N \<and>
     (\<forall>x \<in> set N. \<not> block_used s x \<and> unat (data_start_lba (sb s)) \<le> unat x \<and> unat x < 163840) \<and>
     (\<forall>x. block_used s' x \<longleftrightarrow> block_used s x \<or> x \<in> set N) \<and>
     (\<forall>x. unat (inode_bitmap_lba (sb s)) \<le> unat x \<longrightarrow> data s' x = data s x) \<and> nfree s = nfree s' + length N"

lemma gained_refl: "layout_ok s \<Longrightarrow> free_on_disk s \<Longrightarrow> gained s [] s"
  by (simp add: gained_def fs_frame_def)

lemma gained_trans:
  assumes "gained s N s1" "gained s1 M s2"
  shows "gained s (N @ M) s2"
  using assms unfolding gained_def fs_frame_def by auto

lemma alloc_fields [simp]:
  "layout_ok (s\<lparr>inodes := h\<rparr>) = layout_ok s" "free_on_disk (s\<lparr>inodes := h\<rparr>) = free_on_disk s"
  "block_used (s\<lparr>inodes := h\<rparr>) = block_used s" "nfree (s\<lparr>inodes := h\<rparr>) = nfree s"
  "layout_ok (s\<lparr>heap_cnt := n\<rparr>) = layout_ok s" "free_on_disk (s\<lparr>heap_cnt := n\<rparr>) = free_on_disk s"
  "block_used (s\<lparr>heap_cnt := n\<rparr>) = block_used s" "nfree (s\<lparr>heap_cnt := n\<rparr>) = nfree s"
  "layout_ok (s\<lparr>file_table := t\<rparr>) = layout_ok s" "free_on_disk (s\<lparr>file_table := t\<rparr>) = free_on_disk s"
  "block_used (s\<lparr>file_table := t\<rparr>) = block_used s" "nfree (s\<lparr>file_table := t\<rparr>) = nfree s"
  by (simp_all add: layout_ok_def free_on_disk_def block_used_def blk_idx_def nfree_def fun_eq_iff)

lemma gained_upd_inode: "gained s N s' \<Longrightarrow> gained s N (s'\<lparr>inodes := h\<rparr>)"
  by (simp add: gained_def fs_frame_def)

lemma gained_from_inodes: "gained (s\<lparr>inodes := h\<rparr>) N s' \<Longrightarrow> gained s N s'"
  by (simp add: gained_def fs_frame_def)

lemma taken_gained:
  assumes "block_taken s lba s'" "free_on_disk s"
  shows "gained s [lba] s'"
  using block_taken_frame [OF assms(1)] assms(2) nfree_taken [OF assms(1)] by (auto simp: gained_def fs_frame_def)

lemma gained_nonzero:
  assumes "gained s N s'" "layout_ok s" "x \<in> set N"
  shows "x \<noteq> 0" "x \<noteq> -1" "unat x < 163840"
  using assms by (auto simp: gained_def layout_ok_def unat_minus_1)

lemma one_block:
  assumes "layout_ok s" "free_on_disk s" "0 < nfree s"
  obtains lba s1 s2 where "block_bitmap_alloc s = Some (lba, s1)" "lba \<noteq> -1" "sb s1 = sb s" "inodes s1 = inodes s"
    "\<And>h. bitmap_sync (lba - data_start_lba (sb s)) BLOCK_BITMAP (s1\<lparr>inodes := h\<rparr>) = Some (s2\<lparr>inodes := h\<rparr>)"
    "bitmap_sync (lba - data_start_lba (sb s)) BLOCK_BITMAP s1 = Some s2" "gained s [lba] s2" "inodes s2 = inodes s"
    "block_taken s lba s2" "gained s [lba] s1"
proof -
  obtain lba s1 s2 where a: "block_bitmap_alloc s = Some (lba, s1)" "lba \<noteq> -1" "lba - data_start_lba (sb s) \<noteq> -1"
    "sb s1 = sb s" "bitmap_sync (lba - data_start_lba (sb s)) BLOCK_BITMAP s1 = Some s2" "block_taken s lba s2"
    "\<And>h. bitmap_sync (lba - data_start_lba (sb s)) BLOCK_BITMAP (s1\<lparr>inodes := h\<rparr>) = Some (s2\<lparr>inodes := h\<rparr>)"
    "inodes s1 = inodes s" "block_taken s lba s1"
    by (rule block_alloc_sync [OF assms(1,2) nfree_ex [OF assms(3)]]) (rule that)
  show thesis
    by (rule that [OF a(1,2,4,8,7,5) taken_gained [OF a(6) assms(2)] block_taken_frame(4) [OF a(6)] a(6)
          taken_gained [OF a(9) assms(2)]])
qed

lemma alloc_blocks_ok:
  assumes "layout_ok s" "free_on_disk s" "length idxs \<le> nfree s" "distinct idxs" "\<forall>i \<in> set idxs. i < 140" "length ab = 140"
    "length (i_sectors (inodes s p)) = 13" "\<forall>i \<in> set idxs. i < 12 \<longrightarrow> i_sectors (inodes s p) ! i = 0"
  shows "\<exists>ab' s'. alloc_blocks p idxs ab s = Some (Some ab', s') \<and> gained s (map ((!) ab') idxs) s' \<and>
    length ab' = 140 \<and> (\<forall>k. k \<notin> set idxs \<longrightarrow> ab' ! k = ab ! k) \<and>
    (\<exists>sec. length sec = 13 \<and> inodes s' = (inodes s)(p := (inodes s p)\<lparr>i_sectors := sec\<rparr>) \<and>
       (\<forall>k < 13. sec ! k = (if k \<in> set idxs \<and> k < 12 then ab' ! k else i_sectors (inodes s p) ! k)))"
  using assms
proof (induction idxs arbitrary: ab s)
  case Nil
  then show ?case using gained_refl
    by (auto intro!: exI [of _ "i_sectors (inodes s p)"])
next
  case (Cons i idxs)
  have "0 < nfree s" using Cons.prems(3) by simp
  obtain lba s1 s2 where a: "block_bitmap_alloc s = Some (lba, s1)" "lba \<noteq> -1" "sb s1 = sb s" "inodes s1 = inodes s"
    "\<And>h. bitmap_sync (lba - data_start_lba (sb s)) BLOCK_BITMAP (s1\<lparr>inodes := h\<rparr>) = Some (s2\<lparr>inodes := h\<rparr>)"
    "bitmap_sync (lba - data_start_lba (sb s)) BLOCK_BITMAP s1 = Some s2" "gained s [lba] s2" "inodes s2 = inodes s"
    by (rule one_block [OF Cons.prems(1,2) \<open>0 < nfree s\<close>]) (rule that)
  define sec1 where "sec1 = (if i < 12 then (i_sectors (inodes s p))[i := lba] else i_sectors (inodes s p))"
  define s3 where "s3 = s2\<lparr>inodes := (inodes s)(p := (inodes s p)\<lparr>i_sectors := sec1\<rparr>)\<rparr>"
  have g3: "gained s [lba] s3" unfolding s3_def by (rule gained_upd_inode [OF a(7)])
  then have ok3: "layout_ok s3" "free_on_disk s3" "length idxs \<le> nfree s3"
    using Cons.prems(3) by (simp_all add: gained_def)
  have i3: "inodes s3 p = (inodes s p)\<lparr>i_sectors := sec1\<rparr>" by (simp add: s3_def)
  have sec1: "length sec1 = 13" "\<And>k. k < 13 \<Longrightarrow> sec1 ! k = (if k = i \<and> k < 12 then lba else i_sectors (inodes s p) ! k)"
    using Cons.prems(7) by (auto simp: sec1_def nth_list_update)
  have zero: "\<forall>k \<in> set idxs. k < 12 \<longrightarrow> i_sectors (inodes s3 p) ! k = 0"
    using Cons.prems(4,8) by (auto simp: i3 sec1(2))
  have step: "alloc_blocks p (i # idxs) ab s = alloc_blocks p idxs (ab[i := lba]) s3"
  proof -
    have "bitmap_sync (lba - data_start_lba (sb s)) BLOCK_BITMAP (if i < 12 then set_sector p i lba s1 else s1) = Some s3"
    proof (cases "i < 12")
      case True
      then show ?thesis using a(4) a(5) [of "(inodes s)(p := (inodes s p)\<lparr>i_sectors := (i_sectors (inodes s p))[i := lba]\<rparr>)"]
        by (simp add: set_sector_def upd_inode_def s3_def sec1_def)
    next
      case False
      have "s2\<lparr>inodes := inodes s\<rparr> = s2" using a(8) by (simp add: fsys.surjective)
      then show ?thesis using False a(6) by (simp add: s3_def sec1_def)
    qed
    moreover have "sb (if i < 12 then set_sector p i lba s1 else s1) = sb s" using a(3) by (simp add: set_sector_def upd_inode_def)
    ultimately show ?thesis using a(1,2,4) Cons.prems(8) by (simp add: Let_def)
  qed
  have pre: "distinct idxs" "\<forall>i \<in> set idxs. i < 140" "length (ab[i := lba]) = 140" "length (i_sectors (inodes s3 p)) = 13"
    using Cons.prems(4-6) i3 sec1(1) by simp_all
  obtain ab' s' sec where r: "alloc_blocks p idxs (ab[i := lba]) s3 = Some (Some ab', s')" "gained s3 (map ((!) ab') idxs) s'"
    "length ab' = 140" "\<forall>k. k \<notin> set idxs \<longrightarrow> ab' ! k = ab[i := lba] ! k"
    "length sec = 13" "inodes s' = (inodes s3)(p := (inodes s3 p)\<lparr>i_sectors := sec\<rparr>)"
    "\<forall>k < 13. sec ! k = (if k \<in> set idxs \<and> k < 12 then ab' ! k else i_sectors (inodes s3 p) ! k)"
    using Cons.IH [OF ok3 pre zero] by blast
  have "ab' ! i = lba" using r(4) Cons.prems(4-6) by simp
  with gained_trans [OF g3 r(2)] have g: "gained s (map ((!) ab') (i # idxs)) s'" by simp
  moreover have "\<forall>k. k \<notin> set (i # idxs) \<longrightarrow> ab' ! k = ab ! k" using r(4) by auto
  moreover have "inodes s' = (inodes s)(p := (inodes s p)\<lparr>i_sectors := sec\<rparr>)" using r(6) by (simp add: s3_def)
  moreover have "\<forall>k < 13. sec ! k = (if k \<in> set (i # idxs) \<and> k < 12 then ab' ! k else i_sectors (inodes s p) ! k)"
    using r(7) sec1(2) \<open>ab' ! i = lba\<close> by (auto simp: i3)
  ultimately show ?case using step r(1,3,5) by (intro exI [of _ ab'] exI [of _ s']) auto
qed

end
