(* ===== verification/Kfile_rw.thy ===== *)
theory Kfile_rw
  imports Kfile
begin

text \<open>
  The contents of files (\<^verbatim>\<open>file_write\<close> and \<^verbatim>\<open>file_read\<close> of \<^verbatim>\<open>src/fs/file.c\<close>): a write appends to the
  contents of a file, whatever mixture of direct and indirect blocks it needs, and leaves the blocks of
  other files alone; a read returns the addressed part of the contents.
\<close>

section \<open>The blocks of a file\<close>

definition nblocks :: "'a fsys_scheme \<Rightarrow> u32 \<Rightarrow> nat \<Rightarrow> u32 list" where
  "nblocks s p n = take n (inode_blocks (data s) (inodes s p))"

text \<open>The block of the table of indirect blocks, for a file of more than 12 blocks.\<close>

definition table_block :: "inode \<Rightarrow> nat \<Rightarrow> u32 list" where
  "table_block i n = (if 12 < n then [i_sectors i ! 12] else [])"

text \<open>A file of \<open>n\<close> blocks: they and the table are distinct blocks in use, and no further block is
  recorded in the inode.\<close>

definition blocks_ok :: "'a fsys_scheme \<Rightarrow> u32 \<Rightarrow> nat \<Rightarrow> bool" where
  "blocks_ok s p n \<longleftrightarrow> layout_ok s \<and> free_on_disk s \<and> length (i_sectors (inodes s p)) = 13 \<and> 0 < n \<and> n \<le> 140 \<and>
     distinct (nblocks s p n @ table_block (inodes s p) n) \<and>
     (\<forall>x \<in> set (nblocks s p n @ table_block (inodes s p) n). block_used s x) \<and>
     (\<forall>k. n \<le> k \<and> k \<le> 12 \<longrightarrow> i_sectors (inodes s p) ! k = 0)"

lemma layout_ready: "layout_ok s \<Longrightarrow> fs_ready s"
  by (simp add: layout_ok_def)

lemma block_usedD:
  assumes "layout_ok s" "block_used s x"
  shows "x \<noteq> 0" "unat x < 163840" "unat (data_start_lba (sb s)) \<le> unat x"
  using assms by (auto simp: block_used_def layout_ok_def)

lemma inode_blocks_length:
  assumes "length (i_sectors i) = 13" "\<And>x. length (md x) = 512"
  shows "length (inode_blocks md i) = 140"
  using assms by (simp add: inode_blocks_def length_bytes_words)

lemma inode_blocks_nth:
  assumes "length (i_sectors i) = 13" "\<And>x. length (md x) = 512" "k < 140"
  shows "inode_blocks md i ! k = (if k < 12 then i_sectors i ! k
     else if i_sectors i ! 12 \<noteq> 0 then bytes_words (md (i_sectors i ! 12)) ! (k - 12) else 0)"
  using assms by (simp add: inode_blocks_def nth_append)

lemma nblocks_length:
  assumes "blocks_ok s p n"
  shows "length (nblocks s p n) = n"
proof -
  have "length (inode_blocks (data s) (inodes s p)) = 140"
    using assms by (intro inode_blocks_length) (simp_all add: blocks_ok_def layout_ready)
  then show ?thesis using assms by (simp add: blocks_ok_def nblocks_def)
qed

text \<open>What collecting the blocks for a write achieves: the file has \<open>will\<close> blocks, the new ones come from
  the free blocks, and the blocks in use keep their contents, but for the table.\<close>

definition extends :: "'a fsys_scheme \<Rightarrow> u32 \<Rightarrow> nat \<Rightarrow> nat \<Rightarrow> u32 list \<Rightarrow> 'a fsys_scheme \<Rightarrow> bool" where
  "extends s p has will ab s' \<longleftrightarrow> blocks_ok s' p will \<and> fs_frame s s' \<and> length ab = 140 \<and>
     nblocks s' p will = nblocks s p has @ map ((!) ab) [has..<will] \<and>
     ab ! (has - 1) = nblocks s p has ! (has - 1) \<and>
     (\<exists>sec. inodes s' = (inodes s)(p := (inodes s p)\<lparr>i_sectors := sec\<rparr>)) \<and>
     (\<forall>x. block_used s x \<and> x \<notin> set (table_block (inodes s p) has) \<longrightarrow> data s' x = data s x) \<and>
     (\<forall>x. unat (inode_bitmap_lba (sb s)) \<le> unat x \<and> unat x < unat (data_start_lba (sb s)) \<longrightarrow> data s' x = data s x) \<and>
     (\<forall>x. block_used s x \<longrightarrow> block_used s' x) \<and> (\<forall>k. has \<le> k \<and> k < will \<longrightarrow> \<not> block_used s (ab ! k))"

lemma data_area: "layout_ok s \<Longrightarrow> unat (data_start_lba (sb s)) \<le> unat x \<Longrightarrow> unat (inode_bitmap_lba (sb s)) \<le> unat x"
  by (simp add: layout_ok_def)

lemma wdata_state [simp]:
  "free_on_disk (wdata md s) = free_on_disk s" "block_used (wdata md s) = block_used s" "nfree (wdata md s) = nfree s"
  by (simp_all add: free_on_disk_def block_used_def blk_idx_def nfree_def fun_eq_iff)

lemma layout_wdata: "layout_ok s \<Longrightarrow> (\<And>x. length (md x) = 512) \<Longrightarrow> layout_ok (wdata md s)"
  by (simp add: layout_ok_def)

lemma write_blocks_finish:
  assumes ok: "blocks_ok s p has" "has \<le> will" "will \<le> 140"
    and g: "gained s ((if has \<le> 12 \<and> 12 < will then [sec ! 12] else []) @ map ((!) ab) [has..<will]) s1"
    and i: "inodes s1 = (inodes s)(p := (inodes s p)\<lparr>i_sectors := sec\<rparr>)" "length sec = 13"
      "\<forall>k < 12. sec ! k = (if has \<le> k \<and> k < will then ab ! k else i_sectors (inodes s p) ! k)"
      "\<not> (has \<le> 12 \<and> 12 < will) \<Longrightarrow> sec ! 12 = i_sectors (inodes s p) ! 12"
    and ab: "length ab = 140" "ab ! (has - 1) = nblocks s p has ! (has - 1)"
      "\<And>k. 12 \<le> k \<Longrightarrow> k < has \<Longrightarrow> ab ! k = nblocks s p has ! k"
    and s': "s' = (if 12 < will then wdata ((data s1)(sec ! 12 := words_bytes (drop 12 ab))) s1 else s1)"
  shows "extends s p has will ab s'"
proof -
  note b = ok(1) [unfolded blocks_ok_def]
  let ?N = "(if has \<le> 12 \<and> 12 < will then [sec ! 12] else []) @ map ((!) ab) [has..<will]"
  have rdy: "length (data s x) = 512" "length (data s1 x) = 512" for x
    using b g by (simp_all add: gained_def layout_ready)
  have lay: "layout_ok s" "layout_ok s1" using b g by (simp_all add: gained_def)
  have len': "length (data s' x) = 512" for x using rdy ab(1) by (simp add: s')
  have old: "k < has \<Longrightarrow> nblocks s p has ! k = inode_blocks (data s) (inodes s p) ! k" for k
    by (simp add: nblocks_def)
  have ino: "inodes s' p = (inodes s p)\<lparr>i_sectors := sec\<rparr>" using i(1) by (simp add: s')
  have T: "sec ! 12 \<noteq> 0" if "12 < will"
  proof (cases "has \<le> 12")
    case True
    then show ?thesis using that gained_nonzero(1) [OF g lay(1)] by simp
  next
    case False
    then show ?thesis using b i(4) block_usedD(1) [OF lay(1)] by (simp add: table_block_def)
  qed
  have nth: "inode_blocks (data s') (inodes s' p) ! k = (if k < has then nblocks s p has ! k else ab ! k)" if "k < will" for k
  proof (cases "k < 12")
    case True
    then show ?thesis using that i(2,3) ok b len' rdy
      by (subst inode_blocks_nth) (auto simp: ino old inode_blocks_nth)
  next
    case False
    then have "data s' (sec ! 12) = words_bytes (drop 12 ab)" using that by (simp add: s')
    then have "inode_blocks (data s') (inodes s' p) ! k = ab ! k"
      using that False T i(2) ok(3) len' ab(1) by (subst inode_blocks_nth) (auto simp: ino)
    then show ?thesis using False ab(3) [of k] by auto
  qed
  have nb: "nblocks s' p will = nblocks s p has @ map ((!) ab) [has..<will]"
  proof (rule nth_equalityI)
    have "length (inode_blocks (data s') (inodes s' p)) = 140" using i(2) len' by (intro inode_blocks_length) (simp_all add: ino)
    then show "length (nblocks s' p will) = length (nblocks s p has @ map ((!) ab) [has..<will])"
      using ok nblocks_length [OF ok(1)] by (simp add: nblocks_def)
  next
    fix k assume "k < length (nblocks s' p will)"
    then have "k < will" by (simp add: nblocks_def)
    then show "nblocks s' p will ! k = (nblocks s p has @ map ((!) ab) [has..<will]) ! k"
      using nth [of k] nblocks_length [OF ok(1)] by (simp add: nblocks_def nth_append)
  qed
  have tb: "nblocks s' p will @ table_block (inodes s' p) will =
      nblocks s p has @ map ((!) ab) [has..<will] @ (if 12 < will then [sec ! 12] else [])"
    by (simp add: nb table_block_def ino)
  have new: "x \<in> set ?N \<Longrightarrow> \<not> block_used s x" for x using g by (auto simp: gained_def)
  have used': "block_used s' x \<longleftrightarrow> block_used s x \<or> x \<in> set ?N" for x
    using g by (auto simp: gained_def s')
  have oldT: "\<not> has \<le> 12 \<Longrightarrow> sec ! 12 \<in> set (table_block (inodes s p) has)" using i(4) by (simp add: table_block_def)
  have dist: "distinct (nblocks s' p will @ table_block (inodes s' p) will)"
  proof -
    have "distinct ?N" using g by (simp add: gained_def)
    moreover have "x \<in> set (nblocks s p has @ table_block (inodes s p) has) \<Longrightarrow> x \<notin> set ?N" for x using b new by blast
    ultimately show ?thesis unfolding tb using b oldT ok(2)
      by (cases "has \<le> 12"; cases "12 < will") (auto simp: table_block_def)
  qed
  have used: "block_used s' x" if "x \<in> set (nblocks s' p will @ table_block (inodes s' p) will)" for x
    using that b oldT unfolding tb used' by (cases "has \<le> 12"; cases "12 < will") auto
  have zero: "sec ! k = 0" if "will \<le> k" "k \<le> 12" for k
    using that i(3,4) b ok(2) by (cases "k = 12") auto
  have lay': "layout_ok s'" using lay(2) rdy ab(1) by (simp add: s' layout_wdata)
  have bok: "blocks_ok s' p will"
  proof -
    have "free_on_disk s'" using g by (simp add: s' gained_def)
    then show ?thesis unfolding blocks_ok_def using lay' dist used zero ok b i(2) by (simp add: ino)
  qed
  have frame: "fs_frame s s'" using g by (simp add: gained_def fs_frame_def s')
  have dat1: "data s1 x = data s x" if "unat (inode_bitmap_lba (sb s)) \<le> unat x" for x using g that by (simp add: gained_def)
  have dat: "data s' x = data s x" if "block_used s x" "x \<notin> set (table_block (inodes s p) has)" for x
  proof -
    have "x \<noteq> sec ! 12" if "12 < will" using that \<open>block_used s x\<close> \<open>x \<notin> _\<close> new oldT by (cases "has \<le> 12") auto
    then show ?thesis using dat1 [OF data_area [OF lay(1) block_usedD(3) [OF lay(1) that(1)]]] by (simp add: s')
  qed
  have meta: "data s' x = data s x" if "unat (inode_bitmap_lba (sb s)) \<le> unat x" "unat x < unat (data_start_lba (sb s))" for x
  proof -
    have "block_used s' (sec ! 12)" if "12 < will" using used that by (simp add: table_block_def ino)
    then have "12 < will \<Longrightarrow> x \<noteq> sec ! 12"
      using that(2) block_usedD(3) [OF lay', of "sec ! 12"] frame by (auto simp: fs_frame_def)
    then show ?thesis using dat1 that(1) by (simp add: s')
  qed
  show ?thesis
    unfolding extends_def using bok frame ab(1,2) nb dat meta used' new i(1)
    by (auto simp: s')
qed

lemma alloc_for_write:
  assumes "blocks_ok s p has" "has \<le> will" "will \<le> 140" "will - has \<le> nfree s1" "gained s N s1" "length ab = 140"
    "inodes s1 = (inodes s)(p := (inodes s p)\<lparr>i_sectors := sec\<rparr>)" "length sec = 13"
    "\<forall>k < 12. sec ! k = i_sectors (inodes s p) ! k"
  obtains ab' s2 sec' where "alloc_blocks p [has..<will] ab s1 = Some (Some ab', s2)"
    "gained s (N @ map ((!) ab') [has..<will]) s2" "length ab' = 140" "\<And>k. k < has \<Longrightarrow> ab' ! k = ab ! k"
    "inodes s2 = (inodes s)(p := (inodes s p)\<lparr>i_sectors := sec'\<rparr>)" "length sec' = 13" "sec' ! 12 = sec ! 12"
    "\<forall>k < 12. sec' ! k = (if has \<le> k \<and> k < will then ab' ! k else i_sectors (inodes s p) ! k)"
proof -
  note b = assms(1) [unfolded blocks_ok_def]
  have s1: "layout_ok s1" "free_on_disk s1" using assms(5) by (simp_all add: gained_def)
  have i1: "i_sectors (inodes s1 p) = sec" using assms(7) by simp
  have "\<exists>ab' s2. alloc_blocks p [has..<will] ab s1 = Some (Some ab', s2) \<and> gained s1 (map ((!) ab') [has..<will]) s2 \<and>
    length ab' = 140 \<and> (\<forall>k. k \<notin> set [has..<will] \<longrightarrow> ab' ! k = ab ! k) \<and>
    (\<exists>sec'. length sec' = 13 \<and> inodes s2 = (inodes s1)(p := (inodes s1 p)\<lparr>i_sectors := sec'\<rparr>) \<and>
       (\<forall>k < 13. sec' ! k = (if k \<in> set [has..<will] \<and> k < 12 then ab' ! k else i_sectors (inodes s1 p) ! k)))"
    using assms(3,4,8,9) b by (intro alloc_blocks_ok [OF s1 _ _ _ assms(6)]) (auto simp: i1)
  then obtain ab' s2 sec' where r: "alloc_blocks p [has..<will] ab s1 = Some (Some ab', s2)"
    "gained s1 (map ((!) ab') [has..<will]) s2" "length ab' = 140" "\<forall>k. k \<notin> set [has..<will] \<longrightarrow> ab' ! k = ab ! k"
    "length sec' = 13" "inodes s2 = (inodes s1)(p := (inodes s1 p)\<lparr>i_sectors := sec'\<rparr>)"
    "\<forall>k < 13. sec' ! k = (if k \<in> set [has..<will] \<and> k < 12 then ab' ! k else i_sectors (inodes s1 p) ! k)" by blast
  have i2: "inodes s2 = (inodes s)(p := (inodes s p)\<lparr>i_sectors := sec'\<rparr>)" using r(6) assms(7) by simp
  have sec': "sec' ! 12 = sec ! 12" "\<forall>k < 12. sec' ! k = (if has \<le> k \<and> k < will then ab' ! k else i_sectors (inodes s p) ! k)"
    using r(7) assms(9) by (simp_all add: i1)
  show thesis
    by (rule that [OF r(1) gained_trans [OF assms(5) r(2)] r(3) _ i2 r(5) sec']) (use r(4) in simp)
qed

text \<open>The four cases of \<^verbatim>\<open>file_write\<close>. At most one block more than the new ones is needed, for the table.\<close>

lemma write_blocks_ok:
  assumes ok: "blocks_ok s p has" and w: "has \<le> will" "will \<le> 140" "will - has < nfree s"
  shows "\<exists>ab s'. write_blocks p has will s = Some (Some ab, s') \<and> extends s p has will ab s'"
proof -
  note b = ok [unfolded blocks_ok_def]
  let ?sec = "i_sectors (inodes s p)"
  have lay: "layout_ok s" "free_on_disk s" "fs_ready s" using b layout_ready [of s] by simp_all
  have len: "length (data s x) = 512" for x using lay(3) by simp
  have bl: "nblocks s p has ! k = (if k < 12 then ?sec ! k
     else if ?sec ! 12 \<noteq> 0 then bytes_words (data s (?sec ! 12)) ! (k - 12) else 0)" if "k < has" for k
    using that b inode_blocks_nth [of "inodes s p" "data s" k] len by (simp add: nblocks_def)
  have tab: "?sec ! 12 \<noteq> 0" "unat (?sec ! 12) < 163840" if "12 < has"
    using that b block_usedD [OF lay(1)] by (simp_all add: table_block_def)
  have first: "?sec ! (has - 1) \<noteq> 0" if "has \<le> 12"
  proof -
    have "nblocks s p has ! (has - 1) \<in> set (nblocks s p has)" using b nblocks_length [OF ok] by (intro nth_mem) simp
    then have "block_used s (nblocks s p has ! (has - 1))" using b by simp
    then have "nblocks s p has ! (has - 1) \<noteq> 0" by (rule block_usedD(1) [OF lay(1)])
    moreover have "nblocks s p has ! (has - 1) = ?sec ! (has - 1)"
      using that b bl [of "has - 1"] by (simp del: One_nat_def)
    ultimately show ?thesis by simp
  qed
  have same: "inodes s = (inodes s)(p := (inodes s p)\<lparr>i_sectors := ?sec\<rparr>)" by simp
  define ab0 where "ab0 = (if has \<le> 12 then (replicate 140 0)[has - 1 := ?sec ! (has - 1)]
     else take 12 (replicate 140 0) @ bytes_words (data s (?sec ! 12)))"
  have ab0: "length ab0 = 140" "ab0 ! (has - 1) = nblocks s p has ! (has - 1)"
    "\<And>k. 12 \<le> k \<Longrightarrow> k < has \<Longrightarrow> ab0 ! k = nblocks s p has ! k"
    using b len bl tab by (auto simp: ab0_def length_bytes_words nth_append)
  consider "will = has" | "will \<noteq> has" "will \<le> 12" | "will \<noteq> has" "12 < will" "has \<le> 12" | "will \<noteq> has" "12 < has"
    using w(1) by linarith
  then show ?thesis
  proof cases
    case 1
    have "extends s p has will ab0 s"
      unfolding extends_def using ok ab0 1 by (auto simp: fs_frame_def intro!: exI [of _ ?sec])
    moreover have "write_blocks p has will s = Some (Some ab0, s)"
      using 1 tab disk_read_1 [OF lay(3) tab(2)] by (simp add: write_blocks_def ab0_def)
    ultimately show ?thesis by blast
  next
    case 2
    obtain ab s2 sec where a: "alloc_blocks p [has..<will] ab0 s = Some (Some ab, s2)"
      "gained s ([] @ map ((!) ab) [has..<will]) s2" "length ab = 140" "\<And>k. k < has \<Longrightarrow> ab ! k = ab0 ! k"
      "inodes s2 = (inodes s)(p := (inodes s p)\<lparr>i_sectors := sec\<rparr>)" "length sec = 13" "sec ! 12 = ?sec ! 12"
      "\<forall>k < 12. sec ! k = (if has \<le> k \<and> k < will then ab ! k else ?sec ! k)"
      by (rule alloc_for_write [OF ok w(1,2) less_imp_le [OF w(3)] gained_refl [OF lay(1,2)] ab0(1) same])
        (use b in simp, simp, rule that)
    have "extends s p has will ab s2"
      by (rule write_blocks_finish [OF ok w(1,2) _ a(5,6,8) _ a(3)]) (use 2 a ab0 b in auto)
    moreover have "write_blocks p has will s = Some (Some ab, s2)"
      using 2 w(1) a(1) first by (simp add: write_blocks_def ab0_def)
    ultimately show ?thesis by blast
  next
    case 3
    have "0 < nfree s" using w(3) by simp
    obtain lba s1 where o: "block_bitmap_alloc s = Some (lba, s1)" "lba \<noteq> -1" "inodes s1 = inodes s" "gained s [lba] s1"
      by (rule one_block [OF lay(1,2) \<open>0 < nfree s\<close>]) (rule that)
    let ?s1 = "set_sector p 12 lba s1"
    have g1: "gained s [lba] ?s1" using gained_upd_inode [OF o(4)] by (simp add: set_sector_def upd_inode_def)
    have n1: "will - has \<le> nfree ?s1" using w(3) g1 by (simp add: gained_def)
    have i1: "inodes ?s1 = (inodes s)(p := (inodes s p)\<lparr>i_sectors := ?sec[12 := lba]\<rparr>)"
      using o(3) by (simp add: set_sector_def upd_inode_def)
    obtain ab s2 sec where a: "alloc_blocks p [has..<will] ab0 ?s1 = Some (Some ab, s2)"
      "gained s ([lba] @ map ((!) ab) [has..<will]) s2" "length ab = 140" "\<And>k. k < has \<Longrightarrow> ab ! k = ab0 ! k"
      "inodes s2 = (inodes s)(p := (inodes s p)\<lparr>i_sectors := sec\<rparr>)" "length sec = 13" "sec ! 12 = ?sec[12 := lba] ! 12"
      "\<forall>k < 12. sec ! k = (if has \<le> k \<and> k < will then ab ! k else ?sec ! k)"
      by (rule alloc_for_write [OF ok w(1,2) n1 g1 ab0(1) i1]) (use b in simp, simp, rule that)
    have lba: "sec ! 12 = lba" "unat lba < 163840" "fs_ready s2"
      using a(2,7) b gained_nonzero(3) [OF a(2) lay(1)] by (simp_all add: gained_def layout_ready)
    let ?s3 = "wdata ((data s2)(lba := words_bytes (drop 12 ab))) s2"
    have "extends s p has will ab ?s3"
      by (rule write_blocks_finish [OF ok w(1,2) _ a(5,6,8) _ a(3)]) (use 3 a ab0 b lba in auto)
    moreover have "write_blocks p has will s = Some (Some ab, ?s3)"
      using 3 w(1) a(1,3) o b disk_write_1 [OF lba(3,2), of "words_bytes (drop 12 ab)"]
      by (simp add: write_blocks_def ab0_def)
    ultimately show ?thesis by blast
  next
    case 4
    obtain ab s2 sec where a: "alloc_blocks p [has..<will] ab0 s = Some (Some ab, s2)"
      "gained s ([] @ map ((!) ab) [has..<will]) s2" "length ab = 140" "\<And>k. k < has \<Longrightarrow> ab ! k = ab0 ! k"
      "inodes s2 = (inodes s)(p := (inodes s p)\<lparr>i_sectors := sec\<rparr>)" "length sec = 13" "sec ! 12 = ?sec ! 12"
      "\<forall>k < 12. sec ! k = (if has \<le> k \<and> k < will then ab ! k else ?sec ! k)"
      by (rule alloc_for_write [OF ok w(1,2) less_imp_le [OF w(3)] gained_refl [OF lay(1,2)] ab0(1) same])
        (use b in simp, simp, rule that)
    have rdy: "fs_ready s2" using a(2) by (simp add: gained_def layout_ready)
    let ?s3 = "wdata ((data s2)(?sec ! 12 := words_bytes (drop 12 ab))) s2"
    have "extends s p has will ab ?s3"
      by (rule write_blocks_finish [OF ok w(1,2) _ a(5,6,8) _ a(3)]) (use 4 w a ab0 b in auto)
    moreover have "write_blocks p has will s = Some (Some ab, ?s3)"
      using 4 w(1) a(1,3) tab disk_read_1 [OF lay(3) tab(2)] disk_write_1 [OF rdy tab(2), of "words_bytes (drop 12 ab)"]
      by (simp add: write_blocks_def ab0_def)
    ultimately show ?thesis by blast
  qed
qed

section \<open>Writing\<close>

lemma nblocks_frame:
  assumes "blocks_ok s p n" "i_sectors (inodes s' p) = i_sectors (inodes s p)"
    "\<And>x. x \<in> set (table_block (inodes s p) n) \<Longrightarrow> data s' x = data s x"
  shows "nblocks s' p n = nblocks s p n"
proof (cases "12 < n")
  case True
  then show ?thesis using assms(2,3) by (simp add: nblocks_def inode_blocks_def table_block_def)
next
  case False
  then show ?thesis using assms(1,2) by (simp add: nblocks_def inode_blocks_def blocks_ok_def)
qed

lemma blocks_ok_frame:
  assumes "blocks_ok s p n" "i_sectors (inodes s' p) = i_sectors (inodes s p)"
    "\<And>x. x \<in> set (table_block (inodes s p) n) \<Longrightarrow> data s' x = data s x"
    "layout_ok s'" "free_on_disk s'" "\<And>x. block_used s x \<Longrightarrow> block_used s' x"
  shows "blocks_ok s' p n"
  using assms nblocks_frame [OF assms(1-3)] by (auto simp: blocks_ok_def table_block_def)

definition empty_file :: "'a fsys_scheme \<Rightarrow> u32 \<Rightarrow> bool" where
  "empty_file s p \<longleftrightarrow> i_size (inodes s p) = 0 \<and> i_sectors (inodes s p) = replicate 13 0"

text \<open>A file: empty without a block, or with the blocks that its size calls for. The first block of the
  data area belongs to the root directory.\<close>

definition file_ok :: "'a fsys_scheme \<Rightarrow> u32 \<Rightarrow> bool" where
  "file_ok s p \<longleftrightarrow> layout_ok s \<and> free_on_disk s \<and> block_used s (data_start_lba (sb s)) \<and>
     (empty_file s p \<or> blocks_ok s p (Suc (unat (i_size (inodes s p)) div 512)))"

definition owned :: "'a fsys_scheme \<Rightarrow> u32 \<Rightarrow> u32 set" where
  "owned s p = set (nblocks s p (Suc (unat (i_size (inodes s p)) div 512)) @
     table_block (inodes s p) (Suc (unat (i_size (inodes s p)) div 512)))"

lemma file_blocks_nblocks: "file_blocks s p = nblocks s p (Suc (unat (i_size (inodes s p)) div 512))"
  by (simp add: file_blocks_def nblocks_def)

lemma first_block_ok:
  assumes "file_ok s p" "0 < nfree s"
  obtains s' sec where "first_block p s = Some (False, s')" "blocks_ok s' p (Suc (unat (i_size (inodes s p)) div 512))"
    "fs_frame s s'" "inodes s' = (inodes s)(p := (inodes s p)\<lparr>i_sectors := sec\<rparr>)" "file_content s' p = file_content s p"
    "\<And>x. unat (inode_bitmap_lba (sb s)) \<le> unat x \<Longrightarrow> data s' x = data s x" "\<And>x. block_used s x \<Longrightarrow> block_used s' x"
    "nfree s \<le> Suc (nfree s')" "\<And>x. block_used s x \<Longrightarrow> x \<in> owned s' p \<Longrightarrow> x \<in> owned s p"
proof -
  note f = assms(1) [unfolded file_ok_def]
  show thesis
  proof (cases "empty_file s p")
    case False
    let ?n = "Suc (unat (i_size (inodes s p)) div 512)"
    from False f have b: "blocks_ok s p ?n" by simp
    have "nblocks s p ?n ! 0 \<in> set (nblocks s p ?n)" using nblocks_length [OF b] by (intro nth_mem) simp
    then have "block_used s (nblocks s p ?n ! 0)" using b by (simp add: blocks_ok_def)
    moreover have "nblocks s p ?n ! 0 = i_sectors (inodes s p) ! 0"
      using b by (simp add: nblocks_def inode_blocks_def blocks_ok_def nth_append)
    ultimately have "i_sectors (inodes s p) ! 0 \<noteq> 0" using f block_usedD(1) by metis
    then have "first_block p s = Some (False, s)" by (simp add: first_block_def)
    then show thesis by (rule that [OF _ b, of "i_sectors (inodes s p)"]) (simp_all add: fs_frame_def)
  next
    case True
    note e = True [unfolded empty_file_def]
    obtain lba s1 s2 where o: "block_bitmap_alloc s = Some (lba, s1)" "lba \<noteq> -1" "sb s1 = sb s" "inodes s1 = inodes s"
      "\<And>h. bitmap_sync (lba - data_start_lba (sb s)) BLOCK_BITMAP (s1\<lparr>inodes := h\<rparr>) = Some (s2\<lparr>inodes := h\<rparr>)"
      "gained s [lba] s2"
      by (rule one_block [OF _ _ assms(2)]) (use f in blast, use f in blast, rule that)
    define h where "h = (inodes s)(p := (inodes s p)\<lparr>i_sectors := (replicate 13 0)[0 := lba]\<rparr>)"
    let ?s = "s2\<lparr>inodes := h\<rparr>"
    have g: "gained s [lba] ?s" by (rule gained_upd_inode [OF o(6)])
    then have "lba \<noteq> data_start_lba (sb s)" using f by (auto simp: gained_def)
    then have run: "first_block p s = Some (False, ?s)"
      using o(1-4) o(5) [of h] e by (simp add: first_block_def set_sector_def upd_inode_def h_def)
    have "(replicate 13 0)[0 := lba] = lba # replicate 12 0"
      by (rule nth_equalityI) (auto simp: nth_list_update nth_Cons')
    then have ih: "h p = (inodes s p)\<lparr>i_sectors := lba # replicate 12 0\<rparr>"
      by (simp add: h_def)
    have nb: "nblocks ?s p (Suc 0) = [lba]"
      by (simp add: nblocks_def ih inode_blocks_def)
    have b: "blocks_ok ?s p (Suc 0)"
      unfolding blocks_ok_def nb using g by (auto simp: ih table_block_def gained_def nth_Cons')
    have sz: "unat (i_size (inodes s p)) = 0" using e by simp
    show thesis
    proof (rule that [OF run])
      show "blocks_ok ?s p (Suc (unat (i_size (inodes s p)) div 512))" using b by (simp add: sz)
      show "inodes ?s = (inodes s)(p := (inodes s p)\<lparr>i_sectors := (replicate 13 0)[0 := lba]\<rparr>)" by (simp add: h_def)
      show "file_content ?s p = file_content s p"
        using sz by (simp add: file_content_def fcontent_def h_def)
      show "x \<in> owned s p" if "block_used s x" "x \<in> owned ?s p" for x
        using that g e by (simp add: owned_def nb table_block_def gained_def ih)
    qed (use g in \<open>auto simp: gained_def\<close>)
  qed
qed

definition appended :: "'a fsys_scheme \<Rightarrow> u32 \<Rightarrow> u32 \<Rightarrow> u8 list \<Rightarrow> 'a fsys_scheme \<Rightarrow> bool" where
  "appended s fd p bs s' \<longleftrightarrow>
     file_ok s' p \<and> file_content s' p = file_content s p @ bs \<and>
     unat (i_size (inodes s' p)) = unat (i_size (inodes s p)) + length bs \<and>
     slot s' (of_nat (unat (i_no (inodes s p)) mod 256)) = inode_bytes (pure_inode (inodes s' p)) \<and>
     (\<forall>x. block_used s x \<longrightarrow> block_used s' x \<and> (x \<notin> owned s p \<longrightarrow> data s' x = data s x)) \<and>
     (\<forall>q. q \<noteq> p \<longrightarrow> inodes s' q = inodes s q) \<and>
     (\<forall>k. k \<noteq> unat fd \<longrightarrow> file_table s' ! k = file_table s ! k) \<and>
     length (file_table s') = length (file_table s) \<and> fd_inode (get_file fd s') = fd_inode (get_file fd s) \<and>
     heap s' = heap s \<and> heap_cnt s' = heap_cnt s"

text \<open>The bytes reach the blocks that were collected, and the inode its slot of the table.\<close>

lemma write_bytes_ok:
  assumes e: "extends s p has will ab s2" "blocks_ok s p has"
    and sz: "has = Suc (unat (i_size (inodes s p)) div 512)" "will = Suc ((unat (i_size (inodes s p)) + length src) div 512)"
    and fd: "unat fd < length (file_table s)"
    and slot: "76 * (unat (i_no (inodes s p)) mod 256) mod 512 + 76 \<le> 512"
    and root: "block_used s (data_start_lba (sb s))"
  shows "\<exists>s4 s'. write_loop fd p ab True src (put_file fd ((get_file fd s2)\<lparr>fd_pos := i_size (inodes s2 p) - 1\<rparr>) s2) = Some s4 \<and>
    inode_sync 512 (inodes s4 p) s4 = Some s' \<and> appended s fd p src s'"
proof -
  note x = e(1) [unfolded extends_def]
  let ?sz = "i_size (inodes s p)"
  define B where "B = nblocks s2 p will"
  define s3 where "s3 = put_file fd ((get_file fd s2)\<lparr>fd_pos := i_size (inodes s2 p) - 1\<rparr>) s2"
  have b2: "blocks_ok s2 p will" using x by simp
  note bb = b2 [unfolded blocks_ok_def]
  have fr: "fs_frame s s2" using x by simp
  obtain sec where sec: "inodes s2 = (inodes s)(p := (inodes s p)\<lparr>i_sectors := sec\<rparr>)" using x by blast
  have lenB: "length B = will" unfolding B_def by (rule nblocks_length [OF b2])
  have B: "B = nblocks s p has @ map ((!) ab) [has..<will]" using x by (simp add: B_def)
  have lo: "length (nblocks s p has) = has" by (rule nblocks_length [OF e(2)])
  have abB: "\<forall>k < length B. unat (i_size (inodes s3 p)) div 512 \<le> k \<longrightarrow> ab ! k = B ! k"
  proof (intro allI impI)
    fix k assume k: "k < length B" "unat (i_size (inodes s3 p)) div 512 \<le> k"
    then have "has - 1 \<le> k" by (simp add: s3_def put_file_def sec sz(1))
    then consider "k = has - 1" | "has \<le> k" by linarith
    then show "ab ! k = B ! k"
    proof cases
      case 1
      then have "k < has" by (simp add: sz(1))
      then show ?thesis using 1 x lo by (simp add: B nth_append)
    next
      case 2
      then show ?thesis using k(1) lenB lo by (simp add: B nth_append)
    qed
  qed
  have lim: "unat (i_size (inodes s3 p)) + length src < 512 * length B"
    by (simp add: lenB sz(2) s3_def put_file_def sec)
  have used: "block_used s2 b" if "b \<in> set B" for b using that bb by (simp add: B_def)
  have small: "\<forall>b \<in> set B. unat b < 163840" using used block_usedD(2) bb by blast
  have dB: "distinct B" using bb by (simp add: B_def)
  have fd3: "unat fd < length (file_table s3)" using fd fr by (simp add: s3_def put_file_def fs_frame_def)
  have rdy: "fs_ready s3" using bb by (simp add: s3_def put_file_def layout_ready)
  have lab: "length ab = 140" using x by simp
  have lB: "length B \<le> 140" using lenB bb by simp
  obtain md where md: "write_loop fd p ab True src s3 =
      Some ((wdata md s3)\<lparr>inodes := (inodes s3)(p := (inodes s3 p)\<lparr>i_size := i_size (inodes s3 p) + of_nat (length src)\<rparr>),
        file_table := (file_table s3)[unat fd := (get_file fd s3)\<lparr>fd_pos := fd_pos (get_file fd s3) + of_nat (length src)\<rparr>]\<rparr>)"
    "\<forall>x. length (md x) = 512" "\<forall>x. x \<notin> set B \<longrightarrow> md x = data s3 x"
    "fcontent md B (unat (i_size (inodes s3 p)) + length src) = fcontent (data s3) B (unat (i_size (inodes s3 p))) @ src"
    using write_loop_ok [OF rdy lab dB lB small abB lim disjI1 [OF TrueI] fd3] by blast
  define i4 where "i4 = (inodes s2 p)\<lparr>i_size := ?sz + of_nat (length src)\<rparr>"
  define s4 where "s4 = (wdata md s3)\<lparr>inodes := (inodes s2)(p := i4),
        file_table := (file_table s3)[unat fd := (get_file fd s3)\<lparr>fd_pos := fd_pos (get_file fd s3) + of_nat (length src)\<rparr>]\<rparr>"
  have run: "write_loop fd p ab True src s3 = Some s4" using md(1) by (simp add: s4_def s3_def put_file_def i4_def sec)
  have i4: "inodes s4 p = i4" "i_sectors i4 = i_sectors (inodes s2 p)" "i_no i4 = i_no (inodes s p)" "length (i_sectors i4) = 13"
    using bb by (simp_all add: s4_def i4_def sec)
  have lay4: "layout_ok s4" "free_on_disk s4" "block_used s4 = block_used s2"
    using bb md(2) by (simp_all add: s4_def s3_def put_file_def layout_wdata)
  have d4: "data s4 = md" by (simp add: s4_def)
  have "\<exists>md. inode_sync 512 i4 s4 = Some (wdata md s4) \<and>
      slot_stored (of_nat (unat (i_no i4) mod 256)) (inode_bytes (pure_inode i4)) s4 md"
    using i4(3,4) slot by (intro inode_sync_fits [OF layout_table [OF lay4(1)]]) simp_all
  then obtain md5 where m5: "inode_sync 512 i4 s4 = Some (wdata md5 s4)"
    "slot_stored (of_nat (unat (i_no (inodes s p)) mod 256)) (inode_bytes (pure_inode i4)) s4 md5" by (auto simp: i4(3))
  define s5 where "s5 = wdata md5 s4"
  have len5: "length (md5 x) = 512" for x using m5(2) by (simp add: slot_stored_def)
  have sb: "sb s4 = sb s" "sb s2 = sb s" using fr by (simp_all add: s4_def s3_def put_file_def fs_frame_def)
  have d5: "md5 x = md x" if "unat (data_start_lba (sb s)) \<le> unat x" for x
    using that m5(2) lay4(1) by (simp add: slot_stored_def d4 sb layout_ok_def)
  have dused: "unat (data_start_lba (sb s)) \<le> unat x" if "block_used s2 x" for x
    using block_usedD(3) [OF _ that] bb sb(2) by simp
  have tab: "data s5 x = data s2 x" if "x \<in> set (table_block (inodes s2 p) will)" for x
  proof -
    have "block_used s2 x" "x \<notin> set B" using that bb by (auto simp: B_def)
    then show ?thesis using d5 [OF dused] md(3) by (simp add: s5_def s3_def put_file_def)
  qed
  have i5: "inodes s5 p = i4" by (simp add: s5_def i4(1))
  have sec5: "i_sectors (inodes s5 p) = i_sectors (inodes s2 p)" by (simp add: i5 i4(2))
  have lay5: "layout_ok s5" "free_on_disk s5" "block_used s5 = block_used s2"
    using lay4 len5 by (simp_all add: s5_def layout_wdata)
  have usz: "unat (i_size i4) = unat ?sz + length src"
  proof -
    have "unat ?sz + length src < 512 * 140" using lim bb lenB by (simp add: s3_def put_file_def sec)
    then show ?thesis by (simp add: i4_def) (subst unat_plus_lt; simp add: unat_of_nat_lt)
  qed
  have nb5: "nblocks s5 p will = B" unfolding B_def by (rule nblocks_frame [OF b2 sec5 tab])
  have b5: "blocks_ok s5 p will"
    by (rule blocks_ok_frame [OF b2 sec5 _ lay5(1,2)]) (erule tab, simp add: lay5(3))
  have content: "file_content s5 p = file_content s p @ src"
  proof -
    have "file_content s5 p = fcontent md5 B (unat ?sz + length src)"
      using nb5 usz by (simp add: file_content_def file_blocks_nblocks i5 sz(2)) (simp add: s5_def)
    also have "\<dots> = fcontent md B (unat ?sz + length src)"
      by (rule fcontent_cong) (rule d5 [OF dused [OF used]])
    also have "\<dots> = fcontent (data s2) B (unat ?sz) @ src"
      using md(4) by (simp add: s3_def put_file_def sec)
    also have "fcontent (data s2) B (unat ?sz) = fcontent (data s2) (nblocks s p has) (unat ?sz)"
      unfolding B using bb lo sz(1) by (intro fcontent_prefix) (simp_all add: layout_ready)
    also have "\<dots> = fcontent (data s) (nblocks s p has) (unat ?sz)"
    proof (rule fcontent_cong)
      fix b assume "b \<in> set (nblocks s p has)"
      then have "block_used s b" "b \<notin> set (table_block (inodes s p) has)" using e(2) by (auto simp: blocks_ok_def)
      then show "data s2 b = data s b" using x by blast
    qed
    finally show ?thesis by (simp add: file_content_def file_blocks_nblocks sz(1))
  qed
  have keep: "data s5 y = data s y" if "block_used s y" "y \<notin> owned s p" for y
  proof -
    have "block_used s2 y" "data s2 y = data s y" using x that by (auto simp: owned_def sz(1))
    moreover have "y \<notin> set B" using that x by (auto simp: B owned_def sz(1))
    ultimately show ?thesis using d5 [OF dused] md(3) by (simp add: s5_def s3_def put_file_def)
  qed
  have root5: "block_used s5 (data_start_lba (sb s5))" using root x lay5(3) sb by (simp add: s5_def)
  have n256: "(of_nat (unat (i_no (inodes s p)) mod 256) :: u32) < 4096"
    by (simp add: word_less_nat_alt unat_of_nat_lt less_trans [of _ 256])
  have slot5: "slot s5 (of_nat (unat (i_no (inodes s p)) mod 256)) = inode_bytes (pure_inode i4)"
    unfolding s5_def using i4(4)
    by (intro slot_stored_slots(1) [OF m5(2) layout_ready [OF lay4(1)] n256]) (simp add: pure_inode_def)
  have tbl: "file_table s5 = (file_table s)[unat fd := (get_file fd s3)\<lparr>fd_pos := fd_pos (get_file fd s3) + of_nat (length src)\<rparr>]"
    "fd_inode (get_file fd s3) = fd_inode (get_file fd s)"
    using fr fd by (simp_all add: s5_def s4_def s3_def put_file_def fs_frame_def get_file_def)
  have hp: "heap s5 = heap s" "heap_cnt s5 = heap_cnt s" "inodes s5 = (inodes s2)(p := i4)"
    using fr by (simp_all add: s5_def s4_def s3_def put_file_def fs_frame_def)
  have "appended s fd p src s5"
    unfolding appended_def file_ok_def using content usz slot5 keep lay5 b5 root5 x sz(2) tbl fd
    by (simp add: i5 hp get_file_def) (simp add: sec)
  then show ?thesis using run m5(1) i4(1) by (simp add: s3_def s5_def)
qed

lemma file_heap_fields [simp]:
  "nblocks (s\<lparr>heap_cnt := n\<rparr>) = nblocks s" "blocks_ok (s\<lparr>heap_cnt := n\<rparr>) = blocks_ok s"
  "owned (s\<lparr>heap_cnt := n\<rparr>) = owned s" "file_ok (s\<lparr>heap_cnt := n\<rparr>) = file_ok s"
  "file_content (s\<lparr>heap_cnt := n\<rparr>) = file_content s"
proof -
  show nb: "nblocks (s\<lparr>heap_cnt := n\<rparr>) = nblocks s" by (simp add: nblocks_def fun_eq_iff)
  show bo: "blocks_ok (s\<lparr>heap_cnt := n\<rparr>) = blocks_ok s" by (simp add: blocks_ok_def fun_eq_iff nb)
  show "owned (s\<lparr>heap_cnt := n\<rparr>) = owned s" by (simp add: owned_def fun_eq_iff nb)
  show "file_ok (s\<lparr>heap_cnt := n\<rparr>) = file_ok s" by (simp add: file_ok_def empty_file_def fun_eq_iff bo)
  show "file_content (s\<lparr>heap_cnt := n\<rparr>) = file_content s" by (simp add: file_content_def file_blocks_nblocks fun_eq_iff nb)
qed

lemma appended_first:
  assumes "appended s1 fd p bs s'" "layout_ok s" "fs_frame s s1"
    "inodes s1 = (inodes s)(p := (inodes s p)\<lparr>i_sectors := sec\<rparr>)" "file_content s1 p = file_content s p"
    "\<And>x. unat (inode_bitmap_lba (sb s)) \<le> unat x \<Longrightarrow> data s1 x = data s x" "\<And>x. block_used s x \<Longrightarrow> block_used s1 x"
    "\<And>x. block_used s x \<Longrightarrow> x \<in> owned s1 p \<Longrightarrow> x \<in> owned s p"
  shows "appended s fd p bs s'"
proof -
  have keep: "data s' x = data s x" if "block_used s x" "x \<notin> owned s p" for x
  proof -
    have "data s1 x = data s x"
      using assms(6) data_area [OF assms(2) block_usedD(3) [OF assms(2) that(1)]] by simp
    moreover have "x \<notin> owned s1 p" using assms(8) that by blast
    ultimately show ?thesis using assms(1,7) that(1) by (simp add: appended_def)
  qed
  have i: "i_size (inodes s1 p) = i_size (inodes s p)" "i_no (inodes s1 p) = i_no (inodes s p)" using assms(4) by simp_all
  have q: "inodes s1 q = inodes s q" if "q \<noteq> p" for q using assms(4) that by simp
  have f: "file_table s1 = file_table s" "heap s1 = heap s" "heap_cnt s1 = heap_cnt s" "get_file fd s1 = get_file fd s"
    using assms(3) by (simp_all add: fs_frame_def get_file_def)
  show ?thesis using assms(1) keep assms(5,7) q unfolding appended_def i f by metis
qed

lemma file_write_ok:
  assumes "file_ok s p" "fd_inode (get_file fd s) = p" "unat fd < length (file_table s)"
    "heap s (heap_cnt s) \<noteq> 0" "heap s (Suc (heap_cnt s)) \<noteq> 0"
    "unat (i_size (inodes s p)) + unat count < 71680" "unat count \<le> length buf"
    "Suc ((unat (i_size (inodes s p)) + unat count) div 512) - unat (i_size (inodes s p)) div 512 < nfree s"
    "76 * (unat (i_no (inodes s p)) mod 256) mod 512 + 76 \<le> 512"
  shows "\<exists>s'. file_write fd buf count s = Some (count, s') \<and>
    appended (s\<lparr>heap_cnt := heap_cnt s + 2\<rparr>) fd p (take (unat count) buf) s'"
proof -
  let ?s = "s\<lparr>heap_cnt := heap_cnt s + 2\<rparr>"
  let ?sz = "i_size (inodes s p)"
  let ?has = "Suc (unat ?sz div 512)" and ?will = "Suc ((unat ?sz + unat count) div 512)"
  have fo: "file_ok ?s p" using assms(1) by simp
  have free: "0 < nfree ?s" using assms(8) by simp
  obtain s1 sec where f: "first_block p ?s = Some (False, s1)" "blocks_ok s1 p (Suc (unat (i_size (inodes ?s p)) div 512))"
    "fs_frame ?s s1" "inodes s1 = (inodes ?s)(p := (inodes ?s p)\<lparr>i_sectors := sec\<rparr>)" "file_content s1 p = file_content ?s p"
    "\<And>x. unat (inode_bitmap_lba (sb ?s)) \<le> unat x \<Longrightarrow> data s1 x = data ?s x" "\<And>x. block_used ?s x \<Longrightarrow> block_used s1 x"
    "nfree ?s \<le> Suc (nfree s1)" "\<And>x. block_used ?s x \<Longrightarrow> x \<in> owned s1 p \<Longrightarrow> x \<in> owned ?s p"
    by (rule first_block_ok [OF fo free]) (rule that)
  have i1: "i_size (inodes s1 p) = ?sz" "i_no (inodes s1 p) = i_no (inodes s p)" using f(4) by simp_all
  have b1: "blocks_ok s1 p ?has" using f(2) by simp
  have w: "?has \<le> ?will" "?will \<le> 140"
    using assms(6) by (simp_all add: div_le_mono Suc_le_eq div_less_iff_less_mult)
  have "?will - ?has < nfree s1" using assms(8) f(8) w by simp
  then obtain ab s2 where wb: "write_blocks p ?has ?will s1 = Some (Some ab, s2)" "extends s1 p ?has ?will ab s2"
    using write_blocks_ok [OF b1 w] by blast
  define src where "src = take (unat count) buf"
  have src: "length src = unat count" "get_at 0 (unat count) buf = Some src"
    using assms(7) by (simp_all add: src_def get_at_def)
  have fd1: "unat fd < length (file_table s1)" using assms(3) f(3) by (simp add: fs_frame_def)
  have root: "block_used s1 (data_start_lba (sb s1))" using fo f(3,7) by (simp add: fs_frame_def file_ok_def)
  have "\<exists>s4 s'. write_loop fd p ab True src (put_file fd ((get_file fd s2)\<lparr>fd_pos := i_size (inodes s2 p) - 1\<rparr>) s2) = Some s4 \<and>
    inode_sync 512 (inodes s4 p) s4 = Some s' \<and> appended s1 fd p src s'"
    using assms(9) by (intro write_bytes_ok [OF wb(2) b1 _ _ fd1 _ root]) (simp_all add: i1 src(1))
  then obtain s4 s' where r: "write_loop fd p ab True src (put_file fd ((get_file fd s2)\<lparr>fd_pos := i_size (inodes s2 p) - 1\<rparr>) s2) = Some s4"
    "inode_sync 512 (inodes s4 p) s4 = Some s'" "appended s1 fd p src s'" by blast
  have usz: "unat (?sz + count) = unat ?sz + unat count" using assms(6) by (intro unat_small_add) simp
  have guard: "\<not> ?sz + count > 512 * 140" "(?sz + count) div 512 + 1 \<le> 140"
    "unat (?sz div 512 + 1) = ?has" "unat ((?sz + count) div 512 + 1) = ?will"
  proof -
    show "\<not> ?sz + count > 512 * 140" using assms(6) usz by (simp add: word_less_nat_alt)
    have h: "unat (n div 512 + 1 :: u32) = Suc (unat n div 512)" if "unat n < 71680" for n :: u32
      using that by (subst unat_small_add) (simp_all add: unat_div)
    show "unat (?sz div 512 + 1) = ?has" using assms(6) by (intro h) simp
    show eq: "unat ((?sz + count) div 512 + 1) = ?will" using assms(6) usz h [of "?sz + count"] by simp
    show "(?sz + count) div 512 + 1 \<le> 140" using w(2) by (simp add: word_le_nat_alt eq)
  qed
  have "appended ?s fd p src s'"
    by (rule appended_first [OF r(3) _ f(3-7,9)]) (use fo in \<open>simp_all add: file_ok_def\<close>)
  moreover have "file_write fd buf count s = Some (count, s')"
    using assms(2,4,5) guard f(1) wb(1) src(2) r(1,2)
    by (simp add: file_write_def heap_alloc_def i1 Let_def)
  ultimately show ?thesis by (auto simp: src_def)
qed

section \<open>Reading\<close>

lemma concat_chunk:
  assumes "\<And>x. length (md x) = 512" "k < length bl" "off + c \<le> 512"
  shows "take c (drop (512 * k + off) (concat (map md bl))) = take c (drop off (md (bl ! k)))"
proof -
  have "length (concat (map md (take k bl))) = 512 * k"
    using length_concat_512 [of md "take k bl"] assms(1,2) by simp
  then have "drop (512 * k + off) (concat (map md bl)) = drop off (md (bl ! k) @ concat (map md (drop (Suc k) bl)))"
    by (simp add: concat_split_block [OF assms(2), of md])
  then show ?thesis using assms(1,3) by simp
qed

lemma read_loop_ok:
  assumes "fs_ready s" "length ab = 140" "length B \<le> 140" "\<forall>b \<in> set B. unat b < 163840"
    "\<forall>k < length B. unat (fd_pos (get_file fd s)) div 512 \<le> k \<longrightarrow> ab ! k = B ! k"
    "unat (fd_pos (get_file fd s)) + n \<le> 512 * length B" "unat fd < length (file_table s)"
  shows "read_loop fd ab n dst s =
    Some (dst @ take n (drop (unat (fd_pos (get_file fd s))) (concat (map (data s) B))),
      put_file fd ((get_file fd s)\<lparr>fd_pos := fd_pos (get_file fd s) + of_nat n\<rparr>) s)"
  using assms
proof (induction n arbitrary: s dst rule: less_induct)
  case (less n)
  show ?case
  proof (cases "n = 0")
    case True
    then show ?thesis using less.prems by (subst read_loop.simps) (simp add: put_file_def get_file_def)
  next
    case False
    let ?pos = "fd_pos (get_file fd s)"
    define k off where "k = unat ?pos div 512" and "off = unat ?pos mod 512"
    define c where "c = min n (512 - off)"
    have pos: "unat ?pos = 512 * k + off" "off < 512" by (simp_all add: k_def off_def)
    have c: "0 < c" "c \<le> n" "off + c \<le> 512" using False pos(2) by (auto simp: c_def)
    have k: "k < length B" using less.prems(6) c(1,2) pos(1) by simp
    have "ab ! k = B ! k" using less.prems(5) k by (simp add: k_def)
    then have idx: "aget ab (?pos div 512) = Some (B ! k)"
      using less.prems(2,3) k by (simp add: unat_div_512 k_def [symmetric])
    have lba: "unat (B ! k) < 163840" using less.prems(4) k by simp
    let ?bs = "take c (drop off (data s (B ! k)))"
    have get: "get_at off c (data s (B ! k)) = Some ?bs" using less.prems(1) c(3) by (simp add: get_at_def)
    define s1 where "s1 = put_file fd ((get_file fd s)\<lparr>fd_pos := ?pos + of_nat c\<rparr>) s"
    have s1: "fs_ready s1" "data s1 = data s" "unat fd < length (file_table s1)" "fd_pos (get_file fd s1) = ?pos + of_nat c"
      "\<And>f. put_file fd f s1 = put_file fd f s" "get_file fd s1 = (get_file fd s)\<lparr>fd_pos := ?pos + of_nat c\<rparr>"
      using less.prems(1,7) by (simp_all add: s1_def put_file_def get_file_def)
    have up: "unat (?pos + of_nat c) = unat ?pos + c"
    proof -
      have "unat ?pos + c < 2 ^ 32" using less.prems(3,6) c(2) by simp
      then show ?thesis using c(3) by (subst unat_plus_lt) (simp_all add: unat_of_nat_lt)
    qed
    have step: "read_loop fd ab n dst s = read_loop fd ab (n - c) (dst @ ?bs) s1"
      using False disk_read_1 [OF less.prems(1) lba] get
      by (subst read_loop.simps) (simp add: idx Let_def unat_mod_512 off_def [symmetric] c_def [symmetric] s1_def)
    have le: "unat ?pos div 512 \<le> unat (fd_pos (get_file fd s1)) div 512"
      unfolding s1(4) up by (rule div_le_mono) simp
    have "read_loop fd ab (n - c) (dst @ ?bs) s1 =
      Some ((dst @ ?bs) @ take (n - c) (drop (unat (fd_pos (get_file fd s1))) (concat (map (data s1) B))),
      put_file fd ((get_file fd s1)\<lparr>fd_pos := fd_pos (get_file fd s1) + of_nat (n - c)\<rparr>) s1)"
      using less.prems(2-6) c le by (intro less.IH s1(1,3)) (auto simp: s1(4) up)
    moreover have "take n (drop (unat ?pos) (concat (map (data s) B))) =
        ?bs @ take (n - c) (drop (unat ?pos + c) (concat (map (data s) B)))"
    proof -
      have "take n xs = take c xs @ take (n - c) (drop c xs)" for xs :: "u8 list"
        using c(2) take_add [of c "n - c" xs] by simp
      moreover have "take c (drop (unat ?pos) (concat (map (data s) B))) = ?bs"
        unfolding pos(1) by (rule concat_chunk [OF fs_ready_length [OF less.prems(1)] k c(3)])
      ultimately show ?thesis by (simp add: add.commute)
    qed
    moreover have "?pos + of_nat c + of_nat (n - c) = ?pos + of_nat n"
      using c(2) by (simp add: add.assoc flip: of_nat_add)
    ultimately show ?thesis by (simp add: step s1 up)
  qed
qed

lemma read_addrs_ok:
  assumes "blocks_ok s p n" "start \<le> fin" "fin < n"
  shows "\<exists>ab. read_addrs p start fin s = Some (ab, s) \<and> length ab = 140 \<and>
    (\<forall>k. start \<le> k \<and> k \<le> fin \<longrightarrow> ab ! k = nblocks s p n ! k)"
proof -
  note b = assms(1) [unfolded blocks_ok_def]
  let ?sec = "i_sectors (inodes s p)"
  have lay: "layout_ok s" "fs_ready s" using b layout_ready [of s] by simp_all
  have tab: "?sec ! 12 \<noteq> 0" "unat (?sec ! 12) < 163840" if "12 < n"
    using that b block_usedD [OF lay(1)] by (simp_all add: table_block_def)
  have bl: "nblocks s p n ! k = (if k < 12 then ?sec ! k else bytes_words (data s (?sec ! 12)) ! (k - 12))" if "k < n" for k
    using that b lay tab inode_blocks_nth [of "inodes s p" "data s" k] by (simp add: nblocks_def)
  consider "fin < 12" | "12 \<le> fin" by linarith
  then show ?thesis
  proof cases
    case 1
    define ks where "ks = (if fin = start then [fin] else [start..<fin + 1])"
    let ?ab = "map (\<lambda>k. if k \<in> set ks then ?sec ! k else 0) [0..<12] @ drop 12 (replicate 140 0)"
    have "read_addrs p start fin s = Some (?ab, s)" using 1 by (simp add: read_addrs_def ks_def Let_def)
    moreover have "?ab ! k = nblocks s p n ! k" if "start \<le> k" "k \<le> fin" for k
      using that 1 assms(3) bl [of k] by (auto simp: ks_def nth_append)
    ultimately show ?thesis by auto
  next
    case 2
    then have t: "?sec ! 12 \<noteq> 0" "disk_read (?sec ! 12) 1 s = Some (data s (?sec ! 12), s)"
      using tab assms(3) disk_read_1 [OF lay(2)] by simp_all
    have len: "length (bytes_words (data s (?sec ! 12))) = 128" using lay(2) by (simp add: length_bytes_words)
    define hd where "hd = (if fin = start then take 12 (replicate 140 0)
      else map (\<lambda>k. if k \<in> set [start..<12] then ?sec ! k else 0) [0..<12])"
    have "read_addrs p start fin s = Some (hd @ bytes_words (data s (?sec ! 12)), s)"
      using 2 t by (simp add: read_addrs_def hd_def Let_def)
    moreover have lh: "length hd = 12" by (simp add: hd_def)
    moreover have "(hd @ bytes_words (data s (?sec ! 12))) ! k = nblocks s p n ! k" if "start \<le> k" "k \<le> fin" for k
      using that 2 assms(3) bl [of k] lh by (auto simp: hd_def nth_append)
    ultimately show ?thesis using len by auto
  qed
qed

lemma file_read_ok:
  assumes "blocks_ok s p (Suc (unat (i_size (inodes s p)) div 512))" "fd_inode (get_file fd s) = p"
    "unat fd < length (file_table s)" "heap s (heap_cnt s) \<noteq> 0" "heap s (Suc (heap_cnt s)) \<noteq> 0"
    "unat (fd_pos (get_file fd s)) + m \<le> unat (i_size (inodes s p))" "unat (i_size (inodes s p)) < 512 * 139"
    "m = (if unat (fd_pos (get_file fd s)) + unat count > unat (i_size (inodes s p))
       then unat (i_size (inodes s p)) - unat (fd_pos (get_file fd s)) else unat count)"
    "unat (fd_pos (get_file fd s)) + unat count < 2 ^ 32" "0 < m"
  shows "file_read fd count s = Some ((of_nat m, take m (drop (unat (fd_pos (get_file fd s))) (file_content s p))),
    put_file fd ((get_file fd s)\<lparr>fd_pos := fd_pos (get_file fd s) + of_nat m\<rparr>) (s\<lparr>heap_cnt := heap_cnt s + 2\<rparr>))"
proof -
  let ?s = "s\<lparr>heap_cnt := heap_cnt s + 2\<rparr>" and ?f = "get_file fd s" and ?sz = "i_size (inodes s p)"
  let ?pos = "fd_pos ?f" and ?n = "Suc (unat ?sz div 512)"
  note b = assms(1) [unfolded blocks_ok_def]
  have up: "unat (?pos + count) = unat ?pos + unat count" by (rule unat_small_add [OF assms(9)])
  have over: "?pos + count > ?sz \<longleftrightarrow> unat ?pos + unat count > unat ?sz" by (simp add: word_less_nat_alt up)
  have w: "(if ?pos + count > ?sz then ?sz - ?pos else count) = of_nat m"
  proof (cases "?pos + count > ?sz")
    case True
    moreover have "?pos \<le> ?sz" using assms(6) by (simp add: word_le_nat_alt)
    ultimately have "unat (?sz - ?pos) = m" using over assms(8) by (simp add: unat_minus_le)
    then show ?thesis using True by auto
  next
    case False
    then show ?thesis using over assms(8) by simp
  qed
  have usize: "unat (of_nat m :: u32) = m" using assms(6,7) by (intro unat_of_nat_lt) simp
  have upos: "unat (?pos + of_nat m) = unat ?pos + m" using assms(6,7) usize by (subst unat_small_add) simp_all
  let ?start = "unat ?pos div 512" and ?fin = "(unat ?pos + m) div 512"
  have idx: "unat (?pos div 512) = ?start" "unat ((?pos + of_nat m) div 512) = ?fin"
    by (simp_all add: unat_div upos)
  have lt: "?start \<le> ?fin" "?fin < ?n" "?fin < 139" using assms(6,7) by (simp_all add: div_le_mono less_Suc_eq_le div_less_iff_less_mult)
  have asrt: "?pos div 512 < 139" "(?pos + of_nat m) div 512 < 139"
    using lt by (simp_all add: word_less_nat_alt idx)
  define B where "B = take (Suc ?fin) (nblocks s p ?n)"
  obtain ab where ab: "read_addrs p ?start ?fin ?s = Some (ab, ?s)" "length ab = 140"
    "\<forall>k. ?start \<le> k \<and> k \<le> ?fin \<longrightarrow> ab ! k = nblocks s p ?n ! k"
    using read_addrs_ok [of ?s p ?n ?start ?fin] assms(1) lt by auto
  have lenB: "length B = Suc ?fin" using nblocks_length [OF assms(1)] lt(2) by (simp add: B_def)
  have "unat b < 163840" if "b \<in> set (nblocks s p ?n)" for b
    using that b block_usedD(2) [of s b] by simp
  then have small: "\<forall>b \<in> set B. unat b < 163840" by (auto simp: B_def dest: in_set_takeD)
  have rdy: "fs_ready ?s" using b by (simp add: layout_ready)
  have lim: "unat ?pos + m \<le> 512 * length B" by (simp add: lenB)
  have loop: "read_loop fd ab m [] ?s = Some (take m (drop (unat ?pos) (concat (map (data s) B))),
      put_file fd (?f\<lparr>fd_pos := ?pos + of_nat m\<rparr>) ?s)"
  proof -
    have "ab ! k = B ! k" if "k < length B" "?start \<le> k" for k using that ab(3) lenB by (simp add: B_def)
    then show ?thesis using read_loop_ok [of ?s ab B fd m "[]"] rdy ab(2) small lim lenB lt(3) assms(3)
      by (simp add: get_file_def)
  qed
  have content: "take m (drop (unat ?pos) (concat (map (data s) B))) = take m (drop (unat ?pos) (file_content s p))"
  proof -
    have "concat (map (data s) (nblocks s p ?n)) = concat (map (data s) B) @ concat (map (data s) (drop (Suc ?fin) (nblocks s p ?n)))"
      unfolding B_def by (metis append_take_drop_id concat_append map_append)
    moreover have "length (concat (map (data s) B)) = 512 * length B"
      using rdy by (intro length_concat_512) simp
    ultimately show ?thesis using lim assms(6)
      by (simp add: file_content_def fcontent_def file_blocks_nblocks drop_take min_def)
  qed
  have "(of_nat m :: u32) \<noteq> 0" using usize assms(10) by auto
  then show ?thesis using assms(2,4,5) w asrt idx ab(1) loop content usize
    by (simp add: file_read_def Let_def heap_alloc_def)
qed

section \<open>Properties\<close>

text \<open>The mounted partition with its file, inode 1 with the contents \<^verbatim>\<open>abc\<close>, open as descriptor 3.\<close>

definition fs_file :: fsys where
  "fs_file = fs0\<lparr>inodes := (inodes fs0)(0xc0201000 := (inode0 1 3 2665)\<lparr>i_open_cnts := 1\<rparr>),
     open_inodes := 0xc0201000 # open_inodes fs0,
     file_table := (file_table fs0)[3 := \<lparr>fd_pos = 0, fd_flag = 2, fd_inode = 0xc0201000\<rparr>]\<rparr>"

lemma fs_file_heap: "heap fs_file n = 0xc0200400 + of_nat n" "heap_cnt fs_file = 0"
  by (simp_all add: fs_file_def fs0_def)

lemma fs_file_inode: "inodes fs_file 0xc0201000 = (inode0 1 3 2665)\<lparr>i_open_cnts := 1\<rparr>"
  by (simp add: fs_file_def)

lemma fs_file_entry: "get_file 3 fs_file = \<lparr>fd_pos = 0, fd_flag = 2, fd_inode = 0xc0201000\<rparr>"
  "length (file_table fs_file) = 32"
  by (simp_all add: fs_file_def get_file_def fs0_def)

lemma bits_fs0: "bits (block_bitmap fs0) i = (if i = 0 then 3 else if i < 2423 then 0 else 0xff)"
  "nbits (block_bitmap fs0) = 20480" "sb fs_file = sb fs0" "block_bitmap fs_file = block_bitmap fs0"
  "data_start_lba (sb fs0) = 2664"
  by (simp_all add: fs0_def fs_file_def nbits_def)

lemma bit_3: "bit (3 :: u8) n \<longleftrightarrow> n < 2"
proof -
  have "(3 :: u8) = mask 2" by (simp add: mask_eq_exp_minus_1)
  then show ?thesis by (simp only: bit_mask_iff) auto
qed

lemma fs_file_free:
  assumes "1 < n" "n < 8"
  shows "\<not> bit_at (block_bitmap fs0) n"
  using assms bit_3 [of n] by (simp add: bit_at_def bits_fs0)

lemma nfree_fs_file: "5 < nfree fs_file"
proof -
  have "{2..<8} \<subseteq> {n. n < nbits (block_bitmap fs_file) \<and> \<not> bit_at (block_bitmap fs_file) n}"
    using fs_file_free by (auto simp: bits_fs0)
  then have "card {2..<8 :: nat} \<le> nfree fs_file" unfolding nfree_def by (rule card_mono [rotated]) simp
  then show ?thesis by simp
qed

lemma fs_file_ok: "file_ok fs_file 0xc0201000"
proof -
  have lay: "layout_ok fs_file" using layout_fs0 by (simp add: fs_file_def layout_ok_def)
  have free: "free_on_disk fs_file" by (simp add: free_on_disk_def bits_fs0)
  have used: "block_used fs_file 2664" "block_used fs_file 2665"
    by (simp_all add: block_used_def blk_idx_def bit_at_def bits_fs0 bit_3)
  have nb: "nblocks fs_file 0xc0201000 (Suc 0) = [2665]"
    by (simp add: nblocks_def fs_file_inode inode_blocks_def inode0_sec)
  have "blocks_ok fs_file 0xc0201000 (Suc 0)"
    using lay free used by (auto simp: blocks_ok_def nb table_block_def fs_file_inode inode0_sec nth_Cons')
  then show ?thesis using lay free used by (simp add: file_ok_def fs_file_inode inode0_sec bits_fs0)
qed

lemma fs_file_content: "file_content fs_file 0xc0201000 = [0x61, 0x62, 0x63]"
proof -
  have "data fs_file = fs0_media" using data_fs0 by (simp add: fs_file_def)
  then show ?thesis
    by (simp add: file_content_def file_blocks_def fcontent_def fs_file_inode inode0_sec inode_blocks_def fs0_media_def)
qed

text \<open>Property C26: \<^verbatim>\<open>file_write\<close> appends: the contents of the file after a write are the old contents followed by
  the bytes of the buffer, whatever direct and indirect blocks had to be added; the inode on disk is that
  of the grown file, and the blocks of other files stay in use with the contents they had. The file stays
  below the maximal size, there are enough free blocks, and the inode's slot lies in one sector.\<close>

theorem file_write_appends:
  assumes "file_ok s p" "fd_inode (get_file fd s) = p" "unat fd < length (file_table s)"
    "heap s (heap_cnt s) \<noteq> 0" "heap s (Suc (heap_cnt s)) \<noteq> 0"
    "unat (i_size (inodes s p)) + unat count < 71680" "unat count \<le> length buf"
    "Suc ((unat (i_size (inodes s p)) + unat count) div 512) - unat (i_size (inodes s p)) div 512 < nfree s"
    "76 * (unat (i_no (inodes s p)) mod 256) mod 512 + 76 \<le> 512"
  shows "\<exists>s'. file_write fd buf count s = Some (count, s') \<and> file_ok s' p \<and>
    file_content s' p = file_content s p @ take (unat count) buf \<and>
    slot s' (of_nat (unat (i_no (inodes s p)) mod 256)) = inode_bytes (pure_inode (inodes s' p)) \<and>
    (\<forall>x. block_used s x \<longrightarrow> block_used s' x \<and> (x \<notin> owned s p \<longrightarrow> data s' x = data s x))"
  using file_write_ok [OF assms] by (auto simp: appended_def)

theorem file_write_appends_witness:
  "\<exists>s'. file_write 3 [0x64, 0x65] 2 fs_file = Some (2, s') \<and> file_content s' 0xc0201000 = [0x61, 0x62, 0x63, 0x64, 0x65]"
  using file_write_appends [OF fs_file_ok, of 3 2 "[0x64, 0x65]"] nfree_fs_file
  by (auto simp: fs_file_entry fs_file_heap fs_file_inode inode0_sec fs_file_content)

text \<open>Property C27: \<^verbatim>\<open>file_read\<close> returns the bytes of the file from the position of the descriptor on, at most
  as many as are left, and moves the position behind them; at the end of the file it returns \<open>-1\<close>. The file has less
  than \<open>512 * 139\<close> bytes: the assertions of \<^verbatim>\<open>file_read\<close> do not allow the last of the 140 blocks to be read.\<close>

theorem file_read_contents:
  assumes "blocks_ok s p (Suc (unat (i_size (inodes s p)) div 512))" "fd_inode (get_file fd s) = p"
    "unat fd < length (file_table s)" "heap s (heap_cnt s) \<noteq> 0" "heap s (Suc (heap_cnt s)) \<noteq> 0"
    "unat (fd_pos (get_file fd s)) \<le> unat (i_size (inodes s p))" "unat (i_size (inodes s p)) < 512 * 139"
    "unat (fd_pos (get_file fd s)) + unat count < 2 ^ 32" "0 < count"
  shows "if fd_pos (get_file fd s) = i_size (inodes s p) then file_read fd count s = Some ((-1, []), s)
    else \<exists>s' bs. file_read fd count s = Some ((of_nat (length bs), bs), s') \<and>
      bs = take (unat count) (drop (unat (fd_pos (get_file fd s))) (file_content s p)) \<and>
      fd_pos (get_file fd s') = fd_pos (get_file fd s) + of_nat (length bs)"
proof (cases "fd_pos (get_file fd s) = i_size (inodes s p)")
  case True
  have "i_size (inodes s p) + count > i_size (inodes s p)"
    using assms(8,9) True by (simp add: word_less_nat_alt unat_small_add)
  then show ?thesis using True assms(2) by (simp add: file_read_def)
next
  case False
  let ?pos = "unat (fd_pos (get_file fd s))" and ?sz = "unat (i_size (inodes s p))"
  define m where "m = (if ?pos + unat count > ?sz then ?sz - ?pos else unat count)"
  have "?pos \<noteq> ?sz" using False by (simp add: word_unat_eq_iff)
  then have m: "?pos + m \<le> ?sz" "0 < m" using assms(6,9) by (auto simp: m_def word_less_nat_alt)
  have len: "length (file_content s p) = ?sz"
  proof -
    have "length (concat (map (data s) (nblocks s p (Suc (?sz div 512))))) = 512 * Suc (?sz div 512)"
      using assms(1) nblocks_length [OF assms(1)] by (subst length_concat_512) (simp_all add: blocks_ok_def layout_ready)
    then show ?thesis by (simp add: file_content_def fcontent_def file_blocks_nblocks)
  qed
  have bs: "take m (drop ?pos (file_content s p)) = take (unat count) (drop ?pos (file_content s p))"
    using len by (simp add: m_def)
  have "length (take m (drop ?pos (file_content s p))) = m" using len m(1) by simp
  then show ?thesis
    using False file_read_ok [OF assms(1-5) m(1) assms(7) m_def assms(8) m(2)] assms(3)
    by (simp add: bs) (simp add: put_file_def get_file_def)
qed

theorem file_read_contents_witness:
  "\<exists>s'. file_read 3 100 fs_file = Some ((3, [0x61, 0x62, 0x63]), s')"
  using file_read_contents [of fs_file "0xc0201000" 3 100] fs_file_ok
  by (auto simp: file_ok_def empty_file_def fs_file_entry fs_file_heap fs_file_inode inode0_sec fs_file_content)

text \<open>Property C28: a write that makes a file exactly \<open>140 * 512\<close> bytes long passes the size check and then
  fails the assertion on the number of blocks, which counts a block for the byte behind the last one.\<close>

theorem file_write_full_asserts:
  assumes "fd_inode (get_file fd s) = p" "i_sectors (inodes s p) ! 0 \<noteq> 0"
    "heap s (heap_cnt s) \<noteq> 0" "heap s (Suc (heap_cnt s)) \<noteq> 0" "i_size (inodes s p) + count = 71680"
  shows "file_write fd buf count s = None"
  using assms by (simp add: file_write_def Let_def heap_alloc_def first_block_def)

theorem file_write_full_asserts_witness: "file_write 3 (replicate 71677 0) 71677 fs_file = None"
  by (rule file_write_full_asserts [of 3 _ "0xc0201000"])
    (simp_all add: fs_file_entry fs_file_heap fs_file_inode inode0_sec)

end
