(* ===== verification/Kformat.thy ===== *)
theory Kformat
  imports Kfile_rw
begin

text \<open>
  Making and mounting a file system (\<^verbatim>\<open>partition_format\<close>, \<^verbatim>\<open>mount_partition\<close> and \<^verbatim>\<open>filesys_init\<close> of
  \<^verbatim>\<open>src/fs/fs.c\<close>). The bytes of a local structure that are never written (the padding of the super block)
  and the memory behind a bitmap are parameters. Memory from \<^verbatim>\<open>sys_malloc\<close> is cleared.

  The theory shows that a formatted partition can be mounted: the regions of the disk lie side by side
  inside the partition, the bitmaps, the root inode and the root directory are what the other
  components expect, and which blocks the bitmap offers.
\<close>

section \<open>Formatting\<close>

definition super_block_bytes :: "super_block \<Rightarrow> u8 list" where
  "super_block_bytes b = words_bytes [magic b, sb_sec_cnt b, inode_cnt b, part_lba_base b, block_bitmap_lba b,
     block_bitmap_sects b, inode_bitmap_lba b, inode_bitmap_sects b, inode_table_lba b, inode_table_sects b,
     data_start_lba b, root_inode_no b, dir_entry_size b] @ pad b"

definition bytes_super_block :: "u8 list \<Rightarrow> super_block" where
  "bytes_super_block bs =
     (let w = bytes_words (take 52 bs)
      in \<lparr>magic = w ! 0, sb_sec_cnt = w ! 1, inode_cnt = w ! 2, part_lba_base = w ! 3, block_bitmap_lba = w ! 4,
          block_bitmap_sects = w ! 5, inode_bitmap_lba = w ! 6, inode_bitmap_sects = w ! 7, inode_table_lba = w ! 8,
          inode_table_sects = w ! 9, data_start_lba = w ! 10, root_inode_no = w ! 11, dir_entry_size = w ! 12,
          pad = drop 52 bs\<rparr>)"

definition MAX_FILES_PER_PART :: u32 where "MAX_FILES_PER_PART = 4096"
definition BITS_PER_SECTOR :: u32 where "BITS_PER_SECTOR = 4096"

text \<open>The number of blocks, and the number of sectors of the block bitmap computed from it.\<close>

definition block_bitmap_bit_len :: "u32 \<Rightarrow> u32" where
  "block_bitmap_bit_len part_sects =
     (let inode_bitmap_sects = DIV_ROUND_UP MAX_FILES_PER_PART BITS_PER_SECTOR;
          inode_table_sects = DIV_ROUND_UP (sizeof_inode * MAX_FILES_PER_PART) 512;
          used_sects = 1 + 1 + inode_bitmap_sects + inode_table_sects;
          free_sects = part_sects - used_sects
      in free_sects - DIV_ROUND_UP free_sects BITS_PER_SECTOR)"

definition format_super_block :: "partition \<Rightarrow> u8 list \<Rightarrow> super_block" where
  "format_super_block p padding =
     (let bb_lba = start_lba p + 2; bb_sects = DIV_ROUND_UP (block_bitmap_bit_len (sec_cnt p)) BITS_PER_SECTOR;
          ib_lba = bb_lba + bb_sects; ib_sects = DIV_ROUND_UP MAX_FILES_PER_PART BITS_PER_SECTOR;
          it_lba = ib_lba + ib_sects; it_sects = DIV_ROUND_UP (sizeof_inode * MAX_FILES_PER_PART) 512
      in \<lparr>magic = 0x19590318, sb_sec_cnt = sec_cnt p, inode_cnt = MAX_FILES_PER_PART, part_lba_base = start_lba p,
          block_bitmap_lba = bb_lba, block_bitmap_sects = bb_sects, inode_bitmap_lba = ib_lba,
          inode_bitmap_sects = ib_sects, inode_table_lba = it_lba, inode_table_sects = it_sects,
          data_start_lba = it_lba + it_sects, root_inode_no = 0, dir_entry_size = 24, pad = padding\<rparr>)"

text \<open>\<^verbatim>\<open>while (bit_idx <= block_bitmap_last_bit) buf[block_bitmap_last_byte] &= ~(1 << bit_idx++)\<close>\<close>

definition clear_low_bits :: "nat \<Rightarrow> u8 \<Rightarrow> u8" where
  "clear_low_bits last_bit b = fold (\<lambda>bit_idx b. b AND NOT (push_bit bit_idx 1)) [0..<Suc last_bit] b"

definition format_block_bitmap :: "u32 \<Rightarrow> nat \<Rightarrow> u8 list option" where
  "format_block_bitmap bit_len buf_size =
     do { let buf = (replicate buf_size 0)[0 := 1];
          let last_byte = unat (bit_len div 8);
          let last_bit = unat (bit_len mod 8);
          let last_size = 512 - last_byte mod 512;
          buf \<leftarrow> put_at last_byte (replicate last_size 0xff) buf;
          Some (buf[last_byte := clear_low_bits last_bit (buf ! last_byte)]) }"

definition root_dir_entries :: "u8 list" where
  "root_dir_entries =
     dir_entry_bytes \<lparr>filename = [0x2e] @ replicate 15 0, de_i_no = 0, f_type = FT_DIRECTORY\<rparr> @
     dir_entry_bytes \<lparr>filename = [0x2e, 0x2e] @ replicate 14 0, de_i_no = 0, f_type = FT_DIRECTORY\<rparr>"

definition root_inode :: "super_block \<Rightarrow> inode" where
  "root_inode b = \<lparr>i_no = 0, i_size = dir_entry_size b * 2, i_open_cnts = 0, write_deny = 0,
     i_sectors = data_start_lba b # replicate 12 0\<rparr>"

definition partition_format :: "partition \<Rightarrow> u8 list \<Rightarrow> 'a fsys_scheme \<Rightarrow> 'a fsys_scheme option" where
  "partition_format p padding s =
     do { let b = format_super_block p padding;
          s \<leftarrow> ide_write (my_disk p) (start_lba p + 1) (super_block_bytes b) 1 s;
          let buf_sects = max (max (block_bitmap_sects b) (inode_bitmap_sects b)) (inode_table_sects b);
          let buf_size = unat (buf_sects * 512);
          let (buf, s) = heap_alloc s;
          ASSERT (buf \<noteq> 0);
          bb \<leftarrow> format_block_bitmap (block_bitmap_bit_len (sec_cnt p)) buf_size;
          s \<leftarrow> ide_write (my_disk p) (block_bitmap_lba b) bb (block_bitmap_sects b) s;
          s \<leftarrow> ide_write (my_disk p) (inode_bitmap_lba b) ((replicate buf_size 0)[0 := 1]) (inode_bitmap_sects b) s;
          it \<leftarrow> put_at 0 (inode_bytes (root_inode b)) (replicate buf_size 0);
          s \<leftarrow> ide_write (my_disk p) (inode_table_lba b) it (inode_table_sects b) s;
          rd \<leftarrow> put_at 0 root_dir_entries (replicate buf_size 0);
          ide_write (my_disk p) (data_start_lba b) rd 1 s }"

section \<open>Mounting\<close>

definition load_bitmap :: "u8 list \<Rightarrow> (u32 \<Rightarrow> u8) \<Rightarrow> u32 \<Rightarrow> bitmap" where
  "load_bitmap bs behind len =
     \<lparr>btmp_bytes_len = len, bits = \<lambda>i. if unat i < length bs then bs ! unat i else behind i\<rparr>"

text \<open>The callback of \<^verbatim>\<open>list_traversal\<close>; the boolean says whether this is the partition.\<close>

definition mount_partition ::
    "u8 list \<Rightarrow> (u32 \<Rightarrow> u8) \<Rightarrow> partition \<Rightarrow> 'a fsys_scheme \<Rightarrow> (bool \<times> 'a fsys_scheme) option" where
  "mount_partition name behind p s =
     (if part_name p \<noteq> name then Some (False, s)
      else do { let s = s\<lparr>part := p\<rparr>;
                let (sb_buf, s) = heap_alloc s;
                let (sbp, s) = heap_alloc s;
                ASSERT (sbp \<noteq> 0 \<and> sb_buf \<noteq> 0);
                (sec, s) \<leftarrow> ide_read (my_disk p) (start_lba p + 1) 1 s;
                let b = bytes_super_block sec;
                let (bb, s) = heap_alloc s;
                ASSERT (bb \<noteq> 0);
                (bbits, s) \<leftarrow> ide_read (my_disk p) (block_bitmap_lba b) (block_bitmap_sects b) s;
                let (ib, s) = heap_alloc s;
                ASSERT (ib \<noteq> 0);
                (ibits, s) \<leftarrow> ide_read (my_disk p) (inode_bitmap_lba b) (inode_bitmap_sects b) s;
                Some (True, s\<lparr>sb := b, block_bitmap := load_bitmap bbits behind (block_bitmap_sects b * 512),
                  inode_bitmap := load_bitmap ibits behind (inode_bitmap_sects b * 512), open_inodes := []\<rparr>) })"

fun mount_first :: "u8 list \<Rightarrow> (u32 \<Rightarrow> u8) \<Rightarrow> partition list \<Rightarrow> 'a fsys_scheme \<Rightarrow> (bool \<times> 'a fsys_scheme) option" where
  "mount_first name behind [] s = Some (False, s)"
| "mount_first name behind (p # ps) s =
     do { (found, s) \<leftarrow> mount_partition name behind p s;
          if found then Some (True, s) else mount_first name behind ps s }"

text \<open>The twelve partitions of a disk, four primary and eight logical: the ones without the magic number
  are formatted.\<close>

fun format_parts :: "u8 list \<Rightarrow> partition list \<Rightarrow> 'a fsys_scheme \<Rightarrow> 'a fsys_scheme option" where
  "format_parts padding [] s = Some s"
| "format_parts padding (p # ps) s =
     (if sec_cnt p \<noteq> 0
      then do { (sec, s) \<leftarrow> ide_read (my_disk p) (start_lba p + 1) 1 s;
                s \<leftarrow> (if magic (bytes_super_block sec) = 0x19590318 then Some s else partition_format p padding s);
                format_parts padding ps s }
      else format_parts padding ps s)"

text \<open>The slaves of the channels. \<^verbatim>\<open>part_idx\<close> is not reset, so only the disk of the first channel is
  visited. Without a partition \<^verbatim>\<open>sdb1\<close> the null \<^verbatim>\<open>cur_part\<close> is dereferenced.\<close>

definition filesys_init ::
    "partition list list \<Rightarrow> partition list \<Rightarrow> u8 list \<Rightarrow> (u32 \<Rightarrow> u8) \<Rightarrow> 'a fsys_scheme \<Rightarrow> 'a fsys_scheme option" where
  "filesys_init slave_parts plist padding behind s =
     do { let (sb_buf, s) = heap_alloc s;
          ASSERT (sb_buf \<noteq> 0);
          s \<leftarrow> (case slave_parts of [] \<Rightarrow> Some s | ps # _ \<Rightarrow> format_parts padding (take 12 ps) s);
          (found, s) \<leftarrow> mount_first [0x73, 0x64, 0x62, 0x31] behind plist s;
          ASSERT found;
          s \<leftarrow> open_root_dir s;
          Some (s\<lparr>file_table := map (\<lambda>f. f\<lparr>fd_inode := 0\<rparr>) (file_table s)\<rparr>) }"

section \<open>The layout of a formatted partition\<close>

text \<open>The partition has room for the metadata and some blocks, and ends before the last sector of the
  disk.\<close>

definition formattable :: "partition \<Rightarrow> u8 list \<Rightarrow> bool" where
  "formattable p padding \<longleftrightarrow> length padding = 460 \<and> 640 \<le> unat (sec_cnt p) \<and>
     unat (start_lba p) + unat (sec_cnt p) < 163840"

lemma unat_round_up_4096:
  assumes "unat n < 2 ^ 31"
  shows "unat (DIV_ROUND_UP n 4096) = (unat n + 4095) div 4096"
proof -
  have "unat (n + 4095) = unat n + 4095" using assms by (intro unat_small_add [THEN trans]) simp_all
  moreover have "DIV_ROUND_UP n 4096 = (n + 4095) div 4096" by (simp add: DIV_ROUND_UP_def add.commute)
  ultimately show ?thesis by (simp only: unat_div) simp
qed

lemma format_consts:
  "DIV_ROUND_UP MAX_FILES_PER_PART BITS_PER_SECTOR = 1"
  "DIV_ROUND_UP (sizeof_inode * MAX_FILES_PER_PART) 512 = 608"
  by (simp_all add: DIV_ROUND_UP_def MAX_FILES_PER_PART_def BITS_PER_SECTOR_def sizeof_inode_def)

text \<open>The number of blocks, of bitmap sectors computed first and of those kept.\<close>

lemma format_sizes:
  assumes "formattable p padding"
  defines "F \<equiv> unat (sec_cnt p) - 611"
  defines "n \<equiv> F - (F + 4095) div 4096"
  shows "unat (block_bitmap_bit_len (sec_cnt p)) = n"
    "unat (DIV_ROUND_UP (block_bitmap_bit_len (sec_cnt p)) 4096) = (n + 4095) div 4096"
    "16 \<le> n" "(n + 4095) div 4096 \<le> (F + 4095) div 4096" "(n + 4095) div 4096 \<le> 40" "0 < (n + 4095) div 4096"
    "n + (n + 4095) div 4096 \<le> F"
proof -
  have c: "640 \<le> unat (sec_cnt p)" "unat (sec_cnt p) < 163840" using assms(1) by (auto simp: formattable_def)
  have F: "unat (sec_cnt p - 611) = F" using c(1) by (simp add: F_def unat_minus_le word_le_nat_alt)
  have lt: "F < 2 ^ 31" "29 \<le> F" using c by (simp_all add: F_def)
  have k: "unat (DIV_ROUND_UP (sec_cnt p - 611) 4096) = (F + 4095) div 4096"
    using unat_round_up_4096 [of "sec_cnt p - 611"] F lt by simp
  have le: "(F + 4095) div 4096 \<le> F" using lt(2) by linarith
  show n: "unat (block_bitmap_bit_len (sec_cnt p)) = n"
    using F k le unfolding block_bitmap_bit_len_def format_consts Let_def
    by (simp add: n_def unat_minus_le word_le_nat_alt BITS_PER_SECTOR_def)
  show "unat (DIV_ROUND_UP (block_bitmap_bit_len (sec_cnt p)) 4096) = (n + 4095) div 4096"
    using unat_round_up_4096 [of "block_bitmap_bit_len (sec_cnt p)"] n lt(1) by (simp add: n_def)
  show "16 \<le> n" using lt(2) unfolding n_def by linarith
  show mono: "(n + 4095) div 4096 \<le> (F + 4095) div 4096" by (rule div_le_mono) (simp add: n_def)
  show "(n + 4095) div 4096 \<le> 40" using c(2) unfolding n_def F_def by linarith
  show "0 < (n + 4095) div 4096" using \<open>16 \<le> n\<close> by linarith
  show "n + (n + 4095) div 4096 \<le> F" using mono le unfolding n_def by linarith
qed

definition sectors_of_map :: "partition \<Rightarrow> nat" where
  "sectors_of_map p = (unat (block_bitmap_bit_len (sec_cnt p)) + 4095) div 4096"

lemma format_regions:
  assumes "formattable p padding"
  defines "b \<equiv> format_super_block p padding" and "k \<equiv> sectors_of_map p" and "L \<equiv> unat (start_lba p)"
  shows "unat (start_lba p + 1) = L + 1" "unat (block_bitmap_lba b) = L + 2" "unat (block_bitmap_sects b) = k"
    "unat (inode_bitmap_lba b) = L + 2 + k" "inode_bitmap_sects b = 1" "unat (inode_table_lba b) = L + 3 + k"
    "inode_table_sects b = 608" "unat (data_start_lba b) = L + 611 + k" "0 < k" "k \<le> 40"
    "L + 611 + k + unat (block_bitmap_bit_len (sec_cnt p)) \<le> L + unat (sec_cnt p)" "L + unat (sec_cnt p) < 163840"
    "16 \<le> unat (block_bitmap_bit_len (sec_cnt p))"
proof -
  note N = format_sizes(1) [OF assms(1)]
  note z = format_sizes(2-) [OF assms(1), folded N, folded sectors_of_map_def, folded k_def]
  have c: "640 \<le> unat (sec_cnt p)" "L + unat (sec_cnt p) < 163840" using assms(1) by (auto simp: formattable_def L_def)
  show bs: "unat (block_bitmap_sects b) = k" using z(1)
    by (simp add: b_def format_super_block_def Let_def BITS_PER_SECTOR_def)
  show k: "0 < k" "k \<le> 40" using z(4,5) by simp_all
  have add: "unat (a + d) = unat a + unat d" if "unat a + unat d < 2 ^ 32" for a d :: u32
    by (rule unat_small_add [OF that])
  show "unat (start_lba p + 1) = L + 1" using c(2) by (subst add) (simp_all add: L_def)
  show bl: "unat (block_bitmap_lba b) = L + 2"
    using c(2) unfolding b_def format_super_block_def Let_def by simp (subst add; simp add: L_def)
  have "inode_bitmap_lba b = block_bitmap_lba b + block_bitmap_sects b"
    by (simp add: b_def format_super_block_def Let_def)
  then show il: "unat (inode_bitmap_lba b) = L + 2 + k" using c(2) bl bs k by (simp only:) (subst add; simp)
  show "inode_bitmap_sects b = 1" "inode_table_sects b = 608"
    by (simp_all add: b_def format_super_block_def Let_def format_consts)
  have "inode_table_lba b = inode_bitmap_lba b + 1"
    by (simp add: b_def format_super_block_def Let_def format_consts)
  then show tl: "unat (inode_table_lba b) = L + 3 + k" using c(2) il k by (simp only:) (subst add; simp)
  have "data_start_lba b = inode_table_lba b + 608"
    by (simp add: b_def format_super_block_def Let_def format_consts)
  then show "unat (data_start_lba b) = L + 611 + k" using c(2) tl k by (simp only:) (subst add; simp)
  show "16 \<le> unat (block_bitmap_bit_len (sec_cnt p))" by (rule z(2))
  show "L + 611 + k + unat (block_bitmap_bit_len (sec_cnt p)) \<le> L + unat (sec_cnt p)"
    using z(6) c(1) by simp
  show "L + unat (sec_cnt p) < 163840" by (rule c(2))
qed

lemma put_sectors_at:
  assumes "unat lba + n \<le> 2 ^ 31"
  shows "put_sectors lba n buf md x =
    (if unat lba \<le> unat x \<and> unat x < unat lba + n then take 512 (drop (512 * (unat x - unat lba)) buf) else md x)"
proof (cases "unat lba \<le> unat x")
  case True
  then have "unat (x - lba) = unat x - unat lba" by (simp add: unat_minus_le word_le_nat_alt)
  then show ?thesis using True by (auto simp: put_sectors_def)
next
  case False
  then have "unat (x - lba) = 2 ^ 32 + unat x - unat lba" by (simp add: unat_sub_if_size word_size)
  then have "\<not> unat (x - lba) < n" using assms by simp
  then show ?thesis using False by (simp add: put_sectors_def)
qed

text \<open>The disk after formatting, sector by sector.\<close>

definition formatted :: "partition \<Rightarrow> super_block \<Rightarrow> u8 list \<Rightarrow> (u32 \<Rightarrow> u8 list) \<Rightarrow> (u32 \<Rightarrow> u8 list) \<Rightarrow> bool" where
  "formatted p b bb md md' \<longleftrightarrow> (\<forall>x. length (md' x) = 512) \<and>
     md' (start_lba p + 1) = super_block_bytes b \<and>
     sectors md' (block_bitmap_lba b) (sectors_of_map p) = take (512 * sectors_of_map p) bb \<and>
     md' (inode_bitmap_lba b) = 1 # replicate 511 0 \<and>
     sectors md' (inode_table_lba b) 608 = inode_bytes (root_inode b) @ replicate (512 * 608 - 76) 0 \<and>
     md' (data_start_lba b) = root_dir_entries @ replicate 464 0 \<and>
     (\<forall>x. unat x \<le> unat (start_lba p) \<or> unat (data_start_lba b) < unat x \<longrightarrow> md' x = md x)"

lemma put_disk_heap [simp]: "put_disk dk md (s\<lparr>heap_cnt := c\<rparr>) = (put_disk dk md s)\<lparr>heap_cnt := c\<rparr>"
  "disk_data dk (s\<lparr>heap_cnt := c\<rparr>) = disk_data dk s" "ide_ready dk (s\<lparr>heap_cnt := c\<rparr>) = ide_ready dk s"
  "heap (put_disk dk md s) = heap s" "heap_cnt (put_disk dk md s) = heap_cnt s"
  "disk_data dk (s\<lparr>part := p\<rparr>) = disk_data dk s" "ide_ready dk (s\<lparr>part := p\<rparr>) = ide_ready dk s"
  by (simp_all add: put_disk_def put_channel_def get_channel_def disk_data_def ide_ready_def)

lemma write_step:
  assumes "ide_ready dk s" "\<And>x. length (md x) = 512" "unat lba + unat n \<le> 163840" "0 < n" "512 * unat n \<le> length buf"
  shows "ide_write dk lba buf n ((put_disk dk md s)\<lparr>heap_cnt := c\<rparr>) =
      Some ((put_disk dk (put_sectors lba (unat n) buf md) s)\<lparr>heap_cnt := c\<rparr>)"
    "length (put_sectors lba (unat n) buf md x) = 512"
proof -
  have "ide_ready dk ((put_disk dk md s)\<lparr>heap_cnt := c\<rparr>)" using assms(1,2) by simp
  then show "ide_write dk lba buf n ((put_disk dk md s)\<lparr>heap_cnt := c\<rparr>) =
      Some ((put_disk dk (put_sectors lba (unat n) buf md) s)\<lparr>heap_cnt := c\<rparr>)"
    using ide_write_ok [of dk "(put_disk dk md s)\<lparr>heap_cnt := c\<rparr>" lba n buf] assms(3-5) by simp
  show "length (put_sectors lba (unat n) buf md x) = 512" by (rule put_sectors_length [OF assms(2,5)])
qed

lemma bit_clear_low: "bit (clear_low_bits m b) i \<longleftrightarrow> bit b i \<and> m < i"
proof -
  have "bit (fold (\<lambda>bit_idx b. b AND NOT (push_bit bit_idx 1)) [0..<m] b) i \<longleftrightarrow> bit b i \<and> m \<le> i" for m
    by (induction m) (auto simp: bit_simps less_Suc_eq_le dest: bit_imp_le_length)
  from this [of "Suc m"] show ?thesis unfolding clear_low_bits_def by (simp add: Suc_le_eq)
qed

text \<open>The bits of the new block bitmap: block 0 is taken, and so is everything behind the bit numbered
  \<open>block_bitmap_bit_len\<close>, which itself stays free.\<close>

lemma format_bitmap_bits:
  assumes "16 \<le> unat N" "unat N < 163840" "k = (unat N + 4095) div 4096"
  obtains bb where "format_block_bitmap N 311296 = Some bb" "length bb = 311296"
    "\<And>n. n < 4096 * k \<Longrightarrow> bit (bb ! (n div 8)) (n mod 8) \<longleftrightarrow> n = 0 \<or> unat N < n"
proof -
  define l where "l = unat N div 8"
  define e where "e = 512 - l mod 512"
  have l: "2 \<le> l" "l < 20480" "unat (N div 8) = l" "unat (N mod 8) = unat N mod 8"
    using assms(1,2) by (simp_all add: l_def unat_div unat_mod less_mult_imp_div_less)
  have e: "l + e = 512 * Suc (l div 512)" "0 < e" "e \<le> 512"
  proof -
    have m: "l mod 512 < 512" "512 * (l div 512) + l mod 512 = l" by simp_all
    then show "0 < e" "e \<le> 512" unfolding e_def by linarith+
    from m show "l + e = 512 * Suc (l div 512)" unfolding e_def mult_Suc_right by linarith
  qed
  have le: "l + e \<le> 311296" using l(2) e(3) by simp
  let ?z = "(replicate 311296 0)[0 := 1 :: u8]"
  define b1 where "b1 = take l ?z @ replicate e 0xff @ drop (l + e) ?z"
  have put: "put_at l (replicate e 0xff) ?z = Some b1" "length b1 = 311296"
    using le by (simp_all add: put_at_def b1_def)
  define bb where "bb = b1[l := clear_low_bits (unat N mod 8) (b1 ! l)]"
  have byte: "bb ! j = (if j = 0 then 1 else if j < l then 0 else if j = l then clear_low_bits (unat N mod 8) 0xff else 0xff)"
    if "j < l + e" for j
    using that le e(2) l(1) by (auto simp: bb_def b1_def nth_append nth_list_update min_absorb2)
  have "bit (bb ! (n div 8)) (n mod 8) \<longleftrightarrow> n = 0 \<or> unat N < n" if n: "n < 4096 * k" for n
  proof -
    have "n div 8 < l + e"
    proof -
      have "k \<le> Suc (unat N div 4096)" unfolding assms(3) by linarith
      then have "n < 512 * Suc (unat N div 4096) * 8" using n by simp
      then have "n div 8 < 512 * Suc (unat N div 4096)" by (rule less_mult_imp_div_less)
      moreover have "l div 512 = unat N div 4096" unfolding l_def div_mult2_eq [symmetric] by simp
      ultimately show ?thesis unfolding e(1) by simp
    qed
    note b = byte [OF this]
    have ff: "bit (0xff :: u8) (n mod 8)"
    proof -
      have "(0xff :: u8) = mask 8" by (simp add: mask_eq_exp_minus_1)
      then show ?thesis by (simp only: bit_mask_iff) simp
    qed
    consider "n div 8 = 0" | "0 < n div 8" "n div 8 < l" | "n div 8 = l" | "l < n div 8" by linarith
    then show ?thesis
    proof cases
      case 1
      then show ?thesis using b l(1) assms(1) by (auto simp: bit_1_iff)
    next
      case 2
      then have "n \<le> unat N" "n \<noteq> 0" unfolding l_def by linarith+
      then show ?thesis using 2 b by simp
    next
      case 3
      have "unat N = 8 * l + unat N mod 8" "n = 8 * l + n mod 8"
        using mult_div_mod_eq [of 8 "unat N"] mult_div_mod_eq [of 8 n] 3 l_def by simp_all
      then have "unat N mod 8 < n mod 8 \<longleftrightarrow> unat N < n" "n \<noteq> 0" using l(1) by linarith+
      then show ?thesis using 3 b ff l(1) by (simp add: bit_clear_low)
    next
      case 4
      then have "unat N < n" unfolding l_def by linarith
      then show ?thesis using 4 b ff by simp
    qed
  qed
  moreover have "format_block_bitmap N 311296 = Some bb" "length bb = 311296"
    using put l(3,4) by (simp_all add: format_block_bitmap_def Let_def e_def bb_def)
  ultimately show thesis using that by blast
qed

lemma length_super_block_bytes [simp]: "length (super_block_bytes b) = 52 + length (pad b)"
  by (simp add: super_block_bytes_def)

lemma bytes_super_block_bytes [simp]: "bytes_super_block (super_block_bytes b) = b"
  by (simp add: bytes_super_block_def super_block_bytes_def)

lemma length_root_dir_entries [simp]: "length root_dir_entries = 48"
  by (simp add: root_dir_entries_def dir_entry_bytes_def)

lemma sectors_skip:
  assumes "unat lba + n \<le> 2 ^ 31" "unat lba' + m \<le> 2 ^ 31" "unat lba + n \<le> unat lba' \<or> unat lba' + m \<le> unat lba"
  shows "sectors (put_sectors lba n buf md) lba' m = sectors md lba' m"
  by (rule sectors_put_other [OF assms])

lemma first_sector: "take 512 ((replicate 311296 0)[0 := 1 :: u8]) = 1 # replicate 511 0"
  by (rule nth_equalityI) (auto simp: nth_Cons' nth_list_update)

lemma format_writes:
  assumes "formattable p padding" "\<And>x. length (md x) = 512" "length bb = 311296"
  defines "b \<equiv> format_super_block p padding"
  defines "k \<equiv> sectors_of_map p"
  defines "it \<equiv> inode_bytes (root_inode b) @ replicate (311296 - 76) 0"
  defines "rd \<equiv> root_dir_entries @ replicate (311296 - 48) 0"
  defines "md1 \<equiv> put_sectors (start_lba p + 1) 1 (super_block_bytes b) md"
  defines "md2 \<equiv> put_sectors (block_bitmap_lba b) k bb md1"
  defines "md3 \<equiv> put_sectors (inode_bitmap_lba b) 1 ((replicate 311296 0)[0 := 1]) md2"
  defines "md4 \<equiv> put_sectors (inode_table_lba b) 608 it md3"
  defines "md5 \<equiv> put_sectors (data_start_lba b) 1 rd md4"
  shows "formatted p b bb md md5"
proof -
  note r = format_regions [OF assms(1), folded b_def k_def]
  note at = put_sectors_at
  have pad: "length (pad b) = 460" using assms(1) by (simp add: b_def format_super_block_def Let_def formattable_def)
  have it: "length it = 311296" by (simp add: it_def root_inode_def)
  have rd: "length rd = 311296" by (simp add: rd_def)
  have len: "length (md5 x) = 512" for x
    unfolding md5_def md4_def md3_def md2_def md1_def using assms(2,3) pad it rd r(10)
    by (intro put_sectors_length) simp_all
  have s1: "md5 (start_lba p + 1) = super_block_bytes b"
    unfolding md5_def md4_def md3_def md2_def md1_def using r pad by (simp add: at)
  have s3: "md5 (inode_bitmap_lba b) = 1 # replicate 511 0"
    unfolding md5_def md4_def md3_def using r first_sector by (simp add: at)
  have s5: "md5 (data_start_lba b) = root_dir_entries @ replicate 464 0"
    unfolding md5_def using r by (simp add: at rd_def)
  have s2: "sectors md5 (block_bitmap_lba b) k = take (512 * k) bb"
    unfolding md5_def md4_def md3_def md2_def using r assms(3) by (simp add: sectors_skip sectors_put_same)
  have s4: "sectors md5 (inode_table_lba b) 608 = inode_bytes (root_inode b) @ replicate (512 * 608 - 76) 0"
    unfolding md5_def md4_def using r it by (simp add: sectors_skip sectors_put_same) (simp add: it_def root_inode_def)
  have fr: "md5 x = md x" if "unat x \<le> unat (start_lba p) \<or> unat (data_start_lba b) < unat x" for x
    unfolding md5_def md4_def md3_def md2_def md1_def using r that by (auto simp: at)
  show ?thesis unfolding formatted_def using len s1 s2 s3 s4 s5 fr by (simp add: k_def)
qed

lemma partition_format_ok:
  assumes "formattable p padding" "ide_ready (my_disk p) s" "heap s (heap_cnt s) \<noteq> 0"
    "format_block_bitmap (block_bitmap_bit_len (sec_cnt p)) 311296 = Some bb" "length bb = 311296"
  shows "\<exists>md. partition_format p padding s = Some ((put_disk (my_disk p) md s)\<lparr>heap_cnt := Suc (heap_cnt s)\<rparr>) \<and>
    formatted p (format_super_block p padding) bb (disk_data (my_disk p) s) md"
proof -
  define b where "b = format_super_block p padding"
  note r = format_regions [OF assms(1), folded b_def]
  define k where "k = sectors_of_map p"
  define it rd where "it = inode_bytes (root_inode b) @ replicate (311296 - 76) 0" and "rd = root_dir_entries @ replicate (311296 - 48) 0"
  define md md1 where "md = disk_data (my_disk p) s" and "md1 = put_sectors (start_lba p + 1) 1 (super_block_bytes b) md"
  define md2 md3 where "md2 = put_sectors (block_bitmap_lba b) k bb md1"
    and "md3 = put_sectors (inode_bitmap_lba b) 1 ((replicate 311296 0)[0 := 1]) md2"
  define md4 md5 where "md4 = put_sectors (inode_table_lba b) 608 it md3" and "md5 = put_sectors (data_start_lba b) 1 rd md4"
  have pad: "length (pad b) = 460" using assms(1) by (simp add: b_def format_super_block_def Let_def formattable_def)
  have len: "length (md x) = 512" for x using assms(2) by (simp add: md_def ide_ready_def)
  have fmt: "formatted p b bb md md5"
    unfolding md5_def md4_def md3_def md2_def md1_def k_def it_def rd_def b_def
    by (rule format_writes [OF assms(1) len assms(5)])
  let ?S = "\<lambda>md. (put_disk (my_disk p) md s)\<lparr>heap_cnt := Suc (heap_cnt s)\<rparr>"
  have w1: "ide_write (my_disk p) (start_lba p + 1) (super_block_bytes b) 1 s = Some (put_disk (my_disk p) md1 s)"
    using ide_write_ok [OF assms(2), of "start_lba p + 1" 1 "super_block_bytes b"] r(1,11,12) pad by (simp add: md1_def md_def)
  have l1: "length (md1 x) = 512" for x using len pad unfolding md1_def by (intro put_sectors_length) simp_all
  have w2: "ide_write (my_disk p) (block_bitmap_lba b) bb (block_bitmap_sects b) (?S md1) = Some (?S md2)"
    "length (md2 x) = 512" for x
    using write_step [OF assms(2) l1, of "block_bitmap_lba b" "block_bitmap_sects b" bb] r assms(5)
    by (simp_all add: md2_def k_def word_less_nat_alt)
  have w3: "ide_write (my_disk p) (inode_bitmap_lba b) ((replicate 311296 0)[0 := 1]) 1 (?S md2) = Some (?S md3)"
    "length (md3 x) = 512" for x
    using write_step [OF assms(2) w2(2), of "inode_bitmap_lba b" 1 "(replicate 311296 0)[0 := 1]"] r
    by (simp_all add: md3_def)
  have it: "length it = 311296" by (simp add: it_def root_inode_def)
  have w4: "ide_write (my_disk p) (inode_table_lba b) it 608 (?S md3) = Some (?S md4)" "length (md4 x) = 512" for x
    using write_step [OF assms(2) w3(2), of "inode_table_lba b" 608 it] r it by (simp_all add: md4_def)
  have rd: "length rd = 311296" by (simp add: rd_def)
  have w5: "ide_write (my_disk p) (data_start_lba b) rd 1 (?S md4) = Some (?S md5)"
    using write_step(1) [OF assms(2) w4(2), of "data_start_lba b" 1 rd] r rd by (simp add: md5_def)
  have buf: "unat (max (max (block_bitmap_sects b) (inode_bitmap_sects b)) (inode_table_sects b) * 512) = 311296"
  proof -
    have "block_bitmap_sects b \<le> 608" using r(3,10) by (simp add: word_le_nat_alt)
    then show ?thesis using r(5,7) by (simp add: max_def)
  qed
  have p1: "put_at 0 (inode_bytes (root_inode b)) (replicate 311296 0) = Some it"
    "put_at 0 root_dir_entries (replicate 311296 0) = Some rd"
    by (simp_all add: put_at_def it_def rd_def root_inode_def)
  have "partition_format p padding s = Some (?S md5)"
    using w1 w2(1) w3(1) w4(1) w5 assms(3,4) buf p1 r(5,7)
    by (simp add: partition_format_def b_def [symmetric] heap_alloc_def)
  then show ?thesis using fmt by (auto simp: b_def md_def)
qed

section \<open>Mounting a formatted partition\<close>

text \<open>What mounting leaves: \<open>b\<close> is the super block, \<open>bb\<close> the bytes of the block bitmap.\<close>

lemma mount_formatted:
  assumes "formattable p padding" "formatted p b bb md0 (disk_data (my_disk p) s)" "ide_ready (my_disk p) s"
    "\<And>n. heap s n \<noteq> 0" "length bb = 311296"
  assumes b: "b = format_super_block p padding"
  defines "k \<equiv> sectors_of_map p"
  shows "\<exists>s'. mount_partition (part_name p) behind p s = Some (True, s') \<and> layout_ok s' \<and> part s' = p \<and> sb s' = b \<and>
    open_inodes s' = [] \<and> data s' = disk_data (my_disk p) s \<and> heap s' = heap s \<and>
    (\<forall>n < 4096 * k. bit_at (block_bitmap s') n \<longleftrightarrow> bit (bb ! (n div 8)) (n mod 8)) \<and>
    (\<forall>n < 4096. bit_at (inode_bitmap s') n \<longleftrightarrow> n = 0)"
proof -
  note r = format_regions [OF assms(1), folded b k_def]
  note f = assms(2) [unfolded formatted_def, folded k_def]
  define c where "c = heap_cnt s"
  let ?md = "disk_data (my_disk p) s"
  define bm where "bm = load_bitmap (take (512 * k) bb) behind (block_bitmap_sects b * 512)"
  define im where "im = load_bitmap (1 # replicate 511 0) behind (inode_bitmap_sects b * 512)"
  define s' where "s' = s\<lparr>part := p, heap_cnt := c + 4, sb := b, block_bitmap := bm, inode_bitmap := im, open_inodes := []\<rparr>"
  have fields: "disk_data (my_disk p) (s\<lparr>part := p, heap_cnt := m\<rparr>) = ?md" "ide_ready (my_disk p) (s\<lparr>part := p, heap_cnt := m\<rparr>)" for m
    using assms(3) by simp_all
  have r1: "ide_read (my_disk p) (start_lba p + 1) 1 (s\<lparr>part := p, heap_cnt := m\<rparr>) = Some (super_block_bytes b, s\<lparr>part := p, heap_cnt := m\<rparr>)" for m
    using ide_read_ok [OF fields(2), of "start_lba p + 1" 1] r f by (simp add: fields)
  have r2: "ide_read (my_disk p) (block_bitmap_lba b) (block_bitmap_sects b) (s\<lparr>part := p, heap_cnt := m\<rparr>) =
      Some (take (512 * k) bb, s\<lparr>part := p, heap_cnt := m\<rparr>)" for m
    using ide_read_ok [OF fields(2), of "block_bitmap_lba b" "block_bitmap_sects b"] r f by (simp add: fields word_less_nat_alt)
  have r3: "ide_read (my_disk p) (inode_bitmap_lba b) (inode_bitmap_sects b) (s\<lparr>part := p, heap_cnt := m\<rparr>) =
      Some (1 # replicate 511 0, s\<lparr>part := p, heap_cnt := m\<rparr>)" for m
    using ide_read_ok [OF fields(2), of "inode_bitmap_lba b" 1] r f by (simp add: fields)
  have run: "mount_partition (part_name p) behind p s = Some (True, s')"
    using r1 r2 r3 assms(4) by (simp add: mount_partition_def heap_alloc_def s'_def bm_def im_def c_def)
  have bsz: "unat (block_bitmap_sects b * 512) = 512 * k"
  proof -
    have "unat (block_bitmap_sects b) * 512 < 2 ^ 32" using r(3,10) by simp
    then show ?thesis using r(3) by (simp add: unat_word_ariths)
  qed
  have bits_bm: "bit_at bm n \<longleftrightarrow> bit (bb ! (n div 8)) (n mod 8)" if "n < 4096 * k" for n
  proof -
    have "n div 8 < 512 * k" using that by (intro less_mult_imp_div_less) simp
    moreover have "unat (of_nat (n div 8) :: u32) = n div 8" using calculation r(10) by (intro unat_of_nat_lt) simp
    ultimately show ?thesis using r(10) assms(5) by (simp add: bit_at_def bm_def load_bitmap_def)
  qed
  have bits_im: "bit_at im n \<longleftrightarrow> n = 0" if "n < 4096" for n
  proof -
    have d: "n div 8 < 512" using that by (intro less_mult_imp_div_less) simp
    then have "unat (of_nat (n div 8) :: u32) = n div 8" by (intro unat_of_nat_lt) simp
    then show ?thesis using d by (auto simp: bit_at_def im_def load_bitmap_def nth_Cons' bit_1_iff)
  qed
  have "nbits bm = 4096 * k" "nbits im = 4096" "bitmap_ok bm" "bitmap_ok im"
    using bsz r(5,10) by (simp_all add: nbits_def bm_def im_def load_bitmap_def bitmap_ok_def)
  then have lay: "layout_ok s'"
    using r fields(2) [of "c + 4"] assms(1)
    by (simp add: layout_ok_def s'_def fs_ready_def the_disk_def formattable_def)
      (simp add: ide_ready_def get_channel_def disk_data_def)
  have dat: "data s' = ?md" by (simp add: data_def s'_def the_disk_def disk_data_def get_channel_def)
  show ?thesis
    using run lay bits_bm bits_im dat by (intro exI [of _ s']) (simp add: s'_def)
qed

section \<open>The root directory\<close>

definition root_sector :: "u8 list" where
  "root_sector = root_dir_entries @ replicate 464 0"

lemma root_sector_entries: "root_sector = dir_entry_bytes dot_e @ dir_entry_bytes dots_e @ replicate 464 0"
  by (simp add: root_sector_def root_dir_entries_def dot_e_def dots_e_def FT_DIRECTORY_def)

lemma length_root_sector: "length root_sector = 512"
  by (simp add: root_sector_def)

lemma slots_2: "k < 21 \<Longrightarrow> k = 0 \<or> k = 1 \<or> (2 \<le> k \<and> k < (21 :: nat))"
  by linarith

lemma root_raw:
  "raw_at root_sector 0 = dir_entry_bytes dot_e" "raw_at root_sector (Suc 0) = dir_entry_bytes dots_e"
  "2 \<le> k \<Longrightarrow> k < 21 \<Longrightarrow> raw_at root_sector k = replicate 24 0"
  using root_entries_ok(1,2) [THEN entry_bytes_ok(1)] by (simp_all add: root_sector_entries raw_at_def)

lemma root_entry:
  "entry_at root_sector 0 = dot_e" "entry_at root_sector (Suc 0) = dots_e"
  "2 \<le> k \<Longrightarrow> k < 21 \<Longrightarrow> f_type (entry_at root_sector k) = 0"
  using root_entries_ok(1,2) [THEN entry_bytes_ok(2)] root_raw
  by (simp_all add: entry_at_raw) (simp add: bytes_dir_entry_def numeral_eq_Suc)

lemma root_name:
  "name_at root_sector 0 = [0x2e]" "name_at root_sector (Suc 0) = [0x2e, 0x2e]"
  "2 \<le> k \<Longrightarrow> k < 21 \<Longrightarrow> name_at root_sector k = []"
proof -
  have n: "name_at root_sector k = takeWhile (\<lambda>c. c \<noteq> 0) (raw_at root_sector k)" if "k < 21" for k
    using slots_2 [OF that] root_entry that by (intro name_at_raw [OF length_root_sector that]) (auto simp: root_entries)
  show "name_at root_sector 0 = [0x2e]" "name_at root_sector (Suc 0) = [0x2e, 0x2e]"
    using n [of 0] n [of 1] root_raw(1,2) root_names by (simp_all add: entry_name_def)
  show "name_at root_sector k = []" if "2 \<le> k" "k < 21"
    using n [OF that(2)] root_raw(3) [OF that] by (simp add: takeWhile_replicate)
qed

lemma root_sector_ok: "dir_sector_ok root_sector"
proof -
  have "f_type (entry_at root_sector k) \<le> 2 \<and> (f_type (entry_at root_sector k) = 0 \<longrightarrow> name_at root_sector k = [])" if "k < 21" for k
    using slots_2 [OF that] root_entry(1,2) root_entry(3) [of k] root_name(3) [of k]
    by (elim disjE) (simp_all add: root_entries)
  then show ?thesis by (simp add: dir_sector_ok_def length_root_sector)
qed

lemma root_find:
  assumes "nm \<noteq> []"
  shows "(case find (\<lambda>k. name_at root_sector k = nm) [0..<21] of Some k \<Rightarrow> Some (entry_at root_sector k) | None \<Rightarrow> None) =
    (if nm = [0x2e] then Some dot_e else if nm = [0x2e, 0x2e] then Some dots_e else None)"
proof -
  have split: "[0..<21] = 0 # 1 # [2..<21]" by (simp add: upt_conv_Cons)
  have "find (\<lambda>k. name_at root_sector k = nm) [2..<21] = None"
    using assms root_name(3) by (auto simp: find_None_iff)
  then show ?thesis by (simp add: split root_name(1,2) root_entry(1,2))
qed

text \<open>The root directory of a mounted partition whose first block is the new root sector.\<close>

lemma open_new_root:
  assumes "layout_ok s" "root_inode_no (sb s) = 0" "dir_entry_size (sb s) = 24" "open_inodes s = []"
    "slot s 0 = inode_bytes (root_inode (sb s))" "data s (data_start_lba (sb s)) = root_sector"
    "block_used s (data_start_lba (sb s))" "\<And>n. heap s n \<noteq> 0"
  shows "\<exists>s'. open_root_dir s = Some s' \<and> dir_ok Root_dir s' \<and> data s' = data s \<and>
    (\<forall>nm. nm \<noteq> [] \<longrightarrow> dir_map Root_dir s' nm = (if nm = [0x2e] then Some dot_e else if nm = [0x2e, 0x2e] then Some dots_e else None))"
proof -
  let ?p = "heap s (heap_cnt s)" and ?D = "data_start_lba (sb s)"
  define i where "i = (root_inode (sb s))\<lparr>i_open_cnts := 1\<rparr>"
  have io: "inode_open 0 s = Some (?p, s\<lparr>open_inodes := [?p], heap_cnt := heap_cnt s + 2, inodes := (inodes s)(?p := i)\<rparr>)"
    using inode_open_disk [OF layout_table [OF assms(1)], of 0] assms(4,5,8) by (simp add: i_def root_inode_def)
  define s' where "s' = s\<lparr>open_inodes := [?p], heap_cnt := heap_cnt s + 2, inodes := (inodes s)(?p := i),
    root_dir := (root_dir s)\<lparr>dir_inode := ?p, dir_pos := 0\<rparr>\<rparr>"
  have run: "open_root_dir s = Some s'"
    using io assms(2) by (simp add: open_root_dir_def s'_def)
  have ti: "the_dir_inode Root_dir s' = i" by (simp add: the_dir_inode_def get_dir_def s'_def)
  have i: "i_sectors i = ?D # replicate 12 0" "i_size i = 48" by (simp_all add: i_def root_inode_def assms(3))
  have bu: "block_used s' = block_used s" by (simp add: s'_def block_used_def blk_idx_def fun_eq_iff)
  have dat: "data s' = data s" by (simp add: s'_def)
  have "layout_ok s'" using assms(1) by (simp add: s'_def layout_ok_def)
  then have "dir_ok Root_dir s'"
    using assms(3,6,7) root_sector_ok by (auto simp: dir_ok_def ti i bu) (simp_all add: s'_def)
  moreover have "dir_map Root_dir s' nm = (if nm = [0x2e] then Some dot_e else if nm = [0x2e, 0x2e] then Some dots_e else None)"
    if "nm \<noteq> []" for nm
  proof -
    have D: "?D \<noteq> 0" using block_usedD(1) [OF assms(1,7)] .
    have "dir_map Root_dir s' nm = lookup (data s) (?D # replicate 11 0) nm"
      using dir_map_direct [of Root_dir s'] by (simp add: ti i take_Cons' dat)
    also have "\<dots> = (case find (\<lambda>k. name_at root_sector k = nm) [0..<21] of Some k \<Rightarrow> Some (entry_at root_sector k) | None \<Rightarrow> None)"
      using D lookup_zeros [of "data s" "[]" 11 nm] by (simp add: assms(6) split: option.split)
    finally show ?thesis using root_find [OF that] by simp
  qed
  ultimately show ?thesis using run by (intro exI [of _ s']) (simp add: s'_def)
qed

section \<open>Properties\<close>

text \<open>Property C30: a formatted partition can be mounted. The super block is the one that was written, the regions lie
  side by side in the partition, the first inode is the root directory, which has the entries \<^verbatim>\<open>.\<close> and
  \<^verbatim>\<open>..\<close> and no other, and the bitmaps mark the first inode, the first block and everything behind the bit
  numbered \<open>block_bitmap_bit_len\<close>.\<close>

theorem format_then_mount:
  assumes "formattable p padding" "ide_ready (my_disk p) s" "\<forall>n. heap s n \<noteq> 0"
  shows "\<exists>s1 s2 s3. partition_format p padding s = Some s1 \<and> mount_partition (part_name p) behind p s1 = Some (True, s2) \<and>
    open_root_dir s2 = Some s3 \<and> sb s2 = format_super_block p padding \<and> layout_ok s2 \<and> free_on_disk s2 \<and> dir_ok Root_dir s3 \<and>
    (\<forall>nm. nm \<noteq> [] \<longrightarrow> dir_map Root_dir s3 nm =
       (if nm = [0x2e] then Some dot_e else if nm = [0x2e, 0x2e] then Some dots_e else None)) \<and>
    (\<forall>n < nbits (block_bitmap s2). bit_at (block_bitmap s2) n \<longleftrightarrow> n = 0 \<or> unat (block_bitmap_bit_len (sec_cnt p)) < n) \<and>
    (\<forall>n < nbits (inode_bitmap s2). bit_at (inode_bitmap s2) n \<longleftrightarrow> n = 0)"
proof -
  let ?N = "block_bitmap_bit_len (sec_cnt p)" and ?b = "format_super_block p padding" and ?dk = "my_disk p"
  define k where "k = sectors_of_map p"
  note r = format_regions [OF assms(1), folded k_def]
  have N: "16 \<le> unat ?N" "unat ?N < 163840" using r(11-13) by simp_all
  obtain bb where bb: "format_block_bitmap ?N 311296 = Some bb" "length bb = 311296"
    "\<And>n. n < 4096 * k \<Longrightarrow> bit (bb ! (n div 8)) (n mod 8) \<longleftrightarrow> n = 0 \<or> unat ?N < n"
    by (rule format_bitmap_bits [OF N, of k]) (simp add: k_def sectors_of_map_def, rule that)
  obtain md where f: "partition_format p padding s = Some ((put_disk ?dk md s)\<lparr>heap_cnt := Suc (heap_cnt s)\<rparr>)"
    "formatted p ?b bb (disk_data ?dk s) md"
    using partition_format_ok [OF assms(1,2) _ bb(1,2)] assms(3) by blast
  define s1 where "s1 = (put_disk ?dk md s)\<lparr>heap_cnt := Suc (heap_cnt s)\<rparr>"
  have s1: "disk_data ?dk s1 = md" "ide_ready ?dk s1" "heap s1 = heap s"
    using assms(2) f(2) by (simp_all add: s1_def formatted_def)
  obtain s2 where m: "mount_partition (part_name p) behind p s1 = Some (True, s2)" "layout_ok s2" "part s2 = p" "sb s2 = ?b"
    "open_inodes s2 = []" "data s2 = md" "heap s2 = heap s"
    "\<forall>n < 4096 * k. bit_at (block_bitmap s2) n \<longleftrightarrow> bit (bb ! (n div 8)) (n mod 8)"
    "\<forall>n < 4096. bit_at (inode_bitmap s2) n \<longleftrightarrow> n = 0"
    using mount_formatted [OF assms(1), of ?b bb "disk_data ?dk s" s1 behind] f(2) s1 assms(3) bb(2) by (auto simp: k_def)
  have nb: "nbits (block_bitmap s2) = 4096 * k" "nbits (inode_bitmap s2) = 4096"
    using m(2,4) r(3) by (simp_all add: layout_ok_def)
  have bits: "\<forall>n < nbits (block_bitmap s2). bit_at (block_bitmap s2) n \<longleftrightarrow> n = 0 \<or> unat ?N < n"
    using m(8) bb(3) by (simp add: nb)
  have free: "free_on_disk s2"
    unfolding free_on_disk_def using bits r(8,11,12) by (auto simp: m(4))
  have used: "block_used s2 (data_start_lba (sb s2))"
    using bits r(8-12) by (simp add: block_used_def blk_idx_def m(4) nb)
  have tab: "inode_table s2 = inode_bytes (root_inode ?b) @ replicate (512 * 608 - 76) 0"
    using f(2) by (simp add: inode_table_def m(4,6) formatted_def)
  have slot: "slot s2 0 = inode_bytes (root_inode (sb s2))" by (simp add: slot_def tab m(4) root_inode_def)
  have sec: "data s2 (data_start_lba (sb s2)) = root_sector" using f(2) by (simp add: m(4,6) formatted_def root_sector_def)
  have "root_inode_no (sb s2) = 0" "dir_entry_size (sb s2) = 24" by (simp_all add: m(4) format_super_block_def Let_def)
  then obtain s3 where "open_root_dir s2 = Some s3" "dir_ok Root_dir s3"
    "\<forall>nm. nm \<noteq> [] \<longrightarrow> dir_map Root_dir s3 nm = (if nm = [0x2e] then Some dot_e else if nm = [0x2e, 0x2e] then Some dots_e else None)"
    using open_new_root [OF m(2) _ _ m(5) slot sec used] assms(3) m(7) by auto
  then show ?thesis using f(1) m(1,2,4,9) bits free nb(2) by (intro exI [of _ s1] exI [of _ s2] exI [of _ s3]) (simp add: s1_def)
qed

definition part0 :: partition where
  "part0 = \<lparr>start_lba = 2048, sec_cnt = 20000, my_disk = hd0, part_name = [0x73, 0x64, 0x62, 0x31]\<rparr>"

lemma part0_ok: "formattable part0 (replicate 460 0)"
  by (simp add: formattable_def part0_def)

theorem format_then_mount_witness:
  "\<exists>s1 s2. partition_format part0 (replicate 460 0) (fs0\<lparr>heap := \<lambda>_. 0xc0200400\<rparr>) = Some s1 \<and>
     mount_partition (part_name part0) (\<lambda>_. 0) part0 s1 = Some (True, s2) \<and> layout_ok s2"
proof -
  have "ide_ready hd0 fs0" using layout_fs0 by (simp add: layout_ok_def fs_ready_def the_disk_def) (simp add: fs0_def)
  then have "ide_ready (my_disk part0) (fs0\<lparr>heap := \<lambda>_. 0xc0200400\<rparr>)"
    by (simp add: part0_def ide_ready_def get_channel_def disk_data_def)
  then show ?thesis using format_then_mount [OF part0_ok, of "fs0\<lparr>heap := \<lambda>_. 0xc0200400\<rparr>" "\<lambda>_. 0"] by auto
qed

text \<open>Property C31: the bit numbered \<open>block_bitmap_bit_len\<close> is cleared with the others, so the bitmap offers one block
  too many: the sector that follows the partition on the disk.\<close>

theorem format_offers_sector_behind:
  assumes "formattable p padding" "N = block_bitmap_bit_len (sec_cnt p)" "unat N mod 4096 \<noteq> 0"
    "sectors_of_map p = (unat (sec_cnt p) - 611 + 4095) div 4096"
  shows "\<exists>bb. format_block_bitmap N 311296 = Some bb \<and> \<not> bit (bb ! (unat N div 8)) (unat N mod 8) \<and>
    data_start_lba (format_super_block p padding) + N = start_lba p + sec_cnt p"
proof -
  note r = format_regions [OF assms(1)]
  have N: "16 \<le> unat N" "unat N < 163840" using r(11-13) assms(2) by simp_all
  obtain bb where bb: "format_block_bitmap N 311296 = Some bb"
    "\<And>n. n < 4096 * sectors_of_map p \<Longrightarrow> bit (bb ! (n div 8)) (n mod 8) \<longleftrightarrow> n = 0 \<or> unat N < n"
    by (rule format_bitmap_bits [OF N, of "sectors_of_map p"]) (simp add: sectors_of_map_def assms(2), rule that)
  have "unat N < 4096 * sectors_of_map p"
  proof -
    have M: "4096 * (unat N div 4096) + unat N mod 4096 = unat N" "unat N mod 4096 < 4096" by simp_all
    have "Suc q * 4096 \<le> n + 4095" if "4096 * q + t = n" "t \<noteq> 0" for n q t :: nat using that by simp
    from this [OF M(1) assms(3)] have "Suc (unat N div 4096) * 4096 \<le> unat N + 4095" .
    then have "Suc (unat N div 4096) \<le> (unat N + 4095) div 4096" by (simp add: less_eq_div_iff_mult_less_eq)
    then have "4096 * Suc (unat N div 4096) \<le> 4096 * ((unat N + 4095) div 4096)" by (rule mult_le_mono2)
    then show ?thesis using M unfolding sectors_of_map_def assms(2) [symmetric] by simp
  qed
  then have free: "\<not> bit (bb ! (unat N div 8)) (unat N mod 8)" using bb(2) [of "unat N"] N(1) by simp
  have eq: "unat N = unat (sec_cnt p) - 611 - sectors_of_map p"
    using format_sizes(1) [OF assms(1)] assms(2,4) by simp
  have "unat (data_start_lba (format_super_block p padding)) + unat N = unat (start_lba p) + unat (sec_cnt p)"
    using r(8,11,13) eq assms(2) by simp
  then have "data_start_lba (format_super_block p padding) + N = start_lba p + sec_cnt p"
    by (metis word_arith_nat_add)
  then show ?thesis using bb(1) free by blast
qed

theorem format_offers_sector_behind_witness:
  "\<exists>bb. format_block_bitmap 19384 311296 = Some bb \<and> \<not> bit (bb ! 2423) 0 \<and>
     data_start_lba (format_super_block part0 (replicate 460 0)) + 19384 = 22048"
proof -
  have N: "block_bitmap_bit_len (sec_cnt part0) = 19384"
    unfolding block_bitmap_bit_len_def format_consts Let_def by (simp add: part0_def DIV_ROUND_UP_def BITS_PER_SECTOR_def)
  then have "sectors_of_map part0 = (unat (sec_cnt part0) - 611 + 4095) div 4096"
    by (simp add: sectors_of_map_def part0_def)
  then show ?thesis using format_offers_sector_behind [OF part0_ok, of 19384] N by (simp add: part0_def)
qed

end
