(* ===== verification/Kpath.thy ===== *)
theory Kpath
  imports Kernel_Prelude
begin

text \<open>
  Paths (\<^verbatim>\<open>path_parse\<close> and \<^verbatim>\<open>path_depth_cnt\<close> of \<^verbatim>\<open>src/fs/fs.c\<close>). A string is the list of its bytes without
  the NUL byte that ends it. A name is parsed into an array of \<^verbatim>\<open>MAX_FILE_NAME_LEN\<close> (16) bytes: a longer
  name leaves the array and has no result.

  The theory shows that the functions agree with splitting the path at its slashes.
\<close>

section \<open>The functions\<close>

abbreviation (input) slash :: u8 where "slash \<equiv> 0x2f"

text \<open>The result is the name stored, and the rest of the path or NULL.\<close>

definition path_parse :: "u8 list \<Rightarrow> u8 list \<times> u8 list option" where
  "path_parse pathname =
     (let pathname = (case pathname of c # cs \<Rightarrow> if c = slash then dropWhile (\<lambda>c. c = slash) cs else pathname | [] \<Rightarrow> []);
          name = takeWhile (\<lambda>c. c \<noteq> slash) pathname;
          pathname = dropWhile (\<lambda>c. c \<noteq> slash) pathname
      in (name, if pathname = [] then None else Some pathname))"

lemma path_parse_shorter:
  assumes "(nm, Some r) = path_parse q"
  shows "length r < length q"
proof (cases q)
  case (Cons c cs)
  have l1: "length (dropWhile P (dropWhile P' cs)) \<le> length cs" for P P'
    using length_dropWhile_le [of P "dropWhile P' cs"] length_dropWhile_le [of P' cs] by linarith
  have l2: "length (dropWhile P cs) \<le> length cs" for P by (rule length_dropWhile_le)
  have r: "r = dropWhile (\<lambda>c. c \<noteq> slash) (case q of c # cs \<Rightarrow> if c = slash then dropWhile (\<lambda>c. c = slash) cs else q | [] \<Rightarrow> [])"
    (is "r = ?x")
  proof -
    have "snd (path_parse q) = (if ?x = [] then None else Some ?x)" unfolding path_parse_def Let_def snd_conv by (rule refl)
    then have "Some r = (if ?x = [] then None else Some ?x)" unfolding assms [symmetric] by (simp only: snd_conv)
    then show ?thesis by (simp split: if_split_asm del: dropWhile_eq_Nil_conv)
  qed
  have "r = dropWhile (\<lambda>c. c \<noteq> slash) (dropWhile (\<lambda>c. c = slash) cs) \<or> r = dropWhile (\<lambda>c. c \<noteq> slash) cs"
    unfolding r Cons by (cases "c = slash") simp_all
  then show ?thesis using Cons l1 [of "\<lambda>c. c \<noteq> slash" "\<lambda>c. c = slash"] l2 [of "\<lambda>c. c \<noteq> slash"] by auto
qed (use assms in \<open>simp add: path_parse_def\<close>)

text \<open>The loop of \<^verbatim>\<open>path_depth_cnt\<close>, entered with the name that was parsed last. Without a rest of the path
  the cleared name ends it.\<close>

function depth_loop :: "u8 list \<Rightarrow> u8 list option \<Rightarrow> u32 \<Rightarrow> u32 option" where
  "depth_loop name p depth =
     (if name = [] then Some depth
      else case p of
             None \<Rightarrow> Some (depth + 1)
           | Some q \<Rightarrow> (case path_parse q of (name, p) \<Rightarrow>
               if length name > 16 then None else depth_loop name p (depth + 1)))"
  by pat_completeness auto
termination
  by (relation "measure (\<lambda>(name, p, depth). case p of None \<Rightarrow> 0 | Some q \<Rightarrow> Suc (length q))")
    (auto split: option.splits dest: path_parse_shorter)

text \<open>The array is not initialised: when the path has no component, its first byte is indeterminate.\<close>

definition path_depth_cnt :: "u8 list \<Rightarrow> u32 option" where
  "path_depth_cnt pathname =
     (case path_parse pathname of (name, p) \<Rightarrow>
        if name = [] \<or> length name > 16 then None else depth_loop name p 0)"

declare depth_loop.simps [simp del]

section \<open>Components of a path\<close>

text \<open>The reference: the maximal runs of bytes other than the slash.\<close>

fun split_path :: "u8 list \<Rightarrow> u8 list \<Rightarrow> u8 list list" where
  "split_path acc [] = (if acc = [] then [] else [acc])"
| "split_path acc (c # cs) =
     (if c = slash then (if acc = [] then [] else [acc]) @ split_path [] cs else split_path (acc @ [c]) cs)"

definition components :: "u8 list \<Rightarrow> u8 list list" where
  "components path = split_path [] path"

lemma split_path_run:
  "slash \<notin> set xs \<Longrightarrow> split_path acc (xs @ ys) = split_path (acc @ xs) ys"
  by (induction xs arbitrary: acc) auto

lemma split_path_slashes: "split_path [] (dropWhile (\<lambda>c. c = slash) cs) = split_path [] cs"
  by (induction cs) auto

lemma components_name:
  assumes "xs = [] \<or> hd xs \<noteq> slash"
  shows "components xs = (if xs = [] then [] else
    takeWhile (\<lambda>c. c \<noteq> slash) xs # components (dropWhile (\<lambda>c. c \<noteq> slash) xs))"
proof (cases xs)
  case (Cons c cs)
  let ?n = "takeWhile (\<lambda>c. c \<noteq> slash) xs" and ?r = "dropWhile (\<lambda>c. c \<noteq> slash) xs"
  have n: "slash \<notin> set ?n" "?n \<noteq> []" using assms Cons by (auto dest: set_takeWhileD)
  have "components xs = split_path ?n ?r"
    using split_path_run [OF n(1), of "[]" ?r] by (simp add: components_def)
  moreover have "split_path ?n ?r = ?n # split_path [] ?r"
  proof (cases ?r)
    case Nil
    show ?thesis unfolding Nil using n(2) by simp
  next
    case (Cons d ds)
    then have "d = slash" using hd_dropWhile [of "\<lambda>c. c \<noteq> slash" xs] by simp
    then show ?thesis using Cons n(2) by simp
  qed
  ultimately show ?thesis using Cons by (simp add: components_def)
qed (simp add: components_def)

text \<open>\<^verbatim>\<open>path_parse\<close> takes the first component, and the rest has the others.\<close>

lemma path_parse_components:
  "(case path_parse path of (name, p) \<Rightarrow>
     components path = (if name = [] then [] else name # (case p of None \<Rightarrow> [] | Some q \<Rightarrow> components q)))"
proof -
  define xs where "xs = (case path of c # cs \<Rightarrow> if c = slash then dropWhile (\<lambda>c. c = slash) cs else path | [] \<Rightarrow> [])"
  have "components path = components xs"
    unfolding xs_def components_def by (cases path) (auto simp: split_path_slashes)
  moreover have "xs = [] \<or> hd xs \<noteq> slash"
    unfolding xs_def using hd_dropWhile [of "\<lambda>c. c = slash" "tl path"] by (cases path) auto
  ultimately have c: "components path = (if xs = [] then [] else
      takeWhile (\<lambda>c. c \<noteq> slash) xs # components (dropWhile (\<lambda>c. c \<noteq> slash) xs))"
    using components_name by simp
  have p: "path_parse path = (takeWhile (\<lambda>c. c \<noteq> slash) xs,
      if dropWhile (\<lambda>c. c \<noteq> slash) xs = [] then None else Some (dropWhile (\<lambda>c. c \<noteq> slash) xs))"
    unfolding path_parse_def xs_def Let_def by simp
  show ?thesis
  proof (cases xs)
    case Nil
    then show ?thesis by (simp add: c p)
  next
    case (Cons d ds)
    then have "d \<noteq> slash" using \<open>xs = [] \<or> hd xs \<noteq> slash\<close> by simp
    moreover have "components [] = []" by (simp add: components_def)
    ultimately show ?thesis using Cons c by (auto simp: p simp del: dropWhile_eq_Nil_conv)
  qed
qed

lemma path_parse_cases:
  obtains name p where "path_parse path = (name, p)"
    "components path = (if name = [] then [] else name # (case p of None \<Rightarrow> [] | Some q \<Rightarrow> components q))"
  using path_parse_components [of path] by (cases "path_parse path") auto

lemma depth_loop_counts:
  assumes "name \<noteq> []" "\<forall>c \<in> set (case p of None \<Rightarrow> [] | Some q \<Rightarrow> components q). length c \<le> 16"
  shows "depth_loop name p depth = Some (depth + 1 + of_nat (length (case p of None \<Rightarrow> [] | Some q \<Rightarrow> components q)))"
  using assms
proof (induction name p depth rule: depth_loop.induct)
  case (1 name p depth)
  show ?case
  proof (cases p)
    case None
    then show ?thesis using 1 by (simp add: depth_loop.simps)
  next
    case (Some q)
    obtain name' p' where q: "path_parse q = (name', p')"
      "components q = (if name' = [] then [] else name' # (case p' of None \<Rightarrow> [] | Some q \<Rightarrow> components q))"
      by (rule path_parse_cases)
    show ?thesis
    proof (cases "name' = []")
      case True
      then show ?thesis using Some q 1 by (simp add: depth_loop.simps)
    next
      case False
      then have "length name' \<le> 16" "\<forall>c \<in> set (case p' of None \<Rightarrow> [] | Some q \<Rightarrow> components q). length c \<le> 16"
        using 1(3) Some q(2) by auto
      then have "depth_loop name' p' (depth + 1) =
          Some (depth + 1 + 1 + of_nat (length (case p' of None \<Rightarrow> [] | Some q \<Rightarrow> components q)))"
        using 1(1) [OF 1(2) Some q(1) [symmetric]] False by simp
      then show ?thesis using Some q False 1(2) \<open>length name' \<le> 16\<close> by (subst depth_loop.simps) simp
    qed
  qed
qed

section \<open>Properties\<close>

text \<open>Property C29: \<^verbatim>\<open>path_depth_cnt\<close> returns the number of components of a path, the maximal runs of bytes other
  than the slash, for every path with a component whose names fit the array: repeated and trailing
  slashes do not count.\<close>

theorem path_depth_counts_components:
  assumes "components path \<noteq> []" "\<forall>c \<in> set (components path). length c \<le> 16"
  shows "path_depth_cnt path = Some (of_nat (length (components path)))"
proof -
  obtain name p where q: "path_parse path = (name, p)"
    "components path = (if name = [] then [] else name # (case p of None \<Rightarrow> [] | Some q \<Rightarrow> components q))"
    by (rule path_parse_cases)
  with assms have "name \<noteq> []" "length name \<le> 16" "\<forall>c \<in> set (case p of None \<Rightarrow> [] | Some q \<Rightarrow> components q). length c \<le> 16"
    by (auto split: if_splits)
  then show ?thesis using q depth_loop_counts [of name p 0] by (simp add: path_depth_cnt_def)
qed

theorem path_depth_counts_components_witness:
  "path_depth_cnt [0x2f, 0x2f, 0x61, 0x2f, 0x62, 0x63, 0x2f, 0x2f] = Some 2"
  using path_depth_counts_components [of "[0x2f, 0x2f, 0x61, 0x2f, 0x62, 0x63, 0x2f, 0x2f]"]
  by (simp add: components_def)

end
