(* ===== verification/Ksysfs.thy ===== *)
theory Ksysfs
  imports Kformat Kpath
begin

text \<open>
  The system calls on files and directories (\<^verbatim>\<open>src/fs/fs.c\<close>) and pipes without their data
  (\<^verbatim>\<open>fd_local2global\<close>, \<^verbatim>\<open>is_pipe\<close>, \<^verbatim>\<open>sys_dup2\<close> of \<^verbatim>\<open>src/shell/pipe.c\<close>). A string is the list of its bytes
  without the NUL byte, a result of \<open>-1\<close> reports an error as in the source, and reading an uninitialised
  variable, leaving an array or a failed assertion has no result. Messages are left out.

  The theory shows that the loops over the names of a path end, that \<^verbatim>\<open>sys_getcwd\<close> puts the names it collects
  into the order of a path, and that \<^verbatim>\<open>sys_lseek\<close> keeps the position inside the file.
\<close>

section \<open>Resolving a path\<close>

definition MAX_PATH_LEN :: nat where "MAX_PATH_LEN = 512"

record path_search_record =
  searched_path :: "u8 list"
  parent_dir :: dir_ptr
  file_type :: u32

definition is_root_path :: "u8 list \<Rightarrow> bool" where
  "is_root_path path \<longleftrightarrow> path = [0x2f] \<or> path = [0x2f, 0x2e] \<or> path = [0x2f, 0x2e, 0x2e]"

text \<open>The next name, parsed into the cleared array of 16 bytes. The loop that reads it as a string needs
  room for the NUL byte.\<close>

definition next_name :: "u8 list option \<Rightarrow> (u8 list \<times> u8 list option) option" where
  "next_name sub_path =
     (case sub_path of None \<Rightarrow> Some ([], None)
      | Some q \<Rightarrow> do { let (name, p) = path_parse q; ASSERT (length name \<le> MAX_FILE_NAME_LEN); Some (name, p) })"

text \<open>How the loop ends: a regular file, a missing entry, or the last directory with the number of its
  inode and of its parent's.\<close>

datatype search_end = Found_file u32 | Not_found | Found_dir "u32 option" u32

text \<open>The loop of \<^verbatim>\<open>search_file\<close>, entered with the name parsed last. \<open>ino\<close> is the inode number of \<^verbatim>\<open>dir_e\<close>
  once it was filled. A name that matches an entry of another type is passed over.\<close>

function search_loop :: "u8 list \<Rightarrow> u8 list option \<Rightarrow> u32 \<Rightarrow> u32 option \<Rightarrow> path_search_record \<Rightarrow> 'a fsys_scheme \<Rightarrow>
    (search_end \<times> path_search_record \<times> 'a fsys_scheme) option" where
  "search_loop name sub_path parent_inode_no ino r s =
     (if name = [] then Some (Found_dir ino parent_inode_no, r, s)
      else if length name = MAX_FILE_NAME_LEN \<or> length (searched_path r) + 1 + length name \<ge> MAX_PATH_LEN then None
      else let r = r\<lparr>searched_path := searched_path r @ [0x2f] @ name\<rparr>
           in case search_dir_entry (parent_dir r) name s of
                None \<Rightarrow> None
              | Some (None, s) \<Rightarrow> Some (Not_found, r, s)
              | Some (Some dir_e, s) \<Rightarrow>
                  (case next_name sub_path of
                     None \<Rightarrow> None
                   | Some (name, sub_path) \<Rightarrow>
                       if f_type dir_e = FT_DIRECTORY
                       then let parent_inode_no = i_no (the_dir_inode (parent_dir r) s)
                            in case dir_close (parent_dir r) s of
                                 None \<Rightarrow> None
                               | Some s \<Rightarrow>
                                   (case dir_open (de_i_no dir_e) s of
                                      None \<Rightarrow> None
                                    | Some (d, s) \<Rightarrow>
                                        search_loop name sub_path parent_inode_no (Some (de_i_no dir_e)) (r\<lparr>parent_dir := d\<rparr>) s)
                       else if f_type dir_e = FT_REGULAR
                       then Some (Found_file (de_i_no dir_e), r\<lparr>file_type := FT_REGULAR\<rparr>, s)
                       else search_loop name sub_path parent_inode_no (Some (de_i_no dir_e)) r s))"
  by pat_completeness auto

lemma next_name_shorter: "next_name (Some q) = Some (name, Some q') \<Longrightarrow> length q' < length q"
  by (auto simp: next_name_def ASSERT_def split: prod.splits if_splits dest: path_parse_shorter [OF sym])

definition search_measure :: "u8 list \<Rightarrow> u8 list option \<Rightarrow> nat" where
  "search_measure name sub_path = (case sub_path of None \<Rightarrow> 0 | Some q \<Rightarrow> Suc (length q)) + (if name = [] then 0 else 1)"

lemma next_name_measure:
  assumes "name \<noteq> []" "next_name sub_path = Some (name', sub_path')"
  shows "search_measure name' sub_path' < search_measure name sub_path"
proof (cases sub_path)
  case None
  then show ?thesis using assms by (simp add: search_measure_def next_name_def)
next
  case (Some q)
  then show ?thesis using assms next_name_shorter [of q name']
    by (cases sub_path') (auto simp: search_measure_def)
qed

termination search_loop
  by (relation "measure (\<lambda>(name, sub_path, n, ino, r, s). search_measure name sub_path)")
    (auto dest: next_name_measure)

text \<open>The return value is the inode number or \<open>-1\<close>. The record comes from the caller's cleared structure.\<close>

definition search_file :: "u8 list \<Rightarrow> 'a fsys_scheme \<Rightarrow> (u32 \<times> path_search_record \<times> 'a fsys_scheme) option" where
  "search_file pathname s =
     (if is_root_path pathname
      then Some (0, \<lparr>searched_path = [], parent_dir = Root_dir, file_type = FT_DIRECTORY\<rparr>, s)
      else do {
        ASSERT (pathname \<noteq> [] \<and> hd pathname = 0x2f \<and> length pathname > 1 \<and> length pathname < MAX_PATH_LEN);
        (name, sub_path) \<leftarrow> next_name (Some pathname);
        (e, r, s) \<leftarrow> search_loop name sub_path 0 None \<lparr>searched_path = [], parent_dir = Root_dir, file_type = FT_UNKNOWN\<rparr> s;
        case e of
          Found_file n \<Rightarrow> Some (n, r, s)
        | Not_found \<Rightarrow> Some (-1, r, s)
        | Found_dir ino parent_inode_no \<Rightarrow> do {
            s \<leftarrow> dir_close (parent_dir r) s;
            (d, s) \<leftarrow> dir_open parent_inode_no s;
            n \<leftarrow> ino;
            Some (n, r\<lparr>parent_dir := d, file_type := FT_DIRECTORY\<rparr>, s) } })"

declare search_loop.simps [simp del]

section \<open>Opening and closing files\<close>

definition last_name :: "u8 list \<Rightarrow> u8 list" where
  "last_name path = rev (takeWhile (\<lambda>c. c \<noteq> 0x2f) (rev path))"

text \<open>\<^verbatim>\<open>strrchr(path, '/') + 1\<close>; without a slash it is one behind a null pointer.\<close>

definition after_slash :: "u8 list \<Rightarrow> u8 list option" where
  "after_slash path = (if 0x2f \<in> set path then Some (last_name path) else None)"

definition sys_open :: "u8 list \<Rightarrow> u8 \<Rightarrow> 'a fsys_scheme \<Rightarrow> (u32 \<times> 'a fsys_scheme) option" where
  "sys_open pathname flags s =
     (if pathname = [] then None
      else if last pathname = 0x2f then Some (0, s)
      else do {
        ASSERT (flags \<le> 7);
        pathname_depth \<leftarrow> path_depth_cnt pathname;
        (inode_no, r, s) \<leftarrow> search_file pathname s;
        let found = (inode_no \<noteq> -1);
        if file_type r = FT_DIRECTORY
        then do { s \<leftarrow> dir_close (parent_dir r) s; Some (-1, s) }
        else do {
          path_searched_depth \<leftarrow> path_depth_cnt (searched_path r);
          if pathname_depth \<noteq> path_searched_depth
          then do { s \<leftarrow> dir_close (parent_dir r) s; Some (-1, s) }
          else if \<not> found \<and> flags AND O_CREAT = 0
          then do { s \<leftarrow> dir_close (parent_dir r) s; Some (-1, s) }
          else if found \<and> flags AND O_CREAT \<noteq> 0
          then do { s \<leftarrow> dir_close (parent_dir r) s; Some (-1, s) }
          else if flags AND O_CREAT = O_CREAT
          then do { nm \<leftarrow> after_slash pathname;
                    (fd, s) \<leftarrow> file_create (parent_dir r) nm flags s;
                    s \<leftarrow> dir_close (parent_dir r) s;
                    Some (fd, s) }
          else file_open inode_no flags s } })"

definition fd_local2global :: "u32 \<Rightarrow> 'a fsys_scheme \<Rightarrow> u32 option" where
  "fd_local2global local_fd s =
     do { global_fd \<leftarrow> aget (fd_table s) local_fd;
          ASSERT (sint global_fd \<ge> 0 \<and> sint global_fd < int MAX_FILE_OPEN);
          Some global_fd }"

definition PIPE_FLAG :: u32 where "PIPE_FLAG = 0xffff"

definition is_pipe :: "u32 \<Rightarrow> 'a fsys_scheme \<Rightarrow> bool option" where
  "is_pipe local_fd s =
     do { global_fd \<leftarrow> fd_local2global local_fd s; Some (fd_flag (get_file global_fd s) = PIPE_FLAG) }"

text \<open>The last close of a pipe also returns the page of its buffer.\<close>

definition sys_close :: "u32 \<Rightarrow> 'a fsys_scheme \<Rightarrow> (u32 \<times> 'a fsys_scheme) option" where
  "sys_close fd s =
     (if sint fd > 2
      then do {
        global_fd \<leftarrow> fd_local2global fd s;
        pipe \<leftarrow> is_pipe fd s;
        (ret, s) \<leftarrow>
          (if pipe
           then do { let f = (get_file global_fd s)\<lparr>fd_pos := fd_pos (get_file global_fd s) - 1\<rparr>;
                     let f = (if fd_pos f = 0 then f\<lparr>fd_inode := 0\<rparr> else f);
                     Some (0, put_file global_fd f s) }
           else file_close global_fd s);
        t \<leftarrow> aset (fd_table s) fd (-1);
        Some (ret, s\<lparr>fd_table := t\<rparr>) }
      else Some (-1, s))"

definition sys_lseek :: "u32 \<Rightarrow> u32 \<Rightarrow> u8 \<Rightarrow> 'a fsys_scheme \<Rightarrow> (u32 \<times> 'a fsys_scheme) option" where
  "sys_lseek fd offset whence s =
     (if sint fd < 0 then Some (-1, s)
      else do {
        ASSERT (whence > 0 \<and> whence < 4);
        global_fd \<leftarrow> fd_local2global fd s;
        let pf = get_file global_fd s;
        let file_size = i_size (inodes s (fd_inode pf));
        let new_pos = (if whence = 1 then offset else if whence = 2 then fd_pos pf + offset else file_size + offset);
        if sint new_pos < 0 \<or> sint new_pos > sint (file_size - 1) then Some (-1, s)
        else Some (new_pos, put_file global_fd (pf\<lparr>fd_pos := new_pos\<rparr>) s) })"

definition sys_dup2 :: "u32 \<Rightarrow> u32 \<Rightarrow> 'a fsys_scheme \<Rightarrow> 'a fsys_scheme option" where
  "sys_dup2 fd1 fd2 s =
     (if fd1 < 3 then do { t \<leftarrow> aset (fd_table s) fd2 fd1; Some (s\<lparr>fd_table := t\<rparr>) }
      else do { g \<leftarrow> aget (fd_table s) fd1; t \<leftarrow> aset (fd_table s) fd2 g; Some (s\<lparr>fd_table := t\<rparr>) })"

section \<open>Removing files\<close>

text \<open>Whether a slot of the file table refers to the inode.\<close>

definition file_in_use :: "u32 \<Rightarrow> 'a fsys_scheme \<Rightarrow> bool" where
  "file_in_use inode_no s \<longleftrightarrow>
     list_ex (\<lambda>k. fd_inode (file_table s ! k) \<noteq> 0 \<and> inode_no = i_no (inodes s (fd_inode (file_table s ! k)))) [0..<MAX_FILE_OPEN]"

definition sys_unlink :: "u8 list \<Rightarrow> 'a fsys_scheme \<Rightarrow> (u32 \<times> 'a fsys_scheme) option" where
  "sys_unlink pathname s =
     do { ASSERT (length pathname < MAX_PATH_LEN);
          (inode_no, r, s) \<leftarrow> search_file pathname s;
          ASSERT (inode_no \<noteq> 0);
          if inode_no = -1 then do { s \<leftarrow> dir_close (parent_dir r) s; Some (-1, s) }
          else if file_type r = FT_DIRECTORY then do { s \<leftarrow> dir_close (parent_dir r) s; Some (-1, s) }
          else if file_in_use inode_no s then do { s \<leftarrow> dir_close (parent_dir r) s; Some (-1, s) }
          else do {
            let (io_buf, s) = heap_alloc s;
            if io_buf = 0 then do { s \<leftarrow> dir_close (parent_dir r) s; Some (-1, s) }
            else do {
              (_, s) \<leftarrow> delete_dir_entry (parent_dir r) inode_no s;
              s \<leftarrow> inode_release inode_no s;
              s \<leftarrow> dir_close (parent_dir r) s;
              Some (0, s) } } }"

section \<open>Directories\<close>

definition new_dir_sector :: "u32 \<Rightarrow> u32 \<Rightarrow> u8 list" where
  "new_dir_sector inode_no parent_no =
     dir_entry_bytes \<lparr>filename = [0x2e] @ replicate 15 0, de_i_no = inode_no, f_type = FT_DIRECTORY\<rparr> @
     dir_entry_bytes \<lparr>filename = [0x2e, 0x2e] @ replicate 14 0, de_i_no = parent_no, f_type = FT_DIRECTORY\<rparr> @
     replicate 464 0"

text \<open>The rollback of \<^verbatim>\<open>sys_mkdir\<close>: step 2 returns the inode number, both steps close the parent. A block
  taken before stays taken.\<close>

definition mkdir_rollback :: "nat \<Rightarrow> u32 \<Rightarrow> dir_ptr \<Rightarrow> 'a fsys_scheme \<Rightarrow> (u32 \<times> 'a fsys_scheme) option" where
  "mkdir_rollback step inode_no d s =
     do { s \<leftarrow> (if step = 2
               then do { b \<leftarrow> bitmap_set (inode_bitmap s) inode_no 0; Some (s\<lparr>inode_bitmap := b\<rparr>) }
               else Some s);
          s \<leftarrow> dir_close d s;
          Some (-1, s) }"

definition sys_mkdir :: "u8 list \<Rightarrow> 'a fsys_scheme \<Rightarrow> (u32 \<times> 'a fsys_scheme) option" where
  "sys_mkdir pathname s =
     do { let (io_buf, s) = heap_alloc s;
          if io_buf = 0 then Some (-1, s) else do {
          (inode_no, r, s) \<leftarrow> search_file pathname s;
          if inode_no \<noteq> -1 then mkdir_rollback 1 inode_no (parent_dir r) s else do {
          pathname_depth \<leftarrow> path_depth_cnt pathname;
          path_searched_depth \<leftarrow> path_depth_cnt (searched_path r);
          if pathname_depth \<noteq> path_searched_depth then mkdir_rollback 1 inode_no (parent_dir r) s else do {
          let d = parent_dir r;
          dirname \<leftarrow> after_slash (searched_path r);
          (inode_no, s) \<leftarrow> inode_bitmap_alloc s;
          if inode_no = -1 then mkdir_rollback 1 inode_no d s else do {
          (block_lba, s) \<leftarrow> block_bitmap_alloc s;
          if block_lba = -1 then mkdir_rollback 2 inode_no d s else do {
          let block_bitmap_idx = block_lba - data_start_lba (sb s);
          ASSERT (block_bitmap_idx \<noteq> 0);
          s \<leftarrow> bitmap_sync block_bitmap_idx BLOCK_BITMAP s;
          s \<leftarrow> disk_write block_lba (new_dir_sector inode_no (i_no (the_dir_inode d s))) 1 s;
          let new_dir_inode = (inode_init inode_no)
            \<lparr>i_sectors := (i_sectors (inode_init inode_no))[0 := block_lba], i_size := 2 * dir_entry_size (sb s)\<rparr>;
          new_dir_entry \<leftarrow> create_dir_entry dirname inode_no FT_DIRECTORY zero_entry;
          (synced, s) \<leftarrow> sync_dir_entry d new_dir_entry s;
          if \<not> synced then mkdir_rollback 2 inode_no d s else do {
          s \<leftarrow> inode_sync 1024 (the_dir_inode d s) s;
          s \<leftarrow> inode_sync 1024 new_dir_inode s;
          s \<leftarrow> bitmap_sync inode_no INODE_BITMAP s;
          s \<leftarrow> dir_close d s;
          Some (0, s) }}}}}}}"

text \<open>\<^verbatim>\<open>pathname[0] == '/' && (pathname[1] == 0 || pathname[0] == '.')\<close>: the last test never holds.\<close>

definition sys_opendir :: "u8 list \<Rightarrow> 'a fsys_scheme \<Rightarrow> (dir_ptr option \<times> 'a fsys_scheme) option" where
  "sys_opendir pathname s =
     do { ASSERT (length pathname < MAX_PATH_LEN);
          if pathname = [0x2f] then Some (Some Root_dir, s)
          else do {
            (inode_no, r, s) \<leftarrow> search_file pathname s;
            (ret, s) \<leftarrow>
              (if inode_no = -1 then Some (None, s)
               else if file_type r = FT_REGULAR then Some (None, s)
               else if file_type r = FT_DIRECTORY
               then do { (d, s) \<leftarrow> dir_open inode_no s; Some (Some d, s) }
               else Some (None, s));
            s \<leftarrow> dir_close (parent_dir r) s;
            Some (ret, s) } }"

definition sys_closedir :: "dir_ptr option \<Rightarrow> 'a fsys_scheme \<Rightarrow> (u32 \<times> 'a fsys_scheme) option" where
  "sys_closedir d s =
     (case d of None \<Rightarrow> Some (-1, s) | Some d \<Rightarrow> do { s \<leftarrow> dir_close d s; Some (0, s) })"

definition sys_readdir :: "dir_ptr option \<Rightarrow> 'a fsys_scheme \<Rightarrow> (dir_entry option \<times> 'a fsys_scheme) option" where
  "sys_readdir d s = (case d of None \<Rightarrow> None | Some d \<Rightarrow> dir_read d s)"

definition sys_rewinddir :: "dir_ptr \<Rightarrow> 'a fsys_scheme \<Rightarrow> 'a fsys_scheme" where
  "sys_rewinddir d s = put_dir d ((get_dir d s)\<lparr>dir_pos := 0\<rparr>) s"

definition sys_rmdir :: "u8 list \<Rightarrow> 'a fsys_scheme \<Rightarrow> (u32 \<times> 'a fsys_scheme) option" where
  "sys_rmdir pathname s =
     do { (inode_no, r, s) \<leftarrow> search_file pathname s;
          ASSERT (inode_no \<noteq> 0);
          (retval, s) \<leftarrow>
            (if inode_no = -1 then Some (-1, s)
             else if file_type r = FT_REGULAR then Some (-1, s)
             else do {
               (d, s) \<leftarrow> dir_open inode_no s;
               (retval, s) \<leftarrow>
                 (if \<not> dir_is_empty d s then Some (-1, s)
                  else do { (x, s) \<leftarrow> dir_remove (parent_dir r) d s; Some (if x = 0 then 0 else -1, s) });
               s \<leftarrow> dir_close d s;
               Some (retval, s) });
          s \<leftarrow> dir_close (parent_dir r) s;
          Some (retval, s) }"

section \<open>The working directory\<close>

definition get_parent_dir_inode_nr :: "u32 \<Rightarrow> 'a fsys_scheme \<Rightarrow> (u32 \<times> 'a fsys_scheme) option" where
  "get_parent_dir_inode_nr child_inode_nr s =
     do { (p, s) \<leftarrow> inode_open child_inode_nr s;
          let block_lba = i_sectors (inodes s p) ! 0;
          ASSERT (block_lba \<ge> data_start_lba (sb s));
          s \<leftarrow> inode_close p s;
          (buf, s) \<leftarrow> disk_read block_lba 1 s;
          ASSERT (de_i_no (entry_at buf 1) < 4096 \<and> f_type (entry_at buf 1) = FT_DIRECTORY);
          Some (de_i_no (entry_at buf 1), s) }"

text \<open>The name of the entry with the inode number, in the first block that has one.\<close>

fun child_in_blocks :: "u32 \<Rightarrow> u32 list \<Rightarrow> 'a fsys_scheme \<Rightarrow> (u8 list option \<times> 'a fsys_scheme) option" where
  "child_in_blocks c_inode_nr [] s = Some (None, s)"
| "child_in_blocks c_inode_nr (b # bs) s =
     (if b = 0 then child_in_blocks c_inode_nr bs s
      else do { (buf, s) \<leftarrow> disk_read b 1 s;
                case find (\<lambda>k. de_i_no (entry_at buf k) = c_inode_nr) [0..<entries_per_sec s] of
                  Some k \<Rightarrow> Some (Some (name_at buf k), s)
                | None \<Rightarrow> child_in_blocks c_inode_nr bs s })"

text \<open>The result is the path with the slash and the name appended, or nothing; the array of the path has
  512 bytes.\<close>

definition get_child_dir_name ::
    "u32 \<Rightarrow> u32 \<Rightarrow> u8 list \<Rightarrow> 'a fsys_scheme \<Rightarrow> (u8 list option \<times> 'a fsys_scheme) option" where
  "get_child_dir_name p_inode_nr c_inode_nr path s =
     do { (p, s) \<leftarrow> inode_open p_inode_nr s;
          (blocks, s) \<leftarrow> all_blocks (inodes s p) s;
          let block_cnt = (if i_sectors (inodes s p) ! 12 \<noteq> 0 then 140 else 12);
          s \<leftarrow> inode_close p s;
          (r, s) \<leftarrow> child_in_blocks c_inode_nr (take block_cnt blocks) s;
          case r of
            None \<Rightarrow> Some (None, s)
          | Some name \<Rightarrow> do { ASSERT (length path + 1 + length name < MAX_PATH_LEN); Some (Some (path @ [0x2f] @ name), s) } }"

text \<open>The walk towards the root, which ends only when it reaches inode 0.\<close>

partial_function (option) getcwd_loop :: "u32 \<Rightarrow> u8 list \<Rightarrow> 'a fsys_scheme \<Rightarrow> (u8 list option \<times> 'a fsys_scheme) option" where
  "getcwd_loop child path s =
     (if child = 0 then Some (Some path, s)
      else do { (parent, s) \<leftarrow> get_parent_dir_inode_nr child s;
                (r, s) \<leftarrow> get_child_dir_name parent child path s;
                if r = None then Some (None, s) else getcwd_loop parent (the r) s })"

text \<open>The names stand in the wrong order: they are moved to the result one by one, from the last slash
  on.\<close>

function reverse_path :: "u8 list \<Rightarrow> u8 list \<Rightarrow> u8 list" where
  "reverse_path full buf =
     (if 0x2f \<notin> set full then buf
      else reverse_path (take (length full - Suc (length (last_name full))) full)
             (buf @ drop (length full - Suc (length (last_name full))) full))"
  by pat_completeness auto
termination
proof (relation "measure (\<lambda>(full, buf). length full)")
  fix full buf :: "u8 list"
  assume "\<not> 0x2f \<notin> set full"
  then show "((take (length full - Suc (length (last_name full))) full,
      buf @ drop (length full - Suc (length (last_name full))) full), full, buf) \<in> measure (\<lambda>(full, buf). length full)"
    by (cases full) auto
qed simp

declare reverse_path.simps [simp del]

definition sys_getcwd :: "nat \<Rightarrow> 'a fsys_scheme \<Rightarrow> (u8 list option \<times> 'a fsys_scheme) option" where
  "sys_getcwd buf_size s =
     do { let (io_buf, s) = heap_alloc s;
          if io_buf = 0 then Some (None, s) else do {
          let child_inode_nr = cwd_inode_nr s;
          ASSERT (sint child_inode_nr \<ge> 0 \<and> sint child_inode_nr < 4096);
          if child_inode_nr = 0 then Some (Some [0x2f], s)
          else do {
            (r, s) \<leftarrow> getcwd_loop child_inode_nr [] s;
            case r of
              None \<Rightarrow> Some (None, s)
            | Some full \<Rightarrow> do { ASSERT (length full < buf_size); Some (Some (reverse_path full []), s) } }}}"

definition sys_chdir :: "u8 list \<Rightarrow> 'a fsys_scheme \<Rightarrow> (u32 \<times> 'a fsys_scheme) option" where
  "sys_chdir path s =
     do { (inode_no, r, s) \<leftarrow> search_file path s;
          let (ret, s) = (if inode_no \<noteq> -1 \<and> file_type r = FT_DIRECTORY then (0, s\<lparr>cwd_inode_nr := inode_no\<rparr>) else (-1, s));
          s \<leftarrow> dir_close (parent_dir r) s;
          Some (ret, s) }"

record stat =
  st_ino :: u32
  st_size :: u32
  st_filetype :: u32

text \<open>The size reported for the root directory is the number of its inode.\<close>

definition sys_stat :: "u8 list \<Rightarrow> stat \<Rightarrow> 'a fsys_scheme \<Rightarrow> ((u32 \<times> stat) \<times> 'a fsys_scheme) option" where
  "sys_stat path buf s =
     (if is_root_path path
      then Some ((0, \<lparr>st_ino = 0, st_size = i_no (the_dir_inode Root_dir s), st_filetype = FT_DIRECTORY\<rparr>), s)
      else do {
        (inode_no, r, s) \<leftarrow> search_file path s;
        (res, s) \<leftarrow>
          (if inode_no \<noteq> -1
           then do { (p, s) \<leftarrow> inode_open inode_no s;
                     let sz = i_size (inodes s p);
                     s \<leftarrow> inode_close p s;
                     Some ((0, \<lparr>st_ino = inode_no, st_size = sz, st_filetype = file_type r\<rparr>), s) }
           else Some ((-1, buf), s));
        s \<leftarrow> dir_close (parent_dir r) s;
        Some (res, s) })"

section \<open>Properties\<close>

definition join_path :: "u8 list list \<Rightarrow> u8 list" where
  "join_path names = concat (map (\<lambda>n. 0x2f # n) names)"

lemma last_name_append: "0x2f \<notin> set n \<Longrightarrow> last_name (xs @ 0x2f # n) = n"
proof -
  assume n: "0x2f \<notin> set n"
  then have "takeWhile (\<lambda>c. c \<noteq> 0x2f) (rev n @ 0x2f # rev xs) = rev n"
    by (subst takeWhile_append2) auto
  then show ?thesis by (simp add: last_name_def)
qed

lemma reverse_path_join:
  assumes "\<forall>n \<in> set names. 0x2f \<notin> set n"
  shows "reverse_path (join_path names) buf = buf @ join_path (rev names)"
  using assms
proof (induction names arbitrary: buf rule: rev_induct)
  case Nil
  then show ?case by (simp add: join_path_def reverse_path.simps)
next
  case (snoc n names)
  have full: "join_path (names @ [n]) = join_path names @ 0x2f # n" by (simp add: join_path_def)
  have nm: "last_name (join_path names @ 0x2f # n) = n" using snoc.prems by (intro last_name_append) simp
  have "reverse_path (join_path (names @ [n])) buf = reverse_path (join_path names) (buf @ 0x2f # n)"
    unfolding full by (subst reverse_path.simps) (simp add: nm)
  then show ?case using snoc by (simp add: join_path_def)
qed

text \<open>Remark: \<^verbatim>\<open>sys_getcwd\<close> collects the names from the working directory up to the root, and the reversal puts
  them in the order of a path, each behind its slash.\<close>

theorem getcwd_reverses:
  assumes "\<forall>n \<in> set names. 0x2f \<notin> set n"
  shows "reverse_path (join_path names) [] = join_path (rev names)"
  using reverse_path_join [OF assms, of "[]"] by simp

theorem getcwd_reverses_witness:
  "reverse_path [0x2f, 0x64, 0x2f, 0x68, 0x6f] [] = [0x2f, 0x68, 0x6f, 0x2f, 0x64]"
  using getcwd_reverses [of "[[0x64], [0x68, 0x6f]]"] by (simp add: join_path_def)

text \<open>Property C32: \<^verbatim>\<open>sys_lseek\<close> moves the position only to a byte of the file, to the one that its arguments
  name relative to the start, the position or the end; otherwise it returns \<open>-1\<close> and changes nothing.\<close>

theorem lseek_stays_inside:
  assumes "sint fd \<ge> 0" "whence = 1 \<or> whence = 2 \<or> whence = 3" "fd_local2global fd s = Some g"
    "unat g < length (file_table s)"
    "sz = i_size (inodes s (fd_inode (get_file g s)))" "unat sz < 2 ^ 31"
    "new_pos = (if whence = 1 then offset else if whence = 2 then fd_pos (get_file g s) + offset else sz + offset)"
  shows "if unat new_pos < unat sz
    then \<exists>s'. sys_lseek fd offset whence s = Some (new_pos, s') \<and> get_file g s' = (get_file g s)\<lparr>fd_pos := new_pos\<rparr> \<and>
      s' = s\<lparr>file_table := (file_table s)[unat g := (get_file g s)\<lparr>fd_pos := new_pos\<rparr>]\<rparr>
    else sys_lseek fd offset whence s = Some (-1, s)"
proof -
  have ok: "sint new_pos < 0 \<or> sint new_pos > sint (sz - 1) \<longleftrightarrow> \<not> unat new_pos < unat sz"
  proof (cases "sz = 0")
    case True
    have "sint new_pos < 0 \<or> sint new_pos > -1" by linarith
    then show ?thesis using True by simp
  next
    case False
    then have z: "0 < unat sz" by (simp add: unat_gt_0)
    then have "unat (sz - 1) = unat sz - 1" by (subst unat_minus_le) (simp_all add: word_le_nat_alt)
    then have e: "sint (sz - 1) = int (unat sz) - 1"
      using sint_u32 [of "sz - 1"] assms(6) z by (simp only: of_nat_diff) simp
    show ?thesis
    proof (cases "unat new_pos < 2 ^ 31")
      case True
      then have "sint new_pos = int (unat new_pos)" using sint_u32 [of new_pos] by (simp only: if_True)
      then show ?thesis unfolding e by linarith
    next
      case False
      then have "sint new_pos < 0" using sint_u32 [of new_pos] uint_lt2p [of new_pos] by simp
      then show ?thesis using False assms(6) by simp
    qed
  qed
  have w: "0 < whence" "whence < 4" using assms(2) by auto
  then have "sys_lseek fd offset whence s = (if unat new_pos < unat sz
      then Some (new_pos, put_file g ((get_file g s)\<lparr>fd_pos := new_pos\<rparr>) s) else Some (-1, s))"
    using assms(1-3,5,7) ok by (auto simp: sys_lseek_def Let_def)
  then show ?thesis using assms(4) by (simp add: put_file_def get_file_def)
qed

text \<open>The example with the open file as descriptor 3 of the process.\<close>

definition fs_open :: fsys where
  "fs_open = fs_file\<lparr>fd_table := [0, 1, 2, 3] @ replicate 4 (-1)\<rparr>"

lemma fs_open_fields: "file_table fs_open = file_table fs_file" "inodes fs_open = inodes fs_file"
  "get_file g fs_open = get_file g fs_file" "fd_table fs_open = [0, 1, 2, 3, -1, -1, -1, -1]"
  by (simp_all add: fs_open_def get_file_def numeral_eq_Suc)

lemma fs_open_fd: "fd_local2global 3 fs_open = Some 3"
proof -
  have "aget [0, 1, 2, 3, -1, -1, -1, -1 :: u32] (3 :: u32) = Some 3" by (simp add: aget_Some)
  then show ?thesis unfolding fd_local2global_def fs_open_fields(4) by (simp only: Option.bind.simps) (simp add: MAX_FILE_OPEN_def)
qed

theorem lseek_stays_inside_witness:
  "sys_lseek 3 (-1) 3 fs_open = Some (2, fs_open\<lparr>file_table := (file_table fs_open)[3 := (get_file 3 fs_open)\<lparr>fd_pos := 2\<rparr>]\<rparr>) \<and>
   sys_lseek 3 3 1 fs_open = Some (-1, fs_open)"
proof -
  have sz: "i_size (inodes fs_open (fd_inode (get_file 3 fs_open))) = 3"
    by (simp add: fs_open_fields(2,3) fs_file_entry fs_file_inode inode0_sec)
  have len: "unat (3 :: u32) < length (file_table fs_open)" by (simp add: fs_open_fields(1) fs_file_entry(2))
  have "if unat (2 :: u32) < unat (3 :: u32) then \<exists>s'. sys_lseek 3 (-1) 3 fs_open = Some (2, s') \<and>
      get_file 3 s' = (get_file 3 fs_open)\<lparr>fd_pos := 2\<rparr> \<and>
      s' = fs_open\<lparr>file_table := (file_table fs_open)[unat (3 :: u32) := (get_file 3 fs_open)\<lparr>fd_pos := 2\<rparr>]\<rparr>
    else sys_lseek 3 (-1) 3 fs_open = Some (-1, fs_open)"
    by (rule lseek_stays_inside [OF _ _ fs_open_fd len sz [symmetric]]) simp_all
  moreover have "if unat (3 :: u32) < unat (3 :: u32) then \<exists>s'. sys_lseek 3 3 1 fs_open = Some (3, s') \<and>
      get_file 3 s' = (get_file 3 fs_open)\<lparr>fd_pos := 3\<rparr> \<and>
      s' = fs_open\<lparr>file_table := (file_table fs_open)[unat (3 :: u32) := (get_file 3 fs_open)\<lparr>fd_pos := 3\<rparr>]\<rparr>
    else sys_lseek 3 3 1 fs_open = Some (-1, fs_open)"
    by (rule lseek_stays_inside [OF _ _ fs_open_fd len sz [symmetric]]) simp_all
  ultimately show ?thesis by simp
qed

end
