(* ===== verification/Kpipe.thy ===== *)
theory Kpipe
  imports Kioqueue Ksysfs
begin

text \<open>
  Pipes (\<^verbatim>\<open>src/shell/pipe.c\<close>) and the system calls that read and write a descriptor, whatever it stands
  for (\<^verbatim>\<open>sys_read\<close> and \<^verbatim>\<open>sys_write\<close> of \<^verbatim>\<open>src/fs/fs.c\<close>, the console of \<^verbatim>\<open>src/dev/console.c\<close>). The state extends
  that of the file system by the ring buffers in kernel pages, the keyboard's buffer and the characters
  sent to the screen; the scheduler is passed beside it, because a full or empty buffer suspends the
  caller. A call that was suspended reports how far it came.

  The theory shows that a pipe is a queue of bytes, that reading from a pipe never blocks, and that
  writing blocks exactly when it tries to use the one byte of the buffer that stays free.
\<close>

section \<open>The state\<close>

record kio = fsys +
  pipes :: "u32 \<Rightarrow> ioqueue"
  kbd_buf :: ioqueue
  screen :: "u8 list"

definition console_put_str :: "u8 list \<Rightarrow> 'a kio_scheme \<Rightarrow> 'a kio_scheme" where
  "console_put_str str s = s\<lparr>screen := screen s @ str\<rparr>"

definition sys_putchar :: "u8 \<Rightarrow> 'a kio_scheme \<Rightarrow> 'a kio_scheme" where
  "sys_putchar char_ascii s = s\<lparr>screen := screen s @ [char_ascii]\<rparr>"

section \<open>Pipes\<close>

text \<open>Bytes out of a queue and into it, one by one, until the caller is suspended or the count is reached.\<close>

fun get_chars :: "nat \<Rightarrow> ioqueue \<Rightarrow> u8 list \<Rightarrow> 'b sched_scheme \<Rightarrow> ((unit ioq_call \<times> u8 list) \<times> ioqueue \<times> 'b sched_scheme) option" where
  "get_chars 0 ioq acc k = Some ((Done (), acc), ioq, k)"
| "get_chars (Suc n) ioq acc k =
     do { (r, ioq, k) \<leftarrow> ioq_getchar ioq k;
          case r of
            Done b \<Rightarrow> get_chars n ioq (acc @ [b]) k
          | On_lock \<Rightarrow> Some ((On_lock, acc), ioq, k)
          | On_wait \<Rightarrow> Some ((On_wait, acc), ioq, k) }"

fun put_chars :: "u8 list \<Rightarrow> ioqueue \<Rightarrow> nat \<Rightarrow> 'b sched_scheme \<Rightarrow> ((unit ioq_call \<times> nat) \<times> ioqueue \<times> 'b sched_scheme) option" where
  "put_chars [] ioq cnt k = Some ((Done (), cnt), ioq, k)"
| "put_chars (b # bs) ioq cnt k =
     do { (r, ioq, k) \<leftarrow> ioq_putchar ioq b k;
          case r of
            Done _ \<Rightarrow> put_chars bs ioq (Suc cnt) k
          | On_lock \<Rightarrow> Some ((On_lock, cnt), ioq, k)
          | On_wait \<Rightarrow> Some ((On_wait, cnt), ioq, k) }"

text \<open>\<^verbatim>\<open>sys_pipe\<close>: without a free slot of the file table the index \<open>-1\<close> leaves the table, and a page that could
  not be allocated is initialised before it is tested. \<open>page\<close> is the page that \<^verbatim>\<open>get_kernel_pages\<close> returns.\<close>

definition sys_pipe :: "u32 \<Rightarrow> 'a kio_scheme \<Rightarrow> ((u32 \<times> u32 \<times> u32) \<times> 'a kio_scheme) option" where
  "sys_pipe page s =
     do { let global_fd = get_free_slot_in_global s;
          ASSERT (global_fd \<noteq> -1 \<and> page \<noteq> 0);
          let s = s\<lparr>pipes := (pipes s)(page := ioqueue_init (pipes s page))\<rparr>;
          let s = put_file global_fd \<lparr>fd_pos = 2, fd_flag = PIPE_FLAG, fd_inode = page\<rparr> s;
          let (pipefd0, s) = pcb_fd_install global_fd s;
          let (pipefd1, s) = pcb_fd_install global_fd s;
          Some ((0, pipefd0, pipefd1), s) }"

definition pipe_read :: "u32 \<Rightarrow> u32 \<Rightarrow> 'a kio_scheme \<Rightarrow> 'b sched_scheme \<Rightarrow>
    ((unit ioq_call \<times> u8 list) \<times> 'a kio_scheme \<times> 'b sched_scheme) option" where
  "pipe_read fd count s k =
     do { global_fd \<leftarrow> fd_local2global fd s;
          let page = fd_inode (get_file global_fd s);
          let ioq_len = ioq_length (pipes s page);
          let n = (if ioq_len > count then count else ioq_len);
          (r, ioq, k) \<leftarrow> get_chars (unat n) (pipes s page) [] k;
          Some (r, s\<lparr>pipes := (pipes s)(page := ioq)\<rparr>, k) }"

definition pipe_write :: "u32 \<Rightarrow> u8 list \<Rightarrow> u32 \<Rightarrow> 'a kio_scheme \<Rightarrow> 'b sched_scheme \<Rightarrow>
    ((unit ioq_call \<times> nat) \<times> 'a kio_scheme \<times> 'b sched_scheme) option" where
  "pipe_write fd buf count s k =
     do { global_fd \<leftarrow> fd_local2global fd s;
          let page = fd_inode (get_file global_fd s);
          let ioq_left = bufsize - ioq_length (pipes s page);
          let n = (if ioq_left > count then count else ioq_left);
          src \<leftarrow> get_at 0 (unat n) buf;
          (r, ioq, k) \<leftarrow> put_chars src (pipes s page) 0 k;
          Some (r, s\<lparr>pipes := (pipes s)(page := ioq)\<rparr>, k) }"

section \<open>Reading and writing descriptors\<close>

definition stdin_no :: u32 where "stdin_no = 0"
definition stdout_no :: u32 where "stdout_no = 1"
definition stderr_no :: u32 where "stderr_no = 2"

text \<open>The return value of a call that has returned, or how it was suspended.\<close>

definition ret_of :: "unit ioq_call \<Rightarrow> u32 \<Rightarrow> u32 ioq_call" where
  "ret_of c v = (case c of Done _ \<Rightarrow> Done v | On_lock \<Rightarrow> On_lock | On_wait \<Rightarrow> On_wait)"

text \<open>The console shows the string in a buffer of 1024 bytes: up to its first NUL byte.\<close>

definition sys_write :: "u32 \<Rightarrow> u8 list \<Rightarrow> u32 \<Rightarrow> 'a kio_scheme \<Rightarrow> 'b sched_scheme \<Rightarrow>
    (u32 ioq_call \<times> 'a kio_scheme \<times> 'b sched_scheme) option" where
  "sys_write fd buf count s k =
     (if sint fd < 0 then Some (Done (-1), s, k)
      else if fd = stdout_no then do {
        pipe \<leftarrow> is_pipe fd s;
        if pipe then do { ((c, n), s, k) \<leftarrow> pipe_write fd buf count s k; Some (ret_of c (of_nat n), s, k) }
        else do { src \<leftarrow> get_at 0 (unat count) buf;
                  tmp_buf \<leftarrow> put_at 0 src (replicate 1024 0);
                  ASSERT (0 \<in> set tmp_buf);
                  Some (Done count, console_put_str (takeWhile (\<lambda>c. c \<noteq> 0) tmp_buf) s, k) } }
      else do {
        pipe \<leftarrow> is_pipe fd s;
        if pipe then do { ((c, n), s, k) \<leftarrow> pipe_write fd buf count s k; Some (ret_of c (of_nat n), s, k) }
        else do {
          g \<leftarrow> fd_local2global fd s;
          let flag = fd_flag (get_file g s);
          if flag AND ucast O_WRONLY \<noteq> 0 \<or> flag AND ucast O_RDWR \<noteq> 0
          then do { (n, s) \<leftarrow> file_write g buf count s; Some (Done n, s, k) }
          else Some (Done (-1), console_put_str (map (of_nat o of_char)
            ''sys_write: not allowd to write file without flag O_RDWR or O_WRONLY'' @ [0xa]) s, k) } })"

text \<open>The bytes stored in the buffer of the caller are returned beside the return value.\<close>

definition sys_read :: "u32 \<Rightarrow> u32 \<Rightarrow> 'a kio_scheme \<Rightarrow> 'b sched_scheme \<Rightarrow>
    ((u32 ioq_call \<times> u8 list) \<times> 'a kio_scheme \<times> 'b sched_scheme) option" where
  "sys_read fd count s k =
     (if sint fd < 0 \<or> fd = stdout_no \<or> fd = stderr_no then Some ((Done (-1), []), s, k)
      else do {
        pipe \<leftarrow> is_pipe fd s;
        if pipe then do { ((c, bs), s, k) \<leftarrow> pipe_read fd count s k; Some ((ret_of c (of_nat (length bs)), bs), s, k) }
        else if fd = stdin_no
        then do { ((c, bs), ioq, k) \<leftarrow> get_chars (unat count) (kbd_buf s) [] k;
                  Some ((ret_of c (if bs = [] then -1 else of_nat (length bs)), bs), s\<lparr>kbd_buf := ioq\<rparr>, k) }
        else do { g \<leftarrow> fd_local2global fd s;
                  ((n, bs), s) \<leftarrow> file_read g count s;
                  Some ((Done n, bs), s, k) } })"

section \<open>Pipes as queues\<close>

text \<open>A thread recorded as waiting is blocked.\<close>

definition waiter_ok :: "u32 \<Rightarrow> 'b sched_scheme \<Rightarrow> bool" where
  "waiter_ok w k \<longleftrightarrow> w = 0 \<or> (sched_inv k \<and> w \<in> set (thread_all_list k) \<and> blocking (status (task k w)))"

lemma get_chars_ok:
  assumes "ioq_ok q" "n \<le> length (ioq_contents q)" "intr_get_status (cpu_eflags k) = INTR_OFF" "waiter_ok (producer q) k"
  shows "\<exists>q' k'. get_chars n q acc k = Some ((Done (), acc @ take n (ioq_contents q)), q', k') \<and> ioq_ok q' \<and>
    ioq_contents q' = drop n (ioq_contents q)"
  using assms
proof (induction n arbitrary: q acc k)
  case 0
  then show ?case by simp
next
  case (Suc n)
  then obtain b bs where c: "ioq_contents q = b # bs" by (cases "ioq_contents q") (auto simp del: length_contents)
  obtain q1 k1 where g: "ioq_getchar q k = Some (Done b, q1, k1)" "ioq_ok q1" "ioq_contents q1 = bs" "producer q1 = 0"
    "cpu_eflags k1 = cpu_eflags k"
    using getchar_fetch [OF Suc.prems(1) c Suc.prems(3)] Suc.prems(4) by (auto simp: waiter_ok_def)
  have "n \<le> length (ioq_contents q1)" using Suc.prems(2) c g(3) by (simp del: length_contents)
  moreover have "waiter_ok (producer q1) k1" by (simp add: waiter_ok_def g(4))
  ultimately show ?case using Suc.IH [OF g(2), of k1 "acc @ [b]"] Suc.prems(3) g c by auto
qed

lemma put_chars_append: "put_chars (xs @ ys) q cnt k =
    Option.bind (put_chars xs q cnt k) (\<lambda>((c, n), q, k). case c of Done _ \<Rightarrow> put_chars ys q n k | _ \<Rightarrow> Some ((c, n), q, k))"
  by (induction xs arbitrary: q cnt k) (auto intro!: Option.bind_cong split: ioq_call.splits)

lemma put_chars_ok:
  assumes "ioq_ok q" "length (ioq_contents q) + length bs \<le> 63" "intr_get_status (cpu_eflags k) = INTR_OFF" "waiter_ok (consumer q) k"
  shows "\<exists>q' k'. put_chars bs q cnt k = Some ((Done (), cnt + length bs), q', k') \<and> ioq_ok q' \<and>
    ioq_contents q' = ioq_contents q @ bs \<and> producer q' = producer q"
  using assms
proof (induction bs arbitrary: q cnt k)
  case Nil
  then show ?case by simp
next
  case (Cons b bs)
  have "length (ioq_contents q) < 63" using Cons.prems(2) by simp
  then obtain q1 k1 where g: "ioq_putchar q b k = Some (Done (), q1, k1)" "ioq_ok q1" "ioq_contents q1 = ioq_contents q @ [b]"
    "consumer q1 = 0" "producer q1 = producer q" "cpu_eflags k1 = cpu_eflags k"
    using putchar_store [OF Cons.prems(1) _ Cons.prems(3), of b] Cons.prems(4) by (auto simp: waiter_ok_def)
  have "length (ioq_contents q1) + length bs \<le> 63" using Cons.prems(2) g(3) by (simp del: length_contents)
  moreover have "waiter_ok (consumer q1) k1" by (simp add: waiter_ok_def g(4))
  ultimately show ?case using Cons.IH [OF g(2), of k1 "Suc cnt"] Cons.prems(3) g by auto
qed

section \<open>Properties\<close>

text \<open>Property C34: reading from a pipe never blocks: it returns the first bytes of the pipe, at most as many as it
  holds, and leaves the rest.\<close>

theorem pipe_read_takes:
  assumes "fd_local2global fd s = Some g" "page = fd_inode (get_file g s)" "ioq_ok (pipes s page)"
    "intr_get_status (cpu_eflags k) = INTR_OFF" "waiter_ok (producer (pipes s page)) k"
  shows "\<exists>s' k'. pipe_read fd count s k = Some ((Done (), take (unat count) (ioq_contents (pipes s page))), s', k') \<and>
    ioq_contents (pipes s' page) = drop (unat count) (ioq_contents (pipes s page))"
proof -
  let ?q = "pipes s page"
  let ?n = "if ioq_length ?q > count then count else ioq_length ?q"
  have n: "unat ?n = min (unat count) (length (ioq_contents ?q))"
    using ioq_length_ring [OF assms(3)] by (simp add: word_less_nat_alt)
  obtain q' k' where g: "get_chars (unat ?n) ?q [] k = Some ((Done (), [] @ take (unat ?n) (ioq_contents ?q)), q', k')"
    "ioq_contents q' = drop (unat ?n) (ioq_contents ?q)"
    using get_chars_ok [OF assms(3) _ assms(4,5), of "unat ?n" "[]"] unfolding n by auto
  have "take (unat ?n) (ioq_contents ?q) = take (unat count) (ioq_contents ?q)"
    "drop (unat ?n) (ioq_contents ?q) = drop (unat count) (ioq_contents ?q)" unfolding n by (simp_all add: min_def)
  then show ?thesis using g assms(1,2) by (auto simp: pipe_read_def Let_def)
qed

text \<open>Property C35: as long as the bytes fit the free room less one, writing to a pipe appends them and returns.\<close>

theorem pipe_write_appends:
  assumes "fd_local2global fd s = Some g" "page = fd_inode (get_file g s)" "ioq_ok (pipes s page)"
    "intr_get_status (cpu_eflags k) = INTR_OFF" "waiter_ok (consumer (pipes s page)) k"
    "unat count \<le> length buf" "length (ioq_contents (pipes s page)) + unat count \<le> 63"
  shows "\<exists>s' k'. pipe_write fd buf count s k = Some ((Done (), unat count), s', k') \<and>
    ioq_contents (pipes s' page) = ioq_contents (pipes s page) @ take (unat count) buf"
proof -
  let ?q = "pipes s page"
  have left: "unat (bufsize - ioq_length ?q) = 64 - length (ioq_contents ?q)"
    using ioq_length_ring [OF assms(3)] assms(7) by (subst unat_minus_le) (simp_all add: bufsize_def word_le_nat_alt)
  then have n: "(if bufsize - ioq_length ?q > count then count else bufsize - ioq_length ?q) = count"
  proof -
    have "count < bufsize - ioq_length ?q" unfolding word_less_nat_alt left using assms(7) by linarith
    then show ?thesis by simp
  qed
  obtain q' k' where "put_chars (take (unat count) buf) ?q 0 k = Some ((Done (), 0 + length (take (unat count) buf)), q', k')"
    "ioq_contents q' = ioq_contents ?q @ take (unat count) buf"
    using put_chars_ok [OF assms(3) _ assms(4,5), of "take (unat count) buf" 0] assms(6,7) by auto
  then show ?thesis using assms(1,2,6) n by (auto simp: pipe_write_def Let_def get_at_def)
qed

text \<open>Property C36: the room that \<^verbatim>\<open>pipe_write\<close> computes counts the byte of the ring that always stays free: a write to
  a pipe with 63 bytes blocks, although it is meant to write only what fits.\<close>

theorem pipe_write_full_blocks:
  assumes "fd_local2global fd s = Some g" "page = fd_inode (get_file g s)" "ioq_ok (pipes s page)"
    "length (ioq_contents (pipes s page)) = 63" "0 < count" "buf \<noteq> []"
    "intr_get_status (cpu_eflags k) = INTR_OFF" "producer (pipes s page) = 0" "ioq_lock (pipes s page) = lock_init"
    "sched_inv k" "spaces_ok D k"
  shows "\<exists>s' k'. pipe_write fd buf count s k = Some ((On_wait, 0), s', k') \<and> producer (pipes s' page) = current k"
proof -
  let ?q = "pipes s page"
  have "unat (bufsize - ioq_length ?q) = 64 - length (ioq_contents ?q)"
    using ioq_length_ring [OF assms(3)] assms(4) by (subst unat_minus_le) (simp_all add: bufsize_def word_le_nat_alt)
  then have l: "bufsize - ioq_length ?q = 1" using assms(4) by (simp add: word_unat_eq_iff)
  have n: "(if bufsize - ioq_length ?q > count then count else bufsize - ioq_length ?q) = 1"
    using assms(5) unfolding l by (simp add: word_less_nat_alt)
  obtain q' k' where p: "ioq_putchar ?q (hd buf) k = Some (On_wait, q', k')" "producer q' = current k"
    using putchar_full [OF assms(3,4,7-11), of "hd buf"] by blast
  have "get_at 0 1 buf = Some [hd buf]" using assms(6) by (cases buf) (auto simp: get_at_def)
  then show ?thesis using p assms(1,2) n by (auto simp: pipe_write_def Let_def)
qed

text \<open>An empty pipe as descriptors 3 and 4.\<close>

definition kio_pipe :: kio where
  "kio_pipe = fsys.extend (fs0\<lparr>file_table := (file_table fs0)[3 := \<lparr>fd_pos = 2, fd_flag = PIPE_FLAG, fd_inode = 0xc0300000\<rparr>],
       fd_table := [0, 1, 2, 3, 3, -1, -1, -1]\<rparr>)
     \<lparr>pipes = \<lambda>_. ioq0, kbd_buf = ioq0, screen = []\<rparr>"

lemma kio_pipe_fields: "fd_local2global 3 kio_pipe = Some 3" "fd_inode (get_file 3 kio_pipe) = 0xc0300000"
  "pipes kio_pipe = (\<lambda>_. ioq0)"
proof -
  have "aget [0, 1, 2, 3, 3, -1, -1, -1 :: u32] (3 :: u32) = Some 3" unfolding aget_def by simp
  moreover have "fd_table kio_pipe = [0, 1, 2, 3, 3, -1, -1, -1]" by (simp add: kio_pipe_def fsys.defs)
  ultimately show "fd_local2global 3 kio_pipe = Some 3"
    unfolding fd_local2global_def by (simp only: Option.bind.simps) (simp add: MAX_FILE_OPEN_def)
  show "fd_inode (get_file 3 kio_pipe) = 0xc0300000" "pipes kio_pipe = (\<lambda>_. ioq0)"
    by (simp_all add: kio_pipe_def fsys.defs get_file_def fs0_def)
qed

theorem pipe_write_appends_witness:
  "\<exists>s' k'. pipe_write 3 [1, 2, 3] 3 kio_pipe sched0 = Some ((Done (), 3), s', k') \<and>
     ioq_contents (pipes s' 0xc0300000) = [1, 2, 3]"
  using pipe_write_appends [OF kio_pipe_fields(1) kio_pipe_fields(2) [symmetric], of sched0 3 "[1, 2, 3]"]
    sched0_ok(3) ioq0_ok by (simp add: kio_pipe_fields(3) waiter_ok_def)

theorem pipe_read_takes_witness:
  "\<exists>s' k'. pipe_read 3 5 kio_pipe sched0 = Some ((Done (), []), s', k')"
  using pipe_read_takes [OF kio_pipe_fields(1) kio_pipe_fields(2) [symmetric], of sched0 5]
    sched0_ok(3) ioq0_ok by (auto simp: kio_pipe_fields(3) waiter_ok_def)

theorem pipe_write_full_blocks_witness:
  "\<exists>(s :: kio) s' k'. pipe_write 3 [7] 1 s sched0 = Some ((On_wait, 0), s', k')"
proof -
  obtain q where q: "ioq_ok q" "length (ioq_contents q) = 63" "producer q = 0" "ioq_lock q = lock_init"
    using fill_exists [of 63] by auto
  let ?s = "kio_pipe\<lparr>pipes := \<lambda>_. q\<rparr>"
  have fd: "fd_local2global 3 ?s = Some 3" "(0xc0300000 :: u32) = fd_inode (get_file 3 ?s)"
    using kio_pipe_fields(1,2) by (simp_all add: fd_local2global_def get_file_def)
  show ?thesis
    using pipe_write_full_blocks [OF fd _ _ _ _ _ _ _ sched0_ok(1,2), of 1 "[7]"] q sched0_ok(3)
    by (auto simp del: length_contents)
qed

end
