(* ===== verification/Kstdio.thy ===== *)
theory Kstdio
  imports Kbytes
begin

text \<open>
  Formatted output (\<^verbatim>\<open>src/lib/stdio.c\<close>): \<^verbatim>\<open>itoa\<close> and \<^verbatim>\<open>vsprintf\<close>. The characters that \<^verbatim>\<open>itoa\<close> stores are its
  result; \<^verbatim>\<open>vsprintf\<close> works on the array it is given, and a write behind its end has no result. The variable
  arguments are the list of their values, a string argument being its bytes without the NUL byte.

  The theory shows that \<^verbatim>\<open>itoa\<close> ends for every base of at least two and writes the digits of the number, and
  that \<^verbatim>\<open>vsprintf\<close> renders a format string piece by piece.
\<close>

section \<open>Numbers\<close>

definition digit_char :: "u32 \<Rightarrow> u8" where
  "digit_char m = (if m < 10 then ucast m + 0x30 else ucast (m - 10) + 0x41)"

text \<open>The recursion ends only when the quotient shrinks; base 0 divides by zero.\<close>

partial_function (option) itoa :: "u32 \<Rightarrow> u8 \<Rightarrow> u8 list option" where
  "itoa value base =
     (if base = 0 then None
      else do { let m = value mod ucast base;
                let i = value div ucast base;
                high \<leftarrow> (if i \<noteq> 0 then itoa i base else Some []);
                Some (high @ [digit_char m]) })"

section \<open>Formats\<close>

datatype arg = Str "u8 list" | Num u32

text \<open>Storing bytes at the write position.\<close>

definition emit :: "u8 list \<Rightarrow> u8 list \<times> nat \<Rightarrow> (u8 list \<times> nat) option" where
  "emit bs out = (case out of (str, pos) \<Rightarrow> do { str \<leftarrow> put_at pos bs str; Some (str, pos + length bs) })"

text \<open>The loop of \<^verbatim>\<open>vsprintf\<close> on the rest of the format. A percent sign followed by a character that is no
  conversion is dropped, and that character is looked at again. \<^verbatim>\<open>strcpy\<close> also stores a NUL byte behind
  the string.\<close>

fun vsprintf_loop :: "u8 list \<Rightarrow> arg list \<Rightarrow> u8 list \<times> nat \<Rightarrow> (u8 list \<times> nat) option" where
  "vsprintf_loop [] args out = Some out"
| "vsprintf_loop (c # fmt) args out =
     (if c \<noteq> 0x25 then do { out \<leftarrow> emit [c] out; vsprintf_loop fmt args out }
      else case fmt of
        [] \<Rightarrow> Some out
      | c # rest \<Rightarrow>
          if c = 0x73
          then (case args of
                  Str s # args \<Rightarrow> do { (str, pos) \<leftarrow> emit (s @ [0]) out; vsprintf_loop rest args (str, pos - 1) }
                | _ \<Rightarrow> None)
          else if c = 0x63
          then (case args of Num n # args \<Rightarrow> do { out \<leftarrow> emit [ucast n] out; vsprintf_loop rest args out } | _ \<Rightarrow> None)
          else if c = 0x64
          then (case args of
                  Num n # args \<Rightarrow>
                    do { out \<leftarrow> (if sint n < 0 then emit [0x2d] out else Some out);
                         ds \<leftarrow> itoa (if sint n < 0 then 0 - n else n) 10;
                         out \<leftarrow> emit ds out;
                         vsprintf_loop rest args out }
                | _ \<Rightarrow> None)
          else if c = 0x78
          then (case args of
                  Num n # args \<Rightarrow> do { ds \<leftarrow> itoa n 16; out \<leftarrow> emit ds out; vsprintf_loop rest args out }
                | _ \<Rightarrow> None)
          else vsprintf_loop (c # rest) args out)"

text \<open>The return value is \<^verbatim>\<open>strlen(str)\<close>, which needs a NUL byte in the array.\<close>

definition vsprintf :: "u8 list \<Rightarrow> u8 list \<Rightarrow> arg list \<Rightarrow> (u32 \<times> u8 list) option" where
  "vsprintf str fmt args =
     do { (str, pos) \<leftarrow> vsprintf_loop fmt args (str, 0);
          ASSERT (0 \<in> set str);
          Some (of_nat (length (takeWhile (\<lambda>c. c \<noteq> 0) str)), str) }"

text \<open>\<^verbatim>\<open>printf\<close> and \<^verbatim>\<open>printk\<close> format into a cleared array of 1024 bytes and write the string.\<close>

definition printf :: "u8 list \<Rightarrow> arg list \<Rightarrow> u8 list option" where
  "printf fmt args =
     do { (n, buf) \<leftarrow> vsprintf (replicate 1024 0) fmt args; Some (takeWhile (\<lambda>c. c \<noteq> 0) buf) }"

section \<open>Digits\<close>

definition digit_value :: "u8 \<Rightarrow> nat" where
  "digit_value c = (if c \<le> 0x39 then unat c - 48 else unat c - 55)"

definition number_of :: "nat \<Rightarrow> u8 list \<Rightarrow> nat" where
  "number_of b cs = foldl (\<lambda>n c. n * b + digit_value c) 0 cs"

lemma digit_char_value:
  assumes "unat m < 36"
  shows "digit_value (digit_char m) = unat m" "digit_char m \<noteq> 0"
proof -
  have u: "unat (ucast n :: u8) = unat n" if "unat n < 36" for n :: u32
    using that by (simp add: unsigned_ucast_eq take_bit_eq_mod)
  show "digit_value (digit_char m) = unat m" "digit_char m \<noteq> 0"
  proof -
    have d: "unat (digit_char m) = (if m < 10 then unat m + 48 else unat m - 10 + 65)"
    proof (cases "m < 10")
      case True
      then have "unat m < 10" by (simp add: word_less_nat_alt)
      then show ?thesis using True u [of m] by (simp add: digit_char_def) (subst unat_plus_lt; simp)
    next
      case False
      then have "unat (m - 10) = unat m - 10" by (simp add: unat_minus_le word_le_nat_alt word_less_nat_alt)
      then show ?thesis using False assms u [of "m - 10"] by (simp add: digit_char_def) (subst unat_plus_lt; simp)
    qed
    show "digit_value (digit_char m) = unat m"
      using assms d by (auto simp: digit_value_def word_le_nat_alt word_less_nat_alt)
    show "digit_char m \<noteq> 0" using d by (auto split: if_splits)
  qed
qed

lemma itoa_digits:
  assumes "2 \<le> base" "base \<le> 36"
  shows "\<exists>ds. itoa n base = Some ds \<and> number_of (unat base) ds = unat n \<and> ds \<noteq> [] \<and> 0 \<notin> set ds \<and>
    (\<forall>c \<in> set ds. digit_value c < unat base)"
proof (induction "unat n" arbitrary: n rule: less_induct)
  case less
  have b: "2 \<le> unat base" "unat base \<le> 36" using assms by (simp_all add: word_le_nat_alt)
  have ub: "unat (ucast base :: u32) = unat base" using b(2) by (simp add: unsigned_ucast_eq take_bit_eq_mod)
  let ?m = "n mod ucast base" and ?i = "n div ucast base"
  have m: "unat ?m = unat n mod unat base" and i: "unat ?i = unat n div unat base" by (simp_all add: unat_mod unat_div ub)
  have lt: "unat ?m < unat base" unfolding m using b(1) by (intro mod_less_divisor) simp
  have dg: "digit_value (digit_char ?m) = unat ?m" "digit_char ?m \<noteq> 0" using digit_char_value [of ?m] lt b(2) by simp_all
  have b0: "base \<noteq> 0" using b(1) by auto
  show ?case
  proof (cases "?i = 0")
    case True
    then have "unat n = unat ?m" using m i mult_div_mod_eq [of "unat base" "unat n"] by simp
    then show ?thesis using True dg lt b0 by (subst itoa.simps) (simp add: number_of_def)
  next
    case False
    then have "0 < unat ?i" by (simp add: unat_gt_0)
    then have "0 < unat n" unfolding i by (metis div_0 gr0I less_irrefl)
    then have "unat ?i < unat n" unfolding i using b(1) by (intro div_less_dividend) simp_all
    then obtain ds where ds: "itoa ?i base = Some ds" "number_of (unat base) ds = unat ?i" "0 \<notin> set ds"
      "\<forall>c \<in> set ds. digit_value c < unat base"
      using less [of ?i] by blast
    have "itoa n base = Some (ds @ [digit_char ?m])" using False ds(1) b0 by (subst itoa.simps) simp
    moreover have "number_of (unat base) (ds @ [digit_char ?m]) = unat n"
      using ds(2) dg(1) m i by (simp add: number_of_def)
    ultimately show ?thesis using ds(3,4) dg lt by auto
  qed
qed

section \<open>Formats as pieces\<close>

text \<open>The reference: a format is a sequence of pieces, each with the format characters it is written as, the
  arguments it takes and the characters it stands for.\<close>

datatype piece = Lit u8 | S_arg "u8 list" | C_arg u32 | D_arg u32 | X_arg u32

fun piece_fmt :: "piece \<Rightarrow> u8 list" where
  "piece_fmt (Lit c) = [c]"
| "piece_fmt (S_arg s) = [0x25, 0x73]"
| "piece_fmt (C_arg n) = [0x25, 0x63]"
| "piece_fmt (D_arg n) = [0x25, 0x64]"
| "piece_fmt (X_arg n) = [0x25, 0x78]"

fun piece_args :: "piece \<Rightarrow> arg list" where
  "piece_args (Lit c) = []"
| "piece_args (S_arg s) = [Str s]"
| "piece_args (C_arg n) = [Num n]"
| "piece_args (D_arg n) = [Num n]"
| "piece_args (X_arg n) = [Num n]"

fun piece_out :: "piece \<Rightarrow> u8 list" where
  "piece_out (Lit c) = [c]"
| "piece_out (S_arg s) = s"
| "piece_out (C_arg n) = [ucast n]"
| "piece_out (D_arg n) = (if sint n < 0 then 0x2d # the (itoa (0 - n) 10) else the (itoa n 10))"
| "piece_out (X_arg n) = the (itoa n 16)"

fun piece_ok :: "piece \<Rightarrow> bool" where
  "piece_ok (Lit c) \<longleftrightarrow> c \<noteq> 0x25 \<and> c \<noteq> 0"
| "piece_ok (S_arg s) \<longleftrightarrow> 0 \<notin> set s"
| "piece_ok (C_arg n) \<longleftrightarrow> (ucast n :: u8) \<noteq> 0"
| "piece_ok (D_arg n) \<longleftrightarrow> True"
| "piece_ok (X_arg n) \<longleftrightarrow> True"

lemma itoa_the:
  assumes "2 \<le> base" "base \<le> 36"
  shows "itoa n base = Some (the (itoa n base))" "0 \<notin> set (the (itoa n base))"
  using itoa_digits [OF assms, of n] by auto

lemma piece_out_nonzero: "piece_ok p \<Longrightarrow> 0 \<notin> set (piece_out p)"
  using itoa_the(2) by (cases p) auto

text \<open>The array: what was written, then zeros.\<close>

lemma emit_zeros:
  assumes "length out + length bs \<le> n"
  shows "emit bs (out @ replicate (n - length out) 0, length out) =
    Some ((out @ bs) @ replicate (n - length (out @ bs)) 0, length (out @ bs))"
  using assms by (simp add: emit_def put_at_def)

lemma piece_step:
  assumes "piece_ok p" "length out + length (piece_out p) < n"
  shows "vsprintf_loop (piece_fmt p @ fmt) (piece_args p @ args) (out @ replicate (n - length out) 0, length out) =
    vsprintf_loop fmt args ((out @ piece_out p) @ replicate (n - length (out @ piece_out p)) 0, length (out @ piece_out p))"
proof (cases p)
  case (Lit c)
  then show ?thesis using assms emit_zeros [of out "[c]" n] by simp
next
  case (S_arg s)
  have z: "out @ s @ 0 # replicate (n - Suc (length out + length s)) 0 = out @ s @ replicate (n - (length out + length s)) 0"
    using assms(2) S_arg by (simp add: Suc_diff_Suc replicate_Suc [symmetric] del: replicate_Suc)
  show ?thesis using assms S_arg emit_zeros [of out "s @ [0]" n] z by simp
next
  case (C_arg m)
  then show ?thesis using assms emit_zeros [of out "[ucast m]" n] by simp
next
  case (X_arg m)
  then show ?thesis using assms emit_zeros [of out "the (itoa m 16)" n] itoa_the(1) [of 16 m] by (cases "itoa m 16") simp_all
next
  case (D_arg m)
  show ?thesis
  proof (cases "sint m < 0")
    case True
    obtain ds where ds: "itoa (- m) 10 = Some ds" using itoa_the(1) [of 10 "- m"] by auto
    have l: "length (out @ [0x2d]) + length ds \<le> n" "length out + length [0x2d :: u8] \<le> n"
      using assms(2) D_arg True ds by simp_all
    show ?thesis using D_arg True ds emit_zeros [OF l(1)] emit_zeros [OF l(2)] by simp
  next
    case False
    obtain ds where ds: "itoa m 10 = Some ds" using itoa_the(1) [of 10 m] by auto
    then have "length out + length ds \<le> n" using assms(2) D_arg False by simp
    then show ?thesis using D_arg False ds emit_zeros [of out ds n] by simp
  qed
qed

lemma vsprintf_loop_pieces:
  assumes "\<forall>p \<in> set ps. piece_ok p" "length out + length (concat (map piece_out ps)) < n"
  shows "vsprintf_loop (concat (map piece_fmt ps)) (concat (map piece_args ps)) (out @ replicate (n - length out) 0, length out) =
    Some ((out @ concat (map piece_out ps)) @ replicate (n - length (out @ concat (map piece_out ps))) 0,
      length (out @ concat (map piece_out ps)))"
  using assms
proof (induction ps arbitrary: out)
  case Nil
  then show ?case by simp
next
  case (Cons p ps)
  have "length out + length (piece_out p) < n" using Cons.prems(2) by simp
  then show ?case using piece_step [of p out n] Cons.prems Cons.IH [of "out @ piece_out p"] by simp
qed

section \<open>Properties\<close>

text \<open>Property C40: the recursion of \<^verbatim>\<open>itoa\<close> ends for every number and every base from 2 to 36, and the characters it
  stores are digits of that base whose value is the number.\<close>

theorem itoa_returns_number:
  assumes "2 \<le> base" "base \<le> 36"
  shows "\<exists>ds. itoa n base = Some ds \<and> number_of (unat base) ds = unat n \<and> ds \<noteq> [] \<and> 0 \<notin> set ds \<and>
    (\<forall>c \<in> set ds. digit_value c < unat base)"
  by (rule itoa_digits [OF assms])

theorem itoa_returns_number_witness: "\<exists>ds. itoa 48879 16 = Some ds \<and> number_of 16 ds = 48879"
  using itoa_returns_number [of 16 48879] by auto

text \<open>Property C39: \<^verbatim>\<open>vsprintf\<close> into a cleared array with room stores the rendering of the pieces of the format, string
  arguments, characters, signed decimal and hexadecimal numbers included, and returns its length.\<close>

theorem vsprintf_renders:
  assumes "\<forall>p \<in> set ps. piece_ok p" "length (concat (map piece_out ps)) < n"
  shows "vsprintf (replicate n 0) (concat (map piece_fmt ps)) (concat (map piece_args ps)) =
    Some (of_nat (length (concat (map piece_out ps))),
      concat (map piece_out ps) @ replicate (n - length (concat (map piece_out ps))) 0)"
proof -
  let ?out = "concat (map piece_out ps)"
  have nz: "0 \<notin> set ?out" using assms(1) piece_out_nonzero by auto
  have "takeWhile (\<lambda>c. c \<noteq> 0) (?out @ replicate (n - length ?out) 0) = ?out"
  proof -
    have "takeWhile (\<lambda>c. c \<noteq> 0) (?out @ replicate (n - length ?out) 0) = ?out @ takeWhile (\<lambda>c. c \<noteq> 0) (replicate (n - length ?out) 0)"
      using nz by (intro takeWhile_append2) auto
    then show ?thesis by (simp add: takeWhile_replicate)
  qed
  then show ?thesis using vsprintf_loop_pieces [OF assms(1), of "[]" n] assms(2) by (simp add: vsprintf_def)
qed

theorem vsprintf_renders_witness:
  "\<exists>ds. itoa 27 10 = Some ds \<and> number_of 10 ds = 27 \<and>
     vsprintf (replicate 16 0) [0x6e, 0x3d, 0x25, 0x64] [Num (-27)] =
       Some (of_nat (3 + length ds), [0x6e, 0x3d, 0x2d] @ ds @ replicate (13 - length ds) 0)"
proof -
  obtain ds where ds: "itoa 27 10 = Some ds" "number_of 10 ds = 27" using itoa_digits [of 10 27] by auto
  have len: "length ds = 2"
  proof -
    have "itoa 2 10 = Some [0x32]" by (subst itoa.simps) (simp add: digit_char_def)
    then have "itoa 27 10 = Some [0x32, 0x37]" by (subst itoa.simps) (simp add: digit_char_def)
    then show ?thesis using ds(1) by simp
  qed
  have "sint (-27 :: u32) < 0" by simp
  then show ?thesis using vsprintf_renders [of "[Lit 0x6e, Lit 0x3d, D_arg (-27)]" 16] ds len by simp
qed

end
