(* ===== verification/Kshell.thy ===== *)
theory Kshell
  imports Ksysfs
begin

text \<open>
  The text handling of the shell (\<^verbatim>\<open>src/shell/shell.c\<close>, and \<^verbatim>\<open>wash_path\<close> of \<^verbatim>\<open>src/shell/buildin_cmd.c\<close>):
  reading a line with editing keys, splitting it into words, and resolving \<^verbatim>\<open>.\<close> and \<^verbatim>\<open>..\<close> in paths.

  The theory shows that these functions agree with what they stand for: an edited line, the words of a
  string, and the normal form of a path.
\<close>

section \<open>Paths without dots\<close>

text \<open>The path is truncated at its last slash, or to the root when that is the first character.\<close>

definition parent_path :: "u8 list \<Rightarrow> u8 list" where
  "parent_path p =
     (let slash_idx = length p - Suc (length (last_name p))
      in if slash_idx \<noteq> 0 then take slash_idx p else take 1 p)"

text \<open>The loop of \<^verbatim>\<open>wash_path\<close>, entered with the name parsed last. \<^verbatim>\<open>new_abs_path\<close> has 512 bytes.\<close>

function wash_loop :: "u8 list \<Rightarrow> u8 list option \<Rightarrow> u8 list \<Rightarrow> u8 list option" where
  "wash_loop name sub_path new_abs_path =
     (if name = [] then Some new_abs_path
      else if length name = MAX_FILE_NAME_LEN then None
      else let p = (if name = [0x2e, 0x2e] then parent_path new_abs_path
                    else if name \<noteq> [0x2e]
                    then (if new_abs_path \<noteq> [0x2f] then new_abs_path @ [0x2f] else new_abs_path) @ name
                    else new_abs_path)
           in if length p \<ge> MAX_PATH_LEN then None
              else case next_name sub_path of
                     None \<Rightarrow> None
                   | Some (name, sub_path) \<Rightarrow> wash_loop name sub_path p)"
  by pat_completeness auto
termination
  by (relation "measure (\<lambda>(name, sub_path, p). search_measure name sub_path)") (auto dest: next_name_measure)

declare wash_loop.simps [simp del]

definition wash_path :: "u8 list \<Rightarrow> u8 list option" where
  "wash_path old_abs_path =
     do { ASSERT (old_abs_path \<noteq> [] \<and> hd old_abs_path = 0x2f);
          (name, sub_path) \<leftarrow> next_name (Some old_abs_path);
          if name = [] then Some [0x2f] else wash_loop name sub_path [0x2f] }"

text \<open>The path is made absolute with the working directory first; the array has 512 bytes.\<close>

definition make_clear_abs_path :: "u8 list \<Rightarrow> 'a fsys_scheme \<Rightarrow> (u8 list \<times> 'a fsys_scheme) option" where
  "make_clear_abs_path path s =
     do { (abs_path, s) \<leftarrow>
            (if path = [] \<or> hd path \<noteq> 0x2f
             then do { (r, s) \<leftarrow> sys_getcwd MAX_PATH_LEN s;
                       Some (case r of None \<Rightarrow> [] | Some p \<Rightarrow> if p \<noteq> [0x2f] then p @ [0x2f] else p, s) }
             else Some ([], s));
          ASSERT (length abs_path + length path < MAX_PATH_LEN);
          p \<leftarrow> wash_path (abs_path @ path);
          Some (p, s) }"

section \<open>Splitting a command\<close>

text \<open>The outer loop of \<^verbatim>\<open>cmd_parse\<close>: the words so far are those stored in \<^verbatim>\<open>argv\<close>, which has room for 16. The
  test of \<^verbatim>\<open>argc\<close> stands behind the store.\<close>

function parse_words :: "u8 \<Rightarrow> u8 list \<Rightarrow> u8 list list \<Rightarrow> u8 list list option" where
  "parse_words tok nxt argv =
     (let nxt = dropWhile (\<lambda>c. c = tok) nxt
      in if nxt = [] then Some argv
         else if length argv \<ge> 16 then None
         else parse_words tok (drop 1 (dropWhile (\<lambda>c. c \<noteq> tok) nxt)) (argv @ [takeWhile (\<lambda>c. c \<noteq> tok) nxt]))"
  by pat_completeness auto
termination
proof (relation "measure (\<lambda>(tok, nxt, argv). length nxt)")
  fix tok :: u8 and nxt x :: "u8 list" and argv :: "u8 list list"
  assume x: "x = dropWhile (\<lambda>c. c = tok) nxt" "x \<noteq> []"
  have "length (dropWhile (\<lambda>c. c \<noteq> tok) x) \<le> length x" "length x \<le> length nxt" unfolding x(1) by (rule length_dropWhile_le)+
  moreover have "0 < length x" using x(2) by simp
  ultimately show "((tok, drop 1 (dropWhile (\<lambda>c. c \<noteq> tok) x), argv @ [takeWhile (\<lambda>c. c \<noteq> tok) x]), tok, nxt, argv)
      \<in> measure (\<lambda>(tok, nxt, argv). length nxt)"
    unfolding in_measure split_conv length_drop by linarith
qed simp

declare parse_words.simps [simp del]

definition cmd_parse :: "u8 list \<Rightarrow> u8 \<Rightarrow> u8 list list option" where
  "cmd_parse cmd_str tok = parse_words tok cmd_str []"

section \<open>Reading a line\<close>

text \<open>The loop of \<^verbatim>\<open>readline\<close> on the keys that \<^verbatim>\<open>read\<close> delivers. The array has 128 bytes; a key that is read
  when all are used is stored behind them. Each key is stored at the position first. The result is the
  line and the keys that are left; without a carriage return among the keys the call is still waiting. What
  is echoed on the screen is not kept.\<close>

datatype line = Line "u8 list" "u8 list" | Waiting "u8 list" nat

fun readline_loop :: "u8 list \<Rightarrow> u8 list \<Rightarrow> nat \<Rightarrow> line option" where
  "readline_loop [] buf pos = Some (Waiting buf pos)"
| "readline_loop (key # keys) buf pos =
     do { buf \<leftarrow> put_at pos [key] buf;
          if key = 0xa \<or> key = 0xd then Some (Line (take pos buf) keys)
          else if key = 0x8
          then if buf ! 0 \<noteq> 0x8 then readline_loop keys buf (pos - 1) else readline_loop keys buf pos
          else if key = 11 then do { buf \<leftarrow> put_at pos [0] buf; readline_loop keys buf pos }
          else if key = 20
          then readline_loop keys (map (\<lambda>i. if 0 < i \<and> i \<le> pos then 0 else buf ! i) [0..<length buf]) 0
          else readline_loop keys buf (Suc pos) }"

definition readline :: "u8 list \<Rightarrow> line option" where
  "readline keys = readline_loop keys (replicate 128 0) 0"

section \<open>The normal form of a path\<close>

text \<open>The reference: names are pushed on a stack, \<^verbatim>\<open>..\<close> removes the last one and \<^verbatim>\<open>.\<close> nothing.\<close>

definition norm_step :: "u8 list list \<Rightarrow> u8 list \<Rightarrow> u8 list list" where
  "norm_step st name = (if name = [0x2e, 0x2e] then butlast st else if name = [0x2e] then st else st @ [name])"

definition norm_path :: "u8 list list \<Rightarrow> u8 list list \<Rightarrow> u8 list list" where
  "norm_path st names = foldl norm_step st names"

definition stack_path :: "u8 list list \<Rightarrow> u8 list" where
  "stack_path st = (if st = [] then [0x2f] else join_path st)"

lemma join_path_snoc: "join_path (st @ [n]) = join_path st @ 0x2f # n"
  by (simp add: join_path_def)

lemma parent_path_stack:
  assumes "\<forall>n \<in> set st. n \<noteq> [] \<and> 0x2f \<notin> set n"
  shows "parent_path (stack_path st) = stack_path (butlast st)"
proof (cases st rule: rev_cases)
  case Nil
  have "last_name [0x2f] = []" by (simp add: last_name_def)
  then show ?thesis using Nil by (simp add: stack_path_def parent_path_def)
next
  case (snoc ns n)
  have "0x2f \<notin> set n" using assms snoc by simp
  then have ln: "last_name (join_path ns @ 0x2f # n) = n" by (rule last_name_append)
  show ?thesis
  proof (cases ns rule: rev_cases)
    case Nil
    then show ?thesis using snoc ln by (simp add: stack_path_def parent_path_def join_path_def)
  next
    case (snoc ms m)
    then have ne: "ns \<noteq> []" by simp
    have st: "stack_path st = join_path ns @ 0x2f # n" using \<open>st = ns @ [n]\<close> by (simp add: stack_path_def join_path_snoc)
    have "join_path ns \<noteq> []" using snoc by (simp add: join_path_def)
    then have "parent_path (join_path ns @ 0x2f # n) = join_path ns" by (simp add: parent_path_def ln)
    then show ?thesis unfolding st using \<open>st = ns @ [n]\<close> ne by (simp add: stack_path_def)
  qed
qed

lemma stack_path_push:
  assumes "\<forall>n \<in> set st. n \<noteq> [] \<and> 0x2f \<notin> set n"
  shows "(if stack_path st \<noteq> [0x2f] then stack_path st @ [0x2f] else stack_path st) @ name = stack_path (st @ [name])"
proof (cases "st = []")
  case True
  then show ?thesis by (simp add: stack_path_def join_path_def)
next
  case False
  then obtain n ns where st: "st = n # ns" by (cases st) auto
  then have "n \<noteq> []" using assms by simp
  then have "join_path st \<noteq> [0x2f]" using st by (cases n) (auto simp: join_path_def)
  then show ?thesis using False by (simp add: stack_path_def join_path_snoc)
qed

lemma norm_step_ok:
  "\<forall>n \<in> set st. n \<noteq> [] \<and> 0x2f \<notin> set n \<Longrightarrow> name \<noteq> [] \<Longrightarrow> 0x2f \<notin> set name \<Longrightarrow> \<forall>n \<in> set (norm_step st name). n \<noteq> [] \<and> 0x2f \<notin> set n"
  by (auto simp: norm_step_def dest: in_set_butlastD)

text \<open>Parsing the next name is taking the next component.\<close>

lemma next_name_components:
  assumes "\<forall>c \<in> set (case sub_path of None \<Rightarrow> [] | Some q \<Rightarrow> components q). length c \<le> 16"
  obtains name sub_path' where "next_name sub_path = Some (name, sub_path')"
    "(case sub_path of None \<Rightarrow> [] | Some q \<Rightarrow> components q) =
       (if name = [] then [] else name # (case sub_path' of None \<Rightarrow> [] | Some q \<Rightarrow> components q))"
proof (cases sub_path)
  case None
  then show thesis using that by (simp add: next_name_def)
next
  case (Some q)
  obtain name p where p: "path_parse q = (name, p)"
    "components q = (if name = [] then [] else name # (case p of None \<Rightarrow> [] | Some q \<Rightarrow> components q))"
    by (rule path_parse_cases)
  have "length name \<le> 16" using assms Some p(2) by (cases "name = []") auto
  then show thesis using that p Some by (simp add: next_name_def MAX_FILE_NAME_LEN_def)
qed

lemma components_no_slash: "c \<in> set (components path) \<Longrightarrow> c \<noteq> [] \<and> 0x2f \<notin> set c"
proof -
  have "c \<in> set (split_path acc xs) \<Longrightarrow> 0x2f \<notin> set acc \<Longrightarrow> c \<noteq> [] \<and> 0x2f \<notin> set c" for acc xs
    by (induction acc xs rule: split_path.induct) (auto split: if_splits)
  then show "c \<in> set (components path) \<Longrightarrow> c \<noteq> [] \<and> 0x2f \<notin> set c" by (fastforce simp: components_def)
qed

text \<open>The length of the path never exceeds the bound when all names together do not.\<close>

lemma length_stack_path: "length (stack_path st) \<le> 1 + sum_list (map (\<lambda>n. Suc (length n)) st)"
  by (simp add: stack_path_def join_path_def length_concat comp_def)

lemma sum_norm_step:
  "sum_list (map (\<lambda>n. Suc (length n)) (norm_step st name)) \<le> sum_list (map (\<lambda>n. Suc (length n)) st) + Suc (length name)"
proof -
  have "sum_list (map (\<lambda>n. Suc (length n)) (butlast st)) \<le> sum_list (map (\<lambda>n. Suc (length n)) st)"
    by (cases st rule: rev_cases) simp_all
  then show ?thesis by (simp add: norm_step_def)
qed

abbreviation (input) rest :: "u8 list option \<Rightarrow> u8 list list" where
  "rest sub_path \<equiv> case sub_path of None \<Rightarrow> [] | Some q \<Rightarrow> components q"

definition path_size :: "u8 list list \<Rightarrow> nat" where
  "path_size names = sum_list (map (\<lambda>n. Suc (length n)) names)"

lemma path_size_simps [simp]:
  "path_size [] = 0" "path_size (n # ns) = Suc (length n) + path_size ns"
  "path_size (ns @ ms) = path_size ns + path_size ms"
  by (simp_all add: path_size_def)

lemma length_stack_path_less: "path_size st < 512 \<Longrightarrow> length (stack_path st) < MAX_PATH_LEN"
  by (cases "st = []") (simp_all add: path_size_def stack_path_def MAX_PATH_LEN_def join_path_def length_concat comp_def)

lemma path_size_norm_step: "path_size (norm_step st name) \<le> path_size st + Suc (length name)"
  using sum_norm_step by (simp add: path_size_def)

lemma path_size_components: "path_size (components (0x2f # xs)) \<le> Suc (length xs)"
proof -
  have "path_size (split_path acc xs) \<le> Suc (length acc + length xs)" for acc xs
    by (induction acc xs rule: split_path.induct) auto
  from this [of "[]" xs] show ?thesis by (simp add: components_def)
qed

text \<open>One round of the loop is one step of the reference.\<close>

lemma wash_round:
  assumes "\<forall>n \<in> set st. n \<noteq> [] \<and> 0x2f \<notin> set n"
  shows "(if name = [0x2e, 0x2e] then parent_path (stack_path st)
          else if name \<noteq> [0x2e]
          then (if stack_path st \<noteq> [0x2f] then stack_path st @ [0x2f] else stack_path st) @ name
          else stack_path st) = stack_path (norm_step st name)"
  unfolding norm_step_def using parent_path_stack [OF assms] stack_path_push [OF assms, of name] by simp

lemma wash_loop_norm:
  assumes "\<forall>n \<in> set st. n \<noteq> [] \<and> 0x2f \<notin> set n"
    "names = (if name = [] then [] else name # rest sub_path)"
    "\<forall>c \<in> set names. c \<noteq> [] \<and> 0x2f \<notin> set c \<and> length c < 16"
    "path_size st + path_size names < 512"
  shows "wash_loop name sub_path (stack_path st) = Some (stack_path (norm_path st names))"
  using assms
proof (induction names arbitrary: name sub_path st)
  case Nil
  then have "name = []" by (simp split: if_splits)
  then show ?case by (simp add: wash_loop.simps norm_path_def)
next
  case (Cons n names)
  have "name \<noteq> []" using Cons.prems(2) by (cases "name = []") simp_all
  then have n: "name = n" "name \<noteq> []" and ns: "names = rest sub_path" using Cons.prems(2) by simp_all
  have "\<forall>c \<in> set (rest sub_path). length c \<le> 16" using Cons.prems(3) ns by auto
  then obtain name' sub_path' where nn: "next_name sub_path = Some (name', sub_path')"
    "rest sub_path = (if name' = [] then [] else name' # rest sub_path')"
    by (rule next_name_components)
  have st: "\<forall>n \<in> set (norm_step st name). n \<noteq> [] \<and> 0x2f \<notin> set n"
    using norm_step_ok [of st name] Cons.prems(1,3) n by simp
  have sz: "path_size (norm_step st name) + path_size names < 512"
    using path_size_norm_step [of st name] Cons.prems(4) n by simp
  have "wash_loop name' sub_path' (stack_path (norm_step st name)) = Some (stack_path (norm_path (norm_step st name) names))"
  proof (rule Cons.IH)
    show "names = (if name' = [] then [] else name' # rest sub_path')" using ns nn(2) by (rule trans)
    show "\<forall>c \<in> set names. c \<noteq> [] \<and> 0x2f \<notin> set c \<and> length c < 16" using Cons.prems(3) by simp
  qed (rule st sz)+
  moreover have "length (stack_path (norm_step st name)) < MAX_PATH_LEN" using sz by (intro length_stack_path_less) simp
  moreover have "length name \<noteq> MAX_FILE_NAME_LEN" using Cons.prems(3) n by (auto simp: MAX_FILE_NAME_LEN_def)
  ultimately show ?case
    using nn(1) n wash_round [OF Cons.prems(1), of name]
    by (subst wash_loop.simps) (simp add: Let_def norm_path_def)
qed

text \<open>The names on the stack are those of the path it stands for.\<close>

lemma components_stack_path:
  assumes "\<forall>n \<in> set st. n \<noteq> [] \<and> 0x2f \<notin> set n"
  shows "components (stack_path st) = st"
proof (cases "st = []")
  case False
  have run: "split_path acc (join_path ns) = (if acc = [] then [] else [acc]) @ ns"
    if "\<forall>n \<in> set ns. n \<noteq> [] \<and> 0x2f \<notin> set n" for acc ns
    using that
  proof (induction ns arbitrary: acc)
    case (Cons n ns)
    have "split_path [] (n @ join_path ns) = split_path n (join_path ns)"
      using Cons.prems split_path_run [of n "[]" "join_path ns"] by simp
    then show ?case using Cons by (simp add: join_path_def)
  qed (simp add: join_path_def)
  then show ?thesis using run [OF assms, of "[]"] False by (simp add: components_def stack_path_def)
qed (simp add: components_def stack_path_def)

definition plain :: "u8 list list \<Rightarrow> bool" where
  "plain names \<longleftrightarrow> [0x2e] \<notin> set names \<and> [0x2e, 0x2e] \<notin> set names"

lemma norm_path_plain: "plain st \<Longrightarrow> plain (norm_path st names)"
proof (induction names arbitrary: st)
  case (Cons n names)
  have "plain (norm_step st n)" using Cons.prems by (auto simp: norm_step_def plain_def dest: in_set_butlastD)
  then show ?case using Cons.IH by (simp add: norm_path_def)
qed (simp add: norm_path_def)

lemma norm_path_of_plain: "plain names \<Longrightarrow> norm_path st names = st @ names"
  by (induction names arbitrary: st) (auto simp: norm_path_def norm_step_def plain_def)

lemma norm_path_names: "set (norm_path st names) \<subseteq> set st \<union> set names"
proof (induction names arbitrary: st)
  case (Cons n names)
  have "set (norm_step st n) \<subseteq> set st \<union> {n}" by (auto simp: norm_step_def dest: in_set_butlastD)
  then show ?case using Cons.IH [of "norm_step st n"] by (auto simp: norm_path_def)
qed (simp add: norm_path_def)

lemma wash_path_norm:
  assumes "path \<noteq> []" "hd path = 0x2f" "length path < MAX_PATH_LEN"
    "\<forall>c \<in> set (components path). length c < MAX_FILE_NAME_LEN"
  shows "wash_path path = Some (stack_path (norm_path [] (components path)))"
proof -
  have len: "\<forall>c \<in> set (rest (Some path)). length c \<le> 16" using assms(4) by (auto simp: MAX_FILE_NAME_LEN_def)
  obtain name sub_path where nn: "next_name (Some path) = Some (name, sub_path)"
    "rest (Some path) = (if name = [] then [] else name # rest sub_path)"
    by (rule next_name_components [OF len])
  have ok: "\<forall>c \<in> set (components path). c \<noteq> [] \<and> 0x2f \<notin> set c \<and> length c < 16"
    using components_no_slash assms(4) by (auto simp: MAX_FILE_NAME_LEN_def)
  obtain xs where "path = 0x2f # xs" using assms(1,2) by (cases path) auto
  then have sz: "path_size (components path) < 512"
    using path_size_components [of xs] assms(3) by (simp add: MAX_PATH_LEN_def)
  have "wash_loop name sub_path (stack_path []) = Some (stack_path (norm_path [] (components path)))"
  proof (rule wash_loop_norm)
    show "components path = (if name = [] then [] else name # rest sub_path)" using nn(2) by (simp only: option.case)
    show "path_size [] + path_size (components path) < 512" using sz by simp
  qed (use ok in simp_all)
  then have w: "wash_loop name sub_path [0x2f] = Some (stack_path (norm_path [] (components path)))"
    by (simp add: stack_path_def)
  show ?thesis
  proof (cases "name = []")
    case True
    then have "components path = []" using nn(2) by simp
    then show ?thesis using True assms(1,2) nn(1) by (simp add: wash_path_def stack_path_def norm_path_def)
  next
    case False
    then show ?thesis using w assms(1,2) nn(1) by (simp add: wash_path_def)
  qed
qed

section \<open>Properties\<close>

text \<open>Property C37: \<^verbatim>\<open>wash_path\<close> computes the normal form of an absolute path: it is the path of the stack that is
  left when the names are pushed one by one, \<^verbatim>\<open>.\<close> is dropped and \<^verbatim>\<open>..\<close> removes the name pushed last, at the
  root none. The result has neither \<^verbatim>\<open>.\<close> nor \<^verbatim>\<open>..\<close> among its names, and cleaning it again does not change
  it.\<close>

theorem wash_path_normal_form:
  assumes "path \<noteq> []" "hd path = 0x2f" "length path < MAX_PATH_LEN"
    "\<forall>c \<in> set (components path). length c < MAX_FILE_NAME_LEN"
  shows "\<exists>q. wash_path path = Some q \<and> components q = norm_path [] (components path) \<and>
    plain (components q) \<and> wash_path q = Some q"
proof -
  let ?st = "norm_path [] (components path)"
  let ?q = "stack_path ?st"
  have sub: "set ?st \<subseteq> set (components path)" using norm_path_names [of "[]" "components path"] by simp
  then have ok: "\<forall>n \<in> set ?st. n \<noteq> [] \<and> 0x2f \<notin> set n" using components_no_slash by blast
  have c: "components ?q = ?st" using ok by (rule components_stack_path)
  have p: "plain ?st" by (rule norm_path_plain) (simp add: plain_def)
  have w: "wash_path path = Some ?q" using assms by (rule wash_path_norm)
  have sz: "path_size (norm_path st names) \<le> path_size st + path_size names" for st names
  proof (induction names arbitrary: st)
    case (Cons n names)
    show ?case using path_size_norm_step [of st n] Cons.IH [of "norm_step st n"] by (simp add: norm_path_def)
  qed (simp add: norm_path_def)
  obtain xs where xs: "path = 0x2f # xs" using assms(1,2) by (cases path) auto
  then have "path_size ?st < 512"
    using path_size_components [of xs] assms(3) sz [of "[]" "components path"] by (simp add: MAX_PATH_LEN_def)
  then have "length ?q < MAX_PATH_LEN" by (rule length_stack_path_less)
  moreover have "?q \<noteq> [] \<and> hd ?q = 0x2f" by (cases ?st) (simp_all add: stack_path_def join_path_def)
  moreover have "\<forall>c \<in> set (components ?q). length c < MAX_FILE_NAME_LEN" using sub assms(4) c by auto
  ultimately have "wash_path ?q = Some (stack_path (norm_path [] (components ?q)))" by (intro wash_path_norm) simp_all
  then have "wash_path ?q = Some ?q" using c norm_path_of_plain [OF p, of "[]"] by simp
  then show ?thesis using w c p by auto
qed

text \<open>The path \<^verbatim>\<open>/a/./b/../c\<close> and its normal form \<^verbatim>\<open>/a/c\<close>.\<close>

theorem wash_path_normal_form_witness:
  "\<exists>q. wash_path [0x2f, 0x61, 0x2f, 0x2e, 0x2f, 0x62, 0x2f, 0x2e, 0x2e, 0x2f, 0x63] = Some q \<and> components q = [[0x61], [0x63]] \<and>
    plain (components q) \<and> wash_path q = Some q"
proof -
  let ?p = "[0x2f, 0x61, 0x2f, 0x2e, 0x2f, 0x62, 0x2f, 0x2e, 0x2e, 0x2f, 0x63] :: u8 list"
  have c: "components ?p = [[0x61], [0x2e], [0x62], [0x2e, 0x2e], [0x63]]" by (simp add: components_def)
  have "norm_path [] (components ?p) = [[0x61], [0x63]]" unfolding c by (simp add: norm_path_def norm_step_def)
  moreover have "length ?p < MAX_PATH_LEN" "\<forall>c \<in> set (components ?p). length c < MAX_FILE_NAME_LEN"
    unfolding c by (simp_all add: MAX_PATH_LEN_def MAX_FILE_NAME_LEN_def)
  ultimately show ?thesis using wash_path_normal_form [of ?p] by simp
qed

section \<open>Words and edited lines\<close>

text \<open>The words of a string: its maximal runs of bytes other than the separator.\<close>

fun words :: "u8 \<Rightarrow> u8 list \<Rightarrow> u8 list \<Rightarrow> u8 list list" where
  "words tok acc [] = (if acc = [] then [] else [acc])"
| "words tok acc (c # cs) = (if c = tok then (if acc = [] then [] else [acc]) @ words tok [] cs else words tok (acc @ [c]) cs)"

lemma words_skip: "words tok [] (dropWhile (\<lambda>c. c = tok) cs) = words tok [] cs"
  by (induction cs) auto

lemma words_run: "words tok acc (takeWhile (\<lambda>c. c \<noteq> tok) cs @ ys) = words tok (acc @ takeWhile (\<lambda>c. c \<noteq> tok) cs) ys"
  by (induction cs arbitrary: acc) auto

lemma words_first:
  assumes "cs \<noteq> []" "hd cs \<noteq> tok"
  shows "words tok [] cs = takeWhile (\<lambda>c. c \<noteq> tok) cs # words tok [] (drop 1 (dropWhile (\<lambda>c. c \<noteq> tok) cs))"
proof -
  let ?w = "takeWhile (\<lambda>c. c \<noteq> tok) cs" and ?r = "dropWhile (\<lambda>c. c \<noteq> tok) cs"
  have ne: "?w \<noteq> []" using assms by (cases cs) auto
  have "words tok [] cs = words tok ?w ?r" using words_run [of tok "[]" cs ?r] by simp
  moreover have "words tok ?w ?r = ?w # words tok [] (drop 1 ?r)"
  proof (cases ?r)
    case (Cons a as)
    then have "a = tok" using hd_dropWhile [of "\<lambda>c. c \<noteq> tok" cs] by auto
    then show ?thesis using Cons ne by simp
  next
    case Nil
    show ?thesis unfolding Nil using ne by simp
  qed
  ultimately show ?thesis by simp
qed

lemma parse_words_words:
  "length argv \<le> 16 \<Longrightarrow>
   parse_words tok nxt argv = (if length argv + length (words tok [] nxt) \<le> 16 then Some (argv @ words tok [] nxt) else None)"
proof (induction tok nxt argv rule: parse_words.induct)
  case (1 tok nxt argv)
  define x where "x = dropWhile (\<lambda>c. c = tok) nxt"
  have w: "words tok [] nxt = words tok [] x" unfolding x_def by (rule words_skip [symmetric])
  show ?case
  proof (cases "x = []")
    case True
    then show ?thesis using 1(2) w unfolding parse_words.simps [of tok nxt argv] x_def [symmetric] by (simp add: Let_def)
  next
    case False
    then have "hd x \<noteq> tok" unfolding x_def by (rule hd_dropWhile)
    note wf = words_first [OF False this]
    show ?thesis
    proof (cases "length argv \<ge> 16")
      case True
      then show ?thesis using 1(2) False w wf unfolding parse_words.simps [of tok nxt argv] x_def [symmetric] by (simp add: Let_def)
    next
      case less: False
      then show ?thesis using 1(1) [OF x_def False less] 1(2) False w wf
        unfolding parse_words.simps [of tok nxt argv] x_def [symmetric] by (simp add: Let_def)
    qed
  qed
qed

text \<open>What the editing keys do to a line.\<close>

definition edit_key :: "u8 list \<Rightarrow> u8 \<Rightarrow> u8 list" where
  "edit_key line key =
     (if key = 0x8 then butlast line else if key = 11 then line else if key = 20 then [] else line @ [key])"

lemma edit_key_no_bs: "0x8 \<notin> set line \<Longrightarrow> 0x8 \<notin> set (edit_key line key)"
  by (auto simp: edit_key_def dest: in_set_butlastD)

lemma readline_loop_edits:
  assumes "length buf = 128" "take pos buf = line" "length line = pos" "0x8 \<notin> set line"
    "pos + length keys < 128" "set keys \<inter> {0xa, 0xd} = {}" "nl = 0xa \<or> nl = 0xd"
  shows "readline_loop (keys @ nl # keys') buf pos = Some (Line (foldl edit_key line keys) keys')"
  using assms
proof (induction keys arbitrary: buf pos line)
  case Nil
  then show ?case by (auto simp: put_at_def)
next
  case (Cons key keys)
  note IH = Cons.IH [OF _ _ _ edit_key_no_bs [OF Cons.prems(4), of key] _ _ Cons.prems(7)]
  let ?b = "take pos buf @ key # drop (Suc pos) buf"
  have pos: "pos < 128" using Cons.prems(5) by simp
  have put: "put_at pos [k] b = Some (take pos b @ k # drop (Suc pos) b)" if "length b = 128" for k b
    using that pos by (simp add: put_at_def)
  note pb = put [OF Cons.prems(1), of key]
  have l: "length ?b = 128" "take pos ?b = line" using Cons.prems(1-3) pos by simp_all
  have nx: "key \<noteq> 0xa" "key \<noteq> 0xd" "set keys \<inter> {0xa, 0xd} = {}" using Cons.prems(6) by auto
  consider (bs) "key = 0x8" | (cl) "key = 11" | (cu) "key = 20" | (ch) "key \<noteq> 0x8" "key \<noteq> 11" "key \<noteq> 20" by blast
  then show ?case
  proof cases
    case bs
    show ?thesis
    proof (cases "pos = 0")
      case True
      then have "?b ! 0 = 0x8" "line = []" using bs Cons.prems(3) by simp_all
      moreover have "edit_key line key = []" using bs \<open>line = []\<close> by (simp add: edit_key_def)
      ultimately show ?thesis using IH [of ?b pos] bs l nx Cons.prems(1,5) True pb by simp
    next
      case False
      then have "?b ! 0 = line ! 0" "line ! 0 \<in> set line" using Cons.prems(1,2,3) pos by (auto simp: nth_append)
      then have "?b ! 0 \<noteq> 0x8" using Cons.prems(4) by auto
      moreover have "take (pos - 1) ?b = butlast line" using Cons.prems(1,2,3) pos by (auto simp: butlast_conv_take)
      moreover have "edit_key line key = butlast line" using bs by (simp add: edit_key_def)
      ultimately show ?thesis using IH [of ?b "pos - 1"] bs l nx Cons.prems(1,3,5) pb by simp
    qed
  next
    case cl
    have "take pos ?b @ 0 # drop (Suc pos) ?b = take pos buf @ 0 # drop (Suc pos) buf" using Cons.prems(1) pos by simp
    moreover have "edit_key line key = line" using cl by (simp add: edit_key_def)
    ultimately show ?thesis
      using IH [of "take pos buf @ 0 # drop (Suc pos) buf" pos] cl l nx Cons.prems(1,2,3,5) pos pb put [OF l(1), of 0]
      by simp
  next
    case cu
    have "edit_key line key = []" using cu by (simp add: edit_key_def)
    moreover obtain bb where "put_at pos [20] buf = Some bb" "length bb = 128" using pb l(1) cu by blast
    ultimately show ?thesis
      using IH [of "map (\<lambda>i. if 0 < i \<and> i \<le> pos then 0 else bb ! i) [0..<128]" 0] cu nx Cons.prems(5)
      by simp
  next
    case ch
    have "take (Suc pos) ?b = line @ [key]" using Cons.prems(1,2,3) pos by simp
    moreover have "edit_key line key = line @ [key]" using ch by (simp add: edit_key_def)
    ultimately show ?thesis using IH [of ?b "Suc pos"] ch l nx Cons.prems(1,3,5) pb by simp
  qed
qed

text \<open>Property C38: \<^verbatim>\<open>cmd_parse\<close> returns the words of the command, in their order, when there are at most 16 of them;
  with more it stores behind the end of \<^verbatim>\<open>argv\<close>.\<close>

theorem cmd_parse_words:
  "cmd_parse cmd_str tok = (if length (words tok [] cmd_str) \<le> 16 then Some (words tok [] cmd_str) else None)"
  using parse_words_words [of "[]" tok cmd_str] by (simp add: cmd_parse_def)

text \<open>Remark: \<^verbatim>\<open>readline\<close> returns at the first carriage return or line feed with the line that the keys before
  it edit: a backspace removes the last character, Ctrl-U all, Ctrl-L none and every other key is added. The
  keys behind are not read.\<close>

theorem readline_edits:
  assumes "length keys < 128" "set keys \<inter> {0xa, 0xd} = {}" "nl = 0xa \<or> nl = 0xd"
  shows "readline (keys @ nl # keys') = Some (Line (foldl edit_key [] keys) keys')"
  using assms readline_loop_edits [of "replicate 128 0" 0 "[]" keys nl keys'] by (simp add: readline_def)

theorem readline_edits_witness:
  "readline [0x6c, 0x78, 0x8, 0x73, 0xd, 0x61] = Some (Line [0x6c, 0x73] [0x61])"
  using readline_edits [of "[0x6c, 0x78, 0x8, 0x73]" "0xd" "[0x61]"] by (simp add: edit_key_def)

end
