(* ===== verification/Kproc.thy ===== *)
theory Kproc
  imports Kmemory
begin

text \<open>
  The life of threads and processes: the pid pool, the creation and the end of threads and the search of a
  thread by its pid (\<^verbatim>\<open>src/thread/thread.c\<close>), and the creation of user processes
  (\<^verbatim>\<open>src/userproc/process.c\<close>). The state extends that of the memory manager by the pid pool, by the
  addresses of the bitmaps of the processes, and by the structures on the kernel stacks, which are found by
  their addresses. The fields of a control block are read without a page walk. A string is the list of its bytes
  without the NUL byte.

  The theory shows that the pid pool is a \<open>bit_pool\<close>, so that a pid in use is never handed out again, and which
  part of the state the operations on kernel pages can change. What the creation and the end of threads keep of
  the process table is shown in \<open>Kprocsys\<close>.
\<close>

section \<open>Data\<close>

text \<open>Code addresses: the entry points that the kernel stores, and addresses in programs.\<close>

datatype code = Kernel_thread | Start_process | Idle | Init | Intr_exit | Program u32

record intr_stack =
  i_vec_no :: u32
  i_edi :: u32
  i_esi :: u32
  i_ebp :: u32
  i_esp_dummy :: u32
  i_ebx :: u32
  i_edx :: u32
  i_ecx :: u32
  i_eax :: u32
  i_gs :: u32
  i_fs :: u32
  i_es :: u32
  i_ds :: u32
  i_err_code :: u32
  i_eip :: code
  i_cs :: u32
  i_eflags :: u32
  i_esp :: u32
  i_ss :: u32

record thread_stack =
  t_ebp :: u32
  t_ebx :: u32
  t_edi :: u32
  t_esi :: u32
  t_eip :: code
  t_unused_retaddr :: u32
  t_function :: code
  t_func_arg :: code

record procs = kmem +
  pid_bitmap :: bitmap
  pid_start :: u32
  pid_lock :: lock
  vaddr_bits :: "u32 \<Rightarrow> u32"
  intr_stacks :: "u32 \<Rightarrow> intr_stack"
  thread_stacks :: "u32 \<Rightarrow> thread_stack"

definition sizeof_intr_stack :: u32 where "sizeof_intr_stack = 76"
definition sizeof_thread_stack :: u32 where "sizeof_thread_stack = 32"
definition TASK_NAME_LEN :: nat where "TASK_NAME_LEN = 16"
definition default_prio :: u8 where "default_prio = 31"
definition USER_STACK3_VADDR :: u32 where "USER_STACK3_VADDR = 0xc0000000 - 0x1000"
definition USER_VADDR_START :: u32 where "USER_VADDR_START = 0x8048000"

section \<open>Process numbers\<close>

definition pid_pool_init :: "'a procs_scheme \<Rightarrow> 'a procs_scheme" where
  "pid_pool_init k = k\<lparr>pid_start := 1, pid_bitmap := bitmap_init ((pid_bitmap k)\<lparr>btmp_bytes_len := 128\<rparr>),
     pid_lock := lock_init\<rparr>"

definition lock_pids :: "'a procs_scheme \<Rightarrow> 'a procs_scheme option" where
  "lock_pids k = do { (lk, k) \<leftarrow> lock_enter (pid_lock k) k; Some (k\<lparr>pid_lock := lk\<rparr>) }"

definition unlock_pids :: "'a procs_scheme \<Rightarrow> 'a procs_scheme option" where
  "unlock_pids k = do { (lk, k) \<leftarrow> lock_release (pid_lock k) k; Some (k\<lparr>pid_lock := lk\<rparr>) }"

definition allocate_pid :: "'a procs_scheme \<Rightarrow> (u16 \<times> 'a procs_scheme) option" where
  "allocate_pid k = do {
     k \<leftarrow> lock_pids k;
     bit_idx \<leftarrow> bitmap_scan (pid_bitmap k) 1;
     bm \<leftarrow> bitmap_set (pid_bitmap k) bit_idx 1;
     k \<leftarrow> unlock_pids (k\<lparr>pid_bitmap := bm\<rparr>);
     Some (ucast (bit_idx + pid_start k), k)
   }"

definition release_pid :: "u16 \<Rightarrow> 'a procs_scheme \<Rightarrow> 'a procs_scheme option" where
  "release_pid p k = do {
     k \<leftarrow> lock_pids k;
     let bit_idx = scast p - pid_start k;
     bm \<leftarrow> bitmap_set (pid_bitmap k) bit_idx 0;
     unlock_pids (k\<lparr>pid_bitmap := bm\<rparr>)
   }"

definition fork_pid :: "'a procs_scheme \<Rightarrow> (u16 \<times> 'a procs_scheme) option" where
  "fork_pid k = allocate_pid k"

section \<open>Making threads\<close>

text \<open>\<^verbatim>\<open>self_kstack\<close> is a pointer to words, so subtracting the size of a structure moves it by four times as many
  bytes.\<close>

definition thread_create :: "u32 \<Rightarrow> code \<Rightarrow> code \<Rightarrow> 'a procs_scheme \<Rightarrow> 'a procs_scheme" where
  "thread_create pthread fn arg k =
     (let sp = self_kstack (task k pthread) - 4 * sizeof_intr_stack;
          sp = sp - 4 * sizeof_thread_stack;
          k = set_task pthread (\<lambda>t. t\<lparr>self_kstack := sp\<rparr>) k
      in k\<lparr>thread_stacks := (thread_stacks k)(sp := (thread_stacks k sp)
           \<lparr>t_eip := Kernel_thread, t_function := fn, t_func_arg := arg,
            t_ebp := 0, t_ebx := 0, t_esi := 0, t_edi := 0\<rparr>)\<rparr>)"

definition zero_desc :: mem_block_desc where
  "zero_desc = \<lparr>block_size = 0, blocks_per_arena = 0, free_list = []\<rparr>"

definition zero_vaddr :: virtual_addr where
  "zero_vaddr = \<lparr>vaddr_bitmap = \<lparr>btmp_bytes_len = 0, bits = (\<lambda>_. 0)\<rparr>, vaddr_start = 0\<rparr>"

text \<open>The control block that \<^verbatim>\<open>init_thread\<close> fills in.\<close>

definition fresh_task :: "u32 \<Rightarrow> u16 \<Rightarrow> u8 list \<Rightarrow> u8 \<Rightarrow> bool \<Rightarrow> task_struct" where
  "fresh_task pthread p nm prio main =
     \<lparr>self_kstack = pthread + PG_SIZE, pid = p, status = (if main then TASK_RUNNING else TASK_READY),
      priority = prio, name = nm @ replicate (16 - length nm) 0, ticks = prio, elapsed_ticks = 0,
      fd_table = [0, 1, 2] @ replicate 5 (-1), pgdir = 0, userproc_vaddr = zero_vaddr,
      u_block_desc = replicate DESC_CNT zero_desc, cwd_inode_nr = 0, parent_pid = -1, exit_status = 0,
      stack_magic = 0x19870916\<rparr>"

text \<open>A name that does not fit into the array of 16 bytes leaves it.\<close>

definition init_thread :: "u32 \<Rightarrow> u8 list \<Rightarrow> u8 \<Rightarrow> 'a procs_scheme \<Rightarrow> 'a procs_scheme option" where
  "init_thread pthread nm prio k = do {
     ASSERT (pthread \<noteq> 0);
     (p, k) \<leftarrow> allocate_pid k;
     ASSERT (length nm < TASK_NAME_LEN);
     Some (set_task pthread (\<lambda>_. fresh_task pthread p nm prio (pthread = main_thread k)) k)
   }"

definition append_ready :: "u32 \<Rightarrow> 'a sched_scheme \<Rightarrow> 'a sched_scheme option" where
  "append_ready t k = do {
     ASSERT (t \<notin> set (thread_ready_list k));
     Some (k\<lparr>thread_ready_list := thread_ready_list k @ [t]\<rparr>)
   }"

definition append_all :: "u32 \<Rightarrow> 'a sched_scheme \<Rightarrow> 'a sched_scheme option" where
  "append_all t k = do {
     ASSERT (t \<notin> set (thread_all_list k));
     Some (k\<lparr>thread_all_list := thread_all_list k @ [t]\<rparr>)
   }"

definition thread_start :: "u8 list \<Rightarrow> u8 \<Rightarrow> code \<Rightarrow> code \<Rightarrow> 'a procs_scheme \<Rightarrow> (u32 \<times> 'a procs_scheme) option" where
  "thread_start nm prio fn arg k = do {
     (thread, k) \<leftarrow> get_kernel_pages 1 k;
     k \<leftarrow> init_thread thread nm prio k;
     let k = thread_create thread fn arg k;
     k \<leftarrow> append_ready thread k;
     k \<leftarrow> append_all thread k;
     Some (thread, k)
   }"

definition make_main_thread :: "'a procs_scheme \<Rightarrow> 'a procs_scheme option" where
  "make_main_thread k = do {
     let k = k\<lparr>main_thread := running_thread k\<rparr>;
     k \<leftarrow> init_thread (main_thread k) [0x6d, 0x61, 0x69, 0x6e] 31 k;
     append_all (main_thread k) k
   }"

section \<open>Finding and ending threads\<close>

text \<open>\<^verbatim>\<open>list_traversal\<close> with \<^verbatim>\<open>pid_check\<close>: the first thread of the list with the pid. The pid is compared as a
  sign-extended number.\<close>

definition pid_check :: "'a sched_scheme \<Rightarrow> u32 \<Rightarrow> u32 \<Rightarrow> bool" where
  "pid_check k p t \<longleftrightarrow> scast (pid (task k t)) = p"

definition pid2thread :: "u32 \<Rightarrow> 'a sched_scheme \<Rightarrow> u32 option" where
  "pid2thread p k = find (pid_check k p) (thread_all_list k)"

text \<open>\<^verbatim>\<open>thread_exit\<close>: removing an element that is not in a list breaks the links of its old neighbours and is
  no step of the model. The pid is read when the page is free again.\<close>

definition thread_exit :: "u32 \<Rightarrow> bool \<Rightarrow> 'a procs_scheme \<Rightarrow> 'a procs_scheme option" where
  "thread_exit thread_over need_schedule k = do {
     let k = k\<lparr>cpu_eflags := snd (intr_disable (cpu_eflags k))\<rparr>;
     let k = set_task thread_over (\<lambda>t. t\<lparr>status := TASK_DIED\<rparr>) k;
     let k = (if thread_over \<in> set (thread_ready_list k)
              then k\<lparr>thread_ready_list := remove1 thread_over (thread_ready_list k)\<rparr> else k);
     k \<leftarrow> (if pgdir (task k thread_over) \<noteq> 0 then mfree_page PF_KERNEL (pgdir (task k thread_over)) 1 k else Some k);
     ASSERT (thread_over \<in> set (thread_all_list k));
     let k = k\<lparr>thread_all_list := remove1 thread_over (thread_all_list k)\<rparr>;
     k \<leftarrow> (if thread_over \<noteq> main_thread k then mfree_page PF_KERNEL thread_over 1 k else Some k);
     k \<leftarrow> release_pid (pid (task k thread_over)) k;
     if need_schedule then schedule k else Some k
   }"

section \<open>Making processes\<close>

text \<open>\<^verbatim>\<open>memcpy\<close> of aligned words.\<close>

fun vcopy :: "nat \<Rightarrow> u32 \<Rightarrow> u32 \<Rightarrow> 'a mmu_scheme \<Rightarrow> 'a mmu_scheme option" where
  "vcopy 0 dst src m = Some m"
| "vcopy (Suc n) dst src m = do {
     v \<leftarrow> vread m src;
     m \<leftarrow> vwrite m dst v;
     vcopy n (dst + 4) (src + 4) m
   }"

definition create_page_dir :: "'a procs_scheme \<Rightarrow> (u32 \<times> 'a procs_scheme) option" where
  "create_page_dir k = do {
     (page_dir_vaddr, k) \<leftarrow> get_kernel_pages 1 k;
     if page_dir_vaddr = 0 then Some (0, k)
     else do {
       k \<leftarrow> vcopy 256 (page_dir_vaddr + 0x300 * 4) (0xfffff000 + 0x300 * 4) k;
       new_page_dir_phy_addr \<leftarrow> addr_v2p k page_dir_vaddr;
       k \<leftarrow> vwrite k (page_dir_vaddr + 1023 * 4) (new_page_dir_phy_addr OR PG_US_U OR PG_RW_W OR PG_P_1);
       Some (page_dir_vaddr, k)
     }
   }"

definition bitmap_pg_cnt :: u32 where
  "bitmap_pg_cnt = DIV_ROUND_UP ((0xc0000000 - USER_VADDR_START) div PG_SIZE div 8) PG_SIZE"

definition create_user_vaddr_bitmap :: "u32 \<Rightarrow> 'a procs_scheme \<Rightarrow> 'a procs_scheme option" where
  "create_user_vaddr_bitmap user_proc k = do {
     (bs, k) \<leftarrow> get_kernel_pages bitmap_pg_cnt k;
     ASSERT (bs \<noteq> 0);
     let k = k\<lparr>vaddr_bits := (vaddr_bits k)(user_proc := bs)\<rparr>;
     Some (set_task user_proc (\<lambda>t. t\<lparr>userproc_vaddr :=
       \<lparr>vaddr_bitmap = bitmap_init \<lparr>btmp_bytes_len = (0xc0000000 - USER_VADDR_START) div PG_SIZE div 8, bits = (\<lambda>_. 0)\<rparr>,
        vaddr_start = USER_VADDR_START\<rparr>\<rparr>) k)
   }"

definition process_execute :: "code \<Rightarrow> u8 list \<Rightarrow> 'a procs_scheme \<Rightarrow> 'a procs_scheme option" where
  "process_execute filename nm k = do {
     (thread, k) \<leftarrow> get_kernel_pages 1 k;
     k \<leftarrow> init_thread thread nm default_prio k;
     k \<leftarrow> create_user_vaddr_bitmap thread k;
     let k = thread_create thread Start_process filename k;
     (pd, k) \<leftarrow> create_page_dir k;
     let k = set_task thread (\<lambda>t. t\<lparr>pgdir := pd, u_block_desc := block_desc_init\<rparr>) k;
     let (old_status, fl) = intr_disable (cpu_eflags k);
     let k = k\<lparr>cpu_eflags := fl\<rparr>;
     k \<leftarrow> append_ready thread k;
     k \<leftarrow> append_all thread k;
     Some (k\<lparr>cpu_eflags := snd (intr_set_status old_status (cpu_eflags k))\<rparr>)
   }"

text \<open>\<^verbatim>\<open>start_process\<close> up to the jump to \<^verbatim>\<open>intr_exit\<close>; the result is the address of the structure that the jump
  restores.\<close>

definition start_process :: "code \<Rightarrow> 'a procs_scheme \<Rightarrow> (u32 \<times> 'a procs_scheme) option" where
  "start_process filename' k = do {
     let cur = running_thread k;
     let k = set_task cur (\<lambda>t. t\<lparr>self_kstack := self_kstack t + 4 * sizeof_thread_stack\<rparr>) k;
     let proc_stack = self_kstack (task k cur);
     (st, k) \<leftarrow> get_a_page PF_USER USER_STACK3_VADDR k;
     Some (proc_stack, k\<lparr>intr_stacks := (intr_stacks k)(proc_stack := (intr_stacks k proc_stack)
       \<lparr>i_edi := 0, i_esi := 0, i_ebp := 0, i_esp_dummy := 0, i_ebx := 0, i_edx := 0, i_ecx := 0, i_eax := 0,
        i_gs := 0, i_ds := ucast SELECTOR_U_DATA, i_es := ucast SELECTOR_U_DATA, i_fs := ucast SELECTOR_U_DATA,
        i_eip := filename', i_cs := ucast SELECTOR_U_CODE, i_eflags := 0x202,
        i_esp := st + PG_SIZE, i_ss := ucast SELECTOR_U_DATA\<rparr>)\<rparr>)
   }"

definition thread_init :: "'a procs_scheme \<Rightarrow> 'a procs_scheme option" where
  "thread_init k = do {
     let k = k\<lparr>thread_ready_list := [], thread_all_list := []\<rparr>;
     let k = pid_pool_init k;
     k \<leftarrow> process_execute Init [0x69, 0x6e, 0x69, 0x74] k;
     k \<leftarrow> make_main_thread k;
     (t, k) \<leftarrow> thread_start [0x69, 0x64, 0x6c, 0x65] 10 Idle (Program 0) k;
     Some (k\<lparr>idle_thread := t\<rparr>)
   }"

section \<open>What memory operations leave alone\<close>

lemma set_task_procs [simp]:
  "pid_bitmap (set_task t f k) = pid_bitmap k" "pid_start (set_task t f k) = pid_start k" "pid_lock (set_task t f k) = pid_lock k"
  "vaddr_bits (set_task t f k) = vaddr_bits k" "intr_stacks (set_task t f k) = intr_stacks k"
  "thread_stacks (set_task t f k) = thread_stacks k"
  by (simp_all add: set_task_def)

text \<open>Operations on kernel pages change the physical memory, the bitmaps of the pools and the kernel's address
  pool only.\<close>

definition mem_upd :: "(u32 \<Rightarrow> u32) \<Rightarrow> pool \<Rightarrow> pool \<Rightarrow> virtual_addr \<Rightarrow> 'a kmem_scheme \<Rightarrow> 'a kmem_scheme" where
  "mem_upd p kp up kv k = k\<lparr>phys := p, kernel_pool := kp, user_pool := up, kernel_vaddr := kv\<rparr>"

definition mem_only :: "'a kmem_scheme \<Rightarrow> 'a kmem_scheme \<Rightarrow> bool" where
  "mem_only k k' \<longleftrightarrow> k' = mem_upd (phys k') (kernel_pool k') (user_pool k') (kernel_vaddr k') k \<and>
     pool_lock (kernel_pool k') = pool_lock (kernel_pool k) \<and> pool_lock (user_pool k') = pool_lock (user_pool k)"

lemma mem_only_refl [simp]: "mem_only k k"
  by (simp add: mem_only_def mem_upd_def)

lemma mem_only_trans [trans]: "mem_only k k1 \<Longrightarrow> mem_only k1 k2 \<Longrightarrow> mem_only k k2"
  unfolding mem_only_def mem_upd_def by (cases k; cases k1; cases k2) auto

lemma mem_only_upd [simp]:
  "mem_only k (k\<lparr>phys := p\<rparr>)" "mem_only k (k\<lparr>kernel_vaddr := kv\<rparr>)"
  "pool_lock kp = pool_lock (kernel_pool k) \<Longrightarrow> mem_only k (k\<lparr>kernel_pool := kp\<rparr>)"
  "pool_lock up = pool_lock (user_pool k) \<Longrightarrow> mem_only k (k\<lparr>user_pool := up\<rparr>)"
  by (simp_all add: mem_only_def mem_upd_def)

lemma mem_only_fields:
  assumes "mem_only k k'"
  shows "task k' = task k" "thread_ready_list k' = thread_ready_list k" "thread_all_list k' = thread_all_list k"
    "current k' = current k" "cpu_eflags k' = cpu_eflags k" "idle_thread k' = idle_thread k"
    "main_thread k' = main_thread k" "cr3 k' = cr3 k" "kmem.more k' = kmem.more k"
    "pool_lock (kernel_pool k') = pool_lock (kernel_pool k)" "pool_lock (user_pool k') = pool_lock (user_pool k)"
proof -
  have k': "k' = mem_upd (phys k') (kernel_pool k') (user_pool k') (kernel_vaddr k') k" using assms by (simp add: mem_only_def)
  show "task k' = task k" "thread_ready_list k' = thread_ready_list k" "thread_all_list k' = thread_all_list k"
    "current k' = current k" "cpu_eflags k' = cpu_eflags k" "idle_thread k' = idle_thread k"
    "main_thread k' = main_thread k" "cr3 k' = cr3 k" "kmem.more k' = kmem.more k"
    by (subst k', simp add: mem_upd_def)+
qed (use assms in \<open>simp_all add: mem_only_def\<close>)

lemma mem_only_procs:
  assumes "mem_only k (k' :: 'a procs_scheme)"
  shows "pid_bitmap k' = pid_bitmap k" "pid_start k' = pid_start k" "pid_lock k' = pid_lock k"
    "vaddr_bits k' = vaddr_bits k" "intr_stacks k' = intr_stacks k" "thread_stacks k' = thread_stacks k"
proof -
  have k': "k' = mem_upd (phys k') (kernel_pool k') (user_pool k') (kernel_vaddr k') k" using assms by (simp add: mem_only_def)
  show "pid_bitmap k' = pid_bitmap k" "pid_start k' = pid_start k" "pid_lock k' = pid_lock k"
    "vaddr_bits k' = vaddr_bits k" "intr_stacks k' = intr_stacks k" "thread_stacks k' = thread_stacks k"
    by (subst k', simp add: mem_upd_def)+
qed

lemma mem_only_pool: "pool_lock p = pool_lock (get_pool pf k) \<Longrightarrow> mem_only k (set_pool pf p k)"
  by (cases pf) (simp_all add: set_pool_def get_pool_def)

lemma mem_only_vaddr [simp]: "mem_only k (set_vaddr PF_KERNEL v k)"
  by (simp add: set_vaddr_def)

lemma pmalloc_lock: "pmalloc p = Some (f, p') \<Longrightarrow> pool_lock p' = pool_lock p"
  by (auto simp: pmalloc_def Option.bind_eq_Some_conv split: if_splits)

lemma mem_only_vwrite: "vwrite k a v = Some k' \<Longrightarrow> mem_only k k'"
  by (auto simp: vwrite_def Option.bind_eq_Some_conv)

lemma mem_only_vzero: "vzero k a n = Some k' \<Longrightarrow> mem_only k k'"
  by (auto simp: vzero_def Option.bind_eq_Some_conv)

lemma mem_only_vzero_pages: "vzero_pages n a k = Some k' \<Longrightarrow> mem_only k k'"
  by (induction n arbitrary: a k) (auto simp: Option.bind_eq_Some_conv dest: mem_only_vzero intro: mem_only_trans)

lemma mem_only_vcopy: "vcopy n d a k = Some k' \<Longrightarrow> mem_only k k'"
  by (induction n arbitrary: d a k) (auto simp: Option.bind_eq_Some_conv dest: mem_only_vwrite intro: mem_only_trans)

lemma mem_only_page_table_add:
  assumes "page_table_add a f k = Some k'"
  shows "mem_only k k'"
proof -
  obtain pde where pde: "vread k (pde_ptr a) = Some pde" using assms by (auto simp: page_table_add_def Option.bind_eq_Some_conv)
  show ?thesis
  proof (cases "pde AND 1 = 0")
    case False
    then show ?thesis using assms pde by (auto simp: page_table_add_def Option.bind_eq_Some_conv dest: mem_only_vwrite)
  next
    case True
    then obtain t p k1 k2 where s: "pmalloc (kernel_pool k) = Some (t, p)" "vwrite (k\<lparr>kernel_pool := p\<rparr>) (pde_ptr a) (entry t) = Some k1"
      "vzero k1 (pte_ptr a AND 0xfffff000) PG_SIZE = Some k2" "vwrite k2 (pte_ptr a) (entry f) = Some k'"
      using assms pde by (auto simp: page_table_add_def Option.bind_eq_Some_conv Let_def)
    have "mem_only k (k\<lparr>kernel_pool := p\<rparr>)" using pmalloc_lock [OF s(1)] by simp
    then show ?thesis using mem_only_vwrite [OF s(2)] mem_only_vzero [OF s(3)] mem_only_vwrite [OF s(4)] by (blast intro: mem_only_trans)
  qed
qed

lemma mem_only_pmalloc: "pmalloc (get_pool pf k) = Some (f, p) \<Longrightarrow> mem_only k (set_pool pf p k)"
  by (rule mem_only_pool) (rule pmalloc_lock)

lemma mem_only_malloc_loop: "malloc_loop n pf a k = Some (r, k') \<Longrightarrow> mem_only k k'"
proof (induction n arbitrary: a k)
  case (Suc n)
  then obtain f p where p: "pmalloc (get_pool pf k) = Some (f, p)" by (auto simp: Option.bind_eq_Some_conv)
  note m = mem_only_pmalloc [OF p]
  show ?case
  proof (cases "f = 0")
    case True
    then show ?thesis using Suc.prems p m by simp
  next
    case False
    then obtain k1 where "page_table_add a f (set_pool pf p k) = Some k1" "malloc_loop n pf (a + PG_SIZE) k1 = Some (r, k')"
      using Suc.prems p by (auto simp: Option.bind_eq_Some_conv)
    then show ?thesis using m mem_only_page_table_add Suc.IH by (blast intro: mem_only_trans)
  qed
qed simp

lemma mem_only_get_kernel_pages:
  assumes "get_kernel_pages n k = Some (a, k')"
  shows "mem_only k k'"
proof -
  have v: "mem_only k k1" if "vaddr_get PF_KERNEL n k = Some (b, k1)" for b k1
    using that by (auto simp: vaddr_get_def Let_def Option.bind_eq_Some_conv split: if_splits)
  have m: "mem_only k k1" if "malloc_page PF_KERNEL n k = Some (b, k1)" for b k1
    using that by (auto simp: malloc_page_def Option.bind_eq_Some_conv ASSERT_def split: if_splits
        dest!: v mem_only_malloc_loop intro: mem_only_trans)
  show ?thesis
    using assms by (auto simp: get_kernel_pages_def Option.bind_eq_Some_conv split: if_splits
        dest!: m mem_only_vzero_pages intro: mem_only_trans)
qed

lemma mem_only_bitmap: "mem_only k (set_pool pf ((get_pool pf k)\<lparr>pool_bitmap := bm\<rparr>) k)"
  by (rule mem_only_pool) simp

lemma mem_only_free_a_phy_page: "free_a_phy_page a k = Some k' \<Longrightarrow> mem_only k k'"
  by (auto simp: free_a_phy_page_def Let_def Option.bind_eq_Some_conv intro: mem_only_bitmap)

lemma mem_only_mfree_page:
  assumes "mfree_page PF_KERNEL a n k = Some k'"
  shows "mem_only k k'"
proof -
  have r: "mem_only k1 k2" if "page_table_pte_remove k1 b = Some k2" for b and k1 k2 :: "'a kmem_scheme"
    using that by (auto simp: page_table_pte_remove_def Option.bind_eq_Some_conv dest: mem_only_vwrite)
  have p: "mem_only k1 k2" if "pfree b k1 = Some k2" for b and k1 k2 :: "'a kmem_scheme"
    using that by (auto simp: pfree_def Let_def Option.bind_eq_Some_conv intro: mem_only_bitmap)
  have l: "mem_only k1 k2" if "mfree_loop m u b k1 = Some k2" for m u b and k1 k2 :: "'a kmem_scheme"
    using that
  proof (induction m arbitrary: b k1)
    case (Suc m)
    then obtain f k3 k4 where s: "pfree f k1 = Some k3" "page_table_pte_remove k3 b = Some k4"
      "mfree_loop m u (b + PG_SIZE) k4 = Some k2"
      by (auto simp: Option.bind_eq_Some_conv)
    show ?case by (rule mem_only_trans [OF p [OF s(1)] mem_only_trans [OF r [OF s(2)] Suc.IH [OF s(3)]]])
  qed simp
  show ?thesis
    using assms by (auto simp: mfree_page_def vaddr_remove_def Let_def Option.bind_eq_Some_conv ASSERT_def
        split: if_splits dest!: l intro: mem_only_trans)
qed

text \<open>A pool whose lock is free is locked and unlocked without a trace.\<close>

lemma mem_only_get_a_page_fork:
  assumes "get_a_page_without_opvaddrbitmap pf a k = Some (r, k')" "pool_lock (get_pool pf k) = lock_init" "current k \<noteq> 0"
  shows "mem_only k k'"
proof -
  let ?l = "set_pool pf ((get_pool pf k)\<lparr>pool_lock := lock_held (current k)\<rparr>) k"
  have l: "lock_pool pf k = Some ?l" using assms(2,3) by (simp add: lock_pool_def)
  have gp: "get_pool pf (set_pool pf p k1) = p" "set_pool pf q (set_pool pf p k1) = set_pool pf q k1" for p q and k1 :: "'a kmem_scheme"
    by (cases pf; simp add: get_pool_def set_pool_def)+
  have un: "mem_only k k2" if "unlock_pool pf k1 = Some k2" "mem_only ?l k1" for k1 k2
  proof -
    have f: "current k1 = current k" "pool_lock (get_pool pf k1) = lock_held (current k)"
      using mem_only_fields [OF that(2)] gp(1) by (cases pf; simp add: get_pool_def set_pool_def)+
    then have "k2 = set_pool pf ((get_pool pf k1)\<lparr>pool_lock := lock_init\<rparr>) k1"
      using that(1) lock_release_held [of k1] by (simp add: unlock_pool_def)
    then show ?thesis using that(2) assms(2) by (cases pf; cases k; cases k1)
      (auto simp: mem_only_def mem_upd_def set_pool_def get_pool_def)
  qed
  obtain f p where p: "pmalloc (get_pool pf ?l) = Some (f, p)"
    using assms(1) l by (auto simp: get_a_page_without_opvaddrbitmap_def Option.bind_eq_Some_conv)
  note m = mem_only_pmalloc [OF p]
  show ?thesis
  proof (cases "f = 0")
    case True
    then have "unlock_pool pf (set_pool pf p ?l) = Some k'"
      using assms(1) l p by (auto simp: get_a_page_without_opvaddrbitmap_def Option.bind_eq_Some_conv)
    then show ?thesis using m by (rule un)
  next
    case False
    then obtain k1 where "page_table_add a f (set_pool pf p ?l) = Some k1" "unlock_pool pf k1 = Some k'"
      using assms(1) l p by (auto simp: get_a_page_without_opvaddrbitmap_def Option.bind_eq_Some_conv)
    then show ?thesis using mem_only_trans [OF m mem_only_page_table_add] by (blast intro: un)
  qed
qed

section \<open>The pid pool\<close>

definition pid_of :: "u32 \<Rightarrow> u16" where "pid_of i = ucast (i + 1)"

definition pid_ok :: "'a procs_scheme \<Rightarrow> bool" where
  "pid_ok k \<longleftrightarrow> bitmap_ok (pid_bitmap k) \<and> btmp_bytes_len (pid_bitmap k) = 128 \<and> pid_start k = 1 \<and>
     pid_lock k = lock_init \<and> current k \<noteq> 0"

definition pid_used :: "'a procs_scheme \<Rightarrow> u16 set" where
  "pid_used k = pid_of ` bitmap_used (pid_bitmap k)"

definition pid_space :: "'a procs_scheme \<Rightarrow> u16 set" where
  "pid_space k = pid_of ` bitmap_space (pid_bitmap k)"

lemma scast_pid_of:
  assumes "unat i < 1024"
  shows "scast (pid_of i) = i + 1"
proof -
  have u: "unat (i + 1) = Suc (unat i)" using assms by (intro unat_Suc_of_less [of i 1024]) (simp add: word_less_nat_alt)
  then have p: "unat (pid_of i) = Suc (unat i)" using assms by (simp add: pid_of_def unat_ucast16)
  have "uint (pid_of i) = int (Suc (unat i))" unfolding uint_nat p ..
  moreover have "uint i < 1024" using assms unfolding uint_nat by linarith
  then have "uint (pid_of i) < 2 ^ (LENGTH(16) - 1)" unfolding uint_nat [of "pid_of i"] p by simp
  ultimately have "sint (pid_of i) = int (Suc (unat i))" using sint_small [of "pid_of i"] by (simp only:)
  then have "scast (pid_of i) = (of_nat (Suc (unat i)) :: u32)" by (metis of_int_of_nat_eq of_int_sint)
  then show ?thesis by simp
qed

lemma pid_of_inj:
  assumes "unat i < 1024" "unat j < 1024" "pid_of i = pid_of j"
  shows "i = j"
proof -
  have "i + 1 = scast (pid_of j)" unfolding assms(3) [symmetric] by (rule scast_pid_of [OF assms(1), symmetric])
  also have "\<dots> = j + 1" by (rule scast_pid_of [OF assms(2)])
  finally show ?thesis by simp
qed

lemma pid_okD:
  assumes "pid_ok k"
  shows "bitmap_ok (pid_bitmap k)" "nbits (pid_bitmap k) = 1024" "pid_start k = 1" "pid_lock k = lock_init" "current k \<noteq> 0"
  using assms by (simp_all add: pid_ok_def nbits_def)

lemma pid_lock_same: "pid_lock k = lock_init \<Longrightarrow> k\<lparr>pid_bitmap := bm, pid_lock := lock_init\<rparr> = k\<lparr>pid_bitmap := bm\<rparr>"
  by (cases k) simp

lemma allocate_pid_eq:
  assumes "pid_ok k"
  shows "allocate_pid k = do { (i, bm) \<leftarrow> bitmap_alloc (pid_bitmap k); Some (pid_of i, k\<lparr>pid_bitmap := bm\<rparr>) }"
  using pid_okD [OF assms] lock_release_held [of "k\<lparr>pid_lock := lock_held (current k), pid_bitmap := bm\<rparr>" for bm]
  by (simp add: allocate_pid_def lock_pids_def unlock_pids_def bitmap_alloc_def pid_of_def bind_assoc pid_lock_same)

lemma release_pid_eq:
  assumes "pid_ok k"
  shows "release_pid p k = do { bm \<leftarrow> bitmap_set (pid_bitmap k) (scast p - 1) 0; Some (k\<lparr>pid_bitmap := bm\<rparr>) }"
  using pid_okD [OF assms] lock_release_held [of "k\<lparr>pid_lock := lock_held (current k), pid_bitmap := bm\<rparr>" for bm]
  by (simp add: release_pid_def lock_pids_def unlock_pids_def Let_def pid_lock_same)

lemma pid_ok_bitmap: "pid_ok k \<Longrightarrow> bitmap_ok bm \<Longrightarrow> nbits bm = nbits (pid_bitmap k) \<Longrightarrow> pid_ok (k\<lparr>pid_bitmap := bm\<rparr>)"
  by (simp add: pid_ok_def nbits_def word_unat_eq_iff)

lemma allocate_pid_SomeD:
  assumes "pid_ok k" "allocate_pid k = Some (p, k')"
  obtains i bm where "p = pid_of i" "k' = k\<lparr>pid_bitmap := bm\<rparr>" "bitmap_alloc (pid_bitmap k) = Some (i, bm)"
  using assms by (auto simp: allocate_pid_eq Option.bind_eq_Some_conv)

lemma pid_index: "i \<in> bitmap_space (pid_bitmap k) \<Longrightarrow> pid_ok k \<Longrightarrow> unat i < 1024"
  by (simp add: bitmap_space_def pid_okD)

lemma pid_of_used:
  assumes "pid_ok k" "i \<in> bitmap_space (pid_bitmap k)"
  shows "pid_of i \<in> pid_used k \<longleftrightarrow> i \<in> bitmap_used (pid_bitmap k)"
proof
  assume "pid_of i \<in> pid_used k"
  then obtain j where j: "pid_of i = pid_of j" "j \<in> bitmap_used (pid_bitmap k)" by (auto simp: pid_used_def)
  have "j \<in> bitmap_space (pid_bitmap k)" using j(2) bm.used_space [OF pid_okD(1) [OF assms(1)]] by (rule rev_subsetD)
  then have "i = j" using pid_index [OF _ assms(1)] assms(2) j(1) by (intro pid_of_inj) blast+
  then show "i \<in> bitmap_used (pid_bitmap k)" using j(2) by simp
qed (simp add: pid_used_def)

interpretation pids: bit_pool allocate_pid release_pid pid_used pid_space pid_ok
proof (unfold_locales, goal_cases)
  case (1 k p k')
  note ok = pid_okD(1) [OF 1(1)]
  from 1 obtain i bm where i: "p = pid_of i" "bitmap_alloc (pid_bitmap k) = Some (i, bm)" by (rule allocate_pid_SomeD)
  note f = bm.alloc_fresh [OF ok i(2)]
  then show ?case using pid_of_used [OF 1(1)] i(1) by (simp add: pid_space_def)
next
  case (2 k p k')
  note ok = pid_okD(1) [OF 2(1)]
  from 2 obtain i bm where i: "p = pid_of i" "k' = k\<lparr>pid_bitmap := bm\<rparr>" "bitmap_alloc (pid_bitmap k) = Some (i, bm)"
    by (rule allocate_pid_SomeD)
  then show ?case using bm.alloc_used [OF ok i(3)] by (simp add: pid_used_def)
next
  case (3 k p k')
  note ok = pid_okD(1) [OF 3(1)]
  from 3 obtain i bm where i: "p = pid_of i" "k' = k\<lparr>pid_bitmap := bm\<rparr>" "bitmap_alloc (pid_bitmap k) = Some (i, bm)"
    by (rule allocate_pid_SomeD)
  then show ?case using bm.alloc_space [OF ok i(3)] by (simp add: pid_space_def)
next
  case (4 k p k')
  note ok = pid_okD(1) [OF 4(1)]
  from 4 obtain i bm where i: "p = pid_of i" "k' = k\<lparr>pid_bitmap := bm\<rparr>" "bitmap_alloc (pid_bitmap k) = Some (i, bm)"
    by (rule allocate_pid_SomeD)
  have "nbits bm = nbits (pid_bitmap k)" using bitmap_alloc_SomeD [OF ok i(3)] bitmap_set_nbits by blast
  then show ?case unfolding i(2) by (intro pid_ok_bitmap [OF 4(1) bm.alloc_invar [OF ok i(3)]])
next
  case (5 k)
  note ok = pid_okD(1) [OF 5]
  have "(\<exists>p k'. allocate_pid k = Some (p, k')) \<longleftrightarrow> (\<exists>i b. bitmap_alloc (pid_bitmap k) = Some (i, b))"
    by (auto simp: allocate_pid_eq [OF 5] Option.bind_eq_Some_conv)
  also have "\<dots> \<longleftrightarrow> \<not> bitmap_space (pid_bitmap k) \<subseteq> bitmap_used (pid_bitmap k)" by (rule bm.alloc_returns [OF ok])
  also have "\<dots> \<longleftrightarrow> \<not> pid_space k \<subseteq> pid_used k"
    using pid_of_used [OF 5] by (auto simp: pid_space_def)
  finally show ?case .
next
  case (6 k p)
  then show ?case using bitmap_set_returns [of 0 "pid_bitmap k"] by (simp add: release_pid_eq Option.bind_eq_Some_conv)
next
  case (7 k p k')
  note ok = pid_okD(1) [OF 7(1)]
  obtain i where i: "p = pid_of i" "i \<in> bitmap_space (pid_bitmap k)" using 7(2) by (auto simp: pid_space_def)
  note lt = pid_index [OF i(2) 7(1)]
  then have "scast p - 1 = i" using scast_pid_of i(1) by simp
  then obtain bm where bm: "k' = k\<lparr>pid_bitmap := bm\<rparr>" "bitmap_set (pid_bitmap k) i 0 = Some bm"
    using 7(3) by (auto simp: release_pid_eq [OF 7(1)] Option.bind_eq_Some_conv)
  have "pid_of ` (bitmap_used (pid_bitmap k) - {i}) = pid_used k - {p}"
    unfolding pid_used_def i(1) using pid_of_inj [OF _ lt] pid_index [OF _ 7(1)] bm.used_space [OF ok] by auto
  then show ?case using bm.release_used [OF ok i(2) bm(2)] bm(1) by (simp add: pid_used_def)
next
  case (8 k p k')
  note ok = pid_okD(1) [OF 8(1)]
  obtain bm where bm: "k' = k\<lparr>pid_bitmap := bm\<rparr>" "bitmap_set (pid_bitmap k) (scast p - 1) 0 = Some bm"
    using 8(3) by (auto simp: release_pid_eq [OF 8(1)] Option.bind_eq_Some_conv)
  then show ?case using bitmap_set_nbits [OF bm(2)] by (simp add: pid_space_def bitmap_space_def)
next
  case (9 k p k')
  note ok = pid_okD(1) [OF 9(1)]
  obtain i where i: "p = pid_of i" "i \<in> bitmap_space (pid_bitmap k)" using 9(2) by (auto simp: pid_space_def)
  then have "scast p - 1 = i" using scast_pid_of [OF pid_index [OF i(2) 9(1)]] by simp
  then obtain bm where bm: "k' = k\<lparr>pid_bitmap := bm\<rparr>" "bitmap_set (pid_bitmap k) i 0 = Some bm"
    using 9(3) by (auto simp: release_pid_eq [OF 9(1)] Option.bind_eq_Some_conv)
  show ?case unfolding bm(1)
    by (rule pid_ok_bitmap [OF 9(1) bm.release_invar [OF ok i(2) bm(2)] bitmap_set_nbits [OF bm(2)]])
next
  case (10 k)
  then show ?case using bm.used_space [OF pid_okD(1)] by (auto simp: pid_used_def pid_space_def)
next
  case (11 k)
  then show ?case using bm.finite_space [OF pid_okD(1)] by (simp add: pid_space_def)
qed

end
