(* ===== verification/Kwait.thy ===== *)
theory Kwait
  imports Kpipe Kproc Kstdio
begin

text \<open>
  Waiting for children and leaving (\<^verbatim>\<open>src/userproc/wait_exit.c\<close>), and the list of processes that
  \<^verbatim>\<open>sys_ps\<close> prints (\<^verbatim>\<open>src/thread/thread.c\<close>). The files are those of the running process, in the state of the
  file system; the kernel's state is passed beside it.

  What holds of these calls together with fork and the scheduler is shown in \<open>Kprocsys\<close>: a parent that waits
  is woken by the exit of its child and finds it, and no exit is lost, except that init is not woken for the
  children it adopts.
\<close>

section \<open>Releasing what a process holds\<close>

text \<open>The loops over the page tables of the user half and over the entries of a table.\<close>

fun release_ptes :: "nat list \<Rightarrow> u32 \<Rightarrow> 'a kmem_scheme \<Rightarrow> 'a kmem_scheme option" where
  "release_ptes [] first_pte_vaddr_in_pde k = Some k"
| "release_ptes (pte_idx # is) first_pte_vaddr_in_pde k = do {
     pte \<leftarrow> vread k (first_pte_vaddr_in_pde + 4 * of_nat pte_idx);
     k \<leftarrow> (if pte AND 1 \<noteq> 0 then free_a_phy_page (pte AND 0xfffff000) k else Some k);
     release_ptes is first_pte_vaddr_in_pde k
   }"

fun release_pdes :: "nat list \<Rightarrow> u32 \<Rightarrow> 'a kmem_scheme \<Rightarrow> 'a kmem_scheme option" where
  "release_pdes [] pgdir_vaddr k = Some k"
| "release_pdes (pde_idx # is) pgdir_vaddr k = do {
     pde \<leftarrow> vread k (pgdir_vaddr + 4 * of_nat pde_idx);
     k \<leftarrow> (if pde AND 1 \<noteq> 0
           then do { k \<leftarrow> release_ptes [0..<1024] (pte_ptr (of_nat pde_idx * 0x400000)) k;
                     free_a_phy_page (pde AND 0xfffff000) k }
           else Some k);
     release_pdes is pgdir_vaddr k
   }"

text \<open>The loop over the descriptors. The slot of a pipe counts its descriptors in \<^verbatim>\<open>fd_pos\<close>; the page goes with the
  last one.\<close>

fun release_fds :: "nat list \<Rightarrow> 'a kio_scheme \<Rightarrow> 'b procs_scheme \<Rightarrow> ('a kio_scheme \<times> 'b procs_scheme) option" where
  "release_fds [] s k = Some (s, k)"
| "release_fds (local_fd # fds) s k = do {
     g \<leftarrow> aget (fsys.fd_table s) (of_nat local_fd);
     (s, k) \<leftarrow>
       (if g \<noteq> -1
        then do {
          pipe \<leftarrow> is_pipe (of_nat local_fd) s;
          if pipe
          then do {
            global_fd \<leftarrow> fd_local2global (of_nat local_fd) s;
            let f = (get_file global_fd s)\<lparr>fd_pos := fd_pos (get_file global_fd s) - 1\<rparr>;
            if fd_pos f = 0
            then do { k \<leftarrow> mfree_page PF_KERNEL (fd_inode f) 1 k;
                      Some (put_file global_fd (f\<lparr>fd_inode := 0\<rparr>) s, k) }
            else Some (put_file global_fd f s, k)
          }
          else do { (r, s) \<leftarrow> sys_close (of_nat local_fd) s; Some (s, k) }
        }
        else Some (s, k));
     release_fds fds s k
   }"

text \<open>The number of pages of the bitmap is rounded down here, and up where they are allocated.\<close>

definition release_proc_resource :: "u32 \<Rightarrow> 'a kio_scheme \<Rightarrow> 'b procs_scheme \<Rightarrow> ('a kio_scheme \<times> 'b procs_scheme) option" where
  "release_proc_resource release_thread s k = do {
     let t = task k release_thread;
     k \<leftarrow> release_pdes [0..<768] (pgdir t) k;
     let pg_cnt = btmp_bytes_len (vaddr_bitmap (userproc_vaddr t)) div PG_SIZE;
     k \<leftarrow> mfree_page PF_KERNEL (vaddr_bits k release_thread) pg_cnt k;
     release_fds [3..<MAX_FILES_OPEN_PER_PROC] s k
   }"

section \<open>Wait and exit\<close>

definition find_child :: "'a sched_scheme \<Rightarrow> u16 \<Rightarrow> u32 \<Rightarrow> bool" where
  "find_child k ppid t \<longleftrightarrow> parent_pid (task k t) = ppid"

definition find_hanging_child :: "'a sched_scheme \<Rightarrow> u16 \<Rightarrow> u32 \<Rightarrow> bool" where
  "find_hanging_child k ppid t \<longleftrightarrow> parent_pid (task k t) = ppid \<and> status (task k t) = TASK_HANGING"

definition init_adapt_a_child :: "u16 \<Rightarrow> u32 \<Rightarrow> 'a sched_scheme \<Rightarrow> 'a sched_scheme" where
  "init_adapt_a_child ppid t k = (if parent_pid (task k t) = ppid then set_task t (\<lambda>p. p\<lparr>parent_pid := 1\<rparr>) k else k)"

text \<open>One round of \<^verbatim>\<open>sys_wait\<close>: a child was reaped, there is no child, or the caller is suspended until the next
  round, with the interrupt status it will restore.\<close>

datatype wait_result = Reaped u16 u32 | No_child | Wait_blocked intr_status

definition sys_wait :: "'a procs_scheme \<Rightarrow> (wait_result \<times> 'a procs_scheme) option" where
  "sys_wait k =
     (let parent_thread = running_thread k
      in case find (find_hanging_child k (pid (task k parent_thread))) (thread_all_list k) of
           Some child_thread \<Rightarrow> do {
             let st = scast (exit_status (task k child_thread));
             let child_pid = pid (task k child_thread);
             k \<leftarrow> thread_exit child_thread False k;
             Some (Reaped child_pid st, k) }
         | None \<Rightarrow>
             (case find (find_child k (pid (task k parent_thread))) (thread_all_list k) of
                None \<Rightarrow> Some (No_child, k)
              | Some _ \<Rightarrow> do { (old, k) \<leftarrow> thread_block k TASK_WAITING; Some (Wait_blocked old, k) }))"

definition sys_exit :: "u32 \<Rightarrow> 'a kio_scheme \<Rightarrow> 'b procs_scheme \<Rightarrow> ('a kio_scheme \<times> 'b procs_scheme) option" where
  "sys_exit st s k = do {
     let child_thread = running_thread k;
     let k = set_task child_thread (\<lambda>t. t\<lparr>exit_status := ucast st\<rparr>) k;
     ASSERT (parent_pid (task k child_thread) \<noteq> -1);
     let k = fold (init_adapt_a_child (pid (task k child_thread))) (thread_all_list k) k;
     (s, k) \<leftarrow> release_proc_resource child_thread s k;
     parent_thread \<leftarrow> pid2thread (scast (parent_pid (task k child_thread))) k;
     k \<leftarrow> (if status (task k parent_thread) = TASK_WAITING then thread_unblock k parent_thread else Some k);
     (old, k) \<leftarrow> thread_block k TASK_HANGING;
     Some (s, k)
   }"

section \<open>Printing the processes\<close>

text \<open>\<^verbatim>\<open>sprintf\<close> into the cleared array, padded with blanks; 15 of its 16 bytes are written. The value of
  \<^verbatim>\<open>out_pad_0idx\<close> is a byte.\<close>

definition sprintf :: "u8 list \<Rightarrow> u8 list \<Rightarrow> arg list \<Rightarrow> (u32 \<times> u8 list) option" where
  "sprintf buf fmt args = vsprintf buf fmt args"

definition pad_print :: "u8 list \<Rightarrow> arg list \<Rightarrow> 'a kio_scheme \<Rightarrow> 'b sched_scheme \<Rightarrow>
    (u32 ioq_call \<times> 'a kio_scheme \<times> 'b sched_scheme) option" where
  "pad_print fmt args s k = do {
     (n, buf) \<leftarrow> sprintf (replicate 16 0) fmt args;
     let idx = unat (ucast n :: u8);
     sys_write stdout_no (take idx buf @ replicate (16 - idx) 0x20) 15 s k
   }"

definition ascii :: "string \<Rightarrow> u8 list" where
  "ascii cs = map (of_nat \<circ> of_char) cs"

definition status_name :: "task_status \<Rightarrow> u8 list" where
  "status_name st = ascii (case st of TASK_RUNNING \<Rightarrow> ''RUNNING'' | TASK_READY \<Rightarrow> ''READY'' | TASK_BLOCKED \<Rightarrow> ''BLOCKED''
     | TASK_WAITING \<Rightarrow> ''WAITING'' | TASK_HANGING \<Rightarrow> ''HANGING'' | TASK_DIED \<Rightarrow> ''DIED'')"

text \<open>A sequence of outputs; a call that suspends the caller ends the run that is described.\<close>

fun write_all :: "('a kio_scheme \<Rightarrow> 'b sched_scheme \<Rightarrow> (u32 ioq_call \<times> 'a kio_scheme \<times> 'b sched_scheme) option) list \<Rightarrow>
    'a kio_scheme \<Rightarrow> 'b sched_scheme \<Rightarrow> ('a kio_scheme \<times> 'b sched_scheme) option" where
  "write_all [] s k = Some (s, k)"
| "write_all (w # ws) s k = do {
     (r, s, k) \<leftarrow> w s k;
     case r of Done _ \<Rightarrow> write_all ws s k | On_lock \<Rightarrow> None | On_wait \<Rightarrow> None
   }"

definition elem2thread_info :: "u32 \<Rightarrow> 'a kio_scheme \<Rightarrow> 'b sched_scheme \<Rightarrow> ('a kio_scheme \<times> 'b sched_scheme) option" where
  "elem2thread_info pthread s k = do {
     let t = task k pthread;
     let nm = takeWhile (\<lambda>c. c \<noteq> 0) (name t);
     ASSERT (length nm < 15);
     write_all
       [pad_print (ascii ''%d'') [Num (scast (pid t))],
        (if parent_pid t = -1 then pad_print (ascii ''%s'') [Str (ascii ''NULL'')]
         else pad_print (ascii ''%d'') [Num (scast (parent_pid t))]),
        pad_print (ascii ''%s'') [Str (status_name (status t))],
        pad_print (ascii ''0x%x'') [Num (scast (ucast (elapsed_ticks t) :: u16))],
        sys_write stdout_no (nm @ [0xa]) (of_nat (length nm + 1))] s k
   }"

fun ps_threads :: "u32 list \<Rightarrow> 'a kio_scheme \<Rightarrow> 'b sched_scheme \<Rightarrow> ('a kio_scheme \<times> 'b sched_scheme) option" where
  "ps_threads [] s k = Some (s, k)"
| "ps_threads (t # ts) s k = do { (s, k) \<leftarrow> elem2thread_info t s k; ps_threads ts s k }"

definition ps_title :: "u8 list" where
  "ps_title = ascii ''PID            PPID           STAT           TICKS          COMMAND'' @ [0xa]"

definition sys_ps :: "'a kio_scheme \<Rightarrow> 'b sched_scheme \<Rightarrow> ('a kio_scheme \<times> 'b sched_scheme) option" where
  "sys_ps s k = do {
     (s, k) \<leftarrow> write_all [sys_write stdout_no ps_title (of_nat (length ps_title))] s k;
     ps_threads (thread_all_list k) s k
   }"

definition sys_getpid :: "'a sched_scheme \<Rightarrow> u32" where
  "sys_getpid k = scast (pid (task k (running_thread k)))"

end
