(* ===== verification/Kfork.thy ===== *)
theory Kfork
  imports Kwait
begin

text \<open>
  Copying a process (\<^verbatim>\<open>src/userproc/fork.c\<close>). The control block, the kernel stack and the bitmap of the user's
  addresses are copied to the child, the pages of the user's address space through a page of the kernel, one
  by one, with the page directory switched for each. The descriptors of the running process are those in the
  state of the file system.
\<close>

section \<open>The copies\<close>

text \<open>A page of the stacks: the structures in the parent's page appear at the same offsets in the child's.\<close>

definition copy_stack_page :: "u32 \<Rightarrow> u32 \<Rightarrow> (u32 \<Rightarrow> 'v) \<Rightarrow> u32 \<Rightarrow> 'v" where
  "copy_stack_page child parent m a = (if a - child < PG_SIZE then m (a - child + parent) else m a)"

definition fork_name :: "u8 list \<Rightarrow> u8 list" where
  "fork_name nm = (let l = takeWhile (\<lambda>c. c \<noteq> 0) nm in l @ ascii ''_fork'' @ [0] @ drop (length l + 6) nm)"

text \<open>The result is false when the pages of the bitmap cannot be had.\<close>

definition copy_pcb_vaddrbitmap_stack0 :: "u32 \<Rightarrow> u32 \<Rightarrow> 'a kio_scheme \<Rightarrow> 'b procs_scheme \<Rightarrow> (bool \<times> 'b procs_scheme) option" where
  "copy_pcb_vaddrbitmap_stack0 child_thread parent_thread s k = do {
     let k = set_task child_thread (\<lambda>_. (task k parent_thread)
       \<lparr>task_struct.fd_table := fsys.fd_table s, task_struct.cwd_inode_nr := fsys.cwd_inode_nr s\<rparr>) k;
     let k = k\<lparr>intr_stacks := copy_stack_page child_thread parent_thread (intr_stacks k),
               thread_stacks := copy_stack_page child_thread parent_thread (thread_stacks k)\<rparr>;
     (p, k) \<leftarrow> fork_pid k;
     let k = set_task child_thread (\<lambda>t. t\<lparr>pid := p, elapsed_ticks := 0, status := TASK_READY, ticks := priority t,
       parent_pid := pid (task k parent_thread), u_block_desc := block_desc_init\<rparr>) k;
     (vaddr_btmp, k) \<leftarrow> get_kernel_pages bitmap_pg_cnt k;
     if vaddr_btmp = 0 then Some (False, k)
     else do {
       let k = k\<lparr>vaddr_bits := (vaddr_bits k)(child_thread := vaddr_btmp)\<rparr>;
       ASSERT (length (takeWhile (\<lambda>c. c \<noteq> 0) (name (task k child_thread))) < 11);
       Some (True, set_task child_thread (\<lambda>t. t\<lparr>name := fork_name (name t)\<rparr>) k)
     }
   }"

text \<open>One page: out of the parent's space into the buffer, and into the child's space.\<close>

definition copy_page :: "u32 \<Rightarrow> u32 \<Rightarrow> u32 \<Rightarrow> u32 \<Rightarrow> 'b procs_scheme \<Rightarrow> 'b procs_scheme option" where
  "copy_page child_thread parent_thread buf_page proc_vaddr k = do {
     k \<leftarrow> vcopy 1024 buf_page proc_vaddr k;
     k \<leftarrow> page_dir_activate k child_thread;
     (_, k) \<leftarrow> get_a_page_without_opvaddrbitmap PF_USER proc_vaddr k;
     k \<leftarrow> vcopy 1024 proc_vaddr buf_page k;
     page_dir_activate k parent_thread
   }"

fun copy_bits :: "u32 \<Rightarrow> u32 \<Rightarrow> u32 \<Rightarrow> u8 \<Rightarrow> nat \<Rightarrow> nat list \<Rightarrow> 'b procs_scheme \<Rightarrow> 'b procs_scheme option" where
  "copy_bits child parent buf_page byte idx_byte [] k = Some k"
| "copy_bits child parent buf_page byte idx_byte (idx_bit # is) k = do {
     k \<leftarrow> (if push_bit idx_bit 1 AND byte \<noteq> 0
           then copy_page child parent buf_page
             ((of_nat idx_byte * 8 + of_nat idx_bit) * PG_SIZE + vaddr_start (userproc_vaddr (task k parent))) k
           else Some k);
     copy_bits child parent buf_page byte idx_byte is k
   }"

fun copy_bytes :: "u32 \<Rightarrow> u32 \<Rightarrow> u32 \<Rightarrow> nat list \<Rightarrow> 'b procs_scheme \<Rightarrow> 'b procs_scheme option" where
  "copy_bytes child parent buf_page [] k = Some k"
| "copy_bytes child parent buf_page (idx_byte # is) k = do {
     let byte = bits (vaddr_bitmap (userproc_vaddr (task k parent))) (of_nat idx_byte);
     k \<leftarrow> (if byte \<noteq> 0 then copy_bits child parent buf_page byte idx_byte [0..<8] k else Some k);
     copy_bytes child parent buf_page is k
   }"

definition copy_body_stack3 :: "u32 \<Rightarrow> u32 \<Rightarrow> u32 \<Rightarrow> 'b procs_scheme \<Rightarrow> 'b procs_scheme option" where
  "copy_body_stack3 child_thread parent_thread buf_page k =
     copy_bytes child_thread parent_thread buf_page
       [0..<unat (btmp_bytes_len (vaddr_bitmap (userproc_vaddr (task k parent_thread))))] k"

text \<open>The child returns from the system call with 0: its thread structure leads \<^verbatim>\<open>switch_to\<close> to \<^verbatim>\<open>intr_exit\<close>.\<close>

definition build_child_stack :: "u32 \<Rightarrow> 'b procs_scheme \<Rightarrow> 'b procs_scheme" where
  "build_child_stack child_thread k =
     (let intr_0_stack = child_thread + PG_SIZE - sizeof_intr_stack;
          k = k\<lparr>intr_stacks := (intr_stacks k)(intr_0_stack := (intr_stacks k intr_0_stack)\<lparr>i_eax := 0\<rparr>)\<rparr>;
          sp = intr_0_stack - 5 * 4;
          k = k\<lparr>thread_stacks := (thread_stacks k)(sp := (thread_stacks k sp)
            \<lparr>t_eip := Intr_exit, t_ebp := 0, t_ebx := 0, t_edi := 0, t_esi := 0\<rparr>)\<rparr>
      in set_task child_thread (\<lambda>t. t\<lparr>self_kstack := sp\<rparr>) k)"

fun update_open_cnts :: "nat list \<Rightarrow> u32 list \<Rightarrow> 'a fsys_scheme \<Rightarrow> 'a fsys_scheme option" where
  "update_open_cnts [] tab s = Some s"
| "update_open_cnts (local_fd # fds) tab s = do {
     global_fd \<leftarrow> aget tab (of_nat local_fd);
     ASSERT (sint global_fd < int MAX_FILE_OPEN);
     s \<leftarrow> (if global_fd \<noteq> -1
           then do {
             pipe \<leftarrow> is_pipe (of_nat local_fd) s;
             let f = get_file global_fd s;
             Some (if pipe then put_file global_fd (f\<lparr>fd_pos := fd_pos f + 1\<rparr>) s
                   else s\<lparr>inodes := (inodes s)(fd_inode f := (inodes s (fd_inode f))
                     \<lparr>i_open_cnts := i_open_cnts (inodes s (fd_inode f)) + 1\<rparr>)\<rparr>)
           }
           else Some s);
     update_open_cnts fds tab s
   }"

definition update_inode_open_cnts :: "u32 \<Rightarrow> 'a fsys_scheme \<Rightarrow> 'b sched_scheme \<Rightarrow> 'a fsys_scheme option" where
  "update_inode_open_cnts thread s k =
     update_open_cnts [3..<MAX_FILES_OPEN_PER_PROC] (task_struct.fd_table (task k thread)) s"

section \<open>The system call\<close>

definition copy_process :: "u32 \<Rightarrow> u32 \<Rightarrow> 'a kio_scheme \<Rightarrow> 'b procs_scheme \<Rightarrow> (bool \<times> 'a kio_scheme \<times> 'b procs_scheme) option" where
  "copy_process child_thread parent_thread s k = do {
     (buf_page, k) \<leftarrow> get_kernel_pages 1 k;
     if buf_page = 0 then Some (False, s, k) else do {
     (ok, k) \<leftarrow> copy_pcb_vaddrbitmap_stack0 child_thread parent_thread s k;
     if \<not> ok then Some (False, s, k) else do {
     (pd, k) \<leftarrow> create_page_dir k;
     let k = set_task child_thread (\<lambda>t. t\<lparr>pgdir := pd\<rparr>) k;
     if pd = 0 then Some (False, s, k) else do {
     k \<leftarrow> copy_body_stack3 child_thread parent_thread buf_page k;
     let k = build_child_stack child_thread k;
     s \<leftarrow> update_inode_open_cnts child_thread s k;
     k \<leftarrow> mfree_page PF_KERNEL buf_page 1 k;
     Some (True, s, k) }}}
   }"

definition sys_fork :: "'a kio_scheme \<Rightarrow> 'b procs_scheme \<Rightarrow> (u32 \<times> 'a kio_scheme \<times> 'b procs_scheme) option" where
  "sys_fork s k = do {
     let parent_thread = running_thread k;
     (child_thread, k) \<leftarrow> get_kernel_pages 1 k;
     if child_thread = 0 then Some (-1, s, k)
     else do {
       ASSERT (intr_get_status (cpu_eflags k) = INTR_OFF \<and> pgdir (task k parent_thread) \<noteq> 0);
       (ok, s, k) \<leftarrow> copy_process child_thread parent_thread s k;
       if \<not> ok then Some (-1, s, k)
       else do {
         k \<leftarrow> append_ready child_thread k;
         k \<leftarrow> append_all child_thread k;
         Some (scast (pid (task k child_thread)), s, k)
       }
     }
   }"

end
