(* ===== verification/Kprocsys.thy ===== *)
theory Kprocsys
  imports Kfork
begin

text \<open>
  The processes as a system: the steps of creating, forking, waiting, leaving, blocking and scheduling, in any order,
  and the invariant of the process table that they keep. The invariant ties the queues of the scheduler to the states
  of the threads, keeps the pids of living threads distinct and allocated, and says that no exit is lost. From it
  follows that a parent that waits is woken and finds exactly the child that leaves. The steps are the kernel's own operations, on any state
  in which they have a result; a fork that fails is a step when the page it was offered for the child was not that of a
  living thread, which the page pool excludes.
\<close>

section \<open>The invariant\<close>

text \<open>A process that waits has no child that has left, unless it is init (pid 1).\<close>

definition no_lost_exit :: "'a sched_scheme \<Rightarrow> bool" where
  "no_lost_exit k \<longleftrightarrow> (\<forall>t\<in>set (thread_all_list k). \<forall>c\<in>set (thread_all_list k).
     status (task k t) = TASK_WAITING \<longrightarrow> status (task k c) = TASK_HANGING \<longrightarrow> parent_pid (task k c) = pid (task k t) \<longrightarrow>
     pid (task k t) = 1)"

definition table_inv :: "'a procs_scheme \<Rightarrow> bool" where
  "table_inv k \<longleftrightarrow> pid_ok k \<and> pool_lock (user_pool k) = lock_init \<and> distinct (thread_all_list k) \<and>
     main_thread k \<in> set (thread_all_list k) \<and>
     parent_pid (task k (idle_thread k)) = -1 \<and> parent_pid (task k (main_thread k)) = -1 \<and>
     inj_on (\<lambda>t. pid (task k t)) (set (thread_all_list k)) \<and>
     (\<forall>t\<in>set (thread_all_list k). pid (task k t) \<in> pid_used k) \<and> no_lost_exit k"

definition proc_inv :: "'a procs_scheme \<Rightarrow> bool" where
  "proc_inv k \<longleftrightarrow> sched_inv k \<and> table_inv k"

lemma table_invD:
  assumes "table_inv k"
  shows "pid_ok k" "pool_lock (user_pool k) = lock_init" "distinct (thread_all_list k)"
    "main_thread k \<in> set (thread_all_list k)"
    "parent_pid (task k (idle_thread k)) = -1" "parent_pid (task k (main_thread k)) = -1"
    "inj_on (\<lambda>t. pid (task k t)) (set (thread_all_list k))"
    "\<And>t. t \<in> set (thread_all_list k) \<Longrightarrow> pid (task k t) \<in> pid_used k" "no_lost_exit k"
  using assms by (simp_all add: table_inv_def)

lemma proc_invD: "proc_inv k \<Longrightarrow> sched_inv k" "proc_inv k \<Longrightarrow> table_inv k"
  by (simp_all add: proc_inv_def)

lemma pid_valid:
  assumes "pid_ok k" "p \<in> pid_used k"
  shows "p \<noteq> -1"
proof -
  have "p \<in> pid_space k" using pids.used_space assms by blast
  then obtain i where i: "p = pid_of i" "i \<in> bitmap_space (pid_bitmap k)" by (auto simp: pid_space_def)
  then have u: "scast p = i + 1" "unat i < 1024" using scast_pid_of pid_index [OF i(2) assms(1)] by simp_all
  show ?thesis
  proof
    assume "p = -1"
    then have "scast p = (-1 :: u32)" by simp
    then have "i + 1 - 1 = -1 - 1" unfolding u(1) by (simp only:)
    then have "i = -2" by simp
    then show False using u(2) by simp
  qed
qed

text \<open>The invariant depends on these parts of the state only; the identity of a thread is never changed by the scheduler.\<close>

lemma no_lost_exit_mono:
  assumes "no_lost_exit k" "set (thread_all_list k') \<subseteq> set (thread_all_list k)"
    and "\<And>t. t \<in> set (thread_all_list k') \<Longrightarrow> pid (task k' t) = pid (task k t) \<and> parent_pid (task k' t) = parent_pid (task k t)"
    and "\<And>t. t \<in> set (thread_all_list k') \<Longrightarrow> status (task k' t) = TASK_WAITING \<Longrightarrow> status (task k t) = TASK_WAITING"
    and "\<And>t. t \<in> set (thread_all_list k') \<Longrightarrow> status (task k' t) = TASK_HANGING \<Longrightarrow> status (task k t) = TASK_HANGING"
  shows "no_lost_exit k'"
  unfolding no_lost_exit_def
proof (intro ballI impI)
  fix t c
  assume t: "t \<in> set (thread_all_list k')" and c: "c \<in> set (thread_all_list k')"
    and w: "status (task k' t) = TASK_WAITING" and h: "status (task k' c) = TASK_HANGING"
    and p: "parent_pid (task k' c) = pid (task k' t)"
  have "t \<in> set (thread_all_list k)" "c \<in> set (thread_all_list k)" using assms(2) t c by (auto dest: subsetD)
  moreover have "parent_pid (task k c) = pid (task k t)" using p assms(3) [OF t] assms(3) [OF c] by simp
  ultimately have "pid (task k t) = 1"
    using assms(1) assms(4) [OF t w] assms(5) [OF c h] unfolding no_lost_exit_def by blast
  then show "pid (task k' t) = 1" using assms(3) [OF t] by simp
qed

lemma table_inv_same:
  assumes "table_inv k" "no_lost_exit k'" "thread_all_list k' = thread_all_list k" "main_thread k' = main_thread k"
    "idle_thread k' = idle_thread k" "current k' \<noteq> 0" "pid_bitmap k' = pid_bitmap k" "pid_start k' = pid_start k"
    "pid_lock k' = pid_lock k" "pool_lock (user_pool k') = pool_lock (user_pool k)"
    and t: "\<And>t. pid (task k' t) = pid (task k t)" "parent_pid (task k' (idle_thread k)) = -1" "parent_pid (task k' (main_thread k)) = -1"
  shows "table_inv k'"
  using assms by (simp add: table_inv_def pid_ok_def pid_used_def)

section \<open>Scheduling\<close>

lemma sched_tasks_ids [simp]:
  "pid (sched_tasks s t) = pid (task s t)" "parent_pid (sched_tasks s t) = parent_pid (task s t)"
  "exit_status (sched_tasks s t) = exit_status (task s t)"
  by (simp_all add: sched_tasks_def Let_def)

lemma table_inv_schedule:
  assumes "table_inv k" "sched_pre k" "status (task k (current k)) = TASK_RUNNING \<longrightarrow> current k \<in> set (thread_all_list k)"
    "schedule k = Some k'"
  shows "proc_inv k'"
proof -
  obtain c e where k': "k' = k\<lparr>thread_ready_list := tl (sched_queue k), task := sched_tasks k,
       cr3 := c, esp0 := e, current := hd (sched_queue k)\<rparr>"
    by (rule schedule_SomeD [OF assms(2-4)])
  have inv: "sched_inv k'" unfolding k' by (rule schedule_sched_inv [OF assms(2,3)])
  have "current k' \<noteq> 0" using sched_invD(1,2) [OF inv] sched_preD(2) by metis
  moreover have "no_lost_exit k'"
    by (rule no_lost_exit_mono [OF table_invD(9) [OF assms(1)]]) (simp_all add: k' sched_tasks_status split: if_splits)
  moreover note table_invD(5,6) [OF assms(1)]
  ultimately have "table_inv k'" by (intro table_inv_same [OF assms(1)]) (simp_all add: k')
  then show ?thesis using inv by (simp add: proc_inv_def)
qed

text \<open>Blocking: a process may wait when no child of it has left, and hang when its parent does not wait.\<close>

lemma proc_inv_block:
  assumes "proc_inv k" "blocking st" "thread_block k st = Some (old, k')"
    and "st = TASK_WAITING \<Longrightarrow> \<forall>c\<in>set (thread_all_list k). status (task k c) = TASK_HANGING \<longrightarrow> parent_pid (task k c) \<noteq> pid (task k (current k))"
    and "st = TASK_HANGING \<Longrightarrow> \<forall>t\<in>set (thread_all_list k). status (task k t) = TASK_WAITING \<longrightarrow>
           pid (task k t) = parent_pid (task k (current k)) \<longrightarrow> pid (task k t) = 1"
  shows "proc_inv k'"
proof -
  note inv = proc_invD [OF assms(1)]
  let ?k = "set_task (current k) (\<lambda>t. t\<lparr>status := st\<rparr>) (k\<lparr>cpu_eflags := snd (intr_disable (cpu_eflags k))\<rparr>)"
  have sch: "schedule ?k = Some k'"
    using assms(2,3) by (auto simp: thread_block_def running_thread_def split_beta Let_def ASSERT_bind Option.bind_eq_Some_conv)
  have st: "st \<noteq> TASK_RUNNING" using assms(2) by (auto simp: blocking_def)
  have pre: "sched_pre ?k" by (rule leave_cpu_pre [OF inv(1) assms(2)])
  have "no_lost_exit ?k"
    unfolding no_lost_exit_def
  proof (intro ballI impI)
    fix t c
    assume t: "t \<in> set (thread_all_list ?k)" and c: "c \<in> set (thread_all_list ?k)"
      and w: "status (task ?k t) = TASK_WAITING" and h: "status (task ?k c) = TASK_HANGING"
      and p: "parent_pid (task ?k c) = pid (task ?k t)"
    have tc: "t \<noteq> c" using w h by auto
    consider "t = current k" | "c = current k" | "t \<noteq> current k" "c \<noteq> current k" by blast
    then show "pid (task ?k t) = 1"
    proof cases
      case 1
      then show ?thesis using assms(4) w h p c tc by auto
    next
      case 2
      then show ?thesis using assms(5) w h p t tc by auto
    next
      case 3
      then show ?thesis using table_invD(9) [OF inv(2)] w h p t c by (auto simp: no_lost_exit_def)
    qed
  qed
  moreover have "current k \<noteq> 0" using pid_okD(5) [OF table_invD(1) [OF inv(2)]] .
  ultimately have "table_inv ?k"
    using table_invD(5,6) [OF inv(2)] by (intro table_inv_same [OF inv(2)]) auto
  then show ?thesis using pre st sch by (intro table_inv_schedule [of ?k]) simp_all
qed

lemma proc_inv_unblock:
  assumes "proc_inv k" "t \<in> set (thread_all_list k)" "blocking (status (task k t))"
  obtains k' where "thread_unblock k t = Some k'" "proc_inv k'" "current k' = current k"
    "task k' = (task k)(t := (task k t)\<lparr>status := TASK_READY\<rparr>)" "thread_all_list k' = thread_all_list k"
    "thread_ready_list k' = t # thread_ready_list k" "phys k' = phys k" "cr3 k' = cr3 k"
proof -
  note inv = proc_invD [OF assms(1)]
  let ?k = "k\<lparr>thread_ready_list := t # thread_ready_list k, task := (task k)(t := (task k t)\<lparr>status := TASK_READY\<rparr>)\<rparr>"
  have r: "t \<notin> set (thread_ready_list k)" "sched_inv ?k" using unblock_inv [OF inv(1) assms(2,3)] by simp_all
  have "no_lost_exit ?k"
    by (rule no_lost_exit_mono [OF table_invD(9) [OF inv(2)]]) (auto split: if_splits)
  moreover have "current k \<noteq> 0" using pid_okD(5) [OF table_invD(1) [OF inv(2)]] .
  ultimately have "table_inv ?k"
    using table_invD(5,6) [OF inv(2)] by (intro table_inv_same [OF inv(2)]) auto
  then show thesis using r(2) by (intro that [OF unblock_eq [OF assms(3) r(1)]]) (simp_all add: proc_inv_def)
qed

section \<open>New threads\<close>

lemma mem_only_inv:
  assumes "proc_inv k" "mem_only k k'"
  shows "proc_inv k'"
proof -
  note f = mem_only_fields [OF assms(2)] mem_only_procs [OF assms(2)] and inv = proc_invD [OF assms(1)]
  have "no_lost_exit k'" using table_invD(9) [OF inv(2)] by (simp add: no_lost_exit_def f)
  then have "table_inv k'"
    using table_invD(5,6) [OF inv(2)] pid_okD(5) [OF table_invD(1) [OF inv(2)]]
    by (intro table_inv_same [OF inv(2)]) (simp_all add: f)
  moreover have "sched_inv k'" using inv(1) by (simp add: sched_inv_def sched_pre_def f)
  ultimately show ?thesis by (simp add: proc_inv_def)
qed

text \<open>What the creation of the thread \<open>t\<close> leaves alone: the queues, the pids and every other thread.\<close>

definition frame_thread :: "u32 \<Rightarrow> 'a procs_scheme \<Rightarrow> 'a procs_scheme \<Rightarrow> bool" where
  "frame_thread t k k' \<longleftrightarrow> thread_all_list k' = thread_all_list k \<and> thread_ready_list k' = thread_ready_list k \<and>
     current k' = current k \<and> main_thread k' = main_thread k \<and> idle_thread k' = idle_thread k \<and>
     pid_bitmap k' = pid_bitmap k \<and> pid_start k' = pid_start k \<and> pid_lock k' = pid_lock k \<and>
     pool_lock (user_pool k') = pool_lock (user_pool k) \<and> (\<forall>u. u \<noteq> t \<longrightarrow> task k' u = task k u)"

definition keeps_thread :: "u32 \<Rightarrow> 'a procs_scheme \<Rightarrow> 'a procs_scheme \<Rightarrow> bool" where
  "keeps_thread t k k' \<longleftrightarrow> frame_thread t k k' \<and> pid (task k' t) = pid (task k t) \<and> status (task k' t) = status (task k t)"

lemma frame_thread_refl [simp]: "frame_thread t k k"
  by (simp add: frame_thread_def)

lemma frame_thread_trans [trans]: "frame_thread t k k1 \<Longrightarrow> frame_thread t k1 k2 \<Longrightarrow> frame_thread t k k2"
  by (simp add: frame_thread_def)

lemma keeps_thread_refl [simp]: "keeps_thread t k k"
  by (simp add: keeps_thread_def)

lemma keeps_thread_trans [trans]: "keeps_thread t k k1 \<Longrightarrow> keeps_thread t k1 k2 \<Longrightarrow> keeps_thread t k k2"
  by (auto simp: keeps_thread_def intro: frame_thread_trans)

lemma mem_only_frame: "mem_only k k' \<Longrightarrow> frame_thread t k k'"
  by (simp add: frame_thread_def mem_only_fields mem_only_procs)

lemma mem_only_keeps: "mem_only k k' \<Longrightarrow> keeps_thread t k k'"
  by (simp add: keeps_thread_def mem_only_frame mem_only_fields)

lemma set_task_frame [simp]: "frame_thread t k (set_task t f k)"
  by (simp add: frame_thread_def)

lemma set_task_keeps:
  "pid (f (task k t)) = pid (task k t) \<Longrightarrow> status (f (task k t)) = status (task k t) \<Longrightarrow> keeps_thread t k (set_task t f k)"
  by (simp add: keeps_thread_def)

lemma frame_pid_ok: "frame_thread t k k' \<Longrightarrow> pid_ok k' \<longleftrightarrow> pid_ok k"
  by (simp add: frame_thread_def pid_ok_def)

lemma thread_create_keeps: "keeps_thread t k (thread_create t fn arg k)"
  by (simp add: keeps_thread_def frame_thread_def thread_create_def Let_def set_task_def)

lemma create_page_dir_mem_only: "create_page_dir k = Some (pd, k') \<Longrightarrow> mem_only k k'"
  by (auto simp: create_page_dir_def Option.bind_eq_Some_conv split: if_splits
      dest!: mem_only_get_kernel_pages mem_only_vcopy mem_only_vwrite intro: mem_only_trans)

lemma create_user_vaddr_bitmap_keeps:
  assumes "create_user_vaddr_bitmap t k = Some k'"
  shows "keeps_thread t k k'"
proof -
  obtain bs k1 where k1: "get_kernel_pages bitmap_pg_cnt k = Some (bs, k1)"
    "k' = set_task t (\<lambda>p. p\<lparr>userproc_vaddr := \<lparr>vaddr_bitmap = bitmap_init
       \<lparr>btmp_bytes_len = (0xc0000000 - USER_VADDR_START) div PG_SIZE div 8, bits = (\<lambda>_. 0)\<rparr>,
        vaddr_start = USER_VADDR_START\<rparr>\<rparr>) (k1\<lparr>vaddr_bits := (vaddr_bits k1)(t := bs)\<rparr>)"
    using assms by (auto simp: create_user_vaddr_bitmap_def Option.bind_eq_Some_conv Let_def)
  have "keeps_thread t k k1" by (rule mem_only_keeps [OF mem_only_get_kernel_pages [OF k1(1)]])
  moreover have "keeps_thread t k1 k'" by (simp add: k1(2) keeps_thread_def frame_thread_def)
  ultimately show ?thesis by (rule keeps_thread_trans)
qed

lemma init_thread_SomeD:
  assumes "init_thread t nm prio k = Some k'" "pid_ok k"
  obtains p k1 where "allocate_pid k = Some (p, k1)" "frame_thread t k1 k'" "pid (task k' t) = p" "t \<noteq> 0"
    "status (task k' t) = (if t = main_thread k then TASK_RUNNING else TASK_READY)" "parent_pid (task k' t) = -1"
proof -
  have t: "t \<noteq> 0" using assms(1) by (cases "t = 0") (simp_all add: init_thread_def)
  obtain p k1 where a: "allocate_pid k = Some (p, k1)"
    using assms(1) t by (cases "allocate_pid k") (auto simp: init_thread_def)
  have m: "main_thread k1 = main_thread k" by (rule allocate_pid_SomeD [OF assms(2) a]) simp
  have k': "k' = set_task t (\<lambda>_. fresh_task t p nm prio (t = main_thread k)) k1"
    using assms(1) t a m by (cases "length nm < TASK_NAME_LEN") (simp_all add: init_thread_def)
  show thesis by (rule that [OF a]) (simp_all add: k' t fresh_task_def)
qed

text \<open>A thread that was given a fresh pid and appended to both queues.\<close>

lemma proc_inv_new:
  assumes "proc_inv k" "frame_thread t k ka" "allocate_pid ka = Some (p, kb)" "frame_thread t kb kc" "pid (task kc t) = p"
    "status (task kc t) = TASK_READY" "t \<noteq> 0" "keeps_thread t kc kd" "append_ready t kd = Some ke" "append_all t ke = Some kf"
  shows "proc_inv (kf\<lparr>cpu_eflags := fl\<rparr>)"
proof -
  note inv = proc_invD [OF assms(1)] and s = sched_invD [OF proc_invD(1) [OF assms(1)]] and tb = table_invD [OF proc_invD(2) [OF assms(1)]]
  note pre = sched_preD [OF s(1)]
  have oka: "pid_ok ka" using frame_pid_ok [OF assms(2)] tb(1) by simp
  obtain i bm where kb: "kb = ka\<lparr>pid_bitmap := bm\<rparr>" using allocate_pid_SomeD [OF oka assms(3)] by blast
  have fd: "frame_thread t kb kd" "pid (task kd t) = p" "status (task kd t) = TASK_READY"
    using assms(4-6,8) frame_thread_trans by (auto simp: keeps_thread_def)
  have f: "thread_all_list kd = thread_all_list k" "thread_ready_list kd = thread_ready_list k" "current kd = current k"
    "main_thread kd = main_thread k" "idle_thread kd = idle_thread k" "pid_bitmap kd = bm" "pid_start kd = pid_start k"
    "pid_lock kd = pid_lock k" "pool_lock (user_pool kd) = pool_lock (user_pool k)" "\<And>u. u \<noteq> t \<Longrightarrow> task kd u = task k u"
    using fd(1) assms(2) kb by (simp_all add: frame_thread_def)
  have kf: "t \<notin> set (thread_all_list k)" "t \<notin> set (thread_ready_list k)"
    "kf = kd\<lparr>thread_ready_list := thread_ready_list k @ [t], thread_all_list := thread_all_list k @ [t]\<rparr>"
    using assms(9,10) f by (auto simp: append_ready_def append_all_def ASSERT_def Option.bind_eq_Some_conv split: if_splits)
  let ?k = "kf\<lparr>cpu_eflags := fl\<rparr>"
  have old: "task kf u = task k u" if "u \<in> set (thread_all_list k)" for u using that kf(1,3) f(10) [of u] by auto
  have new: "status (task kf t) = TASK_READY" "pid (task kf t) = p" using kf(3) fd by simp_all
  have used: "pid_used ka = pid_used k" "p \<notin> pid_used k" "pid_used ?k = insert p (pid_used k)"
  proof -
    show u: "pid_used ka = pid_used k" using assms(2) by (simp add: pid_used_def frame_thread_def)
    show "p \<notin> pid_used k" using pids.alloc_fresh [OF oka assms(3)] u by simp
    show "pid_used ?k = insert p (pid_used k)" using pids.alloc_used [OF oka assms(3)] u kf(3) f(6) kb by (simp add: pid_used_def)
  qed
  have "pid_ok kb" by (rule pids.alloc_invar [OF oka assms(3)])
  then have ok: "pid_ok ?k" using tb(1) kf(3) f kb by (simp add: pid_ok_def)
  have all: "set (thread_all_list ?k) = insert t (set (thread_all_list k))" using kf(3) by simp
  have nle: "no_lost_exit ?k"
    using tb(9) new(1) unfolding no_lost_exit_def all by (auto simp: old)
  have "inj_on (\<lambda>u. pid (task ?k u)) (set (thread_all_list ?k))"
  proof -
    have "inj_on (\<lambda>u. pid (task ?k u)) (set (thread_all_list k))" using tb(7) by (simp add: inj_on_def old)
    moreover have "pid (task ?k t) \<notin> (\<lambda>u. pid (task ?k u)) ` (set (thread_all_list k))"
      using used(2) tb(8) new(2) by (auto simp: old)
    ultimately show ?thesis unfolding all using kf(1) by (simp add: inj_on_insert)
  qed
  moreover have "\<forall>u\<in>set (thread_all_list ?k). pid (task ?k u) \<in> pid_used ?k" unfolding all used(3) using tb(8) new(2) by (auto simp: old)
  ultimately have "table_inv ?k"
    using ok tb(2-6) nle kf f pre(1) old by (simp add: table_inv_def)
  moreover have "sched_inv ?k"
    unfolding sched_inv_def sched_pre_def all
    using pre s old new kf f assms(7) by auto
  ultimately show ?thesis by (simp add: proc_inv_def)
qed

text \<open>A page that became no thread: at most a pid was taken.\<close>

lemma proc_inv_frame:
  assumes "proc_inv k" "frame_thread t k k'" "t \<notin> set (thread_all_list k)"
  shows "proc_inv k'"
proof -
  note inv = proc_invD [OF assms(1)] and f = assms(2) [unfolded frame_thread_def]
  have old: "task k' u = task k u" if "u \<in> set (thread_all_list k)" for u using that f assms(3) by metis
  have i: "idle_thread k \<in> set (thread_all_list k)" using sched_preD(1) [OF sched_invD(1) [OF inv(1)]] .
  have "no_lost_exit k'" using table_invD(9) [OF inv(2)] f by (simp add: no_lost_exit_def old)
  moreover have "inj_on (\<lambda>u. pid (task k' u)) (set (thread_all_list k))" using table_invD(7) [OF inv(2)] by (simp add: inj_on_def old)
  ultimately have "table_inv k'"
    using table_invD(1-6,8) [OF inv(2)] f i frame_pid_ok [OF assms(2)] by (simp add: table_inv_def old pid_used_def)
  moreover have "sched_inv k'"
    using inv(1) sched_invD(2) [OF inv(1)] i f by (simp add: sched_inv_def sched_pre_def old)
  ultimately show ?thesis by (simp add: proc_inv_def)
qed

lemma proc_inv_pid_taken:
  assumes "proc_inv k" "allocate_pid k = Some (p, k')"
  shows "proc_inv k'"
proof -
  note inv = proc_invD [OF assms(1)] and ok = table_invD(1) [OF proc_invD(2) [OF assms(1)]]
  obtain i bm where k': "k' = k\<lparr>pid_bitmap := bm\<rparr>" by (rule allocate_pid_SomeD [OF ok assms(2)])
  have "pid_used k' = insert p (pid_used k)" "pid_ok k'"
    using pids.alloc_used [OF ok assms(2)] pids.alloc_invar [OF ok assms(2)] by simp_all
  moreover have "no_lost_exit k'" using table_invD(9) [OF inv(2)] by (simp add: no_lost_exit_def k')
  ultimately have "table_inv k'" using table_invD [OF inv(2)] by (simp add: table_inv_def) (simp add: k')
  moreover have "sched_inv k'" using inv(1) by (simp add: k' sched_inv_def sched_pre_def)
  ultimately show ?thesis by (simp add: proc_inv_def)
qed

lemma append_all_fresh: "append_all t k = Some k' \<Longrightarrow> t \<notin> set (thread_all_list k)"
  by (simp add: append_all_def ASSERT_def Option.bind_eq_Some_conv split: if_splits)

lemma append_ready_all: "append_ready t k = Some k' \<Longrightarrow> thread_all_list k' = thread_all_list k"
  by (auto simp: append_ready_def ASSERT_def Option.bind_eq_Some_conv split: if_splits)

lemma proc_inv_init:
  assumes "proc_inv k" "mem_only k ka" "init_thread t nm prio ka = Some kc" "keeps_thread t kc kd"
    "append_ready t kd = Some ke" "append_all t ke = Some kf"
  shows "proc_inv (kf\<lparr>cpu_eflags := fl\<rparr>)"
proof -
  note fr = mem_only_frame [OF assms(2), of t]
  have ok: "pid_ok ka" using frame_pid_ok [OF fr] table_invD(1) [OF proc_invD(2) [OF assms(1)]] by simp
  obtain p kb where p: "allocate_pid ka = Some (p, kb)" "frame_thread t kb kc" "pid (task kc t) = p" "t \<noteq> 0"
    "status (task kc t) = (if t = main_thread ka then TASK_RUNNING else TASK_READY)"
    by (rule init_thread_SomeD [OF assms(3) ok])
  have "thread_all_list kd = thread_all_list k"
  proof -
    obtain i bm where "kb = ka\<lparr>pid_bitmap := bm\<rparr>" by (rule allocate_pid_SomeD [OF ok p(1)])
    then show ?thesis using assms(4) p(2) fr by (simp add: keeps_thread_def frame_thread_def)
  qed
  then have "t \<notin> set (thread_all_list k)" using append_all_fresh [OF assms(6)] append_ready_all [OF assms(5)] by simp
  then have "t \<noteq> main_thread ka"
    using table_invD(4) [OF proc_invD(2) [OF assms(1)]] mem_only_fields(7) [OF assms(2)] by metis
  then show ?thesis using p assms(4-6) by (intro proc_inv_new [OF assms(1) fr p(1,2,3)]) simp_all
qed

lemma proc_inv_thread_start:
  assumes "proc_inv k" "thread_start nm prio fn arg k = Some (t, k')"
  shows "proc_inv k'"
proof -
  obtain ka kc ke where s: "get_kernel_pages 1 k = Some (t, ka)" "init_thread t nm prio ka = Some kc"
    "append_ready t (thread_create t fn arg kc) = Some ke" "append_all t ke = Some k'"
    using assms(2) by (auto simp: thread_start_def Option.bind_eq_Some_conv Let_def)
  have "proc_inv (k'\<lparr>cpu_eflags := cpu_eflags k'\<rparr>)"
    by (rule proc_inv_init [OF assms(1) mem_only_get_kernel_pages [OF s(1)] s(2) thread_create_keeps s(3,4)])
  then show ?thesis by simp
qed

lemma keeps_set_task_rest:
  "keeps_thread t k (set_task t (\<lambda>p. p\<lparr>pgdir := pd, u_block_desc := ds\<rparr>) k)" "keeps_thread t k (set_task t (\<lambda>p. p\<lparr>pgdir := pd\<rparr>) k)"
  "keeps_thread t k (set_task t (\<lambda>p. p\<lparr>name := g (name p)\<rparr>) k)" "keeps_thread t k (set_task t (\<lambda>p. p\<lparr>self_kstack := sp\<rparr>) k)"
  "keeps_thread t k (k\<lparr>cpu_eflags := fl\<rparr>)" "keeps_thread t k (k\<lparr>cr3 := c\<rparr>)" "keeps_thread t k (k\<lparr>vaddr_bits := vb\<rparr>)"
  "keeps_thread t k (k\<lparr>intr_stacks := is\<rparr>)" "keeps_thread t k (k\<lparr>thread_stacks := ts\<rparr>)"
  by (simp_all add: keeps_thread_def frame_thread_def)

lemma proc_inv_process_execute:
  assumes "proc_inv k" "process_execute fn nm k = Some k'"
  shows "proc_inv k'"
proof -
  obtain t ka kc kd pd ke where s: "get_kernel_pages 1 k = Some (t, ka)" "init_thread t nm default_prio ka = Some kc"
    "create_user_vaddr_bitmap t kc = Some kd" "create_page_dir (thread_create t Start_process fn kd) = Some (pd, ke)"
    using assms(2) by (auto simp: process_execute_def Option.bind_eq_Some_conv Let_def split_beta)
  let ?k = "(set_task t (\<lambda>p. p\<lparr>pgdir := pd, u_block_desc := block_desc_init\<rparr>) ke)
    \<lparr>cpu_eflags := snd (intr_disable (cpu_eflags ke))\<rparr>"
  obtain kf kg where f: "append_ready t ?k = Some kf" "append_all t kf = Some kg"
    "k' = kg\<lparr>cpu_eflags := snd (intr_set_status (fst (intr_disable (cpu_eflags ke))) (cpu_eflags kg))\<rparr>"
    using assms(2) s by (auto simp: process_execute_def Option.bind_eq_Some_conv Let_def split_beta)
  have "keeps_thread t kc kd" by (rule create_user_vaddr_bitmap_keeps [OF s(3)])
  also have "keeps_thread t kd (thread_create t Start_process fn kd)" by (rule thread_create_keeps)
  also have "keeps_thread t \<dots> ke" by (rule mem_only_keeps [OF create_page_dir_mem_only [OF s(4)]])
  also have "keeps_thread t ke (set_task t (\<lambda>p. p\<lparr>pgdir := pd, u_block_desc := block_desc_init\<rparr>) ke)" by (rule keeps_set_task_rest)
  also have "keeps_thread t \<dots> ?k" by (rule keeps_set_task_rest)
  finally have "keeps_thread t kc ?k" .
  then show ?thesis unfolding f(3)
    by (rule proc_inv_init [OF assms(1) mem_only_get_kernel_pages [OF s(1)] s(2) _ f(1,2)])
qed

section \<open>Fork\<close>

lemma copy_pcb_SomeD:
  assumes "copy_pcb_vaddrbitmap_stack0 t par s k = Some (ok, k')"
  obtains ka p kb kc where "frame_thread t k ka" "allocate_pid ka = Some (p, kb)" "frame_thread t kb kc" "pid (task kc t) = p"
    "status (task kc t) = TASK_READY" "keeps_thread t kc k'"
proof -
  define ka where "ka = (set_task t (\<lambda>_. (task k par)\<lparr>task_struct.fd_table := fsys.fd_table s, task_struct.cwd_inode_nr := fsys.cwd_inode_nr s\<rparr>) k)
    \<lparr>intr_stacks := copy_stack_page t par (intr_stacks k), thread_stacks := copy_stack_page t par (thread_stacks k)\<rparr>"
  have fa: "frame_thread t k ka" by (simp add: ka_def frame_thread_def)
  note d = assms [unfolded copy_pcb_vaddrbitmap_stack0_def Let_def set_task_procs, folded ka_def, unfolded fork_pid_def]
  obtain p kb where p: "allocate_pid ka = Some (p, kb)" using d by (auto simp: Option.bind_eq_Some_conv)
  define kc where "kc = set_task t (\<lambda>q. q\<lparr>pid := p, elapsed_ticks := 0, status := TASK_READY, ticks := priority q,
       parent_pid := pid (task kb par), u_block_desc := block_desc_init\<rparr>) kb"
  note d = d [unfolded p bind.bind_lunit split_conv, folded kc_def]
  obtain vb kd where kd: "get_kernel_pages bitmap_pg_cnt kc = Some (vb, kd)" using d by (auto simp: Option.bind_eq_Some_conv)
  have m: "keeps_thread t kc kd" by (rule mem_only_keeps [OF mem_only_get_kernel_pages [OF kd]])
  have "keeps_thread t kd k'"
  proof (cases "vb = 0")
    case True
    then show ?thesis using d kd by simp
  next
    case False
    let ?k = "kd\<lparr>vaddr_bits := (vaddr_bits kd)(t := vb)\<rparr>"
    have k': "k' = set_task t (\<lambda>q. q\<lparr>name := fork_name (name q)\<rparr>) ?k"
      using d kd False by (simp add: ASSERT_def split: if_splits)
    show ?thesis unfolding k' by (rule keeps_thread_trans [OF keeps_set_task_rest(7) keeps_set_task_rest(3)])
  qed
  then have "keeps_thread t kc k'" using m by (blast intro: keeps_thread_trans)
  moreover have "frame_thread t kb kc" "pid (task kc t) = p" "status (task kc t) = TASK_READY" by (simp_all add: kc_def)
  ultimately show thesis using that fa p by blast
qed

lemma page_dir_activate_keeps: "page_dir_activate k u = Some k' \<Longrightarrow> keeps_thread t k k'"
  by (auto simp: page_dir_activate_def Option.bind_eq_Some_conv intro: keeps_set_task_rest)

text \<open>The lock of the user pool is free and the page is copied by a running thread.\<close>

definition may_copy :: "'a procs_scheme \<Rightarrow> bool" where
  "may_copy k \<longleftrightarrow> pool_lock (user_pool k) = lock_init \<and> current k \<noteq> 0"

lemma keeps_may_copy: "keeps_thread t k k' \<Longrightarrow> may_copy k \<Longrightarrow> may_copy k'"
  by (simp add: may_copy_def keeps_thread_def frame_thread_def)

lemma copy_page_keeps:
  assumes "copy_page c par buf a k = Some k'" "may_copy k"
  shows "keeps_thread t k k'"
proof -
  obtain k1 k2 r k3 k4 where s: "vcopy 1024 buf a k = Some k1" "page_dir_activate k1 c = Some k2"
    "get_a_page_without_opvaddrbitmap PF_USER a k2 = Some (r, k3)" "vcopy 1024 a buf k3 = Some k4" "page_dir_activate k4 par = Some k'"
    using assms(1) by (auto simp: copy_page_def Option.bind_eq_Some_conv)
  have 2: "keeps_thread t k k2"
    by (rule keeps_thread_trans [OF mem_only_keeps [OF mem_only_vcopy [OF s(1)]] page_dir_activate_keeps [OF s(2)]])
  then have "may_copy k2" using assms(2) by (rule keeps_may_copy)
  then have "mem_only k2 k3" using s(3) by (intro mem_only_get_a_page_fork [OF s(3)]) (simp_all add: may_copy_def get_pool_def)
  then have "keeps_thread t k k3" using 2 mem_only_keeps keeps_thread_trans by blast
  also have "keeps_thread t k3 k4" by (rule mem_only_keeps [OF mem_only_vcopy [OF s(4)]])
  also have "keeps_thread t k4 k'" by (rule page_dir_activate_keeps [OF s(5)])
  finally show ?thesis .
qed

lemma copy_bits_keeps: "copy_bits c par buf byte ib is k = Some k' \<Longrightarrow> may_copy k \<Longrightarrow> keeps_thread t k k'"
proof (induction "is" arbitrary: k)
  case (Cons i "is")
  then obtain k1 where k1: "(if push_bit i 1 AND byte \<noteq> 0 then copy_page c par buf
      ((of_nat ib * 8 + of_nat i) * PG_SIZE + vaddr_start (userproc_vaddr (task k par))) k else Some k) = Some k1"
    "copy_bits c par buf byte ib is k1 = Some k'" by (auto simp: Option.bind_eq_Some_conv)
  then have "keeps_thread t k k1" using copy_page_keeps [OF _ Cons.prems(2)] by (auto split: if_splits)
  then show ?case using Cons.IH [OF k1(2)] keeps_may_copy Cons.prems(2) keeps_thread_trans by blast
qed simp

lemma copy_bytes_keeps: "copy_bytes c par buf is k = Some k' \<Longrightarrow> may_copy k \<Longrightarrow> keeps_thread t k k'"
proof (induction "is" arbitrary: k)
  case (Cons i "is")
  then obtain k1 where k1: "(if bits (vaddr_bitmap (userproc_vaddr (task k par))) (of_nat i) \<noteq> 0
      then copy_bits c par buf (bits (vaddr_bitmap (userproc_vaddr (task k par))) (of_nat i)) i [0..<8] k else Some k) = Some k1"
    "copy_bytes c par buf is k1 = Some k'" by (auto simp: Option.bind_eq_Some_conv Let_def)
  then have "keeps_thread t k k1" using copy_bits_keeps [OF _ Cons.prems(2)] by (auto split: if_splits)
  then show ?case using Cons.IH [OF k1(2)] keeps_may_copy Cons.prems(2) keeps_thread_trans by blast
qed simp

lemma build_child_stack_keeps: "keeps_thread t k (build_child_stack t k)"
  by (simp add: build_child_stack_def Let_def keeps_thread_def frame_thread_def)

lemma copy_process_SomeD:
  assumes "copy_process t par s k = Some (ok, s', k')" "may_copy k" "pid_ok k"
  shows "\<not> ok \<and> frame_thread t k k' \<or>
    (\<exists>ka p kb kc. frame_thread t k ka \<and> allocate_pid ka = Some (p, kb) \<and> frame_thread t kb kc \<and> pid (task kc t) = p \<and>
       status (task kc t) = TASK_READY \<and> keeps_thread t kc k')"
proof -
  obtain buf k1 where k1: "get_kernel_pages 1 k = Some (buf, k1)" using assms(1) by (auto simp: copy_process_def Option.bind_eq_Some_conv)
  note m1 = mem_only_frame [OF mem_only_get_kernel_pages [OF k1], of t]
  show ?thesis
  proof (cases "buf = 0")
    case True
    then show ?thesis using assms(1) k1 m1 by (simp add: copy_process_def)
  next
    case False
    then obtain ok2 k2 where k2: "copy_pcb_vaddrbitmap_stack0 t par s k1 = Some (ok2, k2)"
      using assms(1) k1 by (auto simp: copy_process_def Option.bind_eq_Some_conv)
    obtain ka p kb kc where a: "frame_thread t k1 ka" "allocate_pid ka = Some (p, kb)" "frame_thread t kb kc" "pid (task kc t) = p"
      "status (task kc t) = TASK_READY" "keeps_thread t kc k2"
      by (rule copy_pcb_SomeD [OF k2])
    have ka: "frame_thread t k ka" using m1 a(1) by (rule frame_thread_trans)
    have oka: "pid_ok ka" using frame_pid_ok [OF ka] assms(3) by simp
    obtain i bm where kb: "kb = ka\<lparr>pid_bitmap := bm\<rparr>" by (rule allocate_pid_SomeD [OF oka a(2)])
    have c2: "may_copy k2" using assms(2) ka kb a(3,6) by (simp add: may_copy_def keeps_thread_def frame_thread_def)
    have "keeps_thread t k2 k'"
    proof (cases ok2)
      case False
      then show ?thesis using assms(1) k1 k2 \<open>buf \<noteq> 0\<close> by (simp add: copy_process_def)
    next
      case True
      then obtain pd k3 where k3: "create_page_dir k2 = Some (pd, k3)"
        using assms(1) k1 k2 \<open>buf \<noteq> 0\<close> by (auto simp: copy_process_def Option.bind_eq_Some_conv)
      let ?k3 = "set_task t (\<lambda>q. q\<lparr>pgdir := pd\<rparr>) k3"
      have m3: "keeps_thread t k2 ?k3"
        by (rule keeps_thread_trans [OF mem_only_keeps [OF create_page_dir_mem_only [OF k3]] keeps_set_task_rest(2)])
      show ?thesis
      proof (cases "pd = 0")
        case True
        then show ?thesis using assms(1) k1 k2 k3 \<open>buf \<noteq> 0\<close> \<open>ok2\<close> m3 by (simp add: copy_process_def)
      next
        case False
        then obtain k4 where k4: "copy_body_stack3 t par buf ?k3 = Some k4" "mfree_page PF_KERNEL buf 1 (build_child_stack t k4) = Some k'"
          using assms(1) k1 k2 k3 \<open>buf \<noteq> 0\<close> \<open>ok2\<close> by (auto simp: copy_process_def Option.bind_eq_Some_conv Let_def)
        have "keeps_thread t ?k3 k4"
          using k4(1) keeps_may_copy [OF m3 c2] unfolding copy_body_stack3_def by (rule copy_bytes_keeps)
        also have "keeps_thread t k4 (build_child_stack t k4)" by (rule build_child_stack_keeps)
        also have "keeps_thread t \<dots> k'" by (rule mem_only_keeps [OF mem_only_mfree_page [OF k4(2)]])
        finally show ?thesis using m3 keeps_thread_trans by blast
      qed
    qed
    then have "keeps_thread t kc k'" using a(6) by (blast intro: keeps_thread_trans)
    then show ?thesis using ka a by blast
  qed
qed

text \<open>A fork that fails must not have been handed the page of a living thread.\<close>

lemma proc_inv_fork:
  assumes "proc_inv k" "sys_fork s k = Some (r, s', k')"
    and "r = -1 \<Longrightarrow> fst (the (get_kernel_pages 1 k)) \<notin> set (thread_all_list k)"
  shows "proc_inv k'"
proof -
  obtain t k1 where k1: "get_kernel_pages 1 k = Some (t, k1)" using assms(2) by (auto simp: sys_fork_def Let_def Option.bind_eq_Some_conv)
  note m = mem_only_get_kernel_pages [OF k1] and tb = table_invD [OF proc_invD(2) [OF assms(1)]]
  show ?thesis
  proof (cases "t = 0")
    case True
    then show ?thesis using assms(2) k1 mem_only_inv [OF assms(1) m] by (simp add: sys_fork_def)
  next
    case False
    then obtain ok s2 k2 where k2: "copy_process t (current k) s k1 = Some (ok, s2, k2)"
      using assms(2) k1 by (auto simp: sys_fork_def Let_def running_thread_def Option.bind_eq_Some_conv)
    have inv1: "proc_inv k1" by (rule mem_only_inv [OF assms(1) m])
    note tb1 = table_invD [OF proc_invD(2) [OF inv1]]
    have mc: "may_copy k1" using tb1(1,2) pid_okD(5) by (auto simp: may_copy_def)
    have all1: "thread_all_list k1 = thread_all_list k" using mem_only_fields [OF m] by simp
    show ?thesis
    proof (cases ok)
      case False
      then have r: "r = -1" "k' = k2" using assms(2) k1 k2 \<open>t \<noteq> 0\<close>
        by (auto simp: sys_fork_def Let_def running_thread_def Option.bind_eq_Some_conv)
      have t: "t \<notin> set (thread_all_list k1)" using assms(3) [OF r(1)] k1 all1 by simp
      from copy_process_SomeD [OF k2 mc tb1(1)] False show ?thesis
      proof (elim disjE exE conjE)
        assume "frame_thread t k1 k2"
        then show ?thesis using proc_inv_frame [OF inv1 _ t] r(2) by simp
      next
        fix ka p kb kc
        assume a: "frame_thread t k1 ka" "allocate_pid ka = Some (p, kb)" "frame_thread t kb kc" "keeps_thread t kc k2"
        have ia: "proc_inv ka" by (rule proc_inv_frame [OF inv1 a(1) t])
        have ib: "proc_inv kb" by (rule proc_inv_pid_taken [OF ia a(2)])
        obtain i bm where "kb = ka\<lparr>pid_bitmap := bm\<rparr>" by (rule allocate_pid_SomeD [OF table_invD(1) [OF proc_invD(2) [OF ia]] a(2)])
        then have "t \<notin> set (thread_all_list kb)" using a(1) t by (simp add: frame_thread_def)
        moreover have "frame_thread t kb k2" using a(3,4) by (auto simp: keeps_thread_def intro: frame_thread_trans)
        ultimately show ?thesis using proc_inv_frame [OF ib] r(2) by blast
      qed
    next
      case True
      then obtain ke where f: "append_ready t k2 = Some ke" "append_all t ke = Some k'"
        using assms(2) k1 k2 \<open>t \<noteq> 0\<close> by (auto simp: sys_fork_def Let_def running_thread_def Option.bind_eq_Some_conv)
      obtain ka p kb kc where a: "frame_thread t k1 ka" "allocate_pid ka = Some (p, kb)" "frame_thread t kb kc" "pid (task kc t) = p"
        "status (task kc t) = TASK_READY" "keeps_thread t kc k2"
        using copy_process_SomeD [OF k2 mc tb1(1)] True by blast
      have "proc_inv (k'\<lparr>cpu_eflags := cpu_eflags k'\<rparr>)"
        by (rule proc_inv_new [OF inv1 a(1-5) False a(6) f])
      then show ?thesis by simp
    qed
  qed
qed

section \<open>Exit\<close>

lemma release_ptes_mem_only: "release_ptes is a k = Some k' \<Longrightarrow> mem_only k k'"
  by (induction "is" arbitrary: k) (auto simp: Option.bind_eq_Some_conv split: if_splits
      dest!: mem_only_free_a_phy_page intro: mem_only_trans)

lemma release_pdes_mem_only: "release_pdes is a k = Some k' \<Longrightarrow> mem_only k k'"
  by (induction "is" arbitrary: k) (auto simp: Option.bind_eq_Some_conv split: if_splits
      dest!: mem_only_free_a_phy_page release_ptes_mem_only intro: mem_only_trans)

lemma release_fds_mem_only: "release_fds fds s k = Some (s', k') \<Longrightarrow> mem_only k k'"
proof (induction fds arbitrary: s k)
  case (Cons fd fds)
  obtain s1 k1 where "release_fds fds s1 k1 = Some (s', k')" "k1 = k \<or> (\<exists>a. mfree_page PF_KERNEL a 1 k = Some k1)"
    using Cons.prems by (auto simp: Option.bind_eq_Some_conv Let_def split: if_splits)
  then show ?case using Cons.IH mem_only_mfree_page mem_only_trans by blast
qed simp

lemma release_proc_resource_mem_only: "release_proc_resource t s k = Some (s', k') \<Longrightarrow> mem_only k k'"
  by (auto simp: release_proc_resource_def Option.bind_eq_Some_conv Let_def
      dest!: release_pdes_mem_only mem_only_mfree_page release_fds_mem_only intro: mem_only_trans)

definition adopted :: "u16 \<Rightarrow> 'a sched_scheme \<Rightarrow> u32 \<Rightarrow> task_struct" where
  "adopted p k t = (if t \<in> set (thread_all_list k) \<and> parent_pid (task k t) = p then (task k t)\<lparr>parent_pid := 1\<rparr> else task k t)"

lemma fold_adapt: "fold (init_adapt_a_child p) (thread_all_list k) k = k\<lparr>task := adopted p k\<rparr>"
proof -
  have "fold (init_adapt_a_child p) ts k = k\<lparr>task := \<lambda>t. if t \<in> set ts \<and> parent_pid (task k t) = p then (task k t)\<lparr>parent_pid := 1\<rparr> else task k t\<rparr>"
    for ts and k :: "'a sched_scheme"
  proof (induction ts arbitrary: k)
    case (Cons t ts)
    show ?case
      unfolding fold.simps comp_def Cons.IH by (auto simp: init_adapt_a_child_def set_task_def fun_eq_iff intro!: sched.equality)
  qed simp
  then show ?thesis by (simp add: adopted_def [abs_def])
qed

lemma adopted_fields [simp]:
  "pid (adopted p k t) = pid (task k t)" "status (adopted p k t) = status (task k t)" "exit_status (adopted p k t) = exit_status (task k t)"
  by (simp_all add: adopted_def)

text \<open>The state in which the resources are released.\<close>

definition leaving :: "u32 \<Rightarrow> 'a sched_scheme \<Rightarrow> 'a sched_scheme" where
  "leaving st k =
     (let k = set_task (current k) (\<lambda>t. t\<lparr>exit_status := ucast st\<rparr>) k in k\<lparr>task := adopted (pid (task k (current k))) k\<rparr>)"

lemma leaving_fields [simp]:
  "pid (task (leaving st k) t) = pid (task k t)" "status (task (leaving st k) t) = status (task k t)"
  "current (leaving st k) = current k" "thread_all_list (leaving st k) = thread_all_list k"
  "parent_pid (task (leaving st k) t) =
     (if t \<in> set (thread_all_list k) \<and> parent_pid (task k t) = pid (task k (current k)) then 1 else parent_pid (task k t))"
  "exit_status (task (leaving st k) t) = (if t = current k then ucast st else exit_status (task k t))"
  by (auto simp: leaving_def Let_def adopted_def)

lemma proc_inv_leaving:
  assumes "proc_inv k"
  shows "proc_inv (leaving st k)"
proof -
  note inv = proc_invD [OF assms]
  note tb = table_invD [OF inv(2)] and s = sched_invD [OF inv(1)]
  have m1: "pid (task k (current k)) \<noteq> -1" using pid_valid [OF tb(1) tb(8) [OF s(2)]] .
  have "no_lost_exit (leaving st k)"
    unfolding no_lost_exit_def
  proof (intro ballI impI)
    fix t c
    assume "t \<in> set (thread_all_list (leaving st k))" "c \<in> set (thread_all_list (leaving st k))"
      "status (task (leaving st k) t) = TASK_WAITING" "status (task (leaving st k) c) = TASK_HANGING"
      "parent_pid (task (leaving st k) c) = pid (task (leaving st k) t)"
    then show "pid (task (leaving st k) t) = 1"
      using tb(9) by (cases "parent_pid (task k c) = pid (task k (current k))") (auto simp: no_lost_exit_def)
  qed
  moreover have o: "main_thread (leaving st k) = main_thread k" "idle_thread (leaving st k) = idle_thread k"
    "pid_bitmap (leaving st k) = pid_bitmap k" "pid_start (leaving st k) = pid_start k" "pid_lock (leaving st k) = pid_lock k"
    "user_pool (leaving st k) = user_pool k" "thread_ready_list (leaving st k) = thread_ready_list k"
    by (simp_all add: leaving_def Let_def)
  ultimately have "table_inv (leaving st k)"
    using tb(5,6) m1 pid_okD(5) [OF tb(1)] by (intro table_inv_same [OF inv(2)]) auto
  moreover have "sched_inv (leaving st k)" using inv(1) o by (simp add: sched_inv_def sched_pre_def)
  ultimately show ?thesis by (simp add: proc_inv_def)
qed

lemma sys_exit_unfold:
  "sys_exit st s k = do {
     ASSERT (parent_pid (task k (current k)) \<noteq> -1);
     (s, k1) \<leftarrow> release_proc_resource (current k) s (leaving st k);
     parent_thread \<leftarrow> pid2thread (scast (parent_pid (task k1 (current k)))) k1;
     k2 \<leftarrow> (if status (task k1 parent_thread) = TASK_WAITING then thread_unblock k1 parent_thread else Some k1);
     (old, k3) \<leftarrow> thread_block k2 TASK_HANGING;
     Some (s, k3) }"
proof -
  let ?k = "set_task (current k) (\<lambda>t. t\<lparr>exit_status := ucast st\<rparr>) k"
  have f: "fold (init_adapt_a_child (pid (task k (current k)))) (thread_all_list k) ?k = leaving st k"
    using fold_adapt [of "pid (task ?k (current k))" ?k] by (simp add: leaving_def Let_def)
  show ?thesis unfolding sys_exit_def Let_def running_thread_def by (simp add: f)
qed

text \<open>The search by pid finds the thread with the pid, which is the only one.\<close>

lemma scast_pid_eq: "(scast (a :: u16) :: u32) = scast b \<longleftrightarrow> a = b"
proof -
  have "(ucast (scast x :: u32) :: u16) = x" for x :: u16
  proof (rule bit_word_eqI)
    fix n assume "n < LENGTH(16)"
    then show "bit (ucast (scast x :: u32) :: u16) n = bit x n"
      by (cases "n = 15") (auto simp: bit_unsigned_iff bit_signed_iff min_def)
  qed
  then show ?thesis by metis
qed

lemma pid2thread_SomeD: "pid2thread (scast p) k = Some t \<Longrightarrow> t \<in> set (thread_all_list k) \<and> pid (task k t) = p"
  by (auto simp: pid2thread_def pid_check_def find_Some_iff scast_pid_eq)

lemma pid2thread_finds:
  assumes "inj_on (\<lambda>t. pid (task k t)) (set (thread_all_list k))" "t \<in> set (thread_all_list k)"
  shows "pid2thread (scast (pid (task k t))) k = Some t"
proof -
  have "pid2thread (scast (pid (task k t))) k \<noteq> None"
    using assms(2) by (auto simp: pid2thread_def pid_check_def find_None_iff)
  then obtain u where u: "pid2thread (scast (pid (task k t))) k = Some u" by blast
  then have "u = t" using pid2thread_SomeD [OF u] assms by (auto dest: inj_onD)
  then show ?thesis using u by simp
qed

lemma proc_inv_exit:
  assumes "proc_inv k" "sys_exit st s k = Some (s', k')"
  shows "proc_inv k'"
proof -
  obtain k1 par k2 old where r: "release_proc_resource (current k) s (leaving st k) = Some (s', k1)"
    "pid2thread (scast (parent_pid (task k1 (current k)))) k1 = Some par"
    "(if status (task k1 par) = TASK_WAITING then thread_unblock k1 par else Some k1) = Some k2"
    "thread_block k2 TASK_HANGING = Some (old, k')"
    using assms(2) by (auto simp: sys_exit_unfold Option.bind_eq_Some_conv)
  note m = release_proc_resource_mem_only [OF r(1)]
  have i1: "proc_inv k1" by (rule mem_only_inv [OF proc_inv_leaving [OF assms(1)] m])
  note par = pid2thread_SomeD [OF r(2)] and c1 = mem_only_fields(4) [OF m]
  have "proc_inv k2 \<and> current k2 = current k1 \<and> thread_all_list k2 = thread_all_list k1 \<and> status (task k2 par) \<noteq> TASK_WAITING \<and>
    (\<forall>t. pid (task k2 t) = pid (task k1 t) \<and> parent_pid (task k2 t) = parent_pid (task k1 t))"
  proof (cases "status (task k1 par) = TASK_WAITING")
    case True
    then have b: "blocking (status (task k1 par))" by (simp add: blocking_def)
    show ?thesis by (rule proc_inv_unblock [OF i1 conjunct1 [OF par] b]) (use r(3) True in auto)
  qed (use r(3) i1 in auto)
  then have i2: "proc_inv k2" "current k2 = current k1" "thread_all_list k2 = thread_all_list k1" "status (task k2 par) \<noteq> TASK_WAITING"
    "\<And>t. pid (task k2 t) = pid (task k1 t) \<and> parent_pid (task k2 t) = parent_pid (task k1 t)" by blast+
  show ?thesis
  proof (rule proc_inv_block [OF i2(1) _ r(4)])
    show "blocking TASK_HANGING" by (simp add: blocking_def)
    show "\<forall>t\<in>set (thread_all_list k2). status (task k2 t) = TASK_WAITING \<longrightarrow>
      pid (task k2 t) = parent_pid (task k2 (current k2)) \<longrightarrow> pid (task k2 t) = 1"
    proof (intro ballI impI)
      fix t
      assume t: "t \<in> set (thread_all_list k2)" "status (task k2 t) = TASK_WAITING" "pid (task k2 t) = parent_pid (task k2 (current k2))"
      have "par \<in> set (thread_all_list k2)" "pid (task k2 par) = pid (task k2 t)"
        using par t(3) i2(2,3,5) c1 by auto
      then have "t = par" using table_invD(7) [OF proc_invD(2) [OF i2(1)]] t(1) by (auto dest: inj_onD)
      then show "pid (task k2 t) = 1" using i2(4) t(2) by simp
    qed
  qed simp
qed

section \<open>Wait\<close>

text \<open>Reaping a thread that hangs.\<close>

lemma proc_inv_thread_exit:
  assumes "proc_inv k" "thread_exit c False k = Some k'" "c \<in> set (thread_all_list k)" "status (task k c) = TASK_HANGING"
    "parent_pid (task k c) \<noteq> -1"
  shows "proc_inv k' \<and> thread_all_list k' = remove1 c (thread_all_list k) \<and> pid_used k' = pid_used k - {pid (task k c)}"
proof -
  note inv = proc_invD [OF assms(1)]
  note tb = table_invD [OF inv(2)] and s = sched_invD [OF inv(1)]
  note pre = sched_preD [OF s(1)]
  have ne: "c \<noteq> idle_thread k" "c \<noteq> main_thread k" "c \<noteq> current k" "c \<notin> set (thread_ready_list k)"
    using tb(5,6) s(3) pre(5) assms(3-5) by auto
  define k0 where "k0 = set_task c (\<lambda>t. t\<lparr>status := TASK_DIED\<rparr>) (k\<lparr>cpu_eflags := snd (intr_disable (cpu_eflags k))\<rparr>)"
  have nr: "c \<notin> set (thread_ready_list k0)" using ne(4) by (simp add: k0_def)
  note d = assms(2) [unfolded thread_exit_def Let_def, folded k0_def]
  obtain k1 k2 where k1: "(if pgdir (task k0 c) \<noteq> 0 then mfree_page PF_KERNEL (pgdir (task k0 c)) 1 k0 else Some k0) = Some k1"
    "(if c \<noteq> main_thread k1 then mfree_page PF_KERNEL c 1 (k1\<lparr>thread_all_list := remove1 c (thread_all_list k1)\<rparr>)
      else Some (k1\<lparr>thread_all_list := remove1 c (thread_all_list k1)\<rparr>)) = Some k2"
    "release_pid (pid (task k2 c)) k2 = Some k'"
    using d nr by (simp only: if_False) (auto simp: Option.bind_eq_Some_conv)
  have m1: "mem_only k0 k1" using k1(1) mem_only_mfree_page by (auto split: if_splits)
  have k2: "mem_only (k1\<lparr>thread_all_list := remove1 c (thread_all_list k1)\<rparr>) k2" "release_pid (pid (task k2 c)) k2 = Some k'"
    using k1(2,3) mem_only_mfree_page by (auto split: if_splits)
  note f = mem_only_fields [OF k2(1)] mem_only_procs [OF k2(1)] mem_only_fields [OF m1] mem_only_procs [OF m1]
  have g: "task k2 = (task k)(c := (task k c)\<lparr>status := TASK_DIED\<rparr>)" "thread_all_list k2 = remove1 c (thread_all_list k)"
    "thread_ready_list k2 = thread_ready_list k" "current k2 = current k" "idle_thread k2 = idle_thread k"
    "main_thread k2 = main_thread k" "pid_bitmap k2 = pid_bitmap k" "pid_start k2 = pid_start k" "pid_lock k2 = pid_lock k"
    "pool_lock (user_pool k2) = pool_lock (user_pool k)"
    using f by (simp_all add: k0_def)
  have ok2: "pid_ok k2" using tb(1) g by (simp add: pid_ok_def)
  have u2: "pid_used k2 = pid_used k" using g by (simp add: pid_used_def)
  have p: "pid (task k2 c) = pid (task k c)" "pid (task k c) \<in> pid_space k2"
    using g(1) tb(8) [OF assms(3)] pids.used_space [OF ok2] u2 by auto
  note rel = pids.release_used [OF ok2 p(2) k2(2) [unfolded p(1)]] pids.release_invar [OF ok2 p(2) k2(2) [unfolded p(1)]]
  obtain bm where k': "k' = k2\<lparr>pid_bitmap := bm\<rparr>" using k2(2) by (auto simp: release_pid_eq [OF ok2] Option.bind_eq_Some_conv)
  have all: "set (thread_all_list k') = set (thread_all_list k) - {c}" "thread_all_list k' = remove1 c (thread_all_list k)"
    using g(2) tb(3) by (simp_all add: k')
  have old: "task k' t = task k t" if "t \<noteq> c" for t using that g(1) by (simp add: k')
  have "no_lost_exit k'" using tb(9) unfolding no_lost_exit_def all(1) by (auto simp: old)
  moreover have "inj_on (\<lambda>t. pid (task k' t)) (set (thread_all_list k'))"
    using tb(7) unfolding all(1) by (auto simp: inj_on_def old)
  moreover have "\<forall>t\<in>set (thread_all_list k'). pid (task k' t) \<in> pid_used k'"
    using tb(7,8) assms(3) unfolding all(1) rel(1) u2 by (auto simp: old dest: inj_onD)
  moreover have "idle_thread k' = idle_thread k" "main_thread k' = main_thread k" "pool_lock (user_pool k') = lock_init"
    "distinct (thread_all_list k')"
    using g tb(2,3) by (simp_all add: k')
  ultimately have "table_inv k'"
    using rel(2) tb(4-6) ne old unfolding table_inv_def all(1) by auto
  moreover have "sched_inv k'"
  proof -
    have l: "thread_ready_list k' = thread_ready_list k" "current k' = current k" "idle_thread k' = idle_thread k" using g by (simp_all add: k')
    have "set (thread_ready_list k) \<subseteq> set (thread_all_list k) - {c}" using pre(4) ne(4) by auto
    then show ?thesis unfolding sched_inv_def sched_pre_def all(1) l
      using pre s ne by (auto simp: old)
  qed
  ultimately show ?thesis using all(2) rel(1) u2 by (simp add: proc_inv_def)
qed

lemma proc_inv_wait:
  assumes "proc_inv k" "sys_wait k = Some (r, k')"
  shows "proc_inv k'"
proof -
  note inv = proc_invD [OF assms(1)]
  let ?p = "pid (task k (current k))"
  have m1: "?p \<noteq> -1" using pid_valid [OF table_invD(1) [OF inv(2)] table_invD(8) [OF inv(2) sched_invD(2) [OF inv(1)]]] .
  show ?thesis
  proof (cases "find (find_hanging_child k ?p) (thread_all_list k)")
    case (Some c)
    then have "c \<in> set (thread_all_list k)" "status (task k c) = TASK_HANGING" "parent_pid (task k c) = ?p"
      by (auto simp: find_Some_iff find_hanging_child_def)
    moreover have "thread_exit c False k = Some k'"
      using assms(2) Some by (auto simp: sys_wait_def running_thread_def Let_def Option.bind_eq_Some_conv)
    ultimately show ?thesis using proc_inv_thread_exit [OF assms(1)] m1 by auto
  next
    case None
    show ?thesis
    proof (cases "find (find_child k ?p) (thread_all_list k)")
      case (Some c)
      then obtain old where b: "thread_block k TASK_WAITING = Some (old, k')"
        using assms(2) None by (auto simp: sys_wait_def running_thread_def Let_def Option.bind_eq_Some_conv)
      show ?thesis
        by (rule proc_inv_block [OF assms(1) _ b])
          (use None in \<open>auto simp: blocking_def find_None_iff find_hanging_child_def\<close>)
    qed (use assms None in \<open>auto simp: sys_wait_def running_thread_def Let_def\<close>)
  qed
qed

text \<open>Blocking changes no thread's identity.\<close>

lemma block_ids:
  assumes "sched_inv k" "blocking st" "thread_block k st = Some (old, k')"
  shows "pid (task k' t) = pid (task k t)" "parent_pid (task k' t) = parent_pid (task k t)"
    "exit_status (task k' t) = exit_status (task k t)"
proof -
  let ?k = "set_task (current k) (\<lambda>t. t\<lparr>status := st\<rparr>) (k\<lparr>cpu_eflags := snd (intr_disable (cpu_eflags k))\<rparr>)"
  have sch: "schedule ?k = Some k'"
    using assms(2,3) by (auto simp: thread_block_def running_thread_def split_beta Let_def ASSERT_bind Option.bind_eq_Some_conv)
  have st: "st \<noteq> TASK_RUNNING" using assms(2) by (auto simp: blocking_def)
  obtain c e where "k' = ?k\<lparr>thread_ready_list := tl (sched_queue ?k), task := sched_tasks ?k,
       cr3 := c, esp0 := e, current := hd (sched_queue ?k)\<rparr>"
    by (rule schedule_SomeD [OF leave_cpu_pre [OF assms(1,2)] _ sch]) (simp_all add: st)
  then have t: "task k' = sched_tasks ?k" by simp
  show "pid (task k' t) = pid (task k t)" "parent_pid (task k' t) = parent_pid (task k t)"
    "exit_status (task k' t) = exit_status (task k t)" by (simp_all add: t)
qed


text \<open>The exit of a child whose parent waits: the parent is put at the head of the ready queue and runs next.\<close>

lemma exit_wakes_parent:
  assumes "proc_inv k" "par \<in> set (thread_all_list k)" "status (task k par) = TASK_WAITING"
    "parent_pid (task k (current k)) = pid (task k par)"
    and r: "release_proc_resource (current k) s (leaving st k) = Some (s', k1)" "spaces_ok D k1"
  obtains k' where "sys_exit st s k = Some (s', k')" "current k' = par" "status (task k' (current k)) = TASK_HANGING"
    "thread_all_list k' = thread_all_list k"
    "\<And>t. pid (task k' t) = pid (task k t)" "\<And>t. parent_pid (task k' t) = parent_pid (task (leaving st k) t)"
    "\<And>t. exit_status (task k' t) = exit_status (task (leaving st k) t)"
    "\<And>t. t \<noteq> current k \<Longrightarrow> t \<noteq> par \<Longrightarrow> status (task k' t) = status (task k t)"
proof -
  note inv = proc_invD [OF assms(1)]
  note tb = table_invD [OF inv(2)] and sc = sched_invD [OF inv(1)]
  have ne: "par \<noteq> current k" using assms(3) sc(3) by auto
  then have "pid (task k par) \<noteq> pid (task k (current k))" using tb(7) assms(2) sc(2) by (auto dest: inj_onD)
  then have pp: "parent_pid (task (leaving st k) (current k)) = pid (task k par)" using assms(4) by simp
  note m = mem_only_fields [OF release_proc_resource_mem_only [OF r(1)]]
  have i1: "proc_inv k1" by (rule mem_only_inv [OF proc_inv_leaving [OF assms(1)] release_proc_resource_mem_only [OF r(1)]])
  have c1: "current k1 = current k" "thread_all_list k1 = thread_all_list k" "task k1 = task (leaving st k)" using m by simp_all
  have f: "pid2thread (scast (parent_pid (task k1 (current k)))) k1 = Some par"
    using pid2thread_finds [OF table_invD(7) [OF proc_invD(2) [OF i1]], of par] assms(2) c1 pp by simp
  have w: "par \<in> set (thread_all_list k1)" "blocking (status (task k1 par))" using assms(2,3) c1 by (simp_all add: blocking_def)
  obtain k2 where k2: "thread_unblock k1 par = Some k2" "proc_inv k2" "current k2 = current k1"
    "task k2 = (task k1)(par := (task k1 par)\<lparr>status := TASK_READY\<rparr>)" "thread_all_list k2 = thread_all_list k1"
    "thread_ready_list k2 = par # thread_ready_list k1" "phys k2 = phys k1" "cr3 k2 = cr3 k1"
    by (rule proc_inv_unblock [OF i1 w])
  have sp: "spaces_ok D k2" using r(2) k2 by (auto simp: spaces_ok_def)
  have bh: "blocking TASK_HANGING" by (simp add: blocking_def)
  obtain k' where k': "thread_block k2 TASK_HANGING = Some (intr_get_status (cpu_eflags k2), k')"
    "current k' # thread_ready_list k' = (if thread_ready_list k2 = [] then [idle_thread k2] else thread_ready_list k2)"
    "current k' \<noteq> current k2 \<longrightarrow> status (task k' (current k2)) = TASK_HANGING" "thread_all_list k' = thread_all_list k2"
    "\<And>t. t \<noteq> current k2 \<Longrightarrow> t \<noteq> current k' \<Longrightarrow> task k' t = task k2 t"
    using block_running [OF proc_invD(1) [OF k2(2)] sp bh] by metis
  note ids = block_ids [OF proc_invD(1) [OF k2(2)] bh k'(1)]
  have cur: "current k' = par" using k'(2) k2(6) by simp
  show thesis
  proof (rule that)
    have "parent_pid (task k (current k)) \<noteq> -1" using pid_valid [OF tb(1) tb(8) [OF assms(2)]] assms(4) by simp
    moreover have "status (task k1 par) = TASK_WAITING" using assms(3) c1 by simp
    ultimately show "sys_exit st s k = Some (s', k')" unfolding sys_exit_unfold using r(1) f k2(1) k'(1) by simp
  qed (use cur k' k2 c1 ids ne in auto)
qed


section \<open>The system\<close>

text \<open>The steps: a time slice ends, the running thread blocks on a semaphore, a blocked thread is woken, a thread or
  a process is made, and the system calls fork, wait and exit. Each is the kernel's own function, applied to the
  state. The files in the state are those of the running process: a step that may change the running process goes on
  with any files.\<close>

inductive proc_step :: "'a kio_scheme \<times> 'b procs_scheme \<Rightarrow> 'a kio_scheme \<times> 'b procs_scheme \<Rightarrow> bool" where
  Slice: "schedule k = Some k' \<Longrightarrow> proc_step (s, k) (s', k')"
| Block: "thread_block k TASK_BLOCKED = Some (old, k') \<Longrightarrow> proc_step (s, k) (s', k')"
| Wake: "t \<in> set (thread_all_list k) \<Longrightarrow> status (task k t) = TASK_BLOCKED \<Longrightarrow> thread_unblock k t = Some k' \<Longrightarrow>
    proc_step (s, k) (s, k')"
| Start: "thread_start nm prio fn arg k = Some (t, k') \<Longrightarrow> proc_step (s, k) (s, k')"
| Execute: "process_execute fn nm k = Some k' \<Longrightarrow> proc_step (s, k) (s, k')"
| Fork: "sys_fork s k = Some (r, s', k') \<Longrightarrow>
    (r = -1 \<Longrightarrow> fst (the (get_kernel_pages 1 k)) \<notin> set (thread_all_list k)) \<Longrightarrow> proc_step (s, k) (s', k')"
| Wait: "sys_wait k = Some (r, k') \<Longrightarrow> proc_step (s, k) (s', k')"
| Exit: "sys_exit st s k = Some (s0, k') \<Longrightarrow> proc_step (s, k) (s', k')"

lemma proc_step_inv:
  assumes "proc_step (s, k) (s', k')" "proc_inv k"
  shows "proc_inv k'"
  using assms(1)
proof cases
  case Slice
  show ?thesis
    by (rule table_inv_schedule [OF proc_invD(2) [OF assms(2)] sched_invD(1) [OF proc_invD(1) [OF assms(2)]] _ Slice])
      (simp add: sched_invD(2) [OF proc_invD(1) [OF assms(2)]])
next
  case (Block old)
  show ?thesis by (rule proc_inv_block [OF assms(2) _ Block]) (simp_all add: blocking_def)
next
  case (Wake t)
  then have b: "blocking (status (task k t))" by (simp add: blocking_def)
  show ?thesis by (rule proc_inv_unblock [OF assms(2) Wake(2) b]) (use Wake(4) in auto)
next
  case (Start nm prio fn arg t)
  then show ?thesis using proc_inv_thread_start [OF assms(2)] by blast
next
  case (Execute fn nm)
  then show ?thesis using proc_inv_process_execute [OF assms(2)] by blast
next
  case (Fork r)
  then show ?thesis using proc_inv_fork [OF assms(2)] by blast
next
  case (Wait r)
  then show ?thesis using proc_inv_wait [OF assms(2)] by blast
next
  case (Exit st)
  then show ?thesis using proc_inv_exit [OF assms(2)] by blast
qed

text \<open>Property C1: whatever the order in which time slices end, threads block and are woken, threads and processes are
  made, and processes fork, wait and exit, the process table stays well formed: exactly the ready threads are queued,
  each once, and only the running thread runs; the living threads have distinct pids, all of them taken from the pid
  pool, whose lock is free; and a process that waits has no child that has already left, unless it is init, so no exit
  is lost.\<close>

theorem process_table_invariant:
  assumes "proc_inv k" "proc_step\<^sup>*\<^sup>* (s, k) (s', k')"
  shows "proc_inv k'"
  using assms(2)
proof (induction "(s', k')" arbitrary: s' k' rule: rtranclp_induct)
  case (step x)
  then show ?case using proc_step_inv by (cases x) blast
qed (rule assms(1))

section \<open>A system, for the witnesses\<close>

text \<open>A system with the idle thread, main, init that waits, a shell that waits and its child that runs in an address
  space of its own: the child's page directory is the frame \<open>0x205000\<close>, its bitmap of user addresses is in the frame
  \<open>0x206000\<close>, and the kernel's directory and the child's share the page table of the kernel's heap.\<close>

definition child0 :: task_struct where
  "child0 = task0\<lparr>pid := 5, status := TASK_RUNNING, parent_pid := 4, pgdir := 0xc0101000,
     userproc_vaddr := \<lparr>vaddr_bitmap = \<lparr>btmp_bytes_len = 0x1000, bits = (\<lambda>_. 0)\<rparr>, vaddr_start = USER_VADDR_START\<rparr>\<rparr>"

definition procs0 :: procs where
  "procs0 = \<lparr>cr3 = 0x205000,
     phys = (\<lambda>_. 0)(0x100ffc := 0x100007, 0x100c00 := 0x101007, 0x101404 := 0x205007, 0x101408 := 0x206007,
       0x205c00 := 0x101007, 0x205ffc := 0x205007),
     cpu_eflags = 0x200, esp0 = 0, current = 0x5000,
     task = (\<lambda>_. task0)(
       0x1000 := task0\<lparr>pid := 3, status := TASK_BLOCKED\<rparr>,
       0x2000 := task0\<lparr>pid := 2\<rparr>,
       0x3000 := task0\<lparr>pid := 1, status := TASK_WAITING\<rparr>,
       0x4000 := task0\<lparr>pid := 4, status := TASK_WAITING, parent_pid := 1\<rparr>,
       0x5000 := child0),
     thread_ready_list = [0x2000], thread_all_list = [0x3000, 0x2000, 0x1000, 0x4000, 0x5000],
     idle_thread = 0x1000, main_thread = 0x2000, timer_ticks = 0,
     kernel_pool = pool0 0x200000, user_pool = pool0 0x220000,
     kernel_vaddr = \<lparr>vaddr_bitmap = \<lparr>btmp_bytes_len = 4, bits = (\<lambda>_. 0)\<rparr>, vaddr_start = K_HEAP_START\<rparr>,
     k_block_descs = block_desc_init, arenas = (\<lambda>_. \<lparr>desc = No_desc, cnt = 0, large = 0\<rparr>),
     pid_bitmap = \<lparr>btmp_bytes_len = 128, bits = (\<lambda>i. if i = 0 then 0x1f else 0)\<rparr>, pid_start = 1, pid_lock = lock_init,
     vaddr_bits = (\<lambda>_. 0xc0102000), intr_stacks = undefined, thread_stacks = undefined\<rparr>"

lemma procs0_inv: "proc_inv procs0"
proof -
  have u: "i \<in> {0, 1, 2, 3, 4} \<Longrightarrow> i \<in> bitmap_used (pid_bitmap procs0)" for i
    by (auto simp: bitmap_used_def nbits_def bit_at_def procs0_def bit_iff_odd)
  have "pid_of i \<in> pid_used procs0" if "i \<in> {0, 1, 2, 3, 4}" for i using u [OF that] by (simp add: pid_used_def)
  from this [of 0] this [of 1] this [of 2] this [of 3] this [of 4]
  have p: "{1, 2, 3, 4, 5} \<subseteq> pid_used procs0" by (simp add: pid_of_def)
  have ok: "pid_ok procs0" by (simp add: pid_ok_def procs0_def bitmap_ok_def)
  have "no_lost_exit procs0" by (simp add: no_lost_exit_def procs0_def task0_def child0_def)
  then have "table_inv procs0" unfolding table_inv_def using ok p by (simp add: procs0_def task0_def pool0_def child0_def)
  moreover have "sched_inv procs0" by (simp add: sched_inv_def sched_pre_def procs0_def task0_def child0_def)
  ultimately show "proc_inv procs0" by (simp add: proc_inv_def)
qed

lemma release_pdes_empty:
  assumes "\<And>i. i \<in> set is \<Longrightarrow> vread k (pd + 4 * of_nat i) = Some 0"
  shows "release_pdes is pd k = Some k"
  using assms by (induction "is") simp_all

lemma release_fds_closed:
  assumes "\<And>i. i \<in> set fds \<Longrightarrow> aget (fsys.fd_table s) (of_nat i) = Some (-1)"
  shows "release_fds fds s k = Some (s, k)"
  using assms by (induction fds) (simp_all del: aget_Some)

lemma spaces0:
  assumes "phys k = (phys procs0)(0x101408 := x)" "cr3 k = cr3 procs0" "thread_all_list k = thread_all_list procs0" "pgdir \<circ> task k = pgdir \<circ> task procs0"
  shows "spaces_ok {0x100000, 0x205000} k"
proof -
  have pg: "pgdir (task k t) = pgdir (task procs0 t)" for t using assms(4) by (metis comp_apply)
  show ?thesis
    unfolding spaces_ok_def assms pg
    by (simp add: procs0_def task0_def child0_def addr_v2p_def vread_def translate_def walk_pde_def walk_pte_def
        pte_ptr_def pg_base_def PDE_IDX_def PTE_IDX_def PG_P_1_def)
qed

text \<open>The entries of the child's directory are read through the kernel's page table.\<close>

lemma child_dir_read:
  assumes "i < 768"
  shows "vread procs0 (0xc0101000 + 4 * of_nat i) = Some 0"
proof -
  let ?x = "4 * of_nat i :: u32" and ?a = "0xc0101000 + 4 * of_nat i :: u32"
  have x: "unat ?x = 4 * i" using assms by (simp add: unat_word_ariths unat_of_nat)
  have a: "unat ?a = 0xc0101000 + 4 * i" using assms x by (subst unat_plus_lt) simp_all
  have b: "unat (0x205000 + ?x) = 0x205000 + 4 * i" using assms x by (subst unat_plus_lt) simp_all
  have pde: "PDE_IDX ?a = 0x300" by (rule word_unat_eq_iff [THEN iffD2]) (use assms in \<open>simp add: unat_PDE_IDX a\<close>)
  have d: "(0xc0101000 + 4 * i) div 4096 = 0xc0101" using assms by (intro div_nat_eqI) simp_all
  then have m: "(0xc0101000 + 4 * i) mod 4096 = 4 * i" by (simp add: minus_div_mult_eq_mod [symmetric])
  with d have pte: "PTE_IDX ?a = 0x101" by (intro word_unat_eq_iff [THEN iffD2]) (simp add: unat_PTE_IDX a)
  have "unat (?a AND 0xfff) = unat ?x" unfolding unat_page_offset a x using m by simp
  then have off: "?a AND 0xfff = ?x" by (rule word_unat_eq_iff [THEN iffD2])
  have tr: "translate procs0 ?a = Some (0x205000 + ?x)"
    by (simp add: translate_def walk_pde_def walk_pte_def pde pte off) (simp add: procs0_def pg_base_def PG_P_1_def off)
  have z: "phys procs0 y = 0" if "unat y \<notin> {0x100ffc, 0x100c00, 0x101404, 0x101408, 0x205c00, 0x205ffc}" for y
    using that by (auto simp: procs0_def)
  have "phys procs0 (0x205000 + ?x) = 0" by (rule z) (use b assms in auto)
  then show ?thesis using tr by (simp add: vread_def)
qed

lemma bitmap_set_zero: "\<exists>b'. bitmap_set b i 0 = Some b'"
  unfolding bitmap_set_def ASSERT_def Let_def by simp

definition kio_exit :: kio where
  "kio_exit = fsys.extend (fs0\<lparr>fd_table := [0, 1, 2, -1, -1, -1, -1, -1]\<rparr>)
     \<lparr>pipes = \<lambda>_. ioq0, kbd_buf = ioq0, screen = []\<rparr>"

lemma kio_exit_closed: "release_fds [3..<MAX_FILES_OPEN_PER_PROC] kio_exit k = Some (kio_exit, k)"
proof (rule release_fds_closed)
  fix i assume "i \<in> set [3..<MAX_FILES_OPEN_PER_PROC]"
  then have "i \<in> {3, 4, 5, 6, 7}" by (auto simp: MAX_FILES_OPEN_PER_PROC_def)
  moreover have "fsys.fd_table kio_exit = [0, 1, 2, -1, -1, -1, -1, -1]" by (simp add: kio_exit_def fsys.defs)
  ultimately show "aget (fsys.fd_table kio_exit) (of_nat i) = Some (-1)" by auto
qed

lemma leaving_mem [simp]:
  "phys (leaving st k) = phys k" "cr3 (leaving st k) = cr3 k" "kernel_pool (leaving st k) = kernel_pool k"
  "user_pool (leaving st k) = user_pool k" "kernel_vaddr (leaving st k) = kernel_vaddr k" "vaddr_bits (leaving st k) = vaddr_bits k"
  for k :: "'a procs_scheme"
  by (simp_all add: leaving_def Let_def)

lemma mfree0:
  assumes "phys k = phys procs0" "cr3 k = cr3 procs0" "kernel_pool k = kernel_pool procs0" "user_pool k = user_pool procs0"
    "kernel_vaddr k = kernel_vaddr procs0"
  shows "\<exists>kp kv. mfree_page PF_KERNEL 0xc0102000 1 k =
    Some (k\<lparr>phys := (phys procs0)(0x101408 := 0x206006), kernel_pool := kp, kernel_vaddr := kv\<rparr>)"
proof -
  have tr: "vread m (pte_ptr 0xc0102000) = Some 0x206007" "translate m (pte_ptr 0xc0102000) = Some 0x101408"
    if "phys m = phys procs0" "cr3 m = cr3 procs0" for m :: "'b mmu_scheme"
    unfolding vread_def translate_def walk_pde_def walk_pte_def that
    by (simp_all add: procs0_def pte_ptr_def pg_base_def PDE_IDX_def PTE_IDX_def PG_P_1_def)
  have v: "addr_v2p m 0xc0102000 = Some 0x206000" if "phys m = phys procs0" "cr3 m = cr3 procs0" for m :: "'b mmu_scheme"
    by (simp add: addr_v2p_def tr [OF that])
  have r: "page_table_pte_remove m 0xc0102000 = Some (m\<lparr>phys := (phys procs0)(0x101408 := 0x206006)\<rparr>)"
    if "phys m = phys procs0" "cr3 m = cr3 procs0" for m :: "'b mmu_scheme"
    by (simp add: page_table_pte_remove_def vwrite_def tr [OF that] that(1) PG_P_1_def)
  have u: "phy_addr_start (user_pool k) = 0x220000" "phy_addr_start (kernel_pool k) = 0x200000"
    unfolding assms by (simp_all add: procs0_def pool0_def)
  obtain bm where bm: "bitmap_set (pool_bitmap (kernel_pool k)) 6 0 = Some bm" using bitmap_set_zero by blast
  obtain bv where bv: "bitmap_set (vaddr_bitmap (kernel_vaddr k)) 2 0 = Some bv" using bitmap_set_zero by blast
  have vs: "vaddr_start (kernel_vaddr k) = 0xc0100000" unfolding assms by (simp add: procs0_def K_HEAP_START_def)
  show ?thesis
    using assms(1,2) bm bv
    by (simp add: mfree_page_def ASSERT_def v frame_in_def u PG_SIZE_def pfree_def Let_def
        get_pool_def set_pool_def vaddr_remove_def get_vaddr_def set_vaddr_def vs r)
      (intro exI kmem.equality; simp)
qed

lemma procs0_fields [simp]:
  "current procs0 = 0x5000" "pgdir (task procs0 0x5000) = 0xc0101000" "vaddr_bits procs0 0x5000 = 0xc0102000"
  "btmp_bytes_len (vaddr_bitmap (userproc_vaddr (task procs0 0x5000))) = 0x1000" "pid (task procs0 0x4000) = 4"
  "pid (task procs0 0x5000) = 5" "status (task procs0 0x4000) = TASK_WAITING" "parent_pid (task procs0 0x5000) = 4"
  "thread_all_list procs0 = [0x3000, 0x2000, 0x1000, 0x4000, 0x5000]"
  by (simp_all add: procs0_def child0_def task0_def)

lemma leaving_task [simp]: "pgdir (task (leaving st k) t) = pgdir (task k t)" "userproc_vaddr (task (leaving st k) t) = userproc_vaddr (task k t)"
  by (simp_all add: leaving_def Let_def adopted_def)

lemma vread_same: "phys m = phys m' \<Longrightarrow> cr3 m = cr3 m' \<Longrightarrow> vread m a = vread m' a"
  for m :: "'a mmu_scheme" and m' :: "'b mmu_scheme"
  by (simp add: vread_def translate_def walk_pde_def walk_pte_def)

lemma release0:
  obtains k1 where "release_proc_resource (current procs0) kio_exit (leaving st procs0) = Some (kio_exit, k1)"
    "spaces_ok {0x100000, 0x205000} k1"
proof -
  let ?k = "leaving st procs0"
  have d: "release_pdes [0..<768] 0xc0101000 ?k = Some ?k"
  proof (rule release_pdes_empty)
    fix i :: nat assume "i \<in> set [0..<768]"
    then have "i < 768" by (simp only: set_upt) simp
    then show "vread ?k (0xc0101000 + 4 * of_nat i) = Some 0"
      using child_dir_read vread_same [of ?k procs0] by simp
  qed
  obtain kp kv where m: "mfree_page PF_KERNEL 0xc0102000 1 ?k =
      Some (?k\<lparr>phys := (phys procs0)(0x101408 := 0x206006), kernel_pool := kp, kernel_vaddr := kv\<rparr>)"
    using mfree0 [of ?k] by auto
  show thesis
  proof (rule that)
    show "release_proc_resource (current procs0) kio_exit ?k =
        Some (kio_exit, ?k\<lparr>phys := (phys procs0)(0x101408 := 0x206006), kernel_pool := kp, kernel_vaddr := kv\<rparr>)"
      unfolding release_proc_resource_def Let_def using d m by (simp add: kio_exit_closed PG_SIZE_def del: upt_conv_Cons_Cons)
    show "spaces_ok {0x100000, 0x205000} (?k\<lparr>phys := (phys procs0)(0x101408 := 0x206006), kernel_pool := kp, kernel_vaddr := kv\<rparr>)"
      by (rule spaces0) (simp_all add: fun_eq_iff)
  qed
qed


theorem process_table_invariant_witness:
  "\<exists>k'. proc_step\<^sup>*\<^sup>* (kio_exit, procs0) (kio_exit, k') \<and> current k' = 0x4000 \<and> proc_inv k'"
proof -
  obtain k1 where r: "release_proc_resource (current procs0) kio_exit (leaving 0 procs0) = Some (kio_exit, k1)"
    "spaces_ok {0x100000, 0x205000} k1"
    by (rule release0)
  have "0x4000 \<in> set (thread_all_list procs0)" "status (task procs0 0x4000) = TASK_WAITING"
    "parent_pid (task procs0 (current procs0)) = pid (task procs0 0x4000)" by simp_all
  from exit_wakes_parent [OF procs0_inv this r] obtain k' where k': "sys_exit 0 kio_exit procs0 = Some (kio_exit, k')" "current k' = 0x4000"
    by metis
  then have st: "proc_step\<^sup>*\<^sup>* (kio_exit, procs0) (kio_exit, k')" by (intro r_into_rtranclp proc_step.Exit)
  then show ?thesis using k'(2) process_table_invariant [OF procs0_inv st] by blast
qed

section \<open>The numbers that processes get\<close>

lemma pid_space_range:
  assumes "pid_ok k" "p \<in> pid_space k"
  shows "1 \<le> unat p \<and> unat p \<le> 1024"
proof -
  obtain i where i: "p = pid_of i" "i \<in> bitmap_space (pid_bitmap k)" using assms(2) by (auto simp: pid_space_def)
  have u: "unat i < 1024" by (rule pid_index [OF i(2) assms(1)])
  have "unat (i + 1) = Suc (unat i)" using u by (intro unat_Suc_of_less [of i 1024]) (simp add: word_less_nat_alt)
  then have "unat p = Suc (unat i)" using u by (simp add: i(1) pid_of_def unat_ucast16)
  then show ?thesis using u by simp
qed

lemma card_pid_space:
  assumes "pid_ok k" shows "card (pid_space k) = 1024"
proof -
  have "inj_on pid_of (bitmap_space (pid_bitmap k))"
    using pid_of_inj pid_index [OF _ assms] by (intro inj_onI) blast
  then have "card (pid_space k) = card (bitmap_space (pid_bitmap k))" unfolding pid_space_def by (rule card_image)
  also have "bitmap_space (pid_bitmap k) = of_nat ` {..<1024}"
  proof (intro set_eqI iffI)
    fix i assume "i \<in> bitmap_space (pid_bitmap k)"
    then have "unat i \<in> {..<1024}" using pid_index [OF _ assms] by simp
    then show "i \<in> of_nat ` {..<1024}" by (rule rev_image_eqI) simp
  qed (auto simp: bitmap_space_def pid_okD [OF assms] unat_of_nat)
  also have "card (of_nat ` {..<1024} :: u32 set) = card {..<1024 :: nat}"
    by (intro card_image inj_onI) (simp add: of_nat_word_eq_iff take_bit_nat_eq_self)
  finally show ?thesis by simp
qed

text \<open>Property C15: as long as fewer than 1024 processes live, processes can be made: \<open>n\<close> calls of
  \<^verbatim>\<open>allocate_pid\<close> return when \<open>n\<close> numbers are free, with \<open>n\<close> different numbers from 1 to 1024, none of which was in
  use, so that no process gets the -1 that marks the absence of a parent; the pool stays well formed.\<close>

theorem allocate_pid_returns:
  assumes "pid_ok k" "n \<le> 1024 - card (pid_used k)"
  shows "\<exists>ps k'. pids.alloc_many n k = Some (ps, k') \<and> length ps = n \<and> distinct ps \<and> set ps \<inter> pid_used k = {} \<and>
           (\<forall>p\<in>set ps. 1 \<le> unat p \<and> unat p \<le> 1024) \<and> pid_used k' = pid_used k \<union> set ps \<and> pid_ok k'"
proof -
  note sub = pids.used_space [OF assms(1)]
  have "card (pid_space k - pid_used k) = 1024 - card (pid_used k)"
    unfolding card_Diff_subset [OF finite_subset [OF sub pids.finite_space [OF assms(1)]] sub] card_pid_space [OF assms(1)] ..
  then have "n \<le> card (pid_space k - pid_used k)" using assms(2) by simp
  then obtain ps k' where ps: "pids.alloc_many n k = Some (ps, k')" using pids.alloc_many_returns [OF assms(1)] by blast
  note d = pids.alloc_many_distinct [OF assms(1) ps]
  then have "1 \<le> unat p \<and> unat p \<le> 1024" if "p \<in> set ps" for p using pid_space_range [OF assms(1)] that by blast
  then show ?thesis using ps d by blast
qed

theorem allocate_pid_returns_witness:
  "\<exists>ps k'. pids.alloc_many 1024 (pid_pool_init procs0) = Some (ps, k') \<and> length ps = 1024 \<and> distinct ps \<and> pid_ok k'"
proof -
  have ok: "pid_ok (pid_pool_init procs0)" by (simp add: pid_pool_init_def pid_ok_def bitmap_ok_def bitmap_init_def)
  have nb: "nbits (bitmap_init b) = nbits b" for b by (simp add: nbits_def bitmap_init_def)
  have "pid_used (pid_pool_init procs0) = {}"
    using bitmap_init_bit by (auto simp: pid_used_def bitmap_used_def pid_pool_init_def nb)
  then show ?thesis using allocate_pid_returns [OF ok, of 1024] by auto
qed

end
