(* ===== verification/Kexec.thy ===== *)
theory Kexec
  imports Kwait
begin

text \<open>
  Running a program from the disk (\<^verbatim>\<open>src/userproc/exec.c\<close>): reading the header of an ELF file, loading its segments
  into the address space of the running process and preparing its return to user mode. A read that would
  suspend the caller has no result here; the file is read by \<^verbatim>\<open>sys_read\<close> of the file system.
\<close>

section \<open>The file format\<close>

definition bytes_half :: "u8 list \<Rightarrow> u16" where
  "bytes_half bs = ucast (bs ! 0) OR push_bit 8 (ucast (bs ! 1))"

record Elf32_Ehdr =
  e_ident :: "u8 list"
  e_type :: u16
  e_machine :: u16
  e_version :: u32
  e_entry :: u32
  e_phoff :: u32
  e_shoff :: u32
  e_flags :: u32
  e_ehsize :: u16
  e_phentsize :: u16
  e_phnum :: u16
  e_shentsize :: u16
  e_shnum :: u16
  e_shstrndx :: u16

record Elf32_Phdr =
  p_type :: u32
  p_offset :: u32
  p_vaddr :: u32
  p_paddr :: u32
  p_filesz :: u32
  p_memsz :: u32
  p_flags :: u32
  p_align :: u32

definition PT_LOAD :: u32 where "PT_LOAD = 1"

definition ehdr_of :: "u8 list \<Rightarrow> Elf32_Ehdr" where
  "ehdr_of bs =
     \<lparr>e_ident = take 16 bs, e_type = bytes_half (drop 16 bs), e_machine = bytes_half (drop 18 bs),
      e_version = bytes_word (drop 20 bs), e_entry = bytes_word (drop 24 bs), e_phoff = bytes_word (drop 28 bs),
      e_shoff = bytes_word (drop 32 bs), e_flags = bytes_word (drop 36 bs), e_ehsize = bytes_half (drop 40 bs),
      e_phentsize = bytes_half (drop 42 bs), e_phnum = bytes_half (drop 44 bs), e_shentsize = bytes_half (drop 46 bs),
      e_shnum = bytes_half (drop 48 bs), e_shstrndx = bytes_half (drop 50 bs)\<rparr>"

definition phdr_of :: "u8 list \<Rightarrow> Elf32_Phdr" where
  "phdr_of bs =
     \<lparr>p_type = bytes_word bs, p_offset = bytes_word (drop 4 bs), p_vaddr = bytes_word (drop 8 bs),
      p_paddr = bytes_word (drop 12 bs), p_filesz = bytes_word (drop 16 bs), p_memsz = bytes_word (drop 20 bs),
      p_flags = bytes_word (drop 24 bs), p_align = bytes_word (drop 28 bs)\<rparr>"

section \<open>Loading\<close>

text \<open>A byte of the little-endian words of the memory.\<close>

definition poke :: "u32 \<Rightarrow> u8 \<Rightarrow> 'a mmu_scheme \<Rightarrow> 'a mmu_scheme option" where
  "poke va b m = do {
     pa \<leftarrow> translate m va;
     let a = pa AND NOT 3;
     let sh = 8 * unat (pa AND 3);
     Some (m\<lparr>phys := (phys m)(a := (phys m a AND NOT (push_bit sh 0xff)) OR push_bit sh (ucast b))\<rparr>)
   }"

fun poke_all :: "u32 \<Rightarrow> u8 list \<Rightarrow> 'a mmu_scheme \<Rightarrow> 'a mmu_scheme option" where
  "poke_all va [] m = Some m"
| "poke_all va (b # bs) m = do { m \<leftarrow> poke va b m; poke_all (va + 1) bs m }"

text \<open>The pages of a segment: both tests of the loop look at the directory entry.\<close>

fun segment_pages :: "nat \<Rightarrow> u32 \<Rightarrow> 'b procs_scheme \<Rightarrow> (bool \<times> 'b procs_scheme) option" where
  "segment_pages 0 vaddr_page k = Some (True, k)"
| "segment_pages (Suc n) vaddr_page k = do {
     pde \<leftarrow> vread k (pde_ptr vaddr_page);
     pte \<leftarrow> vread k (pde_ptr vaddr_page);
     (ok, k) \<leftarrow> (if pde AND 1 = 0 \<or> pte AND 1 = 0
                 then do { (page, k) \<leftarrow> get_a_page PF_USER vaddr_page k; Some (page \<noteq> 0, k) }
                 else Some (True, k));
     if ok then segment_pages n (vaddr_page + PG_SIZE) k else Some (False, k)
   }"

definition occupy_pages :: "u32 \<Rightarrow> u32 \<Rightarrow> u32" where
  "occupy_pages filesz vaddr =
     (let size_in_first_page = PG_SIZE - (vaddr AND 0xfff)
      in if filesz > size_in_first_page then DIV_ROUND_UP (filesz - size_in_first_page) PG_SIZE + 1 else 1)"

definition returned :: "u32 ioq_call \<Rightarrow> u32 option" where
  "returned c = (case c of Done v \<Rightarrow> Some v | On_lock \<Rightarrow> None | On_wait \<Rightarrow> None)"

definition segment_load :: "u32 \<Rightarrow> u32 \<Rightarrow> u32 \<Rightarrow> u32 \<Rightarrow> 'a kio_scheme \<Rightarrow> 'b procs_scheme \<Rightarrow>
    (bool \<times> 'a kio_scheme \<times> 'b procs_scheme) option" where
  "segment_load fd offset filesz vaddr s k = do {
     (ok, k) \<leftarrow> segment_pages (unat (occupy_pages filesz vaddr)) (vaddr AND 0xfffff000) k;
     if \<not> ok then Some (False, s, k)
     else do {
       (_, s) \<leftarrow> sys_lseek fd offset 1 s;
       ((c, bs), s, k) \<leftarrow> sys_read fd filesz s k;
       _ \<leftarrow> returned c;
       k \<leftarrow> poke_all vaddr bs k;
       Some (True, s, k)
     }
   }"

definition elf_ok :: "Elf32_Ehdr \<Rightarrow> bool" where
  "elf_ok h \<longleftrightarrow> take 7 (e_ident h) = [0x7f, 0x45, 0x4c, 0x46, 1, 1, 1] \<and> e_type h = 2 \<and> e_machine h = 3 \<and>
     e_version h = 1 \<and> e_phnum h \<le> 1024 \<and> e_phentsize h = 32"

text \<open>The loop over the program headers, from the second on.\<close>

fun load_headers :: "nat \<Rightarrow> u32 \<Rightarrow> u32 \<Rightarrow> u32 \<Rightarrow> 'a kio_scheme \<Rightarrow> 'b procs_scheme \<Rightarrow>
    (bool \<times> 'a kio_scheme \<times> 'b procs_scheme) option" where
  "load_headers 0 fd prog_header_offset prog_header_size s k = Some (True, s, k)"
| "load_headers (Suc n) fd prog_header_offset prog_header_size s k = do {
     (_, s) \<leftarrow> sys_lseek fd prog_header_offset 1 s;
     ((c, bs), s, k) \<leftarrow> sys_read fd prog_header_size s k;
     r \<leftarrow> returned c;
     if r \<noteq> prog_header_size then Some (False, s, k)
     else do {
       let ph = phdr_of bs;
       (ok, s, k) \<leftarrow> (if p_type ph = PT_LOAD then segment_load fd (p_offset ph) (p_filesz ph) (p_vaddr ph) s k
                      else Some (True, s, k));
       if \<not> ok then Some (False, s, k)
       else load_headers n fd (prog_header_offset + prog_header_size) prog_header_size s k
     }
   }"

definition load :: "u8 list \<Rightarrow> 'a kio_scheme \<Rightarrow> 'b procs_scheme \<Rightarrow> (u32 \<times> 'a kio_scheme \<times> 'b procs_scheme) option" where
  "load pathname s k = do {
     (fd, s) \<leftarrow> sys_open pathname 0 s;
     if fd = -1 then Some (-1, s, k)
     else do {
       ((c, bs), s, k) \<leftarrow> sys_read fd 52 s k;
       r \<leftarrow> returned c;
       (ret, s, k) \<leftarrow>
         (if r \<noteq> 52 then Some (-1, s, k)
          else do {
            let h = ehdr_of bs;
            if \<not> elf_ok h then Some (-1, s, k)
            else do {
              (ok, s, k) \<leftarrow> load_headers (unat (e_phnum h) - 1) fd (e_phoff h + ucast (e_phentsize h)) (ucast (e_phentsize h)) s k;
              Some (if ok then e_entry h else -1, s, k)
            }
          });
       (_, s) \<leftarrow> sys_close fd s;
       Some (ret, s, k)
     }
   }"

section \<open>The system call\<close>

text \<open>\<open>path_mem\<close> are the bytes at \<^verbatim>\<open>path\<close>, of which 16 are copied, \<open>argv_mem\<close> the pointers at \<^verbatim>\<open>argv\<close>. The result of a
  call that succeeds is the address of the structure that \<^verbatim>\<open>intr_exit\<close> restores.\<close>

definition sys_execv :: "u8 list \<Rightarrow> u32 \<Rightarrow> u32 list \<Rightarrow> 'a kio_scheme \<Rightarrow> 'b procs_scheme \<Rightarrow>
    ((u32 + u32) \<times> 'a kio_scheme \<times> 'b procs_scheme) option" where
  "sys_execv path_mem argv argv_mem s k = do {
     ASSERT (0 \<in> set argv_mem \<and> 0 \<in> set path_mem \<and> TASK_NAME_LEN \<le> length path_mem);
     let argc = length (takeWhile (\<lambda>p. p \<noteq> 0) argv_mem);
     (entry_point, s, k) \<leftarrow> load (takeWhile (\<lambda>c. c \<noteq> 0) path_mem) s k;
     if entry_point = -1 then Some (Inl (-1), s, k)
     else do {
       let cur = running_thread k;
       let k = set_task cur (\<lambda>t. t\<lparr>name := take 15 path_mem @ [0]\<rparr>) k;
       let intr_0_stack = cur + PG_SIZE - sizeof_intr_stack;
       let k = k\<lparr>intr_stacks := (intr_stacks k)(intr_0_stack := (intr_stacks k intr_0_stack)
         \<lparr>i_ebx := argv, i_ecx := of_nat argc, i_eip := Program entry_point, i_esp := 0xc0000000\<rparr>)\<rparr>;
       Some (Inr intr_0_stack, s, k)
     }
   }"

end
