(* ===== verification/Kexception.thy ===== *)
theory Kexception
  imports Kwait
begin

text \<open>
  The interrupt controller, the handler table and the exception screen (\<^verbatim>\<open>src/kern/interrupt.c\<close>), the task state
  segment and the descriptors of user segments (\<^verbatim>\<open>src/userproc/tss.c\<close>), the locked console
  (\<^verbatim>\<open>src/dev/console.c\<close>) and \<^verbatim>\<open>printk\<close> (\<^verbatim>\<open>src/lib/kern/stdio_kern.c\<close>). The calls into the assembly file that
  draws on the screen are recorded in order, and so are the bytes that go to the ports. The addresses of
  the table of entries, of the system call entry, of the table itself and of the segment are parameters.

  The theory shows which device lines are enabled and that each of them has a handler of its own, that user
  code runs in the descriptors it is given, and that output under the console lock is complete and leaves
  the lock as it was.
\<close>

section \<open>Ports and screen\<close>

datatype screen_op = Put_str "u8 list" | Put_char u8 | Put_int u32 | Set_cursor u32

datatype intr_handler = No_handler | General_intr_handler | Intr_timer_handler | Intr_keyboard_handler | Intr_hd_handler

record intr_state =
  idt :: "gate_desc list"
  idt_table :: "intr_handler list"
  intr_name :: "u8 list list"
  idtr :: "64 word"
  ports :: "(u16 \<times> u8) list"
  screen_ops :: "screen_op list"

definition outb :: "u16 \<Rightarrow> u8 \<Rightarrow> 'a intr_state_scheme \<Rightarrow> 'a intr_state_scheme" where
  "outb port byte st = st\<lparr>ports := ports st @ [(port, byte)]\<rparr>"

definition screen_out :: "screen_op list \<Rightarrow> 'a intr_state_scheme \<Rightarrow> 'a intr_state_scheme" where
  "screen_out ops st = st\<lparr>screen_ops := screen_ops st @ ops\<rparr>"

definition put_line :: "string \<Rightarrow> 'a intr_state_scheme \<Rightarrow> 'a intr_state_scheme" where
  "put_line cs = screen_out [Put_str (ascii cs @ [0xa])]"

definition PIC_M_CTRL :: u16 where "PIC_M_CTRL = 0x20"
definition PIC_M_DATA :: u16 where "PIC_M_DATA = 0x21"
definition PIC_S_CTRL :: u16 where "PIC_S_CTRL = 0xa0"
definition PIC_S_DATA :: u16 where "PIC_S_DATA = 0xa1"

definition pic_init :: "'a intr_state_scheme \<Rightarrow> 'a intr_state_scheme" where
  "pic_init st =
     (let st = outb PIC_M_CTRL 0x11 st;
          st = outb PIC_M_DATA 0x20 st;
          st = outb PIC_M_DATA 0x04 st;
          st = outb PIC_M_DATA 0x01 st;
          st = outb PIC_S_CTRL 0x11 st;
          st = outb PIC_S_DATA 0x28 st;
          st = outb PIC_S_DATA 0x02 st;
          st = outb PIC_S_DATA 0x01 st;
          st = outb PIC_M_DATA 0xf8 st;
          st = outb PIC_S_DATA 0xbf st
      in put_line ''    pic_init done.'' st)"

section \<open>Handlers\<close>

text \<open>The general handler: does it return, and what is on the screen then. The address of a page fault is in
  \<^verbatim>\<open>cr2\<close>.\<close>

definition general_intr_handler :: "u32 \<Rightarrow> u8 \<Rightarrow> 'a intr_state_scheme \<Rightarrow> bool \<times> 'a intr_state_scheme" where
  "general_intr_handler cr2 vec_nr st =
     (if vec_nr = 0x27 \<or> vec_nr = 0x2f then (True, st)
      else
        let st = screen_out [Set_cursor 0] st;
            st = screen_out (replicate 320 (Put_char 0x20)) st;
            st = screen_out [Set_cursor 0] st;
            st = put_line ''!!!!! exception message begin !!!!!'' st;
            st = screen_out [Set_cursor 88] st;
            st = screen_out [Put_str (intr_name st ! unat vec_nr)] st;
            st = (if vec_nr = 14
                  then screen_out [Put_str (0xa # ascii ''        page fault addr is 0x''), Put_int cr2] st
                  else st);
            st = screen_out [Put_str (0xa # ascii ''!!!!! exception message end !!!!!'' @ [0xa])] st
        in (False, st))"

definition exception_names :: "(nat \<times> string) list" where
  "exception_names =
    [(0, ''#DE Divide Error''), (1, ''#DB Debug Exception''), (2, ''#NMI Interrupt''), (3, ''#BP Breakpoint Exception''),
     (4, ''#OF Overflow Exception''), (5, ''#BR BOUND Range Exceeded Exception''), (6, ''#UD Invalid Opcode Exception''),
     (7, ''#NM Device Not Available Exception''), (8, ''#DF Double Fault Exception''), (9, ''Coprocessor Segment Overrun''),
     (10, ''#TS Invalid TSS Exception''), (11, ''#NP Segment Not Present''), (12, ''#SS Stack Fault Exception''),
     (13, ''#GP General Protection Exception''), (14, ''#PF Page-Fault Exception''),
     (16, ''#MF x87 FPU Floating-Point Error''), (17, ''#AC Alignment Check Exception''),
     (18, ''#MC Machine-Check Exception''), (19, ''#XF SIMD Floating-Point Exception'')]"

text \<open>The loop writes every entry of both tables.\<close>

definition exception_init :: "'a intr_state_scheme \<Rightarrow> 'a intr_state_scheme" where
  "exception_init st =
     st\<lparr>idt_table := replicate IDT_DESC_CNT General_intr_handler,
        intr_name := fold (\<lambda>(i, n) names. names[i := ascii n]) exception_names (replicate IDT_DESC_CNT (ascii ''unknown''))\<rparr>"

definition register_handler :: "u8 \<Rightarrow> intr_handler \<Rightarrow> 'a intr_state_scheme \<Rightarrow> 'a intr_state_scheme option" where
  "register_handler vector_no function st = do {
     t \<leftarrow> aset (idt_table st) (ucast vector_no) function;
     Some (st\<lparr>idt_table := t\<rparr>) }"

definition idt_init :: "(nat \<Rightarrow> u32) \<Rightarrow> u32 \<Rightarrow> u32 \<Rightarrow> 'a intr_state_scheme \<Rightarrow> 'a intr_state_scheme" where
  "idt_init intr_entry_table syscall_handler idt_addr st =
     (let st = put_line ''idt_init start...'' st;
          st = put_line ''    idt_desc_init done.'' (st\<lparr>idt := idt_desc_init intr_entry_table syscall_handler\<rparr>);
          st = exception_init st;
          st = pic_init st;
          st = st\<lparr>idtr := of_nat (8 * IDT_DESC_CNT - 1) OR push_bit 16 (ucast idt_addr)\<rparr>
      in put_line ''idt_init done.'' st)"

section \<open>The task state segment\<close>

record tss =
  tss_backlink :: u32
  tss_esp0 :: u32
  tss_ss0 :: u32
  tss_esp1 :: u32
  tss_ss1 :: u32
  tss_esp2 :: u32
  tss_ss2 :: u32
  tss_cr3 :: u32
  tss_eip :: u32
  tss_eflags :: u32
  tss_eax :: u32
  tss_ecx :: u32
  tss_edx :: u32
  tss_ebx :: u32
  tss_esp :: u32
  tss_ebp :: u32
  tss_esi :: u32
  tss_edi :: u32
  tss_es :: u32
  tss_cs :: u32
  tss_ss :: u32
  tss_ds :: u32
  tss_fs :: u32
  tss_gs :: u32
  tss_ldt :: u32
  tss_trace :: u32
  tss_io_base :: u32

definition sizeof_tss :: u32 where "sizeof_tss = 108"

definition SELECTOR_K_STACK :: u16 where
  "SELECTOR_K_STACK = push_bit 3 2 + push_bit 2 0 + 0"

text \<open>The segment after \<^verbatim>\<open>memset\<close>, the descriptors by their addresses, and the registers \<^verbatim>\<open>gdtr\<close> and \<^verbatim>\<open>tr\<close>.\<close>

definition tss_zero :: tss where
  "tss_zero = \<lparr>tss_backlink = 0, tss_esp0 = 0, tss_ss0 = 0, tss_esp1 = 0, tss_ss1 = 0, tss_esp2 = 0, tss_ss2 = 0, tss_cr3 = 0,
     tss_eip = 0, tss_eflags = 0, tss_eax = 0, tss_ecx = 0, tss_edx = 0, tss_ebx = 0, tss_esp = 0, tss_ebp = 0, tss_esi = 0,
     tss_edi = 0, tss_es = 0, tss_cs = 0, tss_ss = 0, tss_ds = 0, tss_fs = 0, tss_gs = 0, tss_ldt = 0, tss_trace = 0,
     tss_io_base = 0\<rparr>"

record segments =
  the_tss :: tss
  gdt :: "u32 \<Rightarrow> gdt_desc"
  gdtr :: "64 word"
  tr :: u16

definition tss_init :: "u32 \<Rightarrow> segments \<Rightarrow> segments" where
  "tss_init tss_addr g =
     (let tss_size = sizeof_tss;
          t = tss_zero\<lparr>tss_ss0 := ucast SELECTOR_K_STACK, tss_io_base := tss_size\<rparr>;
          d = (gdt g)(0xc0000920 := make_gdt_desc tss_addr (tss_size - 1) TSS_ATTR_LOW TSS_ATTR_HIGH);
          d = d(0xc0000928 := make_gdt_desc 0 0xfffff GDT_CODE_ATTR_LOW_DPL3 GDT_ATTR_HIGH);
          d = d(0xc0000930 := make_gdt_desc 0 0xfffff GDT_DATA_ATTR_LOW_DPL3 GDT_ATTR_HIGH)
      in \<lparr>the_tss = t, gdt = d, gdtr = (8 * 7 - 1) OR push_bit 16 0xc0000900, tr = SELECTOR_TSS\<rparr>)"

section \<open>The console\<close>

text \<open>A call that finds the lock taken is suspended and goes on when it holds it.\<close>

record console =
  console_lock :: lock
  console_ops :: "screen_op list"

definition console_init :: "console \<Rightarrow> console" where
  "console_init c = c\<lparr>console_lock := lock_init\<rparr>"

definition console_acquire :: "console \<Rightarrow> 'a sched_scheme \<Rightarrow> (outcome \<times> console \<times> 'a sched_scheme) option" where
  "console_acquire c s = do { (r, lk, s) \<leftarrow> lock_acquire (console_lock c) s; Some (r, c\<lparr>console_lock := lk\<rparr>, s) }"

definition console_release :: "console \<Rightarrow> 'a sched_scheme \<Rightarrow> (console \<times> 'a sched_scheme) option" where
  "console_release c s = do { (lk, s) \<leftarrow> lock_release (console_lock c) s; Some (c\<lparr>console_lock := lk\<rparr>, s) }"

definition console_locked :: "screen_op \<Rightarrow> console \<Rightarrow> 'a sched_scheme \<Rightarrow> (outcome \<times> console \<times> 'a sched_scheme) option" where
  "console_locked oper c s = do {
     (r, c, s) \<leftarrow> console_acquire c s;
     case r of
       Suspended \<Rightarrow> Some (Suspended, c, s)
     | Returned \<Rightarrow> do {
         (c, s) \<leftarrow> console_release (c\<lparr>console_ops := console_ops c @ [oper]\<rparr>) s;
         Some (Returned, c, s) } }"

definition console_put_string :: "u8 list \<Rightarrow> console \<Rightarrow> 'a sched_scheme \<Rightarrow> (outcome \<times> console \<times> 'a sched_scheme) option" where
  "console_put_string str = console_locked (Put_str str)"

definition console_put_char :: "u8 \<Rightarrow> console \<Rightarrow> 'a sched_scheme \<Rightarrow> (outcome \<times> console \<times> 'a sched_scheme) option" where
  "console_put_char char_ascii = console_locked (Put_char char_ascii)"

definition console_put_int :: "u32 \<Rightarrow> console \<Rightarrow> 'a sched_scheme \<Rightarrow> (outcome \<times> console \<times> 'a sched_scheme) option" where
  "console_put_int num = console_locked (Put_int num)"

text \<open>\<^verbatim>\<open>printk\<close> renders into a cleared buffer of 1024 bytes and puts the string in it.\<close>

definition printk :: "u8 list \<Rightarrow> arg list \<Rightarrow> console \<Rightarrow> 'a sched_scheme \<Rightarrow> (outcome \<times> console \<times> 'a sched_scheme) option" where
  "printk fmt args c s = do {
     (n, buf) \<leftarrow> vsprintf (replicate 1024 0) fmt args;
     console_put_string (takeWhile (\<lambda>b. b \<noteq> 0) buf) c s }"

section \<open>Device lines\<close>

text \<open>What the two controllers let through: the byte written last to the data port of each is its mask.\<close>

definition mask_of :: "u16 \<Rightarrow> 'a intr_state_scheme \<Rightarrow> u8" where
  "mask_of port st = snd (last (filter (\<lambda>w. fst w = port) (ports st)))"

definition line_enabled :: "'a intr_state_scheme \<Rightarrow> nat \<Rightarrow> bool" where
  "line_enabled st n \<longleftrightarrow> (if n < 8 then \<not> bit (mask_of PIC_M_DATA st) n else \<not> bit (mask_of PIC_S_DATA st) (n - 8))"

text \<open>What \<^verbatim>\<open>timer_init\<close>, \<^verbatim>\<open>keyboard_init\<close> and \<^verbatim>\<open>ide_init\<close> register when the machine has one channel of disks.\<close>

definition register_devices :: "'a intr_state_scheme \<Rightarrow> 'a intr_state_scheme option" where
  "register_devices st = do {
     st \<leftarrow> register_handler 0x20 Intr_timer_handler st;
     st \<leftarrow> register_handler 0x21 Intr_keyboard_handler st;
     register_handler (0x20 + 14) Intr_hd_handler st }"

lemma screen_out_fields [simp]:
  "ports (screen_out ops st) = ports st" "idt_table (screen_out ops st) = idt_table st" "idt (screen_out ops st) = idt st"
  by (simp_all add: screen_out_def)

lemma pic_init_fields:
  "mask_of PIC_M_DATA (pic_init st) = 0xf8" "mask_of PIC_S_DATA (pic_init st) = 0xbf" "idt_table (pic_init st) = idt_table st"
  "idt (pic_init st) = idt st"
  by (simp_all add: pic_init_def Let_def mask_of_def outb_def put_line_def PIC_M_DATA_def PIC_S_DATA_def PIC_M_CTRL_def PIC_S_CTRL_def)

lemma register_handler_fields:
  "register_handler v f st = Some st' \<Longrightarrow> mask_of p st' = mask_of p st \<and> idt st' = idt st \<and>
     unat v < length (idt_table st) \<and> idt_table st' = (idt_table st)[unat v := f]"
  by (auto simp: register_handler_def Option.bind_eq_Some_conv mask_of_def aset_def unat_ucast_up split: if_splits)

lemma register_handler_returns: "unat v < length (idt_table st) \<Longrightarrow> \<exists>st'. register_handler v f st = Some st'"
  by (simp add: register_handler_def aset_def unat_ucast_up)

lemma lines_of_masks: "\<forall>n<16. (if n < 8 then \<not> bit (0xf8 :: u8) n else \<not> bit (0xbf :: u8) (n - 8)) \<longleftrightarrow> n \<in> {0, 1, 2, 14}"
proof -
  have "\<forall>n\<in>set [0..<16]. (if n < 8 then \<not> bit (0xf8 :: u8) n else \<not> bit (0xbf :: u8) (n - 8)) \<longleftrightarrow> n \<in> {0, 1, 2, 14}"
    by code_simp
  then show ?thesis by simp
qed

lemma mask_of_fields:
  "mask_of p (screen_out ops st) = mask_of p st" "mask_of p (st\<lparr>idtr := x\<rparr>) = mask_of p st"
  by (simp_all add: mask_of_def)

text \<open>Property C33: after the interrupts and the devices were set up, exactly the lines of the timer, the keyboard, the
  cascade and the first disk channel are enabled; the handlers of the timer, of the keyboard and of the disks are on
  the vectors of their lines, and every other vector keeps the general handler (the line of the cascade too, which
  carries the interrupts of the second controller and raises none of its own). Every vector but the one of the system
  calls has the gate of ring 0 to the entry that the table of entries gives for it, of which the source fills the first
  48; the vector \<open>0x80\<close> has the gate that ring 3 may use, to the entry of the system calls.\<close>

theorem device_lines_handled:
  "\<exists>st'. register_devices (idt_init entries sysc addr st) = Some st' \<and>
     (\<forall>n<16. line_enabled st' n \<longleftrightarrow> n \<in> {0, 1, 2, 14}) \<and>
     (\<forall>i<IDT_DESC_CNT. idt_table st' ! i =
        (if i = 0x20 then Intr_timer_handler else if i = 0x21 then Intr_keyboard_handler
         else if i = 0x2e then Intr_hd_handler else General_intr_handler)) \<and>
     (\<forall>i<IDT_DESC_CNT. gate_offset (idt st' ! i) = (if i = 0x80 then sysc else entries i) \<and>
        gate_dpl (idt st' ! i) = (if i = 0x80 then 3 else 0))"
proof -
  let ?st = "idt_init entries sysc addr st"
  have init: "mask_of PIC_M_DATA ?st = 0xf8" "mask_of PIC_S_DATA ?st = 0xbf" "idt_table ?st = replicate IDT_DESC_CNT General_intr_handler"
    "idt ?st = idt_desc_init entries sysc"
    by (simp_all add: idt_init_def Let_def put_line_def exception_init_def mask_of_fields pic_init_fields)
  obtain s1 where s1: "register_handler 0x20 Intr_timer_handler ?st = Some s1"
    using register_handler_returns [of "0x20" ?st] init(3) by (simp add: IDT_DESC_CNT_def) blast
  note f1 = register_handler_fields [OF s1]
  obtain s2 where s2: "register_handler 0x21 Intr_keyboard_handler s1 = Some s2"
    using register_handler_returns [of "0x21" s1] f1 init(3) by (simp add: IDT_DESC_CNT_def) blast
  note f2 = register_handler_fields [OF s2]
  obtain s3 where s3: "register_handler 0x2e Intr_hd_handler s2 = Some s3"
    using register_handler_returns [of "0x2e" s2] f1 f2 init(3) by (simp add: IDT_DESC_CNT_def) blast
  note f3 = register_handler_fields [OF s3]
  have r: "register_devices ?st = Some s3" using s1 s2 s3 by (simp add: register_devices_def)
  have l: "line_enabled s3 n \<longleftrightarrow> n \<in> {0, 1, 2, 14}" if "n < 16" for n
  proof -
    have m: "mask_of PIC_M_DATA s3 = 0xf8" "mask_of PIC_S_DATA s3 = 0xbf" using f1 f2 f3 init(1,2) by simp_all
    show ?thesis unfolding line_enabled_def m by (rule lines_of_masks [rule_format, OF that])
  qed
  have "idt_table s3 = (replicate IDT_DESC_CNT General_intr_handler)[0x20 := Intr_timer_handler, 0x21 := Intr_keyboard_handler, 0x2e := Intr_hd_handler]"
    using f1 f2 f3 init(3) by simp
  then have h: "idt_table s3 ! i = (if i = 0x20 then Intr_timer_handler else if i = 0x21 then Intr_keyboard_handler
      else if i = 0x2e then Intr_hd_handler else General_intr_handler)" if "i < IDT_DESC_CNT" for i
    using that by (simp add: nth_list_update)
  have "idt s3 = idt_desc_init entries sysc" using f1 f2 f3 init(4) by simp
  then show ?thesis using r l h gates_of_init by (intro exI [of _ s3]) simp
qed

theorem device_lines_handled_witness:
  "\<exists>st'. register_devices (idt_init (\<lambda>i. of_nat i) 7 0 \<lparr>idt = [], idt_table = [], intr_name = [], idtr = 0, ports = [], screen_ops = []\<rparr>)
       = Some st' \<and> line_enabled st' 14 \<and> \<not> line_enabled st' 15"
  using device_lines_handled [of "\<lambda>i. of_nat i" 7 0 "\<lparr>idt = [], idt_table = [], intr_name = [], idtr = 0, ports = [], screen_ops = []\<rparr>"]
  by auto

section \<open>Segments and console\<close>

text \<open>Remark: the selectors of user code and data and of the task state name descriptors that decode to what they were
  built from: user segments of ring 3 over the whole address space, and the segment of 108 bytes, in ring 0.\<close>

definition gdt_at :: "segments \<Rightarrow> u16 \<Rightarrow> gdt_desc" where
  "gdt_at g sel = gdt g (0xc0000900 + ucast (sel AND 0xfff8))"

lemma tss_init_descriptors:
  "desc_base (gdt_at (tss_init a g) SELECTOR_TSS) = a \<and> desc_limit (gdt_at (tss_init a g) SELECTOR_TSS) = 107 \<and>
   desc_dpl (gdt_at (tss_init a g) SELECTOR_TSS) = 0 \<and>
   desc_base (gdt_at (tss_init a g) SELECTOR_U_CODE) = 0 \<and> desc_limit (gdt_at (tss_init a g) SELECTOR_U_CODE) = 0xfffff \<and>
   desc_dpl (gdt_at (tss_init a g) SELECTOR_U_CODE) = 3 \<and>
   desc_base (gdt_at (tss_init a g) SELECTOR_U_DATA) = 0 \<and> desc_limit (gdt_at (tss_init a g) SELECTOR_U_DATA) = 0xfffff \<and>
   desc_dpl (gdt_at (tss_init a g) SELECTOR_U_DATA) = 3"
proof -
  have "gdt_at (tss_init a g) SELECTOR_TSS = make_gdt_desc a 107 TSS_ATTR_LOW TSS_ATTR_HIGH"
    "gdt_at (tss_init a g) SELECTOR_U_CODE = make_gdt_desc 0 0xfffff GDT_CODE_ATTR_LOW_DPL3 GDT_ATTR_HIGH"
    "gdt_at (tss_init a g) SELECTOR_U_DATA = make_gdt_desc 0 0xfffff GDT_DATA_ATTR_LOW_DPL3 GDT_ATTR_HIGH"
    by (simp_all add: gdt_at_def tss_init_def Let_def SELECTOR_TSS_def SELECTOR_U_CODE_def SELECTOR_U_DATA_def sizeof_tss_def)
  moreover have "TSS_ATTR_HIGH AND mask 4 = 0" "GDT_ATTR_HIGH AND mask 4 = 0"
    by (simp_all add: TSS_ATTR_HIGH_def GDT_ATTR_HIGH_def mask_eq_exp_minus_1)
  moreover have "desc_dpl (make_gdt_desc b l TSS_ATTR_LOW h) = 0" "desc_dpl (make_gdt_desc b l GDT_CODE_ATTR_LOW_DPL3 h) = 3"
    "desc_dpl (make_gdt_desc b l GDT_DATA_ATTR_LOW_DPL3 h) = 3" for b l h
    by (simp_all add: desc_dpl_def make_gdt_desc_def TSS_ATTR_LOW_def GDT_CODE_ATTR_LOW_DPL3_def GDT_DATA_ATTR_LOW_DPL3_def)
  ultimately show ?thesis by (simp add: desc_base_make desc_limit_make)
qed

text \<open>Output under a free lock is complete, and the lock is free again.\<close>

lemma console_locked_free:
  assumes "console_lock c = lock_init" "current s \<noteq> 0"
  shows "console_locked oper c s = Some (Returned, c\<lparr>console_ops := console_ops c @ [oper]\<rparr>, s)"
proof -
  obtain r lk s1 where a: "lock_acquire lock_init s = Some (r, lk, s1)"
    using lock_enter_free [OF assms(2)] by (auto simp: lock_enter_def Option.bind_eq_Some_conv)
  then have r: "r = Returned" "lk = lock_held (current s)" "s1 = s"
    using lock_enter_free [OF assms(2)] by (auto simp: lock_enter_def split: outcome.splits)
  have "c\<lparr>console_lock := lock_init\<rparr> = c" using assms(1) by simp
  then show ?thesis using a r assms(1)
    by (simp add: console_locked_def console_acquire_def console_release_def)
qed

end
