(* ===== verification/Kcmd.thy ===== *)
theory Kcmd
  imports Kwait Kshell
begin

text \<open>
  The built-in commands of the shell (\<^verbatim>\<open>src/shell/buildin_cmd.c\<close>) and the execution of a command line with its
  pipes (\<^verbatim>\<open>src/shell/shell.c\<close>). Output goes through \<^verbatim>\<open>printf\<close> to descriptor 1, wherever that leads. The state
  extends that of the devices by the two static arrays of the shell. A call that would suspend the shell
  has no result here.
\<close>

section \<open>Output and calls\<close>

record shell = kio +
  final_path :: "u8 list"
  cwd_cache :: "u8 list"

definition print_out :: "u8 list \<Rightarrow> arg list \<Rightarrow> 'a kio_scheme \<Rightarrow> 'b procs_scheme \<Rightarrow> ('a kio_scheme \<times> 'b procs_scheme) option" where
  "print_out fmt args s k = do {
     buf \<leftarrow> printf fmt args;
     write_all [sys_write stdout_no buf (of_nat (length buf))] s k
   }"

definition sys_clear :: "'a kio_scheme \<Rightarrow> 'a kio_scheme" where
  "sys_clear s = s\<lparr>screen := []\<rparr>"

text \<open>\<^verbatim>\<open>sys_close\<close> with the page of a pipe that its last descriptor gives back.\<close>

definition close_fd :: "u32 \<Rightarrow> 'a kio_scheme \<Rightarrow> 'b procs_scheme \<Rightarrow> (u32 \<times> 'a kio_scheme \<times> 'b procs_scheme) option" where
  "close_fd fd s k = do {
     page \<leftarrow> (if sint fd > 2
              then do { g \<leftarrow> fd_local2global fd s;
                        pipe \<leftarrow> is_pipe fd s;
                        Some (if pipe \<and> fd_pos (get_file g s) = 1 then fd_inode (get_file g s) else 0) }
              else Some 0);
     (r, s) \<leftarrow> sys_close fd s;
     k \<leftarrow> (if page \<noteq> 0 then mfree_page PF_KERNEL page 1 k else Some k);
     Some (r, s, k)
   }"

text \<open>\<^verbatim>\<open>make_clear_abs_path(path, final_path)\<close>\<close>

definition clear_path :: "u8 list \<Rightarrow> 'a shell_scheme \<Rightarrow> 'a shell_scheme option" where
  "clear_path path s = do { (p, s) \<leftarrow> make_clear_abs_path path s; Some (s\<lparr>final_path := p\<rparr>) }"

text \<open>The path of \<^verbatim>\<open>cat\<close> and \<^verbatim>\<open>echo\<close>: the working directory, a slash and the name.\<close>

definition abs_name :: "u8 list \<Rightarrow> 'a shell_scheme \<Rightarrow> (u8 list \<times> 'a shell_scheme) option" where
  "abs_name arg s =
     (if arg = [] \<or> hd arg \<noteq> 0x2f
      then do { (r, s) \<leftarrow> sys_getcwd MAX_PATH_LEN s;
                let p = (case r of None \<Rightarrow> [] | Some p \<Rightarrow> p) @ [0x2f] @ arg;
                ASSERT (length p < MAX_PATH_LEN);
                Some (p, s) }
      else do { ASSERT (length arg < MAX_PATH_LEN); Some (arg, s) })"

section \<open>Listing a directory\<close>

text \<open>The loop over the arguments: a message, or the option and the path.\<close>

datatype ls_args = Ls_message "u8 list" "arg list" | Ls_path bool "u8 list option"

fun ls_parse :: "u8 list list \<Rightarrow> bool \<Rightarrow> u8 list option \<Rightarrow> ls_args" where
  "ls_parse [] long_info pathname = Ls_path long_info pathname"
| "ls_parse (a # as) long_info pathname =
     (if a \<noteq> [] \<and> hd a = 0x2d
      then if a = ascii ''-l'' then ls_parse as True pathname
           else if a = ascii ''-h''
           then Ls_message (ascii ''usage: -l list all infomation about the file.'' @ [0xa] @ ascii ''-h for help'' @ [0xa] @
             ascii ''list all files in the current directory if no option'' @ [0xa]) []
           else Ls_message (ascii ''ls: invalid option %s'' @ [0xa] @ ascii ''Try `ls -h` for more information.'' @ [0xa]) [Str a]
      else case pathname of
             None \<Rightarrow> ls_parse as long_info (Some a)
           | Some _ \<Rightarrow> Ls_message (ascii ''ls: only support one path'' @ [0xa]) [])"

definition zero_stat :: stat where
  "zero_stat = \<lparr>st_ino = 0, st_size = 0, st_filetype = 0\<rparr>"

text \<open>The two loops over the entries; they end when \<^verbatim>\<open>readdir\<close> finds no further entry. The long one returns at once,
  with the directory open, when an entry cannot be found.\<close>

partial_function (option) ls_names :: "dir_ptr \<Rightarrow> 'a shell_scheme \<Rightarrow> 'b procs_scheme \<Rightarrow> ('a shell_scheme \<times> 'b procs_scheme) option" where
  "ls_names d s k = do {
     (e, s) \<leftarrow> sys_readdir (Some d) s;
     case e of
       None \<Rightarrow> print_out [0xa] [] s k
     | Some dir_e \<Rightarrow> do {
         (s, k) \<leftarrow> print_out (ascii ''%s '') [Str (takeWhile (\<lambda>c. c \<noteq> 0) (filename dir_e))] s k;
         ls_names d s k }
   }"

partial_function (option) ls_long :: "u8 list \<Rightarrow> dir_ptr \<Rightarrow> 'a shell_scheme \<Rightarrow> 'b procs_scheme \<Rightarrow> (bool \<times> 'a shell_scheme \<times> 'b procs_scheme) option" where
  "ls_long base d s k = do {
     (e, s) \<leftarrow> sys_readdir (Some d) s;
     case e of
       None \<Rightarrow> Some (True, s, k)
     | Some dir_e \<Rightarrow> do {
         let nm = takeWhile (\<lambda>c. c \<noteq> 0) (filename dir_e);
         ASSERT (length base + length nm < MAX_PATH_LEN);
         ((r, st), s) \<leftarrow> sys_stat (base @ nm) zero_stat s;
         if r = -1
         then do { (s, k) \<leftarrow> print_out (ascii ''ls: cannot access %s: No such file or directory'' @ [0xa]) [Str nm] s k;
                   Some (False, s, k) }
         else do {
           (s, k) \<leftarrow> print_out (ascii ''%c  %d  %d  %s'' @ [0xa])
             [Num (if f_type dir_e = FT_REGULAR then 0x2d else 0x64), Num (de_i_no dir_e), Num (st_size st), Str nm] s k;
           ls_long base d s k } }
   }"

definition ls_dir :: "bool \<Rightarrow> u8 list \<Rightarrow> stat \<Rightarrow> 'a shell_scheme \<Rightarrow> 'b procs_scheme \<Rightarrow> ('a shell_scheme \<times> 'b procs_scheme) option" where
  "ls_dir long_info pathname st s k = do {
     (dp, s) \<leftarrow> sys_opendir pathname s;
     ASSERT (length pathname + 1 < MAX_PATH_LEN);
     let base = (if last pathname \<noteq> 0x2f then pathname @ [0x2f] else pathname);
     d \<leftarrow> dp;
     let s = sys_rewinddir d s;
     (done, s, k) \<leftarrow>
       (if long_info
        then do { (s, k) \<leftarrow> print_out (ascii ''total: %d'' @ [0xa]) [Num (st_size st)] s k; ls_long base d s k }
        else do { (s, k) \<leftarrow> ls_names d s k; Some (True, s, k) });
     if done then do { (_, s) \<leftarrow> sys_closedir (Some d) s; Some (s, k) } else Some (s, k)
   }"

definition buildin_ls :: "u8 list list \<Rightarrow> 'a shell_scheme \<Rightarrow> 'b procs_scheme \<Rightarrow> ('a shell_scheme \<times> 'b procs_scheme) option" where
  "buildin_ls argv s k =
     (case ls_parse (tl argv) False None of
        Ls_message fmt args \<Rightarrow> print_out fmt args s k
      | Ls_path long_info pathname \<Rightarrow> do {
          (ok, s) \<leftarrow>
            (case pathname of
               None \<Rightarrow> do { (r, s) \<leftarrow> sys_getcwd MAX_PATH_LEN s;
                            Some (case r of None \<Rightarrow> (False, s) | Some p \<Rightarrow> (True, s\<lparr>final_path := p\<rparr>)) }
             | Some p \<Rightarrow> do { s \<leftarrow> clear_path p s; Some (True, s) });
          if \<not> ok then print_out (ascii ''ls: getcwd for default path failed'' @ [0xa]) [] s k
          else do {
            let pathname = final_path s;
            ((r, st), s) \<leftarrow> sys_stat pathname zero_stat s;
            if r = -1 then print_out (ascii ''ls: cannot access %s: No such file or directory'' @ [0xa]) [Str pathname] s k
            else if st_filetype st = FT_DIRECTORY then ls_dir long_info pathname st s k
            else if long_info
            then print_out (ascii ''-  %d  %d  %s'' @ [0xa]) [Num (st_ino st), Num (st_size st), Str pathname] s k
            else print_out (ascii ''%s'' @ [0xa]) [Str pathname] s k } })"

section \<open>Directories and files\<close>

text \<open>True: the working directory was changed.\<close>

definition buildin_cd :: "u8 list list \<Rightarrow> 'a shell_scheme \<Rightarrow> 'b procs_scheme \<Rightarrow> (bool \<times> 'a shell_scheme \<times> 'b procs_scheme) option" where
  "buildin_cd argv s k =
     (if length argv > 2
      then do { (s, k) \<leftarrow> print_out (ascii ''cd: only support 1 argument!'' @ [0xa]) [] s k; Some (False, s, k) }
      else do {
        s \<leftarrow> (if length argv = 1 then Some (s\<lparr>final_path := [0x2f]\<rparr>) else clear_path (argv ! 1) s);
        (r, s) \<leftarrow> sys_chdir (final_path s) s;
        if r = -1
        then do { (s, k) \<leftarrow> print_out (ascii ''cd: no such directory %s'' @ [0xa]) [Str (final_path s)] s k; Some (False, s, k) }
        else Some (True, s, k) })"

text \<open>The commands with one path: the path is cleaned, the root is left alone, and a failure is reported.\<close>

definition path_command :: "(u8 list \<Rightarrow> 'a shell_scheme \<Rightarrow> (u32 \<times> 'a shell_scheme) option) \<Rightarrow> u8 list \<Rightarrow> u8 list \<Rightarrow> u8 list list \<Rightarrow>
    'a shell_scheme \<Rightarrow> 'b procs_scheme \<Rightarrow> (u32 \<times> 'a shell_scheme \<times> 'b procs_scheme) option" where
  "path_command call usage failed argv s k =
     (if length argv \<noteq> 2 then do { (s, k) \<leftarrow> print_out usage [] s k; Some (-1, s, k) }
      else do {
        s \<leftarrow> clear_path (argv ! 1) s;
        if final_path s = [0x2f] then Some (-1, s, k)
        else do {
          (r, s) \<leftarrow> call (final_path s) s;
          if r = 0 then Some (0, s, k)
          else do { (s, k) \<leftarrow> print_out failed [Str (argv ! 1)] s k; Some (-1, s, k) } } })"

definition buildin_mkdir :: "u8 list list \<Rightarrow> 'a shell_scheme \<Rightarrow> 'b procs_scheme \<Rightarrow> (u32 \<times> 'a shell_scheme \<times> 'b procs_scheme) option" where
  "buildin_mkdir = path_command sys_mkdir (ascii ''mkdir: only support 1 argument!'' @ [0xa])
     (ascii ''mkdir: create directory %s failed.'' @ [0xa])"

definition buildin_rmdir :: "u8 list list \<Rightarrow> 'a shell_scheme \<Rightarrow> 'b procs_scheme \<Rightarrow> (u32 \<times> 'a shell_scheme \<times> 'b procs_scheme) option" where
  "buildin_rmdir = path_command sys_rmdir (ascii ''rmdir: only support 1 argument!'' @ [0xa])
     (ascii ''rmdir: remove %s failed.'' @ [0xa])"

definition buildin_rm :: "u8 list list \<Rightarrow> 'a shell_scheme \<Rightarrow> 'b procs_scheme \<Rightarrow> (u32 \<times> 'a shell_scheme \<times> 'b procs_scheme) option" where
  "buildin_rm = path_command sys_unlink (ascii ''rm: only support 1 argument!'' @ [0xa])
     (ascii ''rm: delete %s failed.'' @ [0xa])"

definition buildin_touch :: "u8 list list \<Rightarrow> 'a shell_scheme \<Rightarrow> 'b procs_scheme \<Rightarrow> (u32 \<times> 'a shell_scheme \<times> 'b procs_scheme) option" where
  "buildin_touch argv s k =
     (if length argv \<noteq> 2
      then do { (s, k) \<leftarrow> print_out (ascii ''touch: only support 1 argument!'' @ [0xa]) [] s k; Some (-1, s, k) }
      else do {
        s \<leftarrow> clear_path (argv ! 1) s;
        if last (final_path s) = 0x2f
        then do { (s, k) \<leftarrow> print_out (ascii ''touch: cannot create directory %s'' @ [0xa]) [Str (final_path s)] s k;
                  Some (-1, s, k) }
        else do {
          (fd, s) \<leftarrow> sys_open (final_path s) O_CREAT s;
          if sint fd > 2 then do { (_, s, k) \<leftarrow> close_fd fd s k; Some (0, s, k) }
          else do { (s, k) \<leftarrow> print_out (ascii ''touch: cannot create file %s'' @ [0xa]) [Str (final_path s)] s k;
                    Some (-1, s, k) } } })"

definition buildin_pwd :: "u8 list list \<Rightarrow> 'a shell_scheme \<Rightarrow> 'b procs_scheme \<Rightarrow> ('a shell_scheme \<times> 'b procs_scheme) option" where
  "buildin_pwd argv s k =
     (if length argv \<noteq> 1 then print_out (ascii ''pwd: no argument support!'' @ [0xa]) [] s k
      else do {
        (r, s) \<leftarrow> sys_getcwd MAX_PATH_LEN s;
        case r of
          Some p \<Rightarrow> print_out (ascii ''%s'' @ [0xa]) [Str p] (s\<lparr>final_path := p\<rparr>) k
        | None \<Rightarrow> print_out (ascii ''pwd: get current work directory failed.'' @ [0xa]) [] s k })"

definition buildin_ps :: "u8 list list \<Rightarrow> 'a shell_scheme \<Rightarrow> 'b procs_scheme \<Rightarrow> ('a shell_scheme \<times> 'b procs_scheme) option" where
  "buildin_ps argv s k =
     (if length argv \<noteq> 1 then print_out (ascii ''ps: no argument support!'' @ [0xa]) [] s k else sys_ps s k)"

definition buildin_clear :: "u8 list list \<Rightarrow> 'a shell_scheme \<Rightarrow> 'b procs_scheme \<Rightarrow> ('a shell_scheme \<times> 'b procs_scheme) option" where
  "buildin_clear argv s k =
     (if length argv \<noteq> 1 then print_out (ascii ''clear: no argument support!'' @ [0xa]) [] s k else Some (sys_clear s, k))"

text \<open>The loop of \<^verbatim>\<open>cat\<close>, which ends when the read fails.\<close>

partial_function (option) cat_loop :: "u32 \<Rightarrow> 'a shell_scheme \<Rightarrow> 'b procs_scheme \<Rightarrow> ('a shell_scheme \<times> 'b procs_scheme) option" where
  "cat_loop fd s k = do {
     ((c, bs), s, k) \<leftarrow> sys_read fd 1024 s k;
     (case c of
        Done n \<Rightarrow>
          if n = -1 then Some (s, k)
          else do { (s, k) \<leftarrow> write_all [sys_write 1 bs n] s k; cat_loop fd s k }
      | On_lock \<Rightarrow> None | On_wait \<Rightarrow> None)
   }"

definition buildin_cat :: "u8 list list \<Rightarrow> 'a shell_scheme \<Rightarrow> 'b procs_scheme \<Rightarrow> ('a shell_scheme \<times> 'b procs_scheme) option" where
  "buildin_cat argv s k =
     (if length argv > 2 then print_out (ascii ''cat: argument error'' @ [0xa]) [] s k
      else if length argv = 1
      then do {
        ((c, bs), s, k) \<leftarrow> sys_read 0 512 s k;
        (case c of Done _ \<Rightarrow> Some () | On_lock \<Rightarrow> None | On_wait \<Rightarrow> None);
        ASSERT (0 \<in> set (bs @ replicate (512 - length bs) 0));
        print_out (ascii ''%s'') [Str (takeWhile (\<lambda>c. c \<noteq> 0) bs)] s k }
      else do {
        (buf, k) \<leftarrow> sys_malloc 1024 k;
        if buf = 0 then print_out (ascii ''cat: malloc memory failed'' @ [0xa]) [] s k
        else do {
          (abs_path, s) \<leftarrow> abs_name (argv ! 1) s;
          (fd, s) \<leftarrow> sys_open abs_path 0 s;
          if fd = -1 then print_out (ascii ''cat: open: open %s failed'' @ [0xa]) [Str (argv ! 1)] s k
          else do {
            (s, k) \<leftarrow> cat_loop fd s k;
            k \<leftarrow> sys_free buf k;
            (_, s, k) \<leftarrow> close_fd fd s k;
            Some (s, k) } } })"

definition echo_write :: "u32 \<Rightarrow> u8 list \<Rightarrow> 'a shell_scheme \<Rightarrow> 'b procs_scheme \<Rightarrow> ('a shell_scheme \<times> 'b procs_scheme) option" where
  "echo_write fd content s k = do {
     (s, k) \<leftarrow> write_all [sys_write fd content (of_nat (length content))] s k;
     (_, s, k) \<leftarrow> close_fd fd s k;
     Some (s, k)
   }"

definition buildin_echo :: "u8 list list \<Rightarrow> 'a shell_scheme \<Rightarrow> 'b procs_scheme \<Rightarrow> ('a shell_scheme \<times> 'b procs_scheme) option" where
  "buildin_echo argv s k =
     (if \<not> (length argv = 2 \<or> length argv = 4)
      then print_out (ascii ''usage: `echo <content> [>|>> filename] `'' @ [0xa]) [] s k
      else if length argv = 2 then print_out (ascii ''%s'' @ [0xa]) [Str (argv ! 1)] s k
      else do {
        (abs_path, s) \<leftarrow> abs_name (argv ! 3) s;
        (fd, s) \<leftarrow> sys_open abs_path O_WRONLY s;
        if fd = -1 then print_out (ascii ''echo: open: open %s failed'' @ [0xa]) [Str (argv ! 3)] s k
        else if argv ! 2 = ascii ''>''
        then do {
          (_, s, k) \<leftarrow> close_fd fd s k;
          (_, s) \<leftarrow> sys_unlink abs_path s;
          (fd, s) \<leftarrow> sys_open abs_path (O_CREAT OR O_WRONLY) s;
          if fd = -1 then print_out (ascii ''echo: open: open %s failed'' @ [0xa]) [Str (argv ! 3)] s k
          else echo_write fd (argv ! 1) s k }
        else if argv ! 2 = ascii ''>>''
        then do { (_, s) \<leftarrow> sys_lseek fd (-1) 3 s; echo_write fd (argv ! 1) s k }
        else do {
          (s, k) \<leftarrow> print_out (ascii ''echo: relocation failed!'' @ [0xa]) [] s k;
          (_, s, k) \<leftarrow> close_fd fd s k;
          Some (s, k) } })"

section \<open>The shell\<close>

definition print_prompt :: "'a shell_scheme \<Rightarrow> 'b procs_scheme \<Rightarrow> ('a shell_scheme \<times> 'b procs_scheme) option" where
  "print_prompt s k = print_out (ascii ''[root@localhost %s]# '') [Str (cwd_cache s)] s k"

definition help_text :: "u8 list list" where
  "help_text = map ascii
     ['' buildin commands:'',
      ''        ls: show all directory and file information'',
      ''        cd: change current work directory'',
      ''        mkdir: create a directory'',
      ''        rmdir: remove a empty directory'',
      ''        touch: create a file'',
      ''        rm: remove a file'',
      ''        echo: print message to screen or redirect to file'',
      ''        cat: show file content'',
      ''        pwd: show current work directory'',
      ''        ps: show process and thread information'',
      ''        clear: clear screen'',
      ''        help: show this message'',
      '' shortcut key:'',
      ''        ctrl+l: clear screen'',
      ''        ctrl+w: clear input'']"

fun print_lines :: "u8 list list \<Rightarrow> 'a shell_scheme \<Rightarrow> 'b procs_scheme \<Rightarrow> ('a shell_scheme \<times> 'b procs_scheme) option" where
  "print_lines [] s k = Some (s, k)"
| "print_lines (l # ls) s k = do { (s, k) \<leftarrow> print_out (l @ [0xa]) [] s k; print_lines ls s k }"

definition help_cmd :: "'a shell_scheme \<Rightarrow> 'b procs_scheme \<Rightarrow> ('a shell_scheme \<times> 'b procs_scheme) option" where
  "help_cmd s k = do { (s, k) \<leftarrow> print_lines help_text s k; Some (sys_putchar 0xa s, k) }"

text \<open>Without a word, \<^verbatim>\<open>argv[0]\<close> is a null pointer and the assertion of \<^verbatim>\<open>strcmp\<close> fails. \<^verbatim>\<open>cwd_cache\<close> has 64 bytes.\<close>

definition cmd_execute :: "u8 list list \<Rightarrow> 'a shell_scheme \<Rightarrow> 'b procs_scheme \<Rightarrow> ('a shell_scheme \<times> 'b procs_scheme) option" where
  "cmd_execute argv s k = do {
     ASSERT (argv \<noteq> []);
     let c = hd argv;
     if c = ascii ''ls'' then buildin_ls argv s k
     else if c = ascii ''cd''
     then do { (r, s, k) \<leftarrow> buildin_cd argv s k;
               if r then do { ASSERT (length (final_path s) < 64); Some (s\<lparr>cwd_cache := final_path s\<rparr>, k) }
               else Some (s, k) }
     else if c = ascii ''pwd'' then buildin_pwd argv s k
     else if c = ascii ''ps'' then buildin_ps argv s k
     else if c = ascii ''clear'' then buildin_clear argv s k
     else if c = ascii ''mkdir'' then do { (_, s, k) \<leftarrow> buildin_mkdir argv s k; Some (s, k) }
     else if c = ascii ''rmdir'' then do { (_, s, k) \<leftarrow> buildin_rmdir argv s k; Some (s, k) }
     else if c = ascii ''touch'' then do { (_, s, k) \<leftarrow> buildin_touch argv s k; Some (s, k) }
     else if c = ascii ''rm'' then do { (_, s, k) \<leftarrow> buildin_rm argv s k; Some (s, k) }
     else if c = ascii ''cat'' then buildin_cat argv s k
     else if c = ascii ''echo'' then buildin_echo argv s k
     else if c = ascii ''help'' then help_cmd s k
     else print_out (ascii ''my_shell: command not found: %s'' @ [0xa]) [Str c] s k
   }"

definition run_command :: "u8 list \<Rightarrow> 'a shell_scheme \<Rightarrow> 'b procs_scheme \<Rightarrow> ('a shell_scheme \<times> 'b procs_scheme) option" where
  "run_command each_cmd s k = do { argv \<leftarrow> cmd_parse each_cmd 0x20; cmd_execute argv s k }"

text \<open>The text before the next bar and the text behind it.\<close>

definition before_bar :: "u8 list \<Rightarrow> u8 list" where "before_bar cs = takeWhile (\<lambda>c. c \<noteq> 0x7c) cs"
definition behind_bar :: "u8 list \<Rightarrow> u8 list" where "behind_bar cs = drop 1 (dropWhile (\<lambda>c. c \<noteq> 0x7c) cs)"

lemma length_behind_bar: "0x7c \<in> set cs \<Longrightarrow> length (behind_bar cs) < length cs"
  by (induction cs) (auto simp: behind_bar_def)

text \<open>The loop over the commands in the middle; the result is the last command.\<close>

function run_middle :: "u8 list \<Rightarrow> 'a shell_scheme \<Rightarrow> 'b procs_scheme \<Rightarrow> (u8 list \<times> 'a shell_scheme \<times> 'b procs_scheme) option" where
  "run_middle each_cmd s k =
     (if 0x7c \<in> set each_cmd
      then case run_command (before_bar each_cmd) s k of
             None \<Rightarrow> None
           | Some (s, k) \<Rightarrow> run_middle (behind_bar each_cmd) s k
      else Some (each_cmd, s, k))"
  by pat_completeness auto
termination
  by (relation "measure (\<lambda>(c, s, k). length c)") (auto dest: length_behind_bar)

declare run_middle.simps [simp del]

definition run_pipeline :: "u8 list \<Rightarrow> 'a shell_scheme \<Rightarrow> 'b procs_scheme \<Rightarrow> ('a shell_scheme \<times> 'b procs_scheme) option" where
  "run_pipeline cmd_line s k = do {
     (page, k) \<leftarrow> get_kernel_pages 1 k;
     ((_, fd0, fd1), s) \<leftarrow> sys_pipe page s;
     s \<leftarrow> sys_dup2 fd1 1 s;
     (s, k) \<leftarrow> run_command (before_bar cmd_line) s k;
     s \<leftarrow> sys_dup2 fd0 0 s;
     (each_cmd, s, k) \<leftarrow> run_middle (behind_bar cmd_line) s k;
     s \<leftarrow> sys_dup2 1 1 s;
     (s, k) \<leftarrow> run_command each_cmd s k;
     s \<leftarrow> sys_dup2 0 0 s;
     (_, s, k) \<leftarrow> close_fd fd0 s k;
     (_, s, k) \<leftarrow> close_fd fd1 s k;
     Some (s, k)
   }"

text \<open>One round of the loop of \<^verbatim>\<open>my_shell\<close>, from the prompt on, with the keys that are typed; without a carriage
  return the shell is still reading. What \<^verbatim>\<open>readline\<close> echoes is not kept.\<close>

definition my_shell_round :: "u8 list \<Rightarrow> 'a shell_scheme \<Rightarrow> 'b procs_scheme \<Rightarrow> (u8 list \<times> 'a shell_scheme \<times> 'b procs_scheme) option" where
  "my_shell_round keys s k = do {
     (s, k) \<leftarrow> print_prompt s k;
     let s = s\<lparr>final_path := []\<rparr>;
     l \<leftarrow> readline keys;
     (case l of
        Waiting _ _ \<Rightarrow> None
      | Line text keys \<Rightarrow> do {
          let cmd_line = takeWhile (\<lambda>c. c \<noteq> 0) text;
          if cmd_line = [] then Some (keys, s, k)
          else do {
            (s, k) \<leftarrow> (if 0x7c \<in> set cmd_line then run_pipeline cmd_line s k else run_command cmd_line s k);
            Some (keys, s, k) } })
   }"

end
