(* ===== verification/Ksyscall.thy ===== *)
theory Ksyscall
  imports Kernel_Prelude
begin

text \<open>
  The way of a system call: the functions that a program calls (\<^verbatim>\<open>src/lib/user/syscall.c\<close>), the numbers they pass
  (\<^verbatim>\<open>src/inc/syscall.h\<close>), the table of the kernel's functions (\<^verbatim>\<open>src/userproc/syscall_init.c\<close>) and the entry
  \<^verbatim>\<open>syscall_handler\<close> of \<^verbatim>\<open>src/kern/intr_entry.S\<close>, which calls through the table with the registers as arguments.
  Pointers and small integers are passed as words. The theory shows that every call of a program reaches the
  function of the kernel that serves it, with its arguments in order.
\<close>

section \<open>Numbers, registers and the table\<close>

datatype syscall_nr = SYS_GETPID | SYS_WRITE | SYS_MALLOC | SYS_FREE | SYS_FORK | SYS_READ | SYS_PUTCHAR | SYS_CLEAR | SYS_GETCWD | SYS_OPEN | SYS_CLOSE | SYS_LSEEK | SYS_UNLINK | SYS_MKDIR | SYS_OPENDIR | SYS_CLOSEDIR | SYS_CHDIR | SYS_RMDIR | SYS_READDIR | SYS_REWINDDIR | SYS_STAT | SYS_PS | SYS_EXECV | SYS_EXIT | SYS_WAIT | SYS_PIPE | SYS_DUP2

text \<open>The value of the enumerator.\<close>

fun nr_of :: "syscall_nr \<Rightarrow> u32" where
  "nr_of SYS_GETPID = 0"
| "nr_of SYS_WRITE = 1"
| "nr_of SYS_MALLOC = 2"
| "nr_of SYS_FREE = 3"
| "nr_of SYS_FORK = 4"
| "nr_of SYS_READ = 5"
| "nr_of SYS_PUTCHAR = 6"
| "nr_of SYS_CLEAR = 7"
| "nr_of SYS_GETCWD = 8"
| "nr_of SYS_OPEN = 9"
| "nr_of SYS_CLOSE = 10"
| "nr_of SYS_LSEEK = 11"
| "nr_of SYS_UNLINK = 12"
| "nr_of SYS_MKDIR = 13"
| "nr_of SYS_OPENDIR = 14"
| "nr_of SYS_CLOSEDIR = 15"
| "nr_of SYS_CHDIR = 16"
| "nr_of SYS_RMDIR = 17"
| "nr_of SYS_READDIR = 18"
| "nr_of SYS_REWINDDIR = 19"
| "nr_of SYS_STAT = 20"
| "nr_of SYS_PS = 21"
| "nr_of SYS_EXECV = 22"
| "nr_of SYS_EXIT = 23"
| "nr_of SYS_WAIT = 24"
| "nr_of SYS_PIPE = 25"
| "nr_of SYS_DUP2 = 26"

text \<open>The functions whose addresses are in the table.\<close>

datatype handler = Sys_getpid | Sys_write | Sys_malloc | Sys_free | Sys_fork | Sys_read | Sys_putchar | Cls_screen | Sys_getcwd | Sys_open | Sys_close | Sys_lseek | Sys_unlink | Sys_mkdir | Sys_opendir | Sys_closedir | Sys_chdir | Sys_rmdir | Sys_readdir | Sys_rewinddir | Sys_stat | Sys_ps | Sys_execv | Sys_exit | Sys_wait | Sys_pipe | Sys_dup2

record regs =
  eax :: u32
  ebx :: u32
  ecx :: u32
  edx :: u32

definition table_size :: nat where "table_size = 32"

definition set_entry :: "syscall_nr \<Rightarrow> handler \<Rightarrow> handler option list \<Rightarrow> handler option list" where
  "set_entry n h tab = tab[unat (nr_of n) := Some h]"

definition syscall_init :: "handler option list \<Rightarrow> handler option list" where
  "syscall_init tab = fold (\<lambda>(n, h). set_entry n h)
     [(SYS_GETPID, Sys_getpid),
      (SYS_WRITE, Sys_write),
      (SYS_MALLOC, Sys_malloc),
      (SYS_FREE, Sys_free),
      (SYS_FORK, Sys_fork),
      (SYS_READ, Sys_read),
      (SYS_PUTCHAR, Sys_putchar),
      (SYS_CLEAR, Cls_screen),
      (SYS_GETCWD, Sys_getcwd),
      (SYS_OPEN, Sys_open),
      (SYS_CLOSE, Sys_close),
      (SYS_LSEEK, Sys_lseek),
      (SYS_UNLINK, Sys_unlink),
      (SYS_MKDIR, Sys_mkdir),
      (SYS_OPENDIR, Sys_opendir),
      (SYS_CLOSEDIR, Sys_closedir),
      (SYS_CHDIR, Sys_chdir),
      (SYS_RMDIR, Sys_rmdir),
      (SYS_READDIR, Sys_readdir),
      (SYS_REWINDDIR, Sys_rewinddir),
      (SYS_STAT, Sys_stat),
      (SYS_PS, Sys_ps),
      (SYS_EXECV, Sys_execv),
      (SYS_EXIT, Sys_exit),
      (SYS_WAIT, Sys_wait),
      (SYS_PIPE, Sys_pipe),
      (SYS_DUP2, Sys_dup2)] tab"

text \<open>\<^verbatim>\<open>syscall_handler\<close>: the number is not compared with the size of the table. A call through an entry that was
  never set, or behind the table, has no result.\<close>

definition syscall_handler :: "handler option list \<Rightarrow> regs \<Rightarrow> (handler \<times> u32 list) option" where
  "syscall_handler tab r =
     (if unat (eax r) < length tab
      then do { h \<leftarrow> tab ! unat (eax r); Some (h, [ebx r, ecx r, edx r]) } else None)"

section \<open>The calls\<close>

definition syscall0 :: "syscall_nr \<Rightarrow> regs \<Rightarrow> regs" where
  "syscall0 NUMBER r = r\<lparr>eax := nr_of NUMBER\<rparr>"

definition syscall1 :: "syscall_nr \<Rightarrow> u32 \<Rightarrow> regs \<Rightarrow> regs" where
  "syscall1 NUMBER ARG1 r = r\<lparr>eax := nr_of NUMBER, ebx := ARG1\<rparr>"

definition syscall2 :: "syscall_nr \<Rightarrow> u32 \<Rightarrow> u32 \<Rightarrow> regs \<Rightarrow> regs" where
  "syscall2 NUMBER ARG1 ARG2 r = r\<lparr>eax := nr_of NUMBER, ebx := ARG1, ecx := ARG2\<rparr>"

definition syscall3 :: "syscall_nr \<Rightarrow> u32 \<Rightarrow> u32 \<Rightarrow> u32 \<Rightarrow> regs \<Rightarrow> regs" where
  "syscall3 NUMBER ARG1 ARG2 ARG3 r = r\<lparr>eax := nr_of NUMBER, ebx := ARG1, ecx := ARG2, edx := ARG3\<rparr>"

definition getpid :: "regs \<Rightarrow> regs" where
  "getpid = syscall0 SYS_GETPID"

definition write_call :: "u32 \<Rightarrow> u32 \<Rightarrow> u32 \<Rightarrow> regs \<Rightarrow> regs" where
  "write_call fd buf count = syscall3 SYS_WRITE fd buf count"

definition malloc :: "u32 \<Rightarrow> regs \<Rightarrow> regs" where
  "malloc sz = syscall1 SYS_MALLOC sz"

definition free :: "u32 \<Rightarrow> regs \<Rightarrow> regs" where
  "free ptr = syscall1 SYS_FREE ptr"

definition fork :: "regs \<Rightarrow> regs" where
  "fork = syscall0 SYS_FORK"

definition read :: "u32 \<Rightarrow> u32 \<Rightarrow> u32 \<Rightarrow> regs \<Rightarrow> regs" where
  "read fd buf count = syscall3 SYS_READ fd buf count"

definition putchar :: "u32 \<Rightarrow> regs \<Rightarrow> regs" where
  "putchar char_ascii = syscall1 SYS_PUTCHAR char_ascii"

definition clear :: "regs \<Rightarrow> regs" where
  "clear = syscall0 SYS_CLEAR"

definition getcwd :: "u32 \<Rightarrow> u32 \<Rightarrow> regs \<Rightarrow> regs" where
  "getcwd buf sz = syscall2 SYS_GETCWD buf sz"

definition open_call :: "u32 \<Rightarrow> u32 \<Rightarrow> regs \<Rightarrow> regs" where
  "open_call pathname flag = syscall2 SYS_OPEN pathname flag"

definition close :: "u32 \<Rightarrow> regs \<Rightarrow> regs" where
  "close fd = syscall1 SYS_CLOSE fd"

definition lseek :: "u32 \<Rightarrow> u32 \<Rightarrow> u32 \<Rightarrow> regs \<Rightarrow> regs" where
  "lseek fd offset whence = syscall3 SYS_LSEEK fd offset whence"

definition unlink :: "u32 \<Rightarrow> regs \<Rightarrow> regs" where
  "unlink pathname = syscall1 SYS_UNLINK pathname"

definition mkdir :: "u32 \<Rightarrow> regs \<Rightarrow> regs" where
  "mkdir pathname = syscall1 SYS_MKDIR pathname"

definition opendir :: "u32 \<Rightarrow> regs \<Rightarrow> regs" where
  "opendir name = syscall1 SYS_OPENDIR name"

definition closedir :: "u32 \<Rightarrow> regs \<Rightarrow> regs" where
  "closedir dir = syscall1 SYS_CLOSEDIR dir"

definition rmdir :: "u32 \<Rightarrow> regs \<Rightarrow> regs" where
  "rmdir pathname = syscall1 SYS_RMDIR pathname"

definition readdir :: "u32 \<Rightarrow> regs \<Rightarrow> regs" where
  "readdir dir = syscall1 SYS_READDIR dir"

definition rewinddir :: "u32 \<Rightarrow> regs \<Rightarrow> regs" where
  "rewinddir dir = syscall1 SYS_REWINDDIR dir"

definition stat_call :: "u32 \<Rightarrow> u32 \<Rightarrow> regs \<Rightarrow> regs" where
  "stat_call path buf = syscall2 SYS_STAT path buf"

definition chdir :: "u32 \<Rightarrow> regs \<Rightarrow> regs" where
  "chdir path = syscall1 SYS_CHDIR path"

definition ps :: "regs \<Rightarrow> regs" where
  "ps = syscall0 SYS_PS"

definition execv :: "u32 \<Rightarrow> u32 \<Rightarrow> regs \<Rightarrow> regs" where
  "execv pathname argv = syscall2 SYS_EXECV pathname argv"

definition exit_call :: "u32 \<Rightarrow> regs \<Rightarrow> regs" where
  "exit_call status = syscall1 SYS_EXIT status"

definition wait :: "u32 \<Rightarrow> regs \<Rightarrow> regs" where
  "wait status = syscall1 SYS_WAIT status"

definition pipe :: "u32 \<Rightarrow> regs \<Rightarrow> regs" where
  "pipe pipefd = syscall1 SYS_PIPE pipefd"

definition dup2 :: "u32 \<Rightarrow> u32 \<Rightarrow> regs \<Rightarrow> regs" where
  "dup2 fd1 fd2 = syscall2 SYS_DUP2 fd1 fd2"

section \<open>Properties\<close>

text \<open>The calls of a program, each with its arguments.\<close>

datatype user_call =
  Call_getpid
| Call_write u32 u32 u32
| Call_malloc u32
| Call_free u32
| Call_fork
| Call_read u32 u32 u32
| Call_putchar u32
| Call_clear
| Call_getcwd u32 u32
| Call_open u32 u32
| Call_close u32
| Call_lseek u32 u32 u32
| Call_unlink u32
| Call_mkdir u32
| Call_opendir u32
| Call_closedir u32
| Call_rmdir u32
| Call_readdir u32
| Call_rewinddir u32
| Call_stat u32 u32
| Call_chdir u32
| Call_ps
| Call_execv u32 u32
| Call_exit u32
| Call_wait u32
| Call_pipe u32
| Call_dup2 u32 u32

fun issue :: "user_call \<Rightarrow> regs \<Rightarrow> regs" where
  "issue Call_getpid = getpid"
| "issue (Call_write fd buf count) = write_call fd buf count"
| "issue (Call_malloc sz) = malloc sz"
| "issue (Call_free ptr) = free ptr"
| "issue Call_fork = fork"
| "issue (Call_read fd buf count) = read fd buf count"
| "issue (Call_putchar char_ascii) = putchar char_ascii"
| "issue Call_clear = clear"
| "issue (Call_getcwd buf sz) = getcwd buf sz"
| "issue (Call_open pathname flag) = open_call pathname flag"
| "issue (Call_close fd) = close fd"
| "issue (Call_lseek fd offset whence) = lseek fd offset whence"
| "issue (Call_unlink pathname) = unlink pathname"
| "issue (Call_mkdir pathname) = mkdir pathname"
| "issue (Call_opendir name) = opendir name"
| "issue (Call_closedir dir) = closedir dir"
| "issue (Call_rmdir pathname) = rmdir pathname"
| "issue (Call_readdir dir) = readdir dir"
| "issue (Call_rewinddir dir) = rewinddir dir"
| "issue (Call_stat path buf) = stat_call path buf"
| "issue (Call_chdir path) = chdir path"
| "issue Call_ps = ps"
| "issue (Call_execv pathname argv) = execv pathname argv"
| "issue (Call_exit status) = exit_call status"
| "issue (Call_wait status) = wait status"
| "issue (Call_pipe pipefd) = pipe pipefd"
| "issue (Call_dup2 fd1 fd2) = dup2 fd1 fd2"

fun served_by :: "user_call \<Rightarrow> handler" where
  "served_by Call_getpid = Sys_getpid"
| "served_by (Call_write fd buf count) = Sys_write"
| "served_by (Call_malloc sz) = Sys_malloc"
| "served_by (Call_free ptr) = Sys_free"
| "served_by Call_fork = Sys_fork"
| "served_by (Call_read fd buf count) = Sys_read"
| "served_by (Call_putchar char_ascii) = Sys_putchar"
| "served_by Call_clear = Cls_screen"
| "served_by (Call_getcwd buf sz) = Sys_getcwd"
| "served_by (Call_open pathname flag) = Sys_open"
| "served_by (Call_close fd) = Sys_close"
| "served_by (Call_lseek fd offset whence) = Sys_lseek"
| "served_by (Call_unlink pathname) = Sys_unlink"
| "served_by (Call_mkdir pathname) = Sys_mkdir"
| "served_by (Call_opendir name) = Sys_opendir"
| "served_by (Call_closedir dir) = Sys_closedir"
| "served_by (Call_rmdir pathname) = Sys_rmdir"
| "served_by (Call_readdir dir) = Sys_readdir"
| "served_by (Call_rewinddir dir) = Sys_rewinddir"
| "served_by (Call_stat path buf) = Sys_stat"
| "served_by (Call_chdir path) = Sys_chdir"
| "served_by Call_ps = Sys_ps"
| "served_by (Call_execv pathname argv) = Sys_execv"
| "served_by (Call_exit status) = Sys_exit"
| "served_by (Call_wait status) = Sys_wait"
| "served_by (Call_pipe pipefd) = Sys_pipe"
| "served_by (Call_dup2 fd1 fd2) = Sys_dup2"

fun call_args :: "user_call \<Rightarrow> u32 list" where
  "call_args Call_getpid = []"
| "call_args (Call_write fd buf count) = [fd, buf, count]"
| "call_args (Call_malloc sz) = [sz]"
| "call_args (Call_free ptr) = [ptr]"
| "call_args Call_fork = []"
| "call_args (Call_read fd buf count) = [fd, buf, count]"
| "call_args (Call_putchar char_ascii) = [char_ascii]"
| "call_args Call_clear = []"
| "call_args (Call_getcwd buf sz) = [buf, sz]"
| "call_args (Call_open pathname flag) = [pathname, flag]"
| "call_args (Call_close fd) = [fd]"
| "call_args (Call_lseek fd offset whence) = [fd, offset, whence]"
| "call_args (Call_unlink pathname) = [pathname]"
| "call_args (Call_mkdir pathname) = [pathname]"
| "call_args (Call_opendir name) = [name]"
| "call_args (Call_closedir dir) = [dir]"
| "call_args (Call_rmdir pathname) = [pathname]"
| "call_args (Call_readdir dir) = [dir]"
| "call_args (Call_rewinddir dir) = [dir]"
| "call_args (Call_stat path buf) = [path, buf]"
| "call_args (Call_chdir path) = [path]"
| "call_args Call_ps = []"
| "call_args (Call_execv pathname argv) = [pathname, argv]"
| "call_args (Call_exit status) = [status]"
| "call_args (Call_wait status) = [status]"
| "call_args (Call_pipe pipefd) = [pipefd]"
| "call_args (Call_dup2 fd1 fd2) = [fd1, fd2]"

lemmas call_defs = syscall0_def syscall1_def syscall2_def syscall3_def getpid_def write_call_def malloc_def free_def fork_def read_def putchar_def clear_def getcwd_def open_call_def close_def lseek_def unlink_def mkdir_def opendir_def closedir_def rmdir_def readdir_def rewinddir_def stat_call_def chdir_def ps_def execv_def exit_call_def wait_def pipe_def dup2_def

text \<open>The number that a call passes.\<close>

fun call_nr :: "user_call \<Rightarrow> syscall_nr" where
  "call_nr Call_getpid = SYS_GETPID"
| "call_nr (Call_write fd buf count) = SYS_WRITE"
| "call_nr (Call_malloc sz) = SYS_MALLOC"
| "call_nr (Call_free ptr) = SYS_FREE"
| "call_nr Call_fork = SYS_FORK"
| "call_nr (Call_read fd buf count) = SYS_READ"
| "call_nr (Call_putchar char_ascii) = SYS_PUTCHAR"
| "call_nr Call_clear = SYS_CLEAR"
| "call_nr (Call_getcwd buf sz) = SYS_GETCWD"
| "call_nr (Call_open pathname flag) = SYS_OPEN"
| "call_nr (Call_close fd) = SYS_CLOSE"
| "call_nr (Call_lseek fd offset whence) = SYS_LSEEK"
| "call_nr (Call_unlink pathname) = SYS_UNLINK"
| "call_nr (Call_mkdir pathname) = SYS_MKDIR"
| "call_nr (Call_opendir name) = SYS_OPENDIR"
| "call_nr (Call_closedir dir) = SYS_CLOSEDIR"
| "call_nr (Call_rmdir pathname) = SYS_RMDIR"
| "call_nr (Call_readdir dir) = SYS_READDIR"
| "call_nr (Call_rewinddir dir) = SYS_REWINDDIR"
| "call_nr (Call_stat path buf) = SYS_STAT"
| "call_nr (Call_chdir path) = SYS_CHDIR"
| "call_nr Call_ps = SYS_PS"
| "call_nr (Call_execv pathname argv) = SYS_EXECV"
| "call_nr (Call_exit status) = SYS_EXIT"
| "call_nr (Call_wait status) = SYS_WAIT"
| "call_nr (Call_pipe pipefd) = SYS_PIPE"
| "call_nr (Call_dup2 fd1 fd2) = SYS_DUP2"

fun handler_at :: "syscall_nr \<Rightarrow> handler" where
  "handler_at SYS_GETPID = Sys_getpid"
| "handler_at SYS_WRITE = Sys_write"
| "handler_at SYS_MALLOC = Sys_malloc"
| "handler_at SYS_FREE = Sys_free"
| "handler_at SYS_FORK = Sys_fork"
| "handler_at SYS_READ = Sys_read"
| "handler_at SYS_PUTCHAR = Sys_putchar"
| "handler_at SYS_CLEAR = Cls_screen"
| "handler_at SYS_GETCWD = Sys_getcwd"
| "handler_at SYS_OPEN = Sys_open"
| "handler_at SYS_CLOSE = Sys_close"
| "handler_at SYS_LSEEK = Sys_lseek"
| "handler_at SYS_UNLINK = Sys_unlink"
| "handler_at SYS_MKDIR = Sys_mkdir"
| "handler_at SYS_OPENDIR = Sys_opendir"
| "handler_at SYS_CLOSEDIR = Sys_closedir"
| "handler_at SYS_CHDIR = Sys_chdir"
| "handler_at SYS_RMDIR = Sys_rmdir"
| "handler_at SYS_READDIR = Sys_readdir"
| "handler_at SYS_REWINDDIR = Sys_rewinddir"
| "handler_at SYS_STAT = Sys_stat"
| "handler_at SYS_PS = Sys_ps"
| "handler_at SYS_EXECV = Sys_execv"
| "handler_at SYS_EXIT = Sys_exit"
| "handler_at SYS_WAIT = Sys_wait"
| "handler_at SYS_PIPE = Sys_pipe"
| "handler_at SYS_DUP2 = Sys_dup2"

lemma syscall_table_entry:
  assumes "length tab = table_size"
  shows "length (syscall_init tab) = 32" "syscall_init tab ! unat (nr_of n) = Some (handler_at n)" "unat (nr_of n) < 32"
  using assms by (cases n; simp add: syscall_init_def set_entry_def table_size_def nth_list_update)+

lemma issue_number: "eax (issue c r) = nr_of (call_nr c)" "served_by c = handler_at (call_nr c)"
  by (cases c; simp add: call_defs)+

lemma issue_args: "take (length (call_args c)) [ebx (issue c r), ecx (issue c r), edx (issue c r)] = call_args c"
  by (cases c) (simp_all add: call_defs)

text \<open>Property C14: every call of a program reaches the kernel's function that serves it, through the number in the register and
  the table, and that function finds the arguments of the call first among its own, in order.\<close>

theorem syscall_reaches_handler:
  assumes "length tab = table_size"
  shows "\<exists>args. syscall_handler (syscall_init tab) (issue c r) = Some (served_by c, args) \<and>
    take (length (call_args c)) args = call_args c"
  using syscall_table_entry(1) [OF assms] syscall_table_entry(2,3) [OF assms, of "call_nr c"] issue_args [of c r]
  by (simp add: syscall_handler_def issue_number)

theorem syscall_reaches_handler_witness:
  "\<exists>args. syscall_handler (syscall_init (replicate 32 None)) (issue (Call_write 1 0x8049000 12) \<lparr>eax = 0, ebx = 0, ecx = 0, edx = 0\<rparr>) = Some (Sys_write, args) \<and>
    take 3 args = [1, 0x8049000, 12]"
  using syscall_reaches_handler [of "replicate 32 None" "Call_write 1 0x8049000 12" "\<lparr>eax = 0, ebx = 0, ecx = 0, edx = 0\<rparr>"]
  by (simp add: table_size_def numeral_3_eq_3)

text \<open>Remark: a number from 27 on reaches no function: the entries behind are never set, and a number of 32 or more is behind
  the table.\<close>

theorem syscall_unknown_number:
  assumes "27 \<le> unat (eax r)"
  shows "syscall_handler (syscall_init (replicate table_size None)) r = None"
proof -
  let ?tab = "syscall_init (replicate 32 None)"
  have "?tab ! n = None" if "27 \<le> n" "n < 32" for n
  proof -
    have "n = 27 \<or> n = 28 \<or> n = 29 \<or> n = 30 \<or> n = 31" using that by auto
    then show ?thesis by (auto simp: syscall_init_def set_entry_def)
  qed
  moreover have "length ?tab = 32" using syscall_table_entry(1) [of "replicate 32 None"] by (simp add: table_size_def)
  ultimately show ?thesis using assms by (simp add: syscall_handler_def table_size_def)
qed

theorem syscall_unknown_number_witness:
  "syscall_handler (syscall_init (replicate table_size None)) \<lparr>eax = 27, ebx = 0, ecx = 0, edx = 0\<rparr> = None"
  by (rule syscall_unknown_number) simp

end
