(* ===== verification/Spec2Isabelle.thy ===== *)
theory Spec2Isabelle
  imports Kstring Kbitmap Kinterrupt Klist Kpaging Kthread Ksync Kioqueue Kkeyboard Kmemory Kpipe Kstdio Kshell
    Kproc Kwait Kfork Kprocsys Kexec Kexception Kcmd Ksyscall
begin

text \<open>
  A verification of the x86 kernel under \<^verbatim>\<open>src/\<close>: a 32-bit kernel in C with paging, preemptive threads, user
  processes, a disk driver, a file system of inodes and directories, pipes, and a shell.

  \<^bold>\<open>The program.\<close> \<^verbatim>\<open>init_all\<close> sets the components up and lets interrupts in. The timer interrupt
  (\<^verbatim>\<open>dev/timer.c\<close>) calls \<^verbatim>\<open>schedule\<close> (\<^verbatim>\<open>thread/thread.c\<close>) when a time slice ends. Semaphores and locks
  (\<^verbatim>\<open>thread/sync.c\<close>) block and wake threads; the page pools and the heap (\<^verbatim>\<open>kern/memory.c\<close>), the disk channels
  (\<^verbatim>\<open>dev/ide.c\<close>), the console (\<^verbatim>\<open>dev/console.c\<close>) and the ring buffers (\<^verbatim>\<open>dev/ioqueue.c\<close>) are guarded by them.
  The keyboard handler fills a ring buffer that \<^verbatim>\<open>sys_read\<close> empties; a pipe is a ring buffer in a kernel page.
  The file system (\<^verbatim>\<open>fs/\<close>) keeps inodes, directories and files of one mounted partition on the disk driver.
  Processes are made by \<^verbatim>\<open>process_execute\<close> and \<^verbatim>\<open>sys_fork\<close>, replaced by \<^verbatim>\<open>sys_execv\<close>, and end by \<^verbatim>\<open>sys_exit\<close> and
  \<^verbatim>\<open>sys_wait\<close> (\<^verbatim>\<open>userproc/\<close>). Programs reach all this through \<^verbatim>\<open>lib/user/syscall.c\<close> and the table of
  \<^verbatim>\<open>userproc/syscall_init.c\<close>; the shell (\<^verbatim>\<open>shell/\<close>) is such a program.

  \<^bold>\<open>The theories.\<close>
  \<^item> \<open>Kernel_Prelude\<close>: the C types as words, \<^verbatim>\<open>ASSERT\<close>, array accesses with their bounds, and general facts.
  \<^item> \<open>Kstring\<close> (\<^verbatim>\<open>lib/string.c\<close>), \<open>Kbitmap\<close> (\<^verbatim>\<open>lib/kern/bitmap.c\<close>), \<open>Klist\<close> (\<^verbatim>\<open>lib/kern/list.c\<close>), \<open>Kstdio\<close>
    (\<^verbatim>\<open>lib/stdio.c\<close>), \<open>Kbytes\<close> (the layout of structures in buffers).
  \<^item> \<open>Kinterrupt\<close>, \<open>Kexception\<close> (\<^verbatim>\<open>kern/interrupt.c\<close>, \<^verbatim>\<open>userproc/tss.c\<close>, \<^verbatim>\<open>dev/console.c\<close>,
    \<^verbatim>\<open>lib/kern/stdio_kern.c\<close>).
  \<^item> \<open>Kthread\<close> (the scheduler, \<^verbatim>\<open>dev/timer.c\<close>), \<open>Ksync\<close> (\<^verbatim>\<open>thread/sync.c\<close>), \<open>Kioqueue\<close> (\<^verbatim>\<open>dev/ioqueue.c\<close>),
    \<open>Kkeyboard\<close> (\<^verbatim>\<open>dev/keyboard.c\<close>).
  \<^item> \<open>Kpaging\<close>, \<open>Kmemory\<close> (\<^verbatim>\<open>kern/memory.c\<close>).
  \<^item> \<open>Kide\<close> (\<^verbatim>\<open>dev/ide.c\<close>), \<open>Kinode\<close> (\<^verbatim>\<open>fs/inode.c\<close>), \<open>Kdir\<close> (\<^verbatim>\<open>fs/dir.c\<close>), \<open>Kfile\<close> and \<open>Kfile_rw\<close>
    (\<^verbatim>\<open>fs/file.c\<close>), \<open>Kpath\<close>, \<open>Kformat\<close> and \<open>Ksysfs\<close> (\<^verbatim>\<open>fs/fs.c\<close>), \<open>Kpipe\<close> (\<^verbatim>\<open>shell/pipe.c\<close>).
  \<^item> \<open>Kproc\<close> (threads and processes), \<open>Kwait\<close> (\<^verbatim>\<open>userproc/wait_exit.c\<close>), \<open>Kfork\<close> (\<^verbatim>\<open>userproc/fork.c\<close>), \<open>Kexec\<close>
    (\<^verbatim>\<open>userproc/exec.c\<close>), \<open>Kprocsys\<close> (these as one system of steps), \<open>Ksyscall\<close>.
  \<^item> \<open>Kshell\<close> and \<open>Kcmd\<close> (\<^verbatim>\<open>shell/shell.c\<close>, \<^verbatim>\<open>shell/buildin_cmd.c\<close>).

  \<^bold>\<open>State.\<close> Records extend each other as the components use each other: \<open>mmu\<close> (\<open>cr3\<close> and physical memory),
  \<open>sched\<close> (control blocks by address, the queues, the running thread), \<open>kmem\<close> (pools and heap), \<open>procs\<close> (pids, stacks);
  and beside them \<open>ide\<close>, \<open>fsys\<close> (the mounted partition, inodes, open files), \<open>kio\<close> (ring buffers, screen) and
  \<open>shell\<close>. Operations are polymorphic in the extension, so that a component's theorems hold in every larger
  state. The table \<^verbatim>\<open>fd_table\<close> of the running process is a field of \<open>fsys\<close>.

  \<^bold>\<open>Results.\<close> An operation is a function to \<open>option\<close>. \<open>None\<close> is a call that never returns: a failed \<^verbatim>\<open>ASSERT\<close>, an
  access outside an array or through an unmapped address, an endless loop. Error codes are values as in the source. A
  call that suspends its caller is given up to the switch, with what the caller does when it runs again as an
  operation of its own. Recursion that the source bounds is \<^theory_text>\<open>fun\<close> or \<^theory_text>\<open>function\<close> with its termination proof.
  Loops that may run for ever (over a string without end, over a list that is no list) are
  \<^theory_text>\<open>partial_function (option)\<close>. The only fuel is that of the partition scan, one unit for each nested extended
  partition; its theorems are for scans that end within it.

  \<^bold>\<open>Interfaces.\<close> \<open>bit_pool\<close> (a pool of numbers with allocation and release) is interpreted on the bitmaps, the
  page pools and the pids. \<open>kernel_list\<close> and \<open>kernel_lists\<close> (sequences in link fields) are interpreted on \<^verbatim>\<open>list.c\<close>; they
  are what allows the other components to use HOL lists for queues. \<open>bounded_queue\<close> is interpreted on the ring
  buffer and \<open>block_device\<close> on the disk driver.

  \<^bold>\<open>What is shown.\<close>
  \<^item> Processes: in every order of creation, fork, wait, exit, blocking, waking and time slices the process table
    stays well formed, and a parent that waits is woken and finds exactly the child that leaves.
  \<^item> Concurrency: threads that share a lock exclude each other, no assertion fails and no wake-up is lost; the
    scheduler is a round robin; the keyboard handler always returns; device interrupts reach their handlers.
  \<^item> Memory: the self-map gives the entries that the MMU uses, mapping and unmapping change one table entry, frames are
    handed out once, blocks of the heap do not overlap and allocation and release are inverse.
  \<^item> Storage: transfers of any length move exactly the addressed sectors; a formatted partition can be mounted;
    directories are maps from names to entries; writes append to files and reads return the contents.
  \<^item> Text: paths, command lines, edited lines, numbers and formats agree with reference definitions.
  \<^item> System calls reach the function that serves them with their arguments.
  Some theorems state behaviour that the source does not intend, such as the file of maximal size that fails an
  assertion, or the pipe that blocks on its last free byte.

  \<^bold>\<open>Left out.\<close> The boot loader, the drawing of characters (\<^verbatim>\<open>print.S\<close>), the switch of stacks (\<^verbatim>\<open>switch.S\<close>) and the
  interrupt entries are assembly; the switch is the change of the running thread. \<^verbatim>\<open>main\<close> and \<^verbatim>\<open>init_all\<close> call
  initialisations that are modelled one by one. Control blocks are read without a page walk, and the TLB, with \<^verbatim>\<open>invlpg\<close>, is not
  modelled. The drives are idealised: one interrupt per command. Progress and error messages of the kernel are left out of the file system and memory components.
  What the file system needs of \<^verbatim>\<open>sys_malloc\<close> is a sequence of addresses, given with its state.
\<close>

end
